(* ===== verification/Taktus_Prelude.thy ===== *)
theory Taktus_Prelude
  imports Main "HOL-Library.AList" "HOL-Library.Char_ord" "HOL-Library.List_Lexorder"
    "HOL-Library.Product_Lexorder"
begin

text \<open>
  Shared vocabulary of the development: the types every component uses, what the models need of
  Python's standard library (decimal text of an integer, the first element a generator yields,
  the last element of a sequence), and generic list lemmas.

  Conventions. A Python \<open>str\<close> is the list of the bytes of its UTF-8 encoding: byte order is
  code point order, so sorting agrees. A Python \<open>int\<close> is an \<open>int\<close>. A \<open>datetime\<close> is an
  \<open>int\<close> number of microseconds since a fixed moment, a \<open>timedelta\<close> a number of
  microseconds. An exception is the left of a sum.
\<close>

named_theorems taktus_simps "unfoldings the component proofs share"

type_synonym moment = int
type_synonym span = int

subsection \<open>Decimal text\<close>

fun show_nat :: "nat \<Rightarrow> string" where
  "show_nat n = (if n < 10 then [char_of (48 + n)] else show_nat (n div 10) @ [char_of (48 + n mod 10)])"

declare show_nat.simps [simp del]

definition show_int :: "int \<Rightarrow> string" where
  "show_int i = (if i < 0 then CHR ''-'' # show_nat (nat (- i)) else show_nat (nat i))"

definition is_digit :: "char \<Rightarrow> bool" where
  "is_digit c \<longleftrightarrow> 48 \<le> (of_char c :: nat) \<and> (of_char c :: nat) \<le> 57"

lemma is_digit_char_of [simp]: "n < 10 \<Longrightarrow> is_digit (char_of (48 + n))" for n :: nat
  by (simp add: is_digit_def of_char_of)

lemma show_nat_digits: "c \<in> set (show_nat n) \<Longrightarrow> is_digit c"
proof (induction n rule: show_nat.induct)
  case (1 n)
  show ?case
  proof (cases "n < 10")
    case True
    with "1.prems" show ?thesis by (simp add: show_nat.simps [of n])
  next
    case False
    with "1.prems" have "c \<in> set (show_nat (n div 10)) \<or> c = char_of (48 + n mod 10 :: nat)"
      by (auto simp: show_nat.simps [of n])
    then show ?thesis using "1.IH" [OF False] by auto
  qed
qed

lemma show_nat_not_Nil [simp]: "show_nat n \<noteq> []"
  by (simp add: show_nat.simps [of n])

fun read_nat :: "nat \<Rightarrow> string \<Rightarrow> nat" where
  "read_nat acc [] = acc"
| "read_nat acc (c # cs) = read_nat (10 * acc + (of_char c - 48)) cs"

lemma read_nat_append: "read_nat a (xs @ ys) = read_nat (read_nat a xs) ys"
  by (induction a xs rule: read_nat.induct) auto

lemma read_show_nat: "read_nat 0 (show_nat n) = n"
proof (induction n rule: show_nat.induct)
  case (1 n)
  show ?case
  proof (cases "n < 10")
    case True
    then show ?thesis by (simp add: show_nat.simps [of n] of_char_of)
  next
    case False
    with "1.IH" show ?thesis
      by (simp add: show_nat.simps [of n] read_nat_append of_char_of)
  qed
qed

lemma show_nat_inject [simp]: "show_nat m = show_nat n \<longleftrightarrow> m = n"
  by (metis read_show_nat)

lemma show_nat_hd_digit: "show_nat n = c # cs \<Longrightarrow> is_digit c"
  using show_nat_digits by (metis list.set_intros(1))

lemma minus_not_digit [simp]: "\<not> is_digit (CHR ''-'')"
  by (simp add: is_digit_def)

lemma show_int_inject [simp]: "show_int i = show_int j \<longleftrightarrow> i = j"
proof
  assume eq: "show_int i = show_int j"
  have neg: "\<And>n cs. show_nat n \<noteq> CHR ''-'' # cs"
    using show_nat_hd_digit minus_not_digit by blast
  show "i = j"
    using eq neg [of "nat i"] neg [of "nat j"]
    by (auto simp: show_int_def dest!: sym [of "CHR ''-'' # _"] split: if_splits)
qed simp

subsection \<open>Sequences\<close>

text \<open>\<open>next((x for x in xs if p(x)), None)\<close> is \<open>List.find\<close>; \<open>xs[-1] if xs else None\<close>:\<close>

definition last_of :: "'a list \<Rightarrow> 'a option" where
  "last_of xs = (if xs = [] then None else Some (last xs))"

lemma last_of_Nil [simp]: "last_of [] = None"
  by (simp add: last_of_def)

lemma last_of_snoc [simp]: "last_of (xs @ [x]) = Some x"
  by (simp add: last_of_def)

lemma last_of_Cons: "last_of (x # xs) = Some (if xs = [] then x else last xs)"
  by (simp add: last_of_def)

lemma last_of_eq_None [simp]: "last_of xs = None \<longleftrightarrow> xs = []"
  by (simp add: last_of_def)

lemma last_of_SomeD: "last_of xs = Some x \<Longrightarrow> x \<in> set xs \<and> xs = butlast xs @ [x]"
  by (auto simp: last_of_def split: if_splits)

lemma find_SomeD: "List.find p xs = Some x \<Longrightarrow> x \<in> set xs \<and> p x"
  by (auto simp: find_Some_iff)

lemma sum_list_filter_split:
  "sum_list (map f (filter p xs)) + sum_list (map f (filter (\<lambda>x. \<not> p x) xs)) = sum_list (map f xs)"
  for f :: "'a \<Rightarrow> 'b::comm_monoid_add"
  by (induction xs) (auto simp: ac_simps)

end
