(* ===== verification/Json_Canonical.thy ===== *)
theory Json_Canonical
  imports Taktus_Prelude
begin

text \<open>
  The canonical form of a JSON document: what \<open>json.dumps(document, sort_keys=True,
  separators=(",", ":"), ensure_ascii=False).encode("utf-8")\<close> writes, as the ledger's
  \<open>canonical\<close> uses it (\<open>ledger/domain/model/chain.py\<close>). The main result is that the form
  determines the document up to the order of its keys (\<open>dumps_inject\<close>), so that a digest of
  the form is a digest of the content.

  A float is carried as the text \<open>float.__repr__\<close> gives it. A dict is the list of its items
  in insertion order.
\<close>

datatype json =
    JNull
  | JBool bool
  | JInt int
  | JFloat string
  | JStr string
  | JList "json list"
  | JObj "(string \<times> json) list"

subsection \<open>Strings\<close>

abbreviation bslash :: char where "bslash \<equiv> CHR 0x5C"
abbreviation dquote :: char where "dquote \<equiv> CHR 0x22"

definition hexd :: "nat \<Rightarrow> char" where
  "hexd n = (if n < 10 then char_of (48 + n) else char_of (87 + n))"

text \<open>\<open>py_encode_basestring\<close>: quotes, backslashes and control characters are escaped, every
  other byte stands for itself.\<close>

definition esc :: "char \<Rightarrow> string" where
  "esc c =
    (let n = (of_char c :: nat) in
     if n = 34 then [bslash, dquote]
     else if n = 92 then [bslash, bslash]
     else if n = 8 then [bslash, CHR ''b'']
     else if n = 12 then [bslash, CHR ''f'']
     else if n = 10 then [bslash, CHR ''n'']
     else if n = 13 then [bslash, CHR ''r'']
     else if n = 9 then [bslash, CHR ''t'']
     else if n < 32 then [bslash, CHR ''u'', CHR ''0'', CHR ''0'', hexd (n div 16), hexd (n mod 16)]
     else [c])"

definition quoted :: "string \<Rightarrow> string" where
  "quoted s = dquote # concat (map esc s) @ [dquote]"

subsection \<open>Values\<close>

fun join :: "string \<Rightarrow> string list \<Rightarrow> string" where
  "join sep [] = []"
| "join sep [x] = x"
| "join sep (x # y # ys) = x @ sep @ join sep (y # ys)"

definition member_text :: "string \<times> string \<Rightarrow> string" where
  "member_text = (\<lambda>(k, t). quoted k @ '':'' @ t)"

primrec dumps :: "json \<Rightarrow> string" where
  "dumps JNull = ''null''"
| "dumps (JBool b) = (if b then ''true'' else ''false'')"
| "dumps (JInt i) = show_int i"
| "dumps (JFloat s) = s"
| "dumps (JStr s) = quoted s"
| "dumps (JList js) = ''['' @ join '','' (map dumps js) @ '']''"
| "dumps (JObj kvs) =
     ''{'' @ join '','' (map member_text (sort_key fst (map (map_prod id dumps) kvs))) @ ''}''"

text \<open>\<open>canonical\<close>: the bytes that are hashed, the key \<open>hash\<close> left out.\<close>

definition canonical :: "(string \<times> json) list \<Rightarrow> string" where
  "canonical document = dumps (JObj (filter (\<lambda>(k, _). k \<noteq> ''hash'') document))"

subsection \<open>Documents up to the order of their keys\<close>

primrec normal :: "json \<Rightarrow> json" where
  "normal JNull = JNull"
| "normal (JBool b) = JBool b"
| "normal (JInt i) = JInt i"
| "normal (JFloat s) = JFloat s"
| "normal (JStr s) = JStr s"
| "normal (JList js) = JList (map normal js)"
| "normal (JObj kvs) = JObj (sort_key fst (map (map_prod id normal) kvs))"

definition num_char :: "char \<Rightarrow> bool" where
  "num_char c \<longleftrightarrow> is_digit c \<or> c \<in> {CHR ''-'', CHR ''+'', CHR ''.'', CHR ''e''}"

text \<open>What \<open>float.__repr__\<close> gives for a finite float: never the text of an integer.\<close>

definition float_literal :: "string \<Rightarrow> bool" where
  "float_literal s \<longleftrightarrow>
     s \<noteq> [] \<and> (\<forall>c \<in> set s. num_char c) \<and> (CHR ''.'' \<in> set s \<or> CHR ''e'' \<in> set s)"

primrec floats_ok :: "json \<Rightarrow> bool" where
  "floats_ok JNull = True"
| "floats_ok (JBool b) = True"
| "floats_ok (JInt i) = True"
| "floats_ok (JFloat s) = float_literal s"
| "floats_ok (JStr s) = True"
| "floats_ok (JList js) = list_all floats_ok js"
| "floats_ok (JObj kvs) = list_all (pred_prod (\<lambda>_. True) floats_ok) kvs"

subsection \<open>A string ends where its closing quote stands\<close>

definition hexv :: "char \<Rightarrow> nat" where
  "hexv c = (let n = (of_char c :: nat) in if n < 58 then n - 48 else n - 87)"

lemma hexv_hexd: "n < 16 \<Longrightarrow> hexv (hexd n) = n"
  by (simp add: hexv_def hexd_def of_char_of Let_def)

lemma hexd_inject: "m < 16 \<Longrightarrow> n < 16 \<Longrightarrow> hexd m = hexd n \<Longrightarrow> m = n"
  by (metis hexv_hexd)

lemma of_char_inject_nat: "(of_char c :: nat) = of_char d \<Longrightarrow> c = d"
  by simp

text \<open>The inverse of \<open>esc\<close>, as a scanner reads it: the character and the rest.\<close>

definition unesc :: "string \<Rightarrow> char \<times> string" where
  "unesc s =
    (if hd s \<noteq> bslash then (hd s, tl s)
     else let k = s ! 1; r = drop 2 s in
       if k = CHR ''b'' then (CHR 0x08, r)
       else if k = CHR ''f'' then (CHR 0x0C, r)
       else if k = CHR ''n'' then (CHR 0x0A, r)
       else if k = CHR ''r'' then (CHR 0x0D, r)
       else if k = CHR ''t'' then (CHR 0x09, r)
       else if k = CHR ''u'' then (char_of (16 * hexv (s ! 4) + hexv (s ! 5)), drop 6 s)
       else (k, r))"

lemma char_code: "(of_char c :: nat) = n \<Longrightarrow> c = char_of n"
  by auto

lemma unesc_short:
  assumes "c \<in> {dquote, bslash, CHR 0x08, CHR 0x0C, CHR 0x0A, CHR 0x0D, CHR 0x09}"
  shows "unesc (esc c @ x) = (c, x)"
  using assms
  by (elim insertE emptyE) (simp_all add: unesc_def esc_def)

lemma code_short:
  assumes "(of_char c :: nat) \<in> {34, 92, 8, 12, 10, 13, 9}"
  shows "c \<in> {dquote, bslash, CHR 0x08, CHR 0x0C, CHR 0x0A, CHR 0x0D, CHR 0x09}"
proof -
  have "(of_char c :: nat) \<in>
      of_char ` {dquote, bslash, CHR 0x08, CHR 0x0C, CHR 0x0A, CHR 0x0D, CHR 0x09}"
    using assms by simp
  then show ?thesis
    by (simp only: inj_image_mem_iff [OF inj_of_char])
qed

lemma unesc_esc: "unesc (esc c @ x) = (c, x)"
proof -
  have plain: "(of_char c :: nat) \<noteq> 92 \<Longrightarrow> c \<noteq> bslash"
    by auto
  have hex: "16 * hexv (hexd (m div 16)) + hexv (hexd (m mod 16)) = m" if "m < 32" for m :: nat
    using that by (simp add: hexv_hexd)
  define n where "n = (of_char c :: nat)"
  have c: "c = char_of n"
    by (simp add: n_def)
  consider "n \<in> {34, 92, 8, 12, 10, 13, 9}" | "n < 32" "n \<notin> {8, 9, 10, 12, 13}"
    | "\<not> n < 32" "n \<noteq> 34" "n \<noteq> 92"
    by auto
  then show ?thesis
  proof cases
    case 1
    then show ?thesis
      unfolding n_def by (intro unesc_short code_short)
  next
    case 2
    then have "esc c = [bslash, CHR ''u'', CHR ''0'', CHR ''0'', hexd (n div 16), hexd (n mod 16)]"
      by (simp add: esc_def n_def [symmetric] Let_def)
    then have "unesc (esc c @ x) = (char_of (16 * hexv (hexd (n div 16)) + hexv (hexd (n mod 16))), x)"
      by (simp add: unesc_def Let_def)
    then show ?thesis using hex [OF 2(1)] c by simp
  next
    case 3
    then have "esc c = [c]"
      by (simp add: esc_def n_def [symmetric] Let_def)
    moreover have "c \<noteq> bslash" using 3 plain by (simp add: n_def)
    ultimately show ?thesis by (simp add: unesc_def)
  qed
qed

lemma esc_prefix: "esc c @ x = esc d @ y \<Longrightarrow> c = d \<and> x = y"
  by (metis unesc_esc prod.inject)

lemma esc_not_quote: "esc c @ x \<noteq> dquote # y"
  by (auto simp: esc_def Let_def split: if_splits)

lemma escaped_prefix:
  "concat (map esc s) @ dquote # x = concat (map esc t) @ dquote # y \<Longrightarrow> s = t \<and> x = y"
proof (induction s arbitrary: t)
  case Nil
  then show ?case
    by (cases t) (auto simp: esc_not_quote dest: sym [THEN esc_not_quote [THEN notE]])
next
  case (Cons c s)
  show ?case
  proof (cases t)
    case Nil
    with Cons.prems show ?thesis by (simp add: esc_not_quote)
  next
    case (Cons d t')
    with Cons.prems have "esc c @ concat (map esc s) @ dquote # x
        = esc d @ concat (map esc t') @ dquote # y"
      by simp
    from esc_prefix [OF this] Cons.IH Cons show ?thesis by auto
  qed
qed

lemma quoted_prefix: "quoted s @ x = quoted t @ y \<Longrightarrow> s = t \<and> x = y"
  using escaped_prefix [of s x t y] by (simp add: quoted_def)

subsection \<open>A value ends where the next delimiter stands\<close>

text \<open>The same printer without the sort: \<open>dumps\<close> is it after the keys are put in order.\<close>

primrec dump :: "json \<Rightarrow> string" where
  "dump JNull = ''null''"
| "dump (JBool b) = (if b then ''true'' else ''false'')"
| "dump (JInt i) = show_int i"
| "dump (JFloat s) = s"
| "dump (JStr s) = quoted s"
| "dump (JList js) = ''['' @ join '','' (map dump js) @ '']''"
| "dump (JObj kvs) = ''{'' @ join '','' (map member_text (map (map_prod id dump) kvs)) @ ''}''"

lemma insort_key_map: "map g (insort_key (f \<circ> g) x xs) = insort_key f (g x) (map g xs)"
  by (induction xs) auto

lemma sort_key_map: "sort_key f (map g xs) = map g (sort_key (f \<circ> g) xs)"
  by (induction xs) (simp_all add: insort_key_map del: o_apply)

lemma fst_map_prod_id: "fst \<circ> map_prod id g = fst"
  by auto

lemma dumps_normal: "dumps j = dump (normal j)"
proof (induction j)
  case (JList js)
  then have "map dumps js = map dump (map normal js)"
    by simp
  then show ?case by (simp only: dumps.simps dump.simps normal.simps)
next
  case (JObj kvs)
  then have "map (map_prod id dumps) kvs = map (map_prod id dump) (map (map_prod id normal) kvs)"
    by (auto simp: snds.simps)
  then have "sort_key fst (map (map_prod id dumps) kvs)
      = map (map_prod id dump) (sort_key fst (map (map_prod id normal) kvs))"
    by (simp only: sort_key_map fst_map_prod_id)
  then show ?case by simp
qed auto

lemma floats_ok_normal: "floats_ok j \<Longrightarrow> floats_ok (normal j)"
proof (induction j)
  case (JObj kvs)
  then show ?case
    by (fastforce simp: list_all_iff pred_prod_beta map_prod_def snds.simps)
qed (auto simp: list_all_iff)

definition ends :: "string \<Rightarrow> bool" where
  "ends x \<longleftrightarrow> x = [] \<or> hd x \<in> {CHR '','', CHR '']'', CHR ''}''}"

lemma ends_Cons [simp]: "ends (c # x) \<longleftrightarrow> c \<in> {CHR '','', CHR '']'', CHR ''}''}"
  by (simp add: ends_def)

lemma not_num_char [simp]:
  "\<not> num_char (CHR '','')" "\<not> num_char (CHR '']'')" "\<not> num_char (CHR ''}'')"
  "\<not> num_char (CHR ''['')" "\<not> num_char (CHR ''{'')" "\<not> num_char dquote"
  "\<not> num_char (CHR ''n'')" "\<not> num_char (CHR ''t'')" "\<not> num_char (CHR ''f'')"
  by (auto simp: num_char_def is_digit_def)

lemma number_prefix:
  assumes "list_all num_char s" "list_all num_char t" "ends x" "ends y" "s @ x = t @ y"
  shows "s = t \<and> x = y"
proof -
  have stop: "takeWhile num_char (u @ z) = u" if "list_all num_char u" "ends z" for u z
    using that by (cases z) (auto simp: list_all_iff takeWhile_append ends_def)
  have "s = t" using stop [of s x] stop [of t y] assms by metis
  with assms(5) show ?thesis by simp
qed

lemma show_int_num: "list_all num_char (show_int i)"
  by (auto simp: show_int_def list_all_iff num_char_def dest: show_nat_digits)

lemma show_int_not_float: "\<not> float_literal (show_int i)"
proof -
  have "CHR ''.'' \<notin> set (show_int i)" "CHR ''e'' \<notin> set (show_int i)"
    by (auto simp: show_int_def is_digit_def dest!: show_nat_digits)
  then show ?thesis by (simp add: float_literal_def)
qed

lemma float_num: "float_literal s \<Longrightarrow> list_all num_char s"
  by (simp add: float_literal_def list_all_iff)

lemma number_head: "list_all num_char s \<Longrightarrow> s \<noteq> [] \<Longrightarrow> \<not> num_char c \<Longrightarrow> s @ x \<noteq> c # y"
  by (cases s) auto

lemma show_int_not_Nil [simp]: "show_int i \<noteq> []"
  by (simp add: show_int_def)

text \<open>The first character of a value tells its constructor, but for the two kinds of number.\<close>

definition is_num :: "json \<Rightarrow> bool" where
  "is_num j \<longleftrightarrow> (case j of JInt _ \<Rightarrow> True | JFloat _ \<Rightarrow> True | _ \<Rightarrow> False)"

definition lead :: "json \<Rightarrow> char" where
  "lead j = (case j of JNull \<Rightarrow> CHR ''n'' | JBool b \<Rightarrow> (if b then CHR ''t'' else CHR ''f'')
     | JStr _ \<Rightarrow> dquote | JList _ \<Rightarrow> CHR ''['' | JObj _ \<Rightarrow> CHR ''{'' | _ \<Rightarrow> CHR ''0'')"

lemma num_dump: "is_num j \<Longrightarrow> floats_ok j \<Longrightarrow> list_all num_char (dump j) \<and> dump j \<noteq> []"
  by (cases j) (auto simp: is_num_def show_int_num float_num float_literal_def)

lemma lead_dump: "\<not> is_num j \<Longrightarrow> dump j = lead j # tl (dump j) \<and> \<not> num_char (lead j)"
  by (cases j) (auto simp: is_num_def lead_def quoted_def)

lemma dump_same_lead:
  assumes "floats_ok j" "floats_ok k" "dump j @ x = dump k @ y"
  shows "is_num j = is_num k" "\<not> is_num j \<Longrightarrow> lead j = lead k"
  using num_dump [of j] num_dump [of k] lead_dump [of j] lead_dump [of k] number_head assms
  by (metis append_Cons list.inject)+

lemma dump_head:
  assumes "floats_ok j" "c = CHR '']'' \<or> c = CHR ''}''"
  shows "dump j @ x \<noteq> c # y"
proof (cases "is_num j")
  case True
  with assms num_dump [of j] number_head [of "dump j" c] show ?thesis by auto
next
  case False
  then have "lead j \<noteq> c" using assms(2) by (cases j) (auto simp: lead_def is_num_def)
  with lead_dump [OF False] show ?thesis by (metis append_Cons list.inject)
qed

lemma join_Cons: "join sep (x # xs) @ r = x @ (if xs = [] then r else sep @ join sep xs @ r)"
  by (cases xs) auto

lemma join_prefix:
  assumes elem: "\<And>a b x y. a \<in> set xs \<Longrightarrow> P a \<Longrightarrow> P b \<Longrightarrow> ends x \<Longrightarrow> ends y \<Longrightarrow>
      f a @ x = f b @ y \<Longrightarrow> a = b \<and> x = y"
    and head: "\<And>a u v. P a \<Longrightarrow> f a @ u \<noteq> c # v"
    and c: "c = CHR '']'' \<or> c = CHR ''}''"
    and "list_all P xs" "list_all P ys"
    and "join '','' (map f xs) @ c # x = join '','' (map f ys) @ c # y"
  shows "xs = ys \<and> x = y"
  using assms
proof (induction xs arbitrary: ys)
  case Nil
  have "join '','' (map f ys) @ c # y \<noteq> c # x" if "ys \<noteq> []"
    using that Nil.prems(2,5) by (cases ys) (auto simp: join_Cons)
  with Nil.prems(6) show ?case by (cases "ys = []") auto
next
  case (Cons a xs)
  show ?case
  proof (cases ys)
    case Nil
    with Cons.prems(2) [of a] Cons.prems(4,6) show ?thesis
      by (auto simp: join_Cons)
  next
    case (Cons b ys')
    let ?r = "if xs = [] then c # x else '','' @ join '','' (map f xs) @ c # x"
    let ?r' = "if ys' = [] then c # y else '','' @ join '','' (map f ys') @ c # y"
    have "f a @ ?r = f b @ ?r'"
      using Cons.prems(6) Cons by (simp add: join_Cons)
    moreover have "ends ?r" "ends ?r'" using c by auto
    ultimately have "a = b" "?r = ?r'"
      using Cons.prems(1) [of a b ?r ?r'] Cons.prems(4,5) Cons by auto
    moreover have "xs = [] \<longleftrightarrow> ys' = []"
      using \<open>?r = ?r'\<close> c by (auto split: if_splits)
    moreover have "xs = ys' \<and> x = y" if "join '','' (map f xs) @ c # x = join '','' (map f ys') @ c # y"
      using Cons.IH [of ys'] Cons.prems Cons that by auto
    ultimately show ?thesis
      using Cons by (cases "xs = []") auto
  qed
qed

lemma dump_prefix:
  "floats_ok j \<Longrightarrow> floats_ok k \<Longrightarrow> ends x \<Longrightarrow> ends y \<Longrightarrow> dump j @ x = dump k @ y \<Longrightarrow>
    j = k \<and> x = y"
proof (induction j arbitrary: k x y)
  case (JInt i)
  from dump_same_lead(1) [OF JInt.prems(1,2,5)] have k: "is_num k" by (simp add: is_num_def)
  have "list_all num_char (dump k)" using num_dump [OF k JInt.prems(2)] by simp
  then have eq: "show_int i = dump k \<and> x = y"
    using number_prefix [OF show_int_num _ JInt.prems(3,4)] JInt.prems(5) by simp
  then have "k = JInt i"
    using k JInt.prems(2) show_int_not_float [of i] by (cases k) (simp_all add: is_num_def)
  with eq show ?case by simp
next
  case (JFloat s)
  from dump_same_lead(1) [OF JFloat.prems(1,2,5)] have k: "is_num k" by (simp add: is_num_def)
  have s: "list_all num_char s" "list_all num_char (dump k)"
    using num_dump [OF k JFloat.prems(2)] JFloat.prems(1) by (simp_all add: float_num)
  have eq: "s = dump k \<and> x = y"
    using number_prefix [OF s JFloat.prems(3,4)] JFloat.prems(5) by simp
  have "k = JFloat s"
  proof (cases k)
    case (JInt i)
    with eq JFloat.prems(1) show_int_not_float [of i] show ?thesis by simp
  qed (use k eq in \<open>simp_all add: is_num_def\<close>)
  with eq show ?case by simp
next
  case (JStr s)
  from dump_same_lead [OF JStr.prems(1,2,5)] obtain t where k: "k = JStr t"
    by (cases k) (auto simp: is_num_def lead_def split: if_splits)
  with JStr.prems(5) have "s = t \<and> x = y" by (intro quoted_prefix) simp
  with k show ?case by simp
next
  case (JList js)
  from dump_same_lead [OF JList.prems(1,2,5)] obtain ks where k: "k = JList ks"
    by (cases k) (auto simp: is_num_def lead_def split: if_splits)
  have "js = ks \<and> x = y"
    by (rule join_prefix [where P = floats_ok and f = dump and c = "CHR '']''"])
      (use JList k dump_head in auto)
  with k show ?case by simp
next
  case (JObj kvs)
  from dump_same_lead [OF JObj.prems(1,2,5)] obtain ks where k: "k = JObj ks"
    by (cases k) (auto simp: is_num_def lead_def split: if_splits)
  let ?P = "pred_prod (\<lambda>_. True) floats_ok"
  let ?f = "\<lambda>kv. member_text (map_prod id dump kv)"
  have "kvs = ks \<and> x = y"
  proof (rule join_prefix [where P = ?P and f = ?f and c = "CHR ''}''"])
    fix a b u v
    assume a: "a \<in> set kvs" "?P a" "?P b" "ends u" "ends v" and eq: "?f a @ u = ?f b @ v"
    obtain m p n q where ab: "a = (m, p)" "b = (n, q)" by (cases a, cases b)
    have "quoted m @ '':'' @ dump p @ u = quoted n @ '':'' @ dump q @ v"
      using eq ab by (simp add: member_text_def)
    then have "m = n \<and> '':'' @ dump p @ u = '':'' @ dump q @ v"
      by (rule quoted_prefix)
    then have "m = n" and pq: "dump p @ u = dump q @ v"
      by simp_all
    moreover have "p = q \<and> u = v"
      using JObj.IH [of a p q u v] a ab pq by (auto simp: snds.simps)
    ultimately show "a = b \<and> u = v" using ab by simp
  qed (use JObj.prems k in \<open>auto simp: member_text_def quoted_def comp_def\<close>)
  with k show ?case by simp
next
  case JNull
  from dump_same_lead [OF JNull.prems(1,2,5)] have "k = JNull"
    by (cases k) (auto simp: is_num_def lead_def split: if_splits)
  with JNull.prems(5) show ?case by simp
next
  case (JBool b)
  from dump_same_lead [OF JBool.prems(1,2,5)] have "k = JBool b"
    by (cases k) (auto simp: is_num_def lead_def split: if_splits)
  with JBool.prems(5) show ?case by simp
qed

lemma dumps_inject:
  assumes "floats_ok j" "floats_ok k"
  shows "dumps j = dumps k \<longleftrightarrow> normal j = normal k"
  using dump_prefix [OF floats_ok_normal [OF assms(1)] floats_ok_normal [OF assms(2)], of "[]" "[]"]
  by (auto simp: dumps_normal ends_def)

end
