(* ===== verification/Shared_Method.thy ===== *)
theory Shared_Method
  imports Taktus_Prelude
begin

text \<open>
  The enumerations of the shared kernel (\<open>shared/v1/method.py\<close>, \<open>exactness_class.py\<close>): the
  eight kinds of method a step can use, their subsets, and the four exactness classes. Each
  enumeration is a \<open>StrEnum\<close>: its value is the token that is written and read back.
\<close>

datatype method_kind = RULE | STATISTICS | ML_METHOD | NEURAL | LLM | WORKER | HUMAN | WAIT

fun method_value :: "method_kind \<Rightarrow> string" where
  "method_value RULE = ''rule''"
| "method_value STATISTICS = ''statistics''"
| "method_value ML_METHOD = ''ml''"
| "method_value NEURAL = ''neural''"
| "method_value LLM = ''llm''"
| "method_value WORKER = ''worker''"
| "method_value HUMAN = ''human''"
| "method_value WAIT = ''wait''"

definition all_methods :: "method_kind list" where
  "all_methods = [RULE, STATISTICS, ML_METHOD, NEURAL, LLM, WORKER, HUMAN, WAIT]"

text \<open>\<open>Method(text)\<close>: the member with that value; a \<open>ValueError\<close> is None.\<close>

definition method_of :: "string \<Rightarrow> method_kind option" where
  "method_of text = List.find (\<lambda>m. method_value m = text) all_methods"

definition VARIABLE :: "method_kind set" where
  "VARIABLE = {LLM, WORKER}"

definition PINNED :: "method_kind set" where
  "PINNED = {ML_METHOD, NEURAL}"

definition PRODUCING :: "method_kind set" where
  "PRODUCING = {RULE, STATISTICS, ML_METHOD, NEURAL, LLM, WORKER}"

definition NON_PRODUCING :: "method_kind set" where
  "NON_PRODUCING = {HUMAN, WAIT}"

definition EXACT_ADMISSIBLE :: "method_kind set" where
  "EXACT_ADMISSIBLE = {RULE, STATISTICS}"

datatype exactness_class = EXACT | SOURCED | TOLERANT | FREE

fun exactness_value :: "exactness_class \<Rightarrow> string" where
  "exactness_value EXACT = ''exact''"
| "exactness_value SOURCED = ''sourced''"
| "exactness_value TOLERANT = ''tolerant''"
| "exactness_value FREE = ''free''"

lemma set_all_methods [simp]: "set all_methods = UNIV"
proof -
  have "m \<in> set all_methods" for m by (cases m) (auto simp: all_methods_def)
  then show ?thesis by auto
qed

lemma method_value_inject [simp]: "method_value m = method_value n \<longleftrightarrow> m = n"
  by (cases m; cases n) auto

lemma method_of_value [simp]: "method_of (method_value m) = Some m"
  by (cases m) (auto simp: method_of_def all_methods_def)

lemma producing_partition: "PRODUCING \<union> NON_PRODUCING = UNIV" "PRODUCING \<inter> NON_PRODUCING = {}"
proof -
  have "m \<in> PRODUCING \<union> NON_PRODUCING" for m
    by (cases m) (auto simp: PRODUCING_def NON_PRODUCING_def)
  then show "PRODUCING \<union> NON_PRODUCING = UNIV" by auto
qed (auto simp: PRODUCING_def NON_PRODUCING_def)

end
