(* ===== verification/Ledger_Entry.thy ===== *)
theory Ledger_Entry
  imports Json_Canonical Shared_Method
begin

text \<open>
  The ledger's data: what an entry refers to (\<open>LedgerRefs\<close>), a fact before it is chained
  (\<open>Fact\<close>), an entry (\<open>LedgerEntry\<close>), and the JSON document of each
  (\<open>shared/v1/ledger_entry.py\<close>, \<open>ports/ledger.py\<close>, \<open>shared/v1/value.py\<close>).

  A \<open>LedgerEntry\<close> has the fields of a \<open>Fact\<close> and the chain's, so its record extends the
  fact's. \<open>Literal[True] | None\<close> and \<open>Literal["tenant"] | None\<close> are booleans. A consumption
  enters the ledger through its document only, and is carried as that; a float is carried as the
  text Python writes for it. How pydantic writes a moment is the parameter \<open>ts_text\<close>, and
  \<open>hashlib.sha256(...).hexdigest()\<close> is the parameter \<open>sha\<close>.
\<close>

subsection \<open>Identifiers\<close>

record ledger_refs =
  r_tenant :: "string option"
  r_command_id :: "string option"
  r_plan_id :: "string option"
  r_process_version :: "string option"
  r_run_id :: "string option"
  r_step_id :: "string option"
  r_assignment_id :: "string option"
  r_decision_request_id :: "string option"
  r_incident_id :: "string option"
  r_action :: "string option"
  r_report_id :: "string option"
  r_deadline_id :: "string option"
  r_stage_id :: "string option"
  r_skill_id :: "string option"
  r_agent_id :: "string option"
  r_subject_request_id :: "string option"
  r_artifact_ids :: "string list option"
  r_actor :: "string option"
  r_trace_id :: "string option"

definition no_refs :: ledger_refs where
  "no_refs = \<lparr>r_tenant = None, r_command_id = None, r_plan_id = None, r_process_version = None,
     r_run_id = None, r_step_id = None, r_assignment_id = None, r_decision_request_id = None,
     r_incident_id = None, r_action = None, r_report_id = None, r_deadline_id = None,
     r_stage_id = None, r_skill_id = None, r_agent_id = None, r_subject_request_id = None,
     r_artifact_ids = None, r_actor = None, r_trace_id = None\<rparr>"

text \<open>\<open>exclude_none=True\<close>: an absent field is left out.\<close>

definition field_of :: "string \<Rightarrow> json option \<Rightarrow> (string \<times> json) list" where
  "field_of k v = (case v of None \<Rightarrow> [] | Some j \<Rightarrow> [(k, j)])"

definition refs_document :: "ledger_refs \<Rightarrow> (string \<times> json) list" where
  "refs_document r =
     field_of ''tenant'' (map_option JStr (r_tenant r))
   @ field_of ''command_id'' (map_option JStr (r_command_id r))
   @ field_of ''plan_id'' (map_option JStr (r_plan_id r))
   @ field_of ''process_version'' (map_option JStr (r_process_version r))
   @ field_of ''run_id'' (map_option JStr (r_run_id r))
   @ field_of ''step_id'' (map_option JStr (r_step_id r))
   @ field_of ''assignment_id'' (map_option JStr (r_assignment_id r))
   @ field_of ''decision_request_id'' (map_option JStr (r_decision_request_id r))
   @ field_of ''incident_id'' (map_option JStr (r_incident_id r))
   @ field_of ''action'' (map_option JStr (r_action r))
   @ field_of ''report_id'' (map_option JStr (r_report_id r))
   @ field_of ''deadline_id'' (map_option JStr (r_deadline_id r))
   @ field_of ''stage_id'' (map_option JStr (r_stage_id r))
   @ field_of ''skill_id'' (map_option JStr (r_skill_id r))
   @ field_of ''agent_id'' (map_option JStr (r_agent_id r))
   @ field_of ''subject_request_id'' (map_option JStr (r_subject_request_id r))
   @ field_of ''artifact_ids'' (map_option (JList \<circ> map JStr) (r_artifact_ids r))
   @ field_of ''actor'' (map_option JStr (r_actor r))
   @ field_of ''trace_id'' (map_option JStr (r_trace_id r))"

text \<open>\<open>ACTION_PATTERN\<close> and \<open>TRACE_ID_PATTERN\<close>.\<close>

definition in_range :: "char \<Rightarrow> char \<Rightarrow> char \<Rightarrow> bool" where
  "in_range a b c \<longleftrightarrow> (of_char a :: nat) \<le> of_char c \<and> (of_char c :: nat) \<le> of_char b"

definition lower :: "char \<Rightarrow> bool" where
  "lower = in_range (CHR ''a'') (CHR ''z'')"

definition action_word :: "string \<Rightarrow> bool" where
  "action_word w \<longleftrightarrow>
     (case w of
        [] \<Rightarrow> False
      | c # cs \<Rightarrow> lower c \<and> (\<forall>d \<in> set cs. lower d \<or> is_digit d \<or> d = CHR ''_'' \<or> d = CHR ''-''))"

fun split_on :: "char \<Rightarrow> string \<Rightarrow> string list" where
  "split_on sep [] = [[]]"
| "split_on sep (c # cs) =
     (if c = sep then [] # split_on sep cs
      else case split_on sep cs of [] \<Rightarrow> [[c]] | w # ws \<Rightarrow> (c # w) # ws)"

definition action_text :: "string \<Rightarrow> bool" where
  "action_text s \<longleftrightarrow> length (split_on (CHR ''.'') s) \<ge> 2 \<and> list_all action_word (split_on (CHR ''.'') s)"

definition trace_text :: "string \<Rightarrow> bool" where
  "trace_text s \<longleftrightarrow> length s = 32 \<and> (\<forall>c \<in> set s. is_digit c \<or> in_range (CHR ''a'') (CHR ''f'') c)"

text \<open>\<open>LedgerRefs._at_least_one\<close>, with what the fields' types require.\<close>

definition refs_ok :: "ledger_refs \<Rightarrow> bool" where
  "refs_ok r \<longleftrightarrow>
     refs_document r \<noteq> []
   \<and> Some [] \<notin> set [r_tenant r, r_command_id r, r_plan_id r, r_process_version r, r_run_id r,
       r_step_id r, r_assignment_id r, r_decision_request_id r, r_incident_id r, r_report_id r,
       r_deadline_id r, r_stage_id r, r_skill_id r, r_agent_id r, r_subject_request_id r, r_actor r]
   \<and> pred_option action_text (r_action r) \<and> pred_option trace_text (r_trace_id r)
   \<and> (case r_artifact_ids r of None \<Rightarrow> True | Some ids \<Rightarrow> [] \<notin> set ids \<and> distinct ids)"

subsection \<open>Facts and entries\<close>

record fact =
  f_kind :: string
  f_refs :: ledger_refs
  f_method :: "method_kind option"
  f_model :: "string option"
  f_adapter :: "string option"
  f_consumption :: "json option"
  f_outcome :: "string option"
  f_duration_seconds :: "string option"
  f_content_digest :: "string option"
  f_rehearsal :: bool
  f_through :: "int option"

record ledger_entry = fact +
  e_seq :: int
  e_ts :: moment
  e_prev_hash :: "string option"
  e_hash :: string
  e_chain_seq :: "int option"
  e_chain_tenant :: bool

definition flag :: "string \<Rightarrow> bool \<Rightarrow> json \<Rightarrow> (string \<times> json) list" where
  "flag k b j = field_of k (if b then Some j else None)"

text \<open>\<open>LedgerEntry.document\<close>: the fields in their order, then \<open>prev_hash\<close> set even when None.\<close>

definition entry_document :: "(moment \<Rightarrow> string) \<Rightarrow> ledger_entry \<Rightarrow> (string \<times> json) list" where
  "entry_document ts_text e =
     AList.update ''prev_hash'' (case e_prev_hash e of None \<Rightarrow> JNull | Some h \<Rightarrow> JStr h)
      ([(''seq'', JInt (e_seq e)), (''ts'', JStr (ts_text (e_ts e))), (''kind'', JStr (f_kind e))]
       @ field_of ''prev_hash'' (map_option JStr (e_prev_hash e))
       @ [(''hash'', JStr (e_hash e)), (''refs'', JObj (refs_document (f_refs e)))]
       @ field_of ''method'' (map_option (JStr \<circ> method_value) (f_method e))
       @ field_of ''model'' (map_option JStr (f_model e))
       @ field_of ''adapter'' (map_option JStr (f_adapter e))
       @ field_of ''consumption'' (f_consumption e)
       @ field_of ''outcome'' (map_option JStr (f_outcome e))
       @ field_of ''duration_seconds'' (map_option JFloat (f_duration_seconds e))
       @ field_of ''content_digest'' (map_option JStr (f_content_digest e))
       @ flag ''rehearsal'' (f_rehearsal e) (JBool True)
       @ field_of ''chain_seq'' (map_option JInt (e_chain_seq e))
       @ flag ''chain'' (e_chain_tenant e) (JStr ''tenant'')
       @ field_of ''through'' (map_option JInt (f_through e)))"

text \<open>\<open>LedgerEntry.chain_name\<close>: the run's identifier, or the empty name for the tenant's chain.\<close>

definition chain_name :: "ledger_entry \<Rightarrow> string" where
  "chain_name e =
     (if e_chain_seq e = None \<or> e_chain_tenant e then []
      else case r_run_id (f_refs e) of None \<Rightarrow> [] | Some run \<Rightarrow> run)"

subsection \<open>The document determines the entry\<close>

text \<open>An entry up to its own hash and the order of keys inside its consumption.\<close>

definition content_of :: "ledger_entry \<Rightarrow> ledger_entry" where
  "content_of e = e\<lparr>e_hash := [], f_consumption := map_option normal (f_consumption e)\<rparr>"

lemma map_of_insort: "map_of (insort_key fst kv xs) = (map_of xs)(fst kv \<mapsto> snd kv)"
  by (induction xs) (auto simp: fun_upd_twist)

lemma map_of_sort_key [simp]: "map_of (sort_key fst xs) = map_of xs"
  by (induction xs) (auto simp: map_of_insort)

lemma map_of_map_prod: "map_of (map (map_prod id f) xs) k = map_option f (map_of xs k)"
  by (induction xs) auto

lemma normal_obj_lookup:
  "normal (JObj xs) = normal (JObj ys) \<Longrightarrow>
    map_option normal (map_of xs k) = map_option normal (map_of ys k)"
  by (drule arg_cong [where f = "\<lambda>j. case j of JObj zs \<Rightarrow> map_of zs k | _ \<Rightarrow> None"])
    (simp add: map_of_map_prod)

lemma map_of_field_of [simp]:
  "(m ++ map_of (field_of k v)) q = (if q = k \<and> v \<noteq> None then v else m q)"
  "map_of (field_of k v) q = (if q = k then v else None)"
  by (auto simp: field_of_def map_add_def split: option.splits)

lemma map_of_flag [simp]:
  "(m ++ map_of (flag k b j)) q = (if q = k \<and> b then Some j else m q)"
  "map_of (flag k b j) q = (if q = k \<and> b then Some j else None)"
  by (auto simp: flag_def)

lemma map_option_JStr_inject:
  "map_option normal (map_option JStr a) = map_option normal (map_option JStr b) \<longleftrightarrow> a = b"
  by (cases a; cases b) auto

lemma refs_document_lookup:
  "map_of (refs_document r) ''tenant'' = map_option JStr (r_tenant r)"
  "map_of (refs_document r) ''command_id'' = map_option JStr (r_command_id r)"
  "map_of (refs_document r) ''plan_id'' = map_option JStr (r_plan_id r)"
  "map_of (refs_document r) ''process_version'' = map_option JStr (r_process_version r)"
  "map_of (refs_document r) ''run_id'' = map_option JStr (r_run_id r)"
  "map_of (refs_document r) ''step_id'' = map_option JStr (r_step_id r)"
  "map_of (refs_document r) ''assignment_id'' = map_option JStr (r_assignment_id r)"
  "map_of (refs_document r) ''decision_request_id'' = map_option JStr (r_decision_request_id r)"
  "map_of (refs_document r) ''incident_id'' = map_option JStr (r_incident_id r)"
  "map_of (refs_document r) ''action'' = map_option JStr (r_action r)"
  "map_of (refs_document r) ''report_id'' = map_option JStr (r_report_id r)"
  "map_of (refs_document r) ''deadline_id'' = map_option JStr (r_deadline_id r)"
  "map_of (refs_document r) ''stage_id'' = map_option JStr (r_stage_id r)"
  "map_of (refs_document r) ''skill_id'' = map_option JStr (r_skill_id r)"
  "map_of (refs_document r) ''agent_id'' = map_option JStr (r_agent_id r)"
  "map_of (refs_document r) ''subject_request_id'' = map_option JStr (r_subject_request_id r)"
  "map_of (refs_document r) ''artifact_ids'' = map_option (JList \<circ> map JStr) (r_artifact_ids r)"
  "map_of (refs_document r) ''actor'' = map_option JStr (r_actor r)"
  "map_of (refs_document r) ''trace_id'' = map_option JStr (r_trace_id r)"
  by (simp_all add: refs_document_def)

lemma map_option_JList_inject:
  "map_option normal (map_option (JList \<circ> map JStr) a) =
     map_option normal (map_option (JList \<circ> map JStr) b) \<longleftrightarrow> a = b"
proof -
  have "map (normal \<circ> JStr) xs = map (normal \<circ> JStr) ys \<longleftrightarrow> xs = ys" for xs ys
    by (intro inj_map_eq_map) (auto simp: inj_def)
  then show ?thesis by (cases a; cases b) (auto simp: comp_def)
qed

lemma refs_document_inject:
  assumes "normal (JObj (refs_document r)) = normal (JObj (refs_document s))"
  shows "r = s"
proof -
  note eq = normal_obj_lookup [OF assms]
  show ?thesis
    using eq [of "''tenant''"] eq [of "''command_id''"] eq [of "''plan_id''"]
      eq [of "''process_version''"] eq [of "''run_id''"] eq [of "''step_id''"]
      eq [of "''assignment_id''"] eq [of "''decision_request_id''"] eq [of "''incident_id''"]
      eq [of "''action''"] eq [of "''report_id''"] eq [of "''deadline_id''"]
      eq [of "''stage_id''"] eq [of "''skill_id''"] eq [of "''agent_id''"]
      eq [of "''subject_request_id''"] eq [of "''artifact_ids''"] eq [of "''actor''"]
      eq [of "''trace_id''"]
    by (cases r; cases s)
      (simp only: refs_document_lookup map_option_JStr_inject map_option_JList_inject
        ledger_refs.simps)
qed

lemma map_of_drop_hash:
  "map_of (filter (\<lambda>(k, _). k \<noteq> ''hash'') xs) q = (if q = ''hash'' then None else map_of xs q)"
  by (induction xs) auto

lemma entry_document_lookup:
  "map_of (entry_document t e) ''seq'' = Some (JInt (e_seq e))"
  "map_of (entry_document t e) ''ts'' = Some (JStr (t (e_ts e)))"
  "map_of (entry_document t e) ''kind'' = Some (JStr (f_kind e))"
  "map_of (entry_document t e) ''prev_hash'' =
     Some (case e_prev_hash e of None \<Rightarrow> JNull | Some h \<Rightarrow> JStr h)"
  "map_of (entry_document t e) ''refs'' = Some (JObj (refs_document (f_refs e)))"
  "map_of (entry_document t e) ''method'' = map_option (JStr \<circ> method_value) (f_method e)"
  "map_of (entry_document t e) ''model'' = map_option JStr (f_model e)"
  "map_of (entry_document t e) ''adapter'' = map_option JStr (f_adapter e)"
  "map_of (entry_document t e) ''consumption'' = f_consumption e"
  "map_of (entry_document t e) ''outcome'' = map_option JStr (f_outcome e)"
  "map_of (entry_document t e) ''duration_seconds'' = map_option JFloat (f_duration_seconds e)"
  "map_of (entry_document t e) ''content_digest'' = map_option JStr (f_content_digest e)"
  "map_of (entry_document t e) ''rehearsal'' = (if f_rehearsal e then Some (JBool True) else None)"
  "map_of (entry_document t e) ''chain_seq'' = map_option JInt (e_chain_seq e)"
  "map_of (entry_document t e) ''chain'' = (if e_chain_tenant e then Some (JStr ''tenant'') else None)"
  "map_of (entry_document t e) ''through'' = map_option JInt (f_through e)"
  by (simp_all add: entry_document_def update_conv')

text \<open>What the printer needs of an entry: its floats are written as Python writes them.\<close>

definition entry_floats_ok :: "ledger_entry \<Rightarrow> bool" where
  "entry_floats_ok e \<longleftrightarrow>
     pred_option floats_ok (f_consumption e) \<and> pred_option float_literal (f_duration_seconds e)"

lemma list_all_field_of [simp]:
  "list_all P (field_of k v) \<longleftrightarrow> pred_option (\<lambda>j. P (k, j)) v"
  by (simp add: field_of_def split: option.splits)

lemma list_all_flag [simp]: "list_all P (flag k b j) \<longleftrightarrow> (b \<longrightarrow> P (k, j))"
  by (simp add: flag_def)

lemma refs_floats_ok: "floats_ok (JObj (refs_document r))"
  by (simp add: refs_document_def option.pred_map list.pred_map comp_def option.pred_True list.pred_True)

lemma list_all_update:
  "list_all P xs \<Longrightarrow> P (k, v) \<Longrightarrow> list_all P (AList.update k v xs)"
  by (induction xs) auto

lemma entry_document_floats:
  assumes "entry_floats_ok e"
  shows "floats_ok (JObj (filter (\<lambda>(k, _). k \<noteq> ''hash'') (entry_document t e)))"
proof -
  have "list_all (pred_prod (\<lambda>_. True) floats_ok) (entry_document t e)"
    unfolding entry_document_def
    using assms refs_floats_ok [of "f_refs e"]
    by (intro list_all_update) (simp_all add: entry_floats_ok_def option.pred_map comp_def option.pred_True split: option.split)
  then show ?thesis by (auto simp: list_all_iff)
qed

lemma canonical_entry_inject:
  assumes "inj t" "entry_floats_ok e" "entry_floats_ok d"
    and "canonical (entry_document t e) = canonical (entry_document t d)"
  shows "content_of e = content_of d"
proof -
  have "normal (JObj (filter (\<lambda>(k, _). k \<noteq> ''hash'') (entry_document t e)))
      = normal (JObj (filter (\<lambda>(k, _). k \<noteq> ''hash'') (entry_document t d)))"
    using assms(4) dumps_inject entry_document_floats assms(2,3)
    unfolding canonical_def by blast
  note look = normal_obj_lookup [OF this, unfolded map_of_drop_hash]
  have eq: "q \<noteq> ''hash'' \<Longrightarrow> map_option normal (map_of (entry_document t e) q)
      = map_option normal (map_of (entry_document t d) q)" for q
    using look [of q] by simp
  have "e_seq e = e_seq d" "t (e_ts e) = t (e_ts d)" "f_kind e = f_kind d"
    using eq [of "''seq''"] eq [of "''ts''"] eq [of "''kind''"]
    by (simp_all add: entry_document_lookup)
  moreover have "e_prev_hash e = e_prev_hash d"
    using eq [of "''prev_hash''"] by (auto simp: entry_document_lookup split: option.splits)
  moreover have "f_refs e = f_refs d"
    using eq [of "''refs''"] refs_document_inject by (simp add: entry_document_lookup)
  moreover have "f_method e = f_method d"
    using eq [of "''method''"]
    by (cases "f_method e"; cases "f_method d") (auto simp: entry_document_lookup)
  moreover have "f_model e = f_model d" "f_adapter e = f_adapter d" "f_outcome e = f_outcome d"
    "f_content_digest e = f_content_digest d"
    using eq [of "''model''"] eq [of "''adapter''"] eq [of "''outcome''"] eq [of "''content_digest''"]
    by (simp_all add: entry_document_lookup map_option_JStr_inject)
  moreover have "map_option normal (f_consumption e) = map_option normal (f_consumption d)"
    using eq [of "''consumption''"] by (simp add: entry_document_lookup)
  moreover have "f_duration_seconds e = f_duration_seconds d"
    using eq [of "''duration_seconds''"]
    by (cases "f_duration_seconds e"; cases "f_duration_seconds d") (auto simp: entry_document_lookup)
  moreover have "f_rehearsal e = f_rehearsal d" "e_chain_tenant e = e_chain_tenant d"
    using eq [of "''rehearsal''"] eq [of "''chain''"]
    by (auto simp: entry_document_lookup split: if_splits)
  moreover have "e_chain_seq e = e_chain_seq d"
    using eq [of "''chain_seq''"]
    by (cases "e_chain_seq e"; cases "e_chain_seq d") (auto simp: entry_document_lookup)
  moreover have "f_through e = f_through d"
    using eq [of "''through''"]
    by (cases "f_through e"; cases "f_through d") (auto simp: entry_document_lookup)
  ultimately show ?thesis
    using injD [OF assms(1), of "e_ts e" "e_ts d"]
    by (cases e; cases d) (simp add: content_of_def)
qed

end
