(* ===== verification/Ledger_Chain.thy ===== *)
theory Ledger_Chain
  imports Ledger_Entry
begin

text \<open>
  The hash chains of the ledger (\<open>ledger/domain/model/chain.py\<close>): how an entry is hashed and
  linked, and the walk that checks every chain of a tenant at once. Each method of the mutable
  \<open>Walk\<close> takes the walk and returns it changed. A finding is a value with its parameters;
  \<open>finding_text\<close> is the sentence the code writes for it.

  What the walk decides is in \<open>Ledger_Verification\<close>; the last section gives an example of the two
  parameters, the digest function and the text of a moment, for the witnesses.
\<close>

record codec =
  sha256 :: "string \<Rightarrow> string"
  ts_text :: "moment \<Rightarrow> string"

definition TENANT_CHAIN :: string where "TENANT_CHAIN = []"
definition ANCHORED :: string where "ANCHORED = ''ledger.anchored''"

definition digest :: "codec \<Rightarrow> string \<Rightarrow> string" where
  "digest cd bytes = ''sha256:'' @ sha256 cd bytes"

definition hash_of :: "codec \<Rightarrow> ledger_entry \<Rightarrow> string" where
  "hash_of cd e = digest cd (canonical (entry_document (ts_text cd) e))"

definition chain_of :: "ledger_entry \<Rightarrow> string" where
  "chain_of e = chain_name e"

definition position :: "ledger_entry \<Rightarrow> int" where
  "position e = (case e_chain_seq e of None \<Rightarrow> e_seq e | Some p \<Rightarrow> p)"

definition chain_for :: "fact \<Rightarrow> bool \<Rightarrow> string" where
  "chain_for f tenant_chain =
     (case r_run_id (f_refs f) of
        None \<Rightarrow> TENANT_CHAIN
      | Some run \<Rightarrow> if tenant_chain then TENANT_CHAIN else run)"

definition link_unhashed ::
  "ledger_entry option \<Rightarrow> fact \<Rightarrow> moment \<Rightarrow> int option \<Rightarrow> bool \<Rightarrow> ledger_entry" where
  "link_unhashed previous f at seq tenant_chain =
     fact.extend f
       (ledger_entry.fields
          (case seq of Some s \<Rightarrow> s
            | None \<Rightarrow> (case previous of None \<Rightarrow> 1 | Some p \<Rightarrow> e_seq p + 1))
          at
          (map_option e_hash previous)
          (''sha256:'' @ replicate 64 (CHR ''0''))
          (Some (case previous of None \<Rightarrow> 1 | Some p \<Rightarrow> position p + 1))
          (tenant_chain \<and> r_run_id (f_refs f) \<noteq> None))"

definition link ::
  "codec \<Rightarrow> ledger_entry option \<Rightarrow> fact \<Rightarrow> moment \<Rightarrow> int option \<Rightarrow> bool \<Rightarrow> ledger_entry" where
  "link cd previous f at seq tenant_chain =
     (let unhashed = link_unhashed previous f at seq tenant_chain
      in unhashed\<lparr>e_hash := hash_of cd unhashed\<rparr>)"

subsection \<open>The walk\<close>

text \<open>\<open>Link\<close>: the place and hash of a chain's newest entry walked.\<close>

record place =
  p_seq :: int
  p_hash :: string

datatype finding =
    Not_Rising int
  | Rule_Before int
  | Wrong_Place int int
  | Wrong_Prev int "int option"
  | Wrong_Hash int
  | Unbound_Anchor int
  | Anchor_Mismatch int
  | Ends_Before int int

fun finding_text :: "finding \<Rightarrow> string" where
  "finding_text (Not_Rising n) = ''entry '' @ show_int n @ '': sequence number does not rise''"
| "finding_text (Rule_Before n) =
     ''entry '' @ show_int n @ '': written by the rule before ADR-0164''"
| "finding_text (Wrong_Place n k) =
     ''entry '' @ show_int n @ '': expected place '' @ show_int k @ '' in its chain''"
| "finding_text (Wrong_Prev n before) =
     ''entry '' @ show_int n @ '': prev_hash does not match ''
       @ (case before of None \<Rightarrow> ''its predecessor'' | Some b \<Rightarrow> ''entry '' @ show_int b)"
| "finding_text (Wrong_Hash n) =
     ''entry '' @ show_int n @ '': hash does not match its content''"
| "finding_text (Unbound_Anchor n) =
     ''entry '' @ show_int n @ '': an anchor without a bound before it''"
| "finding_text (Anchor_Mismatch n) =
     ''entry '' @ show_int n @ '': the anchor does not match the heads of the run chains it covers''"
| "finding_text (Ends_Before h s) =
     ''the chain ends at '' @ show_int h @ '', before its checkpoint at '' @ show_int s"

record walk_state =
  reached :: int
  counted :: int
  anchored :: int
  chains :: "string \<rightharpoonup> place"
  ruled :: bool
  findings :: "finding list"
  anchors :: "(ledger_entry \<times> int) list"
  seqs :: "string \<rightharpoonup> int"

definition new_walk :: walk_state where
  "new_walk = \<lparr>reached = 0, counted = 0, anchored = 0, chains = Map.empty, ruled = False,
     findings = [], anchors = [], seqs = Map.empty\<rparr>"

fun needs_from :: "walk_state \<Rightarrow> string list \<Rightarrow> ledger_entry list \<Rightarrow> (string \<times> int) list" where
  "needs_from w seen [] = []"
| "needs_from w seen (e # es) =
     (if chains w (chain_of e) = None \<and> chain_of e \<notin> set seen \<and> position e > 1
      then [(chain_of e, position e - 1)] else [])
     @ needs_from w (chain_of e # seen) es"

definition needs :: "walk_state \<Rightarrow> ledger_entry list \<Rightarrow> (string \<times> int) list" where
  "needs w es = needs_from w [] es"

definition seed :: "walk_state \<Rightarrow> string \<Rightarrow> ledger_entry option \<Rightarrow> walk_state" where
  "seed w c found =
     (case found of
        None \<Rightarrow> w
      | Some e \<Rightarrow> w\<lparr>chains := (chains w)(c \<mapsto> \<lparr>p_seq = position e, p_hash = e_hash e\<rparr>),
                   seqs := (seqs w)(c \<mapsto> e_seq e)\<rparr>)"

definition is_anchor :: "ledger_entry \<Rightarrow> bool" where
  "is_anchor e \<longleftrightarrow> f_kind e = ANCHORED \<and> chain_of e = TENANT_CHAIN"

definition bound_ok :: "int \<Rightarrow> ledger_entry \<Rightarrow> bool" where
  "bound_ok a e \<longleftrightarrow> (case f_through e of None \<Rightarrow> False | Some t \<Rightarrow> \<not> (t < a \<or> t \<ge> e_seq e))"

text \<open>The findings of one entry, in the order \<open>Walk._one\<close> appends them.\<close>

definition one_findings :: "codec \<Rightarrow> walk_state \<Rightarrow> ledger_entry \<Rightarrow> finding list" where
  "one_findings cd w e =
     (let previous = chains w (chain_of e);
          expected = (case previous of None \<Rightarrow> 1 | Some p \<Rightarrow> p_seq p + 1)
      in (if e_seq e \<le> reached w then [Not_Rising (e_seq e)] else [])
       @ (if e_chain_seq e = None \<and> ruled w then [Rule_Before (e_seq e)] else [])
       @ (if position e \<noteq> expected then [Wrong_Place (e_seq e) expected] else [])
       @ (if e_prev_hash e \<noteq> map_option p_hash previous
          then [Wrong_Prev (e_seq e) (seqs w (chain_of e))] else [])
       @ (if hash_of cd e \<noteq> e_hash e then [Wrong_Hash (e_seq e)] else [])
       @ (if is_anchor e \<and> \<not> bound_ok (anchored w) e then [Unbound_Anchor (e_seq e)] else []))"

definition walk_one :: "codec \<Rightarrow> walk_state \<Rightarrow> ledger_entry \<Rightarrow> walk_state" where
  "walk_one cd w e =
     w\<lparr>findings := findings w @ one_findings cd w e,
       ruled := ruled w \<or> e_chain_seq e \<noteq> None,
       anchors := (if is_anchor e \<and> bound_ok (anchored w) e
                   then anchors w @ [(e, anchored w)] else anchors w),
       anchored := (if is_anchor e \<and> bound_ok (anchored w) e
                    then the (f_through e) else anchored w),
       chains := (chains w)(chain_of e \<mapsto> \<lparr>p_seq = position e, p_hash = e_hash e\<rparr>),
       seqs := (seqs w)(chain_of e \<mapsto> e_seq e),
       reached := max (reached w) (e_seq e),
       counted := counted w + 1\<rparr>"

definition walk_step :: "codec \<Rightarrow> walk_state \<Rightarrow> ledger_entry list \<Rightarrow> walk_state" where
  "walk_step cd w es = foldl (walk_one cd) w es"

text \<open>\<open>walk\<close>: entries of one chain after \<open>previous\<close>; the findings and the link to the last.\<close>

definition walk_chain ::
  "codec \<Rightarrow> ledger_entry list \<Rightarrow> place option \<Rightarrow> finding list \<times> place option" where
  "walk_chain cd es previous =
     (case es of
        [] \<Rightarrow> ([], previous)
      | e # _ \<Rightarrow>
          (let w = walk_step cd (new_walk\<lparr>chains := (\<lambda>c. if c = chain_of e then previous else None)\<rparr>) es
           in (findings w, chains w (chain_of (last es)))))"

record verification =
  v_entries :: int
  v_intact :: bool
  v_findings :: "finding list"
  v_checkpoint :: int

definition verify :: "codec \<Rightarrow> ledger_entry list \<Rightarrow> verification" where
  "verify cd es =
     (let w = walk_step cd new_walk es
      in \<lparr>v_entries = int (length es), v_intact = (findings w = []),
          v_findings = findings w, v_checkpoint = 0\<rparr>)"

subsection \<open>Linking\<close>

lemma link_unhashed_sel [simp]:
  "e_seq (link_unhashed previous f at seq tc) =
     (case seq of Some s \<Rightarrow> s | None \<Rightarrow> (case previous of None \<Rightarrow> 1 | Some p \<Rightarrow> e_seq p + 1))"
  "e_ts (link_unhashed previous f at seq tc) = at"
  "e_prev_hash (link_unhashed previous f at seq tc) = map_option e_hash previous"
  "e_chain_seq (link_unhashed previous f at seq tc) =
     Some (case previous of None \<Rightarrow> 1 | Some p \<Rightarrow> position p + 1)"
  "e_chain_tenant (link_unhashed previous f at seq tc) \<longleftrightarrow> tc \<and> r_run_id (f_refs f) \<noteq> None"
  "f_refs (link_unhashed previous f at seq tc) = f_refs f"
  "f_kind (link_unhashed previous f at seq tc) = f_kind f"
  "f_through (link_unhashed previous f at seq tc) = f_through f"
  "f_content_digest (link_unhashed previous f at seq tc) = f_content_digest f"
  by (simp_all add: link_unhashed_def fact.defs ledger_entry.defs)

lemma hash_of_hash [simp]: "hash_of cd (e\<lparr>e_hash := h\<rparr>) = hash_of cd e"
proof -
  have "filter (\<lambda>(k, _). k \<noteq> ''hash'') (AList.update k v xs) =
      AList.update k v (filter (\<lambda>(k, _). k \<noteq> ''hash'') xs)"
    if "k \<noteq> ''hash''" for k and v :: json and xs
    using that by (induction xs) auto
  then show ?thesis
    by (simp add: hash_of_def canonical_def entry_document_def del: dumps.simps)
qed

lemma link_sel [simp]:
  "e_seq (link cd previous f at seq tc) =
     (case seq of Some s \<Rightarrow> s | None \<Rightarrow> (case previous of None \<Rightarrow> 1 | Some p \<Rightarrow> e_seq p + 1))"
  "e_ts (link cd previous f at seq tc) = at"
  "e_prev_hash (link cd previous f at seq tc) = map_option e_hash previous"
  "e_chain_seq (link cd previous f at seq tc) =
     Some (case previous of None \<Rightarrow> 1 | Some p \<Rightarrow> position p + 1)"
  "f_refs (link cd previous f at seq tc) = f_refs f"
  "f_kind (link cd previous f at seq tc) = f_kind f"
  "f_through (link cd previous f at seq tc) = f_through f"
  "f_content_digest (link cd previous f at seq tc) = f_content_digest f"
  "position (link cd previous f at seq tc) = (case previous of None \<Rightarrow> 1 | Some p \<Rightarrow> position p + 1)"
  "hash_of cd (link cd previous f at seq tc) = e_hash (link cd previous f at seq tc)"
  "chain_of (link cd previous f at seq tc) = chain_for f tc"
  by (auto simp: link_def Let_def position_def chain_of_def chain_name_def chain_for_def
      TENANT_CHAIN_def split: option.splits)

subsection \<open>An example codec\<close>

text \<open>A digest function without collisions that writes hexadecimal digits: two for each byte.\<close>

definition hex_text :: "string \<Rightarrow> string" where
  "hex_text s = concat (map (\<lambda>c. [hexd (of_char c div 16), hexd (of_char c mod 16)]) s)"

definition sample_codec :: codec where
  "sample_codec = \<lparr>sha256 = hex_text, ts_text = show_int\<rparr>"

definition unhexd :: "char \<Rightarrow> nat" where
  "unhexd c = (if of_char c < (58 :: nat) then of_char c - 48 else of_char c - 87)"

fun unhex_text :: "string \<Rightarrow> string" where
  "unhex_text (a # b # cs) = char_of (16 * unhexd a + unhexd b) # unhex_text cs"
| "unhex_text _ = []"

lemma unhexd_hexd [simp]: "n < 16 \<Longrightarrow> unhexd (hexd n) = n"
  by (auto simp: unhexd_def hexd_def of_char_of)

lemma unhex_hex_text: "unhex_text (hex_text s) = s"
proof (induction s)
  case (Cons c s)
  have "of_char c div 16 < (16 :: nat)" using nat_of_char_less_256 [of c] by (simp add: less_mult_imp_div_less)
  moreover have "16 * (of_char c div 16) + of_char c mod 16 = (of_char c :: nat)" by simp
  ultimately show ?case using Cons by (simp add: hex_text_def)
qed (simp add: hex_text_def)

lemma inj_sample: "inj (sha256 sample_codec)" "inj (ts_text sample_codec)"
  by (simp_all add: sample_codec_def inj_def) (metis unhex_hex_text)

text \<open>A fact of a run, with its consumption's keys in one order or the other.\<close>

definition sample_fact :: "string \<Rightarrow> bool \<Rightarrow> fact" where
  "sample_fact kind swapped =
     \<lparr>f_kind = kind, f_refs = no_refs\<lparr>r_run_id := Some ''run_1''\<rparr>, f_method = Some RULE,
      f_model = None, f_adapter = None,
      f_consumption = Some (JObj (if swapped then [(''b'', JInt 2), (''a'', JInt 1)]
                                  else [(''a'', JInt 1), (''b'', JInt 2)])),
      f_outcome = None, f_duration_seconds = None, f_content_digest = None,
      f_rehearsal = False, f_through = None\<rparr>"

end
