(* ===== verification/Ledger_Merkle.thy ===== *)
theory Ledger_Merkle
  imports Ledger_Chain
begin

text \<open>
  The tree an anchor commits to: \<open>Head\<close>, \<open>leaf\<close> and \<open>merkle_root\<close> of
  \<open>ledger/domain/model/chain.py\<close>. The main result is that the root binds the heads: two sets of
  heads with the same root are the same heads, as far as the digest has no collision among the
  texts hashed on the way. An odd node is carried up unchanged, never hashed with itself, and a
  leaf's text begins differently from a node's, so neither a repeated head nor a node posing as a
  leaf gives the same root.
\<close>

record head =
  h_chain :: string
  h_position :: int
  h_hash :: string

definition leaf_document :: "head \<Rightarrow> (string \<times> json) list" where
  "leaf_document h =
     [(''chain'', JStr (h_chain h)), (''chain_seq'', JInt (h_position h)), (''digest'', JStr (h_hash h))]"

definition leaf :: "codec \<Rightarrow> head \<Rightarrow> string" where
  "leaf cd h = digest cd (canonical (leaf_document h))"

fun pair_up :: "codec \<Rightarrow> string list \<Rightarrow> string list" where
  "pair_up cd (a # b # level) = digest cd (a @ b) # pair_up cd level"
| "pair_up cd [a] = [a]"
| "pair_up cd [] = []"

lemma length_pair_up: "length (pair_up cd level) = (length level + 1) div 2"
  by (induction cd level rule: pair_up.induct) auto

function climb :: "codec \<Rightarrow> string list \<Rightarrow> string list" where
  "climb cd level = (if length level > 1 then climb cd (pair_up cd level) else level)"
  by pat_completeness auto
termination
  by (relation "measure (\<lambda>(cd, level). length level)") (auto simp: length_pair_up)

declare climb.simps [simp del]

definition merkle_root :: "codec \<Rightarrow> head list \<Rightarrow> string option" where
  "merkle_root cd heads =
     (let level = map (leaf cd) (sort_key h_chain heads)
      in if level = [] then None else Some (hd (climb cd level)))"

subsection \<open>The texts that are hashed\<close>

fun pair_inputs :: "string list \<Rightarrow> string list" where
  "pair_inputs (a # b # level) = (a @ b) # pair_inputs level"
| "pair_inputs _ = []"

function climb_inputs :: "codec \<Rightarrow> string list \<Rightarrow> string list" where
  "climb_inputs cd level =
     (if length level > 1 then pair_inputs level @ climb_inputs cd (pair_up cd level) else [])"
  by pat_completeness auto
termination
  by (relation "measure (\<lambda>(cd, level). length level)") (auto simp: length_pair_up)

declare climb_inputs.simps [simp del]

definition merkle_inputs :: "codec \<Rightarrow> head list \<Rightarrow> string list" where
  "merkle_inputs cd heads =
     map (canonical \<circ> leaf_document) heads @ climb_inputs cd (map (leaf cd) (sort_key h_chain heads))"

subsection \<open>The tree behind the root\<close>

datatype mtree = MLeaf head | MNode mtree mtree

primrec thash :: "codec \<Rightarrow> mtree \<Rightarrow> string" where
  "thash cd (MLeaf h) = leaf cd h"
| "thash cd (MNode a b) = digest cd (thash cd a @ thash cd b)"

primrec fringe :: "mtree \<Rightarrow> head list" where
  "fringe (MLeaf h) = [h]"
| "fringe (MNode a b) = fringe a @ fringe b"

primrec inputs :: "codec \<Rightarrow> mtree \<Rightarrow> string set" where
  "inputs cd (MLeaf h) = {canonical (leaf_document h)}"
| "inputs cd (MNode a b) = insert (thash cd a @ thash cd b) (inputs cd a \<union> inputs cd b)"

fun tree_pairs :: "mtree list \<Rightarrow> mtree list" where
  "tree_pairs (a # b # ts) = MNode a b # tree_pairs ts"
| "tree_pairs ts = ts"

lemma tree_pairs_props:
  "map (thash cd) (tree_pairs ts) = pair_up cd (map (thash cd) ts)"
  "concat (map fringe (tree_pairs ts)) = concat (map fringe ts)"
  "(\<Union>t \<in> set (tree_pairs ts). inputs cd t) =
     set (pair_inputs (map (thash cd) ts)) \<union> (\<Union>t \<in> set ts. inputs cd t)"
  by (induction ts rule: tree_pairs.induct) auto

lemma climb_tree:
  "ts \<noteq> [] \<Longrightarrow> \<exists>t. climb cd (map (thash cd) ts) = [thash cd t] \<and> fringe t = concat (map fringe ts)
     \<and> inputs cd t \<subseteq> set (climb_inputs cd (map (thash cd) ts)) \<union> (\<Union>t \<in> set ts. inputs cd t)"
proof (induction "length ts" arbitrary: ts rule: less_induct)
  case less
  show ?case
  proof (cases "length ts > 1")
    case True
    let ?ps = "tree_pairs ts"
    have len: "length ?ps = (length ts + 1) div 2"
      using length_pair_up [of cd "map (thash cd) ts"] tree_pairs_props(1) [of cd ts]
      by (metis length_map)
    then have "length ?ps < length ts" "?ps \<noteq> []" using True by auto
    then obtain t where "climb cd (map (thash cd) ?ps) = [thash cd t]"
      "fringe t = concat (map fringe ?ps)"
      "inputs cd t \<subseteq> set (climb_inputs cd (map (thash cd) ?ps)) \<union> (\<Union>t \<in> set ?ps. inputs cd t)"
      using less.hyps [of ?ps] by blast
    with True show ?thesis
      by (intro exI [of _ t])
        (auto simp: tree_pairs_props climb.simps [of cd "map (thash cd) ts"]
          climb_inputs.simps [of cd "map (thash cd) ts"])
  next
    case False
    with less.prems obtain t where "ts = [t]" by (cases ts) auto
    then show ?thesis by (intro exI [of _ t]) (simp add: climb.simps climb_inputs.simps)
  qed
qed

subsection \<open>The root binds the heads\<close>

definition hex_digits :: "char set" where
  "hex_digits = set ''0123456789abcdef''"

lemma leaf_document_inject:
  "canonical (leaf_document h) = canonical (leaf_document g) \<longleftrightarrow> h = g"
proof
  assume eq: "canonical (leaf_document h) = canonical (leaf_document g)"
  have keep: "filter (\<lambda>(k, _). k \<noteq> ''hash'') (leaf_document x) = leaf_document x" for x
    by (simp add: leaf_document_def)
  have "normal (JObj (leaf_document h)) = normal (JObj (leaf_document g))"
    using eq dumps_inject [of "JObj (leaf_document h)" "JObj (leaf_document g)"]
    unfolding canonical_def keep by (simp add: leaf_document_def)
  note look = normal_obj_lookup [OF this]
  from look [of "''chain''"] look [of "''chain_seq''"] look [of "''digest''"] show "h = g"
    by (simp add: leaf_document_def head.equality)
qed simp

lemma canonical_head: "\<exists>r. canonical d = CHR ''{'' # r"
  by (simp add: canonical_def)

lemma digest_split:
  assumes "\<And>x. set (sha256 cd x) \<subseteq> hex_digits"
    and "digest cd a @ digest cd b = digest cd c @ digest cd d"
  shows "digest cd a = digest cd c \<and> digest cd b = digest cd d"
proof -
  have "CHR ''s'' \<notin> hex_digits" by (simp add: hex_digits_def)
  then have no: "\<forall>x \<in> set (sha256 cd y). x \<noteq> CHR ''s''" for y using assms(1) by blast
  have stop: "takeWhile (\<lambda>x. x \<noteq> CHR ''s'') (sha256 cd y @ digest cd z) = sha256 cd y" for y z
    using no [of y] by (simp add: digest_def takeWhile_append2)
  have "sha256 cd a @ digest cd b = sha256 cd c @ digest cd d"
    using assms(2) by (simp add: digest_def)
  then have "sha256 cd a = sha256 cd c" by (metis stop)
  with assms(2) show ?thesis by (simp add: digest_def)
qed

lemma digest_inject: "inj_on (sha256 cd) A \<Longrightarrow> digest cd x = digest cd y \<Longrightarrow> x \<in> A \<Longrightarrow> y \<in> A \<Longrightarrow> x = y"
  by (auto simp: digest_def dest: inj_onD)

lemma thash_digest: "\<exists>x. thash cd t = digest cd x"
  by (cases t) (auto simp: leaf_def)

lemma thash_inject:
  assumes hex: "\<And>x. set (sha256 cd x) \<subseteq> hex_digits"
  shows "inj_on (sha256 cd) (inputs cd t \<union> inputs cd u) \<Longrightarrow> thash cd t = thash cd u \<Longrightarrow> t = u"
proof (induction t arbitrary: u)
  case (MLeaf h)
  show ?case
  proof (cases u)
    case (MLeaf g)
    have "canonical (leaf_document h) = canonical (leaf_document g)"
      using MLeaf.prems(2) MLeaf
      by - (rule digest_inject [OF MLeaf.prems(1)]; simp add: leaf_def)
    then show ?thesis by (simp add: leaf_document_inject MLeaf)
  next
    case (MNode a b)
    obtain x where "thash cd a = digest cd x" using thash_digest by blast
    moreover have "canonical (leaf_document h) = thash cd a @ thash cd b"
      using MLeaf.prems(2) MNode
      by - (rule digest_inject [OF MLeaf.prems(1)]; simp add: leaf_def)
    ultimately show ?thesis using canonical_head [of "leaf_document h"] by (auto simp: digest_def)
  qed
next
  case (MNode a b)
  show ?case
  proof (cases u)
    case (MLeaf g)
    obtain x where "thash cd a = digest cd x" using thash_digest by blast
    moreover have "thash cd a @ thash cd b = canonical (leaf_document g)"
      using MNode.prems(2) MLeaf
      by - (rule digest_inject [OF MNode.prems(1)]; simp add: leaf_def)
    ultimately show ?thesis using canonical_head [of "leaf_document g"] by (auto simp: digest_def)
  next
    case u: (MNode c d)
    obtain w x y z where eqs: "thash cd a = digest cd w" "thash cd b = digest cd x"
      "thash cd c = digest cd y" "thash cd d = digest cd z"
      using thash_digest by metis
    have "thash cd a @ thash cd b = thash cd c @ thash cd d"
      using MNode.prems(2) u by - (rule digest_inject [OF MNode.prems(1)]; simp)
    then have parts: "thash cd a = thash cd c \<and> thash cd b = thash cd d"
      using digest_split [OF hex] unfolding eqs by blast
    moreover have "inj_on (sha256 cd) (inputs cd a \<union> inputs cd c)"
      "inj_on (sha256 cd) (inputs cd b \<union> inputs cd d)"
      by (rule inj_on_subset [OF MNode.prems(1)]; use u in auto)+
    ultimately show ?thesis using MNode.IH u by simp
  qed
qed

lemma merkle_tree:
  assumes "merkle_root cd heads = Some root"
  obtains t where "thash cd t = root" "fringe t = sort_key h_chain heads"
    "inputs cd t \<subseteq> set (merkle_inputs cd heads)"
proof -
  let ?ts = "map MLeaf (sort_key h_chain heads)"
  have hashes: "map (thash cd) ?ts = map (leaf cd) (sort_key h_chain heads)" by simp
  have "?ts \<noteq> []" using assms by (auto simp: merkle_root_def Let_def split: if_splits)
  then obtain t where t: "climb cd (map (thash cd) ?ts) = [thash cd t]"
    "fringe t = concat (map fringe ?ts)"
    "inputs cd t \<subseteq> set (climb_inputs cd (map (thash cd) ?ts)) \<union> (\<Union>t \<in> set ?ts. inputs cd t)"
    using climb_tree by blast
  show ?thesis
  proof (rule that [of t])
    show "thash cd t = root"
      using assms t(1) unfolding hashes by (auto simp: merkle_root_def Let_def split: if_splits)
    show "fringe t = sort_key h_chain heads"
      using t(2) by (simp add: comp_def)
    show "inputs cd t \<subseteq> set (merkle_inputs cd heads)"
      using t(3) unfolding hashes by (auto simp: merkle_inputs_def)
  qed
qed

lemma merkle_root_None [simp]: "merkle_root cd heads = None \<longleftrightarrow> heads = []"
  by (simp add: merkle_root_def Let_def) (metis length_0_conv length_sort)

text \<open>C30: an anchor's root binds the heads it covers: equal roots are over the same heads, as far
  as the digest is hexadecimal text and has no collision among the texts hashed.\<close>

theorem merkle_root_binds:
  assumes "\<And>x. set (sha256 cd x) \<subseteq> hex_digits"
    and "inj_on (sha256 cd) (set (merkle_inputs cd heads) \<union> set (merkle_inputs cd others))"
    and "merkle_root cd heads = merkle_root cd others"
  shows "sort_key h_chain heads = sort_key h_chain others"
proof (cases "merkle_root cd heads")
  case None
  moreover from this assms(3) have "merkle_root cd others = None" by simp
  ultimately have "heads = []" "others = []" by simp_all
  then show ?thesis by simp
next
  case (Some root)
  obtain t where t: "thash cd t = root" "fringe t = sort_key h_chain heads"
    "inputs cd t \<subseteq> set (merkle_inputs cd heads)"
    using merkle_tree [OF Some] by blast
  obtain u where u: "thash cd u = root" "fringe u = sort_key h_chain others"
    "inputs cd u \<subseteq> set (merkle_inputs cd others)"
    using merkle_tree [of cd others root] Some assms(3) by auto
  have "inj_on (sha256 cd) (inputs cd t \<union> inputs cd u)"
    by (rule inj_on_subset [OF assms(2)]) (use t u in auto)
  with t u have "t = u" using thash_inject [OF assms(1)] by metis
  with t u show ?thesis by simp
qed

theorem merkle_root_binds_witness:
  "sort_key h_chain
     [\<lparr>h_chain = ''run_b'', h_position = 2, h_hash = ''x''\<rparr>, \<lparr>h_chain = ''run_a'', h_position = 1, h_hash = ''y''\<rparr>] =
   sort_key h_chain
     [\<lparr>h_chain = ''run_a'', h_position = 1, h_hash = ''y''\<rparr>, \<lparr>h_chain = ''run_b'', h_position = 2, h_hash = ''x''\<rparr>]"
proof (rule merkle_root_binds [of sample_codec])
  show "set (sha256 sample_codec x) \<subseteq> hex_digits" for x
  proof -
    have "list_all (\<lambda>n. hexd n \<in> hex_digits) [0..<16]" by code_simp
    then have "hexd n \<in> hex_digits" if "n < 16" for n using that by (simp add: list_all_iff)
    then show ?thesis
      using nat_of_char_less_256
      by (fastforce simp: sample_codec_def hex_text_def less_mult_imp_div_less)
  qed
qed (rule inj_on_subset [OF inj_sample(1)], simp, simp add: merkle_root_def)

end
