(* ===== verification/Ledger_Verification.thy ===== *)
theory Ledger_Verification
  imports Ledger_Chain
begin

text \<open>
  What an intact verification means. \<open>well_chained\<close> says it without the walk's state: each entry
  is compared with the entries before it, and with nothing else. The walk decides it, and an
  intact ledger is determined, entry by entry, by the newest hash of each of its chains.
\<close>

subsection \<open>The specification\<close>

definition chain_entries :: "string \<Rightarrow> ledger_entry list \<Rightarrow> ledger_entry list" where
  "chain_entries c es = filter (\<lambda>e. chain_of e = c) es"

text \<open>The bound of the newest anchor among the entries: where the next anchor's heads begin.\<close>

definition bound_of :: "ledger_entry list \<Rightarrow> int" where
  "bound_of es = foldl (\<lambda>a e. if is_anchor e \<and> bound_ok a e then the (f_through e) else a) 0 es"

definition follows :: "codec \<Rightarrow> ledger_entry list \<Rightarrow> ledger_entry \<Rightarrow> bool" where
  "follows cd before e \<longleftrightarrow>
     (let previous = last_of (chain_entries (chain_of e) before) in
        0 < e_seq e \<and> (\<forall>d \<in> set before. e_seq d < e_seq e)
      \<and> (e_chain_seq e = None \<longrightarrow> (\<forall>d \<in> set before. e_chain_seq d = None))
      \<and> position e = (case previous of None \<Rightarrow> 1 | Some p \<Rightarrow> position p + 1)
      \<and> e_prev_hash e = map_option e_hash previous
      \<and> hash_of cd e = e_hash e
      \<and> (is_anchor e \<longrightarrow> bound_ok (bound_of before) e))"

definition well_chained :: "codec \<Rightarrow> ledger_entry list \<Rightarrow> bool" where
  "well_chained cd es \<longleftrightarrow> (\<forall>i < length es. follows cd (take i es) (es ! i))"

lemma well_chained_Nil [simp]: "well_chained cd []"
  by (simp add: well_chained_def)

lemma well_chained_snoc [simp]:
  "well_chained cd (es @ [e]) \<longleftrightarrow> well_chained cd es \<and> follows cd es e"
  by (auto simp: well_chained_def nth_append less_Suc_eq)

lemma chain_entries_snoc [simp]:
  "chain_entries c (es @ [e]) = (if chain_of e = c then chain_entries c es @ [e] else chain_entries c es)"
  by (simp add: chain_entries_def)

lemma chain_entries_Nil [simp]: "chain_entries c [] = []"
  by (simp add: chain_entries_def)

lemma chain_entries_subset: "set (chain_entries c es) \<subseteq> set es"
  by (auto simp: chain_entries_def)

lemma bound_of_snoc [simp]:
  "bound_of (es @ [e]) = (if is_anchor e \<and> bound_ok (bound_of es) e then the (f_through e) else bound_of es)"
  "bound_of [] = 0"
  by (simp_all add: bound_of_def)

subsection \<open>The walk decides it\<close>

definition place_of :: "ledger_entry \<Rightarrow> place" where
  "place_of e = \<lparr>p_seq = position e, p_hash = e_hash e\<rparr>"

text \<open>What the walk's state says of the entries walked so far.\<close>

definition walk_of :: "ledger_entry list \<Rightarrow> walk_state \<Rightarrow> bool" where
  "walk_of es w \<longleftrightarrow>
     reached w = foldl max 0 (map e_seq es)
   \<and> counted w = int (length es)
   \<and> anchored w = bound_of es
   \<and> chains w = (\<lambda>c. map_option place_of (last_of (chain_entries c es)))
   \<and> (ruled w \<longleftrightarrow> (\<exists>e \<in> set es. e_chain_seq e \<noteq> None))
   \<and> seqs w = (\<lambda>c. map_option e_seq (last_of (chain_entries c es)))"

lemma foldl_max_less: "foldl max a xs < x \<longleftrightarrow> a < x \<and> (\<forall>y \<in> set xs. y < x)" for x :: int
  by (induction xs arbitrary: a) auto

lemma walk_step_simps [simp]:
  "walk_step cd w [] = w"
  "walk_step cd w (e # es) = walk_step cd (walk_one cd w e) es"
  "walk_step cd w (xs @ ys) = walk_step cd (walk_step cd w xs) ys"
  by (simp_all add: walk_step_def)

lemma walk_of_new: "walk_of [] new_walk"
  by (simp add: walk_of_def new_walk_def)

lemma walk_of_one: "walk_of es w \<Longrightarrow> walk_of (es @ [e]) (walk_one cd w e)"
  by (auto simp: walk_of_def walk_one_def place_of_def)

lemma one_findings_iff:
  "walk_of es w \<Longrightarrow> one_findings cd w e = [] \<longleftrightarrow> follows cd es e"
proof -
  assume w: "walk_of es w"
  have chain: "walk_state.chains w (chain_of e) =
      map_option place_of (last_of (chain_entries (chain_of e) es))"
    using w by (simp add: walk_of_def)
  have "e_seq e \<le> reached w \<longleftrightarrow> \<not> (0 < e_seq e \<and> (\<forall>d \<in> set es. e_seq d < e_seq e))"
    using w foldl_max_less [of 0 "map e_seq es" "e_seq e"]
    by (simp only: walk_of_def not_less [symmetric]) simp
  moreover have "ruled w \<longleftrightarrow> \<not> (\<forall>d \<in> set es. e_chain_seq d = None)" "anchored w = bound_of es"
    using w by (auto simp: walk_of_def)
  ultimately show ?thesis
    by (cases "last_of (chain_entries (chain_of e) es)")
      (simp_all only: one_findings_def follows_def Let_def chain option.simps place_of_def
        place.select_convs append_is_Nil_conv not_Cons_self2 if_split_eq1, auto)
qed

lemma findings_walk_one [simp]:
  "findings (walk_one cd w e) = findings w @ one_findings cd w e"
  by (simp add: walk_one_def)

lemma walk_of_step:
  "walk_of es w \<Longrightarrow> walk_of (es @ ds) (walk_step cd w ds)"
proof (induction ds arbitrary: es w)
  case (Cons d ds)
  from Cons.IH [OF walk_of_one [OF Cons.prems]] show ?case by simp
qed simp

lemma findings_walk_step:
  "findings (walk_step cd new_walk es) = [] \<longleftrightarrow> well_chained cd es"
proof (induction es rule: rev_induct)
  case Nil
  show ?case by (simp add: new_walk_def)
next
  case (snoc e es)
  have "walk_of es (walk_step cd new_walk es)"
    using walk_of_step [OF walk_of_new] by simp
  with snoc show ?case by (simp add: one_findings_iff)
qed

lemma verify_sel:
  "v_intact (verify cd es) \<longleftrightarrow> well_chained cd es"
  "v_entries (verify cd es) = int (length es)"
  by (simp_all add: verify_def Let_def findings_walk_step)

text \<open>verification reports a ledger intact exactly when every entry follows from the entries
  before it: its sequence number rises, its place and \<open>prev_hash\<close> continue its chain, its hash is
  its content's, an anchor is bounded, and no entry of the old rule follows one of the new.\<close>

theorem verify_intact_iff:
  "v_intact (verify cd es) \<longleftrightarrow> well_chained cd es"
  by (rule verify_sel)

subsection \<open>A chain is determined by its newest hash\<close>

fun linked :: "codec \<Rightarrow> ledger_entry option \<Rightarrow> ledger_entry list \<Rightarrow> bool" where
  "linked cd previous [] \<longleftrightarrow> True"
| "linked cd previous (e # es) \<longleftrightarrow>
     position e = (case previous of None \<Rightarrow> 1 | Some p \<Rightarrow> position p + 1)
   \<and> e_prev_hash e = map_option e_hash previous
   \<and> hash_of cd e = e_hash e
   \<and> linked cd (Some e) es"

lemma linked_snoc:
  "linked cd previous (es @ [e]) \<longleftrightarrow> linked cd previous es
   \<and> (let p = (if es = [] then previous else Some (last es)) in
        position e = (case p of None \<Rightarrow> 1 | Some p \<Rightarrow> position p + 1)
      \<and> e_prev_hash e = map_option e_hash p \<and> hash_of cd e = e_hash e)"
  by (induction cd previous es rule: linked.induct) (auto simp: Let_def)

lemma well_chained_linked: "well_chained cd es \<Longrightarrow> linked cd None (chain_entries c es)"
  by (induction es rule: rev_induct)
    (auto simp: linked_snoc follows_def Let_def last_of_def)

lemma linked_hash: "linked cd previous es \<Longrightarrow> e \<in> set es \<Longrightarrow> hash_of cd e = e_hash e"
  by (induction cd previous es rule: linked.induct) auto

lemma content_of_sel:
  assumes "content_of e = content_of d"
  shows "e_seq e = e_seq d" "e_prev_hash e = e_prev_hash d" "chain_of e = chain_of d"
    "position e = position d" "f_kind e = f_kind d"
proof -
  have fields: "e_seq (content_of x) = e_seq x" "e_prev_hash (content_of x) = e_prev_hash x"
    "chain_of (content_of x) = chain_of x" "position (content_of x) = position x"
    "f_kind (content_of x) = f_kind x" for x
    by (simp_all add: content_of_def chain_of_def chain_name_def position_def split: option.split)
  show "e_seq e = e_seq d" "e_prev_hash e = e_prev_hash d" "chain_of e = chain_of d"
    "position e = position d" "f_kind e = f_kind d"
    using assms by (metis fields)+
qed

definition no_collision :: "codec \<Rightarrow> ledger_entry set \<Rightarrow> bool" where
  "no_collision cd A \<longleftrightarrow>
     inj_on (sha256 cd) ((\<lambda>e. canonical (entry_document (ts_text cd) e)) ` A)"

lemma hash_content:
  assumes "inj (ts_text cd)" "\<forall>x \<in> A. entry_floats_ok x" "no_collision cd A"
    and "e \<in> A" "d \<in> A" "hash_of cd e = hash_of cd d"
  shows "content_of e = content_of d"
proof -
  have "sha256 cd (canonical (entry_document (ts_text cd) e)) =
      sha256 cd (canonical (entry_document (ts_text cd) d))"
    using assms(6) by (simp only: hash_of_def digest_def append_same_eq same_append_eq)
  then have "canonical (entry_document (ts_text cd) e) = canonical (entry_document (ts_text cd) d)"
    using assms(3-5) unfolding no_collision_def by (blast dest: inj_onD)
  then show ?thesis
    using canonical_entry_inject assms(1,2,4,5) by blast
qed

lemma linked_unique:
  assumes "\<And>e d. e \<in> A \<Longrightarrow> d \<in> A \<Longrightarrow> hash_of cd e = hash_of cd d \<Longrightarrow> content_of e = content_of d"
    and "linked cd None xs" "linked cd None ys" "set xs \<subseteq> A" "set ys \<subseteq> A"
    and "map_option e_hash (last_of xs) = map_option e_hash (last_of ys)"
  shows "map content_of xs = map content_of ys"
  using assms
proof (induction xs arbitrary: ys rule: rev_induct)
  case Nil
  then show ?case by (simp add: last_of_def split: if_splits)
next
  case (snoc x xs)
  have "ys \<noteq> []" using snoc.prems(6) by auto
  then obtain ys' y where ys: "ys = ys' @ [y]"
    by (cases ys rule: rev_cases) simp_all
  have x: "linked cd None xs" "e_prev_hash x = map_option e_hash (last_of xs)" "hash_of cd x = e_hash x"
    using snoc.prems(2) by (auto simp: linked_snoc Let_def last_of_def)
  have y: "linked cd None ys'" "e_prev_hash y = map_option e_hash (last_of ys')" "hash_of cd y = e_hash y"
    using snoc.prems(3) ys by (auto simp: linked_snoc Let_def last_of_def)
  have "x \<in> A" "y \<in> A" "e_hash x = e_hash y" using snoc.prems(4-6) ys by auto
  then have c: "content_of x = content_of y"
    by (intro snoc.prems(1)) (simp_all only: x(3) y(3))
  from content_of_sel(2) [OF this] x(2) y(2) have "map_option e_hash (last_of xs) = map_option e_hash (last_of ys')"
    by simp
  then have "map content_of xs = map content_of ys'"
    using snoc.prems(4,5) ys by (intro snoc.IH [OF snoc.prems(1) x(1) y(1)]) auto
  with c ys show ?case by simp
qed

lemma well_chained_seqs: "well_chained cd es \<Longrightarrow> sorted (map e_seq es) \<and> distinct (map e_seq es)"
  by (induction es rule: rev_induct) (auto simp: sorted_append follows_def Let_def intro: less_imp_le)

lemma set_by_chain: "set es = (\<Union>c. set (chain_entries c es))"
  by (auto simp: chain_entries_def)

text \<open>Two entries that differ in the order of a dict's keys, for the witness.\<close>

definition sample_entry :: "bool \<Rightarrow> ledger_entry" where
  "sample_entry swapped = link sample_codec None (sample_fact ''run.started'' swapped) 5 None False"

lemma sample_entry_intact: "v_intact (verify sample_codec [sample_entry swapped])"
  by (simp add: verify_sel well_chained_def follows_def Let_def sample_entry_def is_anchor_def
      sample_fact_def ANCHORED_def)

lemma sample_entry_document:
  "filter (\<lambda>(k, _). k \<noteq> ''hash'') (entry_document show_int (sample_entry swapped)) =
     [(''seq'', JInt 1), (''ts'', JStr (show_int 5)), (''kind'', JStr ''run.started''),
      (''refs'', JObj [(''run_id'', JStr ''run_1'')]), (''method'', JStr ''rule''),
      (''consumption'', JObj (if swapped then [(''b'', JInt 2), (''a'', JInt 1)]
                              else [(''a'', JInt 1), (''b'', JInt 2)])),
      (''chain_seq'', JInt 1), (''prev_hash'', JNull)]"
  by (simp add: entry_document_def sample_entry_def link_def link_unhashed_def fact.defs
      ledger_entry.defs sample_fact_def refs_document_def field_of_def flag_def no_refs_def Let_def)

lemma sample_entry_canonical:
  "canonical (entry_document show_int (sample_entry True)) = canonical (entry_document show_int (sample_entry False))"
  unfolding canonical_def sample_entry_document
  by simp

lemma sample_entry_hash: "e_hash (sample_entry True) = e_hash (sample_entry False)"
proof -
  have "e_hash (sample_entry b) = hash_of sample_codec (sample_entry b)" for b
    by (simp add: sample_entry_def)
  then show ?thesis using sample_entry_canonical by (simp add: hash_of_def sample_codec_def)
qed

text \<open>C5: tamper evidence. Two ledgers that both verify, and whose chains end in the same hashes,
  carry the same entries, as long as the digest has no collision among their canonical forms.\<close>

theorem ledger_determined_by_heads:
  assumes "v_intact (verify cd es)" "v_intact (verify cd ds)"
    and "\<And>c. map_option e_hash (last_of (chain_entries c es)) =
              map_option e_hash (last_of (chain_entries c ds))"
    and "inj (ts_text cd)" "\<forall>e \<in> set es \<union> set ds. entry_floats_ok e"
    and "no_collision cd (set es \<union> set ds)"
  shows "map content_of es = map content_of ds"
proof (rule map_sorted_distinct_set_unique)
  have es: "well_chained cd es" and ds: "well_chained cd ds"
    using assms(1,2) by (simp_all add: verify_sel)
  have same: "map content_of (chain_entries c es) = map content_of (chain_entries c ds)" for c
  proof (rule linked_unique)
    show "content_of e = content_of d"
      if "e \<in> set es \<union> set ds" "d \<in> set es \<union> set ds" "hash_of cd e = hash_of cd d" for e d
      using hash_content [OF assms(4-6) that] .
  qed (use well_chained_linked es ds assms(3) chain_entries_subset in blast)+
  have img: "content_of ` set (chain_entries c es) = content_of ` set (chain_entries c ds)" for c
    using arg_cong [OF same [of c], of set] by simp
  have union: "content_of ` set xs = (\<Union>c. content_of ` set (chain_entries c xs))" for xs
    by (subst set_by_chain) (rule image_UN)
  have "content_of ` set es = content_of ` set ds"
    unfolding union [of es] union [of ds] img ..
  then show sets: "set (map content_of es) = set (map content_of ds)" by simp
  have seq: "map e_seq (map content_of xs) = map e_seq xs" for xs
    by (simp add: content_of_def comp_def)
  show "sorted (map e_seq (map content_of es))" "distinct (map e_seq (map content_of es))"
    "sorted (map e_seq (map content_of ds))" "distinct (map e_seq (map content_of ds))"
    unfolding seq using well_chained_seqs es ds by auto
  then show "inj_on e_seq (set (map content_of es) \<union> set (map content_of ds))"
    by (simp only: sets Un_absorb distinct_map)
qed

theorem ledger_determined_by_heads_witness:
  "sample_entry True \<noteq> sample_entry False \<and>
   map content_of [sample_entry True] = map content_of [sample_entry False]"
proof
  have "f_consumption (sample_entry b) = f_consumption (sample_fact ''run.started'' b)" for b
    by (simp add: sample_entry_def link_def Let_def link_unhashed_def fact.defs)
  then show "sample_entry True \<noteq> sample_entry False"
    by (auto simp: sample_fact_def dest!: arg_cong [of _ _ f_consumption])
  show "map content_of [sample_entry True] = map content_of [sample_entry False]"
  proof (rule ledger_determined_by_heads [of sample_codec])
    show "map_option e_hash (last_of (chain_entries c [sample_entry True])) =
        map_option e_hash (last_of (chain_entries c [sample_entry False]))" for c
    proof -
      have "chain_of (sample_entry True) = chain_of (sample_entry False)"
        by (simp add: sample_entry_def chain_for_def sample_fact_def)
      then show ?thesis by (simp add: chain_entries_def sample_entry_hash last_of_def)
    qed
    show "\<forall>e \<in> set [sample_entry True] \<union> set [sample_entry False]. entry_floats_ok e"
      by (simp add: entry_floats_ok_def sample_entry_def link_def Let_def link_unhashed_def fact.defs
          sample_fact_def)
    show "no_collision sample_codec (set [sample_entry True] \<union> set [sample_entry False])"
      unfolding no_collision_def by (rule inj_on_subset [OF inj_sample(1)]) simp
  qed (simp_all only: sample_entry_intact inj_sample)
qed

end
