(* ===== verification/Ledger_Store.thy ===== *)
theory Ledger_Store
  imports Ledger_Merkle Ledger_Verification
begin

text \<open>
  The ledger store in memory (\<open>adapters/driven/memory/ledger_store.py\<close>) as one transaction of one
  tenant sees it: the entries committed and the entries the transaction appended. A query reads
  both, in that order. The claim a query takes on the tenant's chain is what keeps a second
  transaction from appending meanwhile, so that the view below is stable; here it has no value.
\<close>

record ledger_store =
  committed :: "ledger_entry list"
  appended :: "ledger_entry list"
  spoilt :: bool

datatype store_error = Duplicate_Sequence int

definition entries :: "ledger_store \<Rightarrow> ledger_entry list" where
  "entries s = committed s @ appended s"

definition append_entry :: "ledger_store \<Rightarrow> ledger_entry \<Rightarrow> (store_error + unit) \<times> ledger_store" where
  "append_entry s e =
     (if e_seq e \<in> e_seq ` set (committed s) \<union> e_seq ` set (appended s)
      then (Inl (Duplicate_Sequence (e_seq e)), s\<lparr>spoilt := True\<rparr>)
      else (Inr (), s\<lparr>appended := appended s @ [e]\<rparr>))"

definition last_in :: "ledger_store \<Rightarrow> string \<Rightarrow> ledger_entry option" where
  "last_in s c = last_of (filter (\<lambda>e. chain_name e = c) (entries s))"

definition allocate :: "ledger_store \<Rightarrow> int" where
  "allocate s = (case last_of (entries s) of None \<Rightarrow> 0 | Some e \<Rightarrow> e_seq e) + 1"

definition in_chain :: "ledger_store \<Rightarrow> string \<Rightarrow> int \<Rightarrow> ledger_entry option" where
  "in_chain s c place =
     List.find (\<lambda>e. chain_name e = c
                    \<and> (case e_chain_seq e of None \<Rightarrow> e_seq e | Some p \<Rightarrow> p) = place) (entries s)"

text \<open>\<open>heads\<close>: the newest entry of each run's chain between two sequence numbers, ordered by chain.\<close>

definition newest_by_chain :: "ledger_entry list \<Rightarrow> string \<rightharpoonup> ledger_entry" where
  "newest_by_chain es = foldl (\<lambda>newest e. newest(chain_name e \<mapsto> e)) Map.empty es"

definition heads_of :: "ledger_entry list \<Rightarrow> int \<Rightarrow> int \<Rightarrow> ledger_entry list" where
  "heads_of es after through =
     (let found = filter (\<lambda>e. after < e_seq e \<and> e_seq e \<le> through \<and> chain_name e \<noteq> []) es
      in map (\<lambda>c. the (newest_by_chain found c)) (sort (remdups (map chain_name found))))"

definition heads :: "ledger_store \<Rightarrow> int \<Rightarrow> int \<Rightarrow> ledger_entry list" where
  "heads s after through = heads_of (entries s) after through"

definition of_run :: "ledger_store \<Rightarrow> string \<Rightarrow> ledger_entry list" where
  "of_run s run = filter (\<lambda>e. r_run_id (f_refs e) = Some run) (entries s)"

definition of_runs :: "ledger_store \<Rightarrow> string list \<Rightarrow> string list \<Rightarrow> ledger_entry list" where
  "of_runs s runs kinds =
     filter (\<lambda>e. (case r_run_id (f_refs e) of None \<Rightarrow> False | Some run \<Rightarrow> run \<in> set runs)
                 \<and> f_kind e \<in> set kinds) (entries s)"

definition of_kinds_since ::
  "ledger_store \<Rightarrow> string list \<Rightarrow> moment option \<Rightarrow> moment option \<Rightarrow> ledger_entry list" where
  "of_kinds_since s kinds since until =
     filter (\<lambda>e. f_kind e \<in> set kinds
                 \<and> (case since of None \<Rightarrow> True | Some t \<Rightarrow> e_ts e \<ge> t)
                 \<and> (case until of None \<Rightarrow> True | Some t \<Rightarrow> e_ts e \<le> t)) (entries s)"

record kind_summary =
  k_total :: int
  k_since :: int
  k_first :: "moment option"
  k_latest :: "ledger_entry option"

definition summary :: "ledger_store \<Rightarrow> string \<Rightarrow> moment \<Rightarrow> kind_summary" where
  "summary s kind since =
     (let of_kind = filter (\<lambda>e. f_kind e = kind) (entries s)
      in \<lparr>k_total = int (length of_kind),
          k_since = int (length (filter (\<lambda>e. e_ts e \<ge> since) of_kind)),
          k_first = (case of_kind of [] \<Rightarrow> None | e # _ \<Rightarrow> Some (e_ts e)),
          k_latest = last_of of_kind\<rparr>)"

text \<open>\<open>version.split("@", 1)[0]\<close>: the process a version names.\<close>

definition process_of :: "string \<Rightarrow> string" where
  "process_of version = takeWhile (\<lambda>c. c \<noteq> CHR ''@'') version"

definition of_version :: "ledger_entry \<Rightarrow> string \<Rightarrow> string list \<Rightarrow> bool" where
  "of_version e process kinds \<longleftrightarrow>
     f_kind e \<in> set kinds \<and> \<not> f_rehearsal e
     \<and> (case r_process_version (f_refs e) of None \<Rightarrow> False | Some v \<Rightarrow> process_of v = process)"

definition of_process :: "ledger_store \<Rightarrow> string \<Rightarrow> string list \<Rightarrow> moment \<Rightarrow> ledger_entry list" where
  "of_process s process kinds since =
     filter (\<lambda>e. of_version e process kinds \<and> e_ts e \<ge> since) (entries s)"

definition latest_of_process ::
  "ledger_store \<Rightarrow> string \<Rightarrow> string list \<Rightarrow> moment \<Rightarrow> ledger_entry option" where
  "latest_of_process s process kinds at_or_before =
     last_of (filter (\<lambda>e. of_version e process kinds \<and> e_ts e \<le> at_or_before) (entries s))"

definition head_seq :: "ledger_entry list \<Rightarrow> int" where
  "head_seq es = (case last_of es of None \<Rightarrow> 0 | Some e \<Rightarrow> e_seq e)"

definition stable_head :: "ledger_store \<Rightarrow> int" where
  "stable_head s = head_seq (entries s)"

definition wanted :: "int \<Rightarrow> int option \<Rightarrow> string list option \<Rightarrow> ledger_entry \<Rightarrow> bool" where
  "wanted seq through kinds e \<longleftrightarrow>
     e_seq e > seq
     \<and> (case through of None \<Rightarrow> True | Some t \<Rightarrow> e_seq e \<le> t)
     \<and> (case kinds of None \<Rightarrow> True | Some ks \<Rightarrow> f_kind e \<in> set ks)"

definition after_seq ::
  "ledger_store \<Rightarrow> int \<Rightarrow> nat \<Rightarrow> string list option \<Rightarrow> int option \<Rightarrow> ledger_entry list" where
  "after_seq s seq limit kinds through = take limit (filter (wanted seq through kinds) (entries s))"

definition position_of :: "ledger_store \<Rightarrow> string \<Rightarrow> int option" where
  "position_of s hash = map_option e_seq (List.find (\<lambda>e. e_hash e = hash) (entries s))"

subsection \<open>What the queries return\<close>

definition rising :: "ledger_entry list \<Rightarrow> bool" where
  "rising es \<longleftrightarrow> sorted_wrt (<) (0 # map e_seq es)"

lemma rising_Nil [simp]: "rising []"
  by (simp add: rising_def)

lemma rising_snoc [simp]: "rising (es @ [e]) \<longleftrightarrow> rising es \<and> head_seq es < e_seq e"
proof (cases es rule: rev_cases)
  case (snoc ys y)
  then show ?thesis
    by (fastforce simp: rising_def head_seq_def sorted_wrt_append)
qed (simp add: rising_def head_seq_def)

lemma rising_append: "rising (xs @ ys) \<Longrightarrow> rising xs"
  by (auto simp: rising_def sorted_wrt_append)

lemma rising_distinct: "rising es \<Longrightarrow> distinct es"
  by (induction es rule: rev_induct) (fastforce simp: rising_def sorted_wrt_append)+

lemma rising_head: "rising es \<Longrightarrow> e \<in> set es \<Longrightarrow> 0 < e_seq e \<and> e_seq e \<le> head_seq es"
  by (induction es rule: rev_induct) (auto simp: head_seq_def rising_def sorted_wrt_append)

lemma head_seq_simps [simp]: "head_seq [] = 0" "head_seq (es @ [e]) = e_seq e"
  by (simp_all add: head_seq_def)

lemma rising_head_nonneg: "rising es \<Longrightarrow> 0 \<le> head_seq es"
  by (cases es rule: rev_cases) (auto simp: rising_def sorted_wrt_append)

lemma rising_prefix_seq:
  "rising (xs @ ys) \<Longrightarrow> x \<in> set xs \<Longrightarrow> y \<in> set ys \<Longrightarrow> e_seq x < e_seq y"
  by (auto simp: rising_def sorted_wrt_append)

lemma last_in_chain_entries: "last_in s c = last_of (chain_entries c (entries s))"
  by (simp add: last_in_def chain_entries_def chain_of_def)

lemma allocate_head: "allocate s = head_seq (entries s) + 1"
  by (simp add: allocate_def head_seq_def)

lemma newest_by_chain: "newest_by_chain es c = last_of (chain_entries c es)"
  by (induction es rule: rev_induct) (auto simp: newest_by_chain_def chain_of_def)

lemma append_entry_fresh:
  "rising (entries s) \<Longrightarrow> head_seq (entries s) < e_seq e \<Longrightarrow>
   append_entry s e = (Inr (), s\<lparr>appended := appended s @ [e]\<rparr>)"
  using rising_head [of "entries s"] by (fastforce simp: append_entry_def entries_def)

lemma heads_of_prefix:
  "\<forall>e \<in> set ys. through < e_seq e \<Longrightarrow> heads_of (xs @ ys) after through = heads_of xs after through"
proof -
  assume "\<forall>e \<in> set ys. through < e_seq e"
  then have "filter (\<lambda>e. after < e_seq e \<and> e_seq e \<le> through \<and> chain_name e \<noteq> []) ys = []"
    by (auto simp: filter_empty_conv)
  then show ?thesis by (simp only: heads_of_def filter_append append_Nil2)
qed

text \<open>the store answers each chain's newest entry in the span asked about, once each and in
  the order of the chains' names, and no entry of the tenant's own chain.\<close>

theorem heads_of_newest:
  "sorted (map chain_name (heads_of es after through)) \<and>
   distinct (map chain_name (heads_of es after through)) \<and>
   (e \<in> set (heads_of es after through) \<longleftrightarrow>
      chain_name e \<noteq> [] \<and>
      last_of (filter (\<lambda>d. after < e_seq d \<and> e_seq d \<le> through) (chain_entries (chain_name e) es))
        = Some e)"
proof -
  let ?span = "\<lambda>d. after < e_seq d \<and> e_seq d \<le> through"
  let ?found = "filter (\<lambda>d. ?span d \<and> chain_name d \<noteq> []) es"
  have heads: "heads_of es after through =
      map (\<lambda>c. the (last_of (chain_entries c ?found))) (sort (remdups (map chain_name ?found)))"
    by (simp add: heads_of_def Let_def newest_by_chain conj_assoc)
  have part: "chain_entries c ?found = filter ?span (chain_entries c es)" if "c \<noteq> []" for c
    using that by (auto simp: chain_entries_def chain_of_def intro: filter_cong)
  have name: "chain_name (the (last_of (chain_entries c ?found))) = c"
    if "c \<in> set (map chain_name ?found)" for c
  proof -
    have "chain_entries c ?found \<noteq> []"
      using that by (auto simp: chain_entries_def chain_of_def filter_empty_conv)
    then have "last (chain_entries c ?found) \<in> set (chain_entries c ?found)" by simp
    with \<open>chain_entries c ?found \<noteq> []\<close> show ?thesis
      by (auto simp: last_of_def chain_entries_def chain_of_def)
  qed
  then have names: "map chain_name (heads_of es after through) = sort (remdups (map chain_name ?found))"
    unfolding heads map_map
    by (intro map_idI) (simp only: comp_apply set_sort set_remdups)
  have "e \<in> set (heads_of es after through) \<longleftrightarrow>
    (\<exists>c \<in> set (map chain_name ?found). e = the (last_of (chain_entries c ?found)))"
    unfolding heads by (simp only: set_map set_sort set_remdups image_iff)
  also have "\<dots> \<longleftrightarrow> chain_name e \<in> set (map chain_name ?found)
      \<and> e = the (last_of (chain_entries (chain_name e) ?found))"
    by (rule iffI, elim bexE, use name in fastforce, blast)
  also have "\<dots> \<longleftrightarrow> chain_name e \<noteq> [] \<and> last_of (chain_entries (chain_name e) ?found) = Some e"
  proof -
    have "c \<in> set (map chain_name ?found) \<longleftrightarrow> c \<noteq> [] \<and> chain_entries c ?found \<noteq> []" for c
      by (auto simp: chain_entries_def chain_of_def filter_empty_conv)
    then show ?thesis by (cases "last_of (chain_entries (chain_name e) ?found)") auto
  qed
  also have "\<dots> \<longleftrightarrow> chain_name e \<noteq> [] \<and> last_of (filter ?span (chain_entries (chain_name e) es)) = Some e"
    using part by auto
  finally show ?thesis unfolding names by simp
qed

subsection \<open>The store as an interface\<close>

text \<open>What the ledger's service relies on: an append of an entry numbered after all others only
  adds it at the end.\<close>

locale append_only =
  fixes view :: "'s \<Rightarrow> ledger_entry list"
    and add :: "'s \<Rightarrow> ledger_entry \<Rightarrow> (store_error + unit) \<times> 's"
  assumes add_fresh: "rising (view s) \<Longrightarrow> head_seq (view s) < e_seq e \<Longrightarrow>
      fst (add s e) = Inr () \<and> view (snd (add s e)) = view s @ [e]"
    and add_taken: "e_seq e \<in> e_seq ` set (view s) \<Longrightarrow>
      fst (add s e) = Inl (Duplicate_Sequence (e_seq e)) \<and> view (snd (add s e)) = view s"
begin

lemma add_rising:
  "rising (view s) \<Longrightarrow> head_seq (view s) < e_seq e \<Longrightarrow> rising (view (snd (add s e)))"
  using add_fresh by simp

lemma add_keeps: "rising (view s) \<Longrightarrow> head_seq (view s) < e_seq e \<or> e_seq e \<in> e_seq ` set (view s) \<Longrightarrow>
   \<exists>ys. view (snd (add s e)) = view s @ ys"
  using add_fresh add_taken by (metis append_Nil2)

end

interpretation memory: append_only entries append_entry
  by unfold_locales (auto simp: append_entry_fresh, auto simp: append_entry_def entries_def)

end
