(* ===== verification/Ledger_Service.thy ===== *)
theory Ledger_Service
  imports Ledger_Store
begin

text \<open>
  The ledger port over the store (\<open>ledger/application/service/chained_ledger.py\<close>) inside one unit
  of work: recording, anchoring, reading in batches, projections and the verification with its
  checkpoint. The state is the ledger store and the projection store
  (\<open>adapters/driven/memory/projection_store.py\<close>); no projection store at all is None. The clock's
  reading is an argument.

  A projection's value is stored as a JSON document. Copying a document through its JSON text
  returns it unchanged, so \<open>_beyond\<close>'s copy is \<open>load (dump state)\<close>.
\<close>

subsection \<open>The state\<close>

record projected =
  j_seq :: int
  j_state :: json

record ledger_service =
  ls_store :: ledger_store
  ls_projected :: "(string \<rightharpoonup> projected) option"

definition ls_entries :: "ledger_service \<Rightarrow> ledger_entry list" where
  "ls_entries s = entries (ls_store s)"

definition read_projected :: "ledger_service \<Rightarrow> string \<Rightarrow> projected option" where
  "read_projected s name = (case ls_projected s of None \<Rightarrow> None | Some m \<Rightarrow> m name)"

text \<open>\<open>MemoryProjectionStore.write\<close>: without \<open>replace\<close>, what read further stays.\<close>

definition store_projected ::
  "(string \<rightharpoonup> projected) \<Rightarrow> string \<Rightarrow> projected \<Rightarrow> bool \<Rightarrow> (string \<rightharpoonup> projected)" where
  "store_projected m name v rep =
     (case m name of
        None \<Rightarrow> m(name \<mapsto> v)
      | Some p \<Rightarrow> if \<not> rep \<and> j_seq p \<ge> j_seq v then m else m(name \<mapsto> v))"

definition write_projected ::
  "ledger_service \<Rightarrow> string \<Rightarrow> int \<Rightarrow> json \<Rightarrow> bool \<Rightarrow> ledger_service" where
  "write_projected s name seq state rep =
     s\<lparr>ls_projected := map_option
          (\<lambda>m. store_projected m name \<lparr>j_seq = seq, j_state = state\<rparr> rep) (ls_projected s)\<rparr>"

subsection \<open>Recording and anchoring\<close>

definition record_fact ::
  "codec \<Rightarrow> ledger_service \<Rightarrow> fact \<Rightarrow> moment \<Rightarrow> bool \<Rightarrow>
   (store_error + ledger_entry) \<times> ledger_service" where
  "record_fact cd s f now in_order =
     (let previous = last_in (ls_store s) (chain_for f in_order);
          seq = allocate (ls_store s);
          e = link cd previous f now (Some seq) in_order
      in case append_entry (ls_store s) e of
           (Inl err, st) \<Rightarrow> (Inl err, s\<lparr>ls_store := st\<rparr>)
         | (Inr _, st) \<Rightarrow> (Inr e, s\<lparr>ls_store := st\<rparr>))"

definition head_of :: "ledger_entry \<Rightarrow> head" where
  "head_of e = \<lparr>h_chain = chain_of e, h_position = position e, h_hash = e_hash e\<rparr>"

definition root_of :: "codec \<Rightarrow> ledger_store \<Rightarrow> int \<Rightarrow> int \<Rightarrow> string option" where
  "root_of cd st after through = merkle_root cd (map head_of (heads st after through))"

definition anchor_fact :: "string \<Rightarrow> string \<Rightarrow> int \<Rightarrow> fact" where
  "anchor_fact tenant root through =
     \<lparr>f_kind = ANCHORED, f_refs = no_refs\<lparr>r_tenant := Some tenant\<rparr>, f_method = None,
      f_model = None, f_adapter = None, f_consumption = None, f_outcome = Some ''anchored'',
      f_duration_seconds = None, f_content_digest = Some root, f_rehearsal = False,
      f_through = Some through\<rparr>"

definition SINCE_EVER :: moment where "SINCE_EVER = 0"

definition anchored_through :: "ledger_store \<Rightarrow> int" where
  "anchored_through st =
     (case k_latest (summary st ANCHORED SINCE_EVER) of
        None \<Rightarrow> 0
      | Some e \<Rightarrow> (case f_through e of None \<Rightarrow> 0 | Some t \<Rightarrow> t))"

definition anchor ::
  "codec \<Rightarrow> string \<Rightarrow> ledger_service \<Rightarrow> moment \<Rightarrow>
   (store_error + ledger_entry option) \<times> ledger_service" where
  "anchor cd tenant s now =
     (let through = stable_head (ls_store s);
          after = anchored_through (ls_store s)
      in if through \<le> after then (Inr None, s)
         else case root_of cd (ls_store s) after through of
                None \<Rightarrow> (Inr None, s)
              | Some root \<Rightarrow>
                  (case record_fact cd s (anchor_fact tenant root through) now False of
                     (Inl err, s') \<Rightarrow> (Inl err, s')
                   | (Inr e, s') \<Rightarrow> (Inr (Some e), s')))"

subsection \<open>Reading in batches\<close>

definition BATCH :: nat where "BATCH = 5000"

text \<open>\<open>_batches\<close>: the size of a batch is an argument, so that a small example has several. Each
  batch ends beyond the number it was asked after, so the reads end.\<close>

function batches_of ::
  "nat \<Rightarrow> ledger_store \<Rightarrow> int \<Rightarrow> int option \<Rightarrow> string list option \<Rightarrow> ledger_entry list list" where
  "batches_of batch_size st seq through kinds =
     (let batch = after_seq st seq batch_size kinds through
      in (if batch \<noteq> [] then [batch] else [])
         @ (if length batch < batch_size \<or> batch = [] then []
            else batches_of batch_size st (e_seq (last batch)) through kinds))"
  by pat_completeness auto

lemma after_seq_wanted: "e \<in> set (after_seq st seq limit kinds through) \<Longrightarrow> wanted seq through kinds e"
  by (auto simp: after_seq_def dest: in_set_takeD)

lemma after_seq_entry: "e \<in> set (after_seq st seq limit kinds through) \<Longrightarrow> e \<in> set (entries st)"
  by (auto simp: after_seq_def dest: in_set_takeD)

termination batches_of
proof (relation "measure (\<lambda>(batch_size, st, seq, through, kinds). length (filter (\<lambda>e. e_seq e > seq) (entries st)))",
    goal_cases)
  case (2 batch_size st seq through kinds batch)
  then have "last batch \<in> set batch" by simp
  then have "last batch \<in> set (after_seq st seq batch_size kinds through)" using 2 by simp
  from after_seq_entry [OF this] after_seq_wanted [OF this]
  have in_es: "last batch \<in> set (entries st)" and more: "e_seq (last batch) > seq"
    by (simp_all add: wanted_def)
  let ?P = "\<lambda>n e. e_seq e > n"
  have "filter (?P (e_seq (last batch))) (entries st) =
      filter (?P (e_seq (last batch))) (filter (?P seq) (entries st))"
    using more by (auto intro: filter_cong)
  moreover have "length (filter (?P (e_seq (last batch))) (filter (?P seq) (entries st)))
      < length (filter (?P seq) (entries st))"
    by (rule length_filter_less [of "last batch"]) (use in_es more in auto)
  ultimately show ?case by simp
qed simp

declare batches_of.simps [simp del]

definition batches ::
  "ledger_store \<Rightarrow> int \<Rightarrow> int option \<Rightarrow> string list option \<Rightarrow> ledger_entry list list" where
  "batches = batches_of BATCH"

definition of_kinds ::
  "ledger_service \<Rightarrow> string list \<Rightarrow> moment option \<Rightarrow> moment option \<Rightarrow> ledger_entry list" where
  "of_kinds s kinds since until =
     (if since \<noteq> None \<or> until \<noteq> None then of_kinds_since (ls_store s) kinds since until
      else concat (batches (ls_store s) 0 None (Some kinds)))"

lemma rising_tail_wanted:
  assumes "rising es" "filter (wanted seq through kinds) es = xs @ e # ys"
  shows "filter (wanted (e_seq e) through kinds) es = ys"
proof -
  have more: "seq < e_seq e"
  proof -
    have "e \<in> set (filter (wanted seq through kinds) es)" using assms(2) by simp
    then show ?thesis by (simp add: wanted_def)
  qed
  have "filter (wanted (e_seq e) through kinds) es =
      filter (\<lambda>d. e_seq e < e_seq d) (filter (wanted seq through kinds) es)"
    using more by (auto simp: wanted_def intro: filter_cong)
  also have "\<dots> = filter (\<lambda>d. e_seq e < e_seq d) (xs @ e # ys)" by (simp only: assms(2))
  also have "\<dots> = ys"
  proof -
    have "sorted_wrt (\<lambda>c d. e_seq c < e_seq d) (filter (wanted seq through kinds) es)"
      using assms(1) by (auto simp: rising_def sorted_wrt_map intro: sorted_wrt_filter)
    then have "\<forall>x \<in> set xs. e_seq x < e_seq e" "\<forall>y \<in> set ys. e_seq e < e_seq y"
      unfolding assms(2) by (auto simp: sorted_wrt_append)
    then show ?thesis by (fastforce simp: filter_empty_conv filter_id_conv)
  qed
  finally show ?thesis .
qed

lemma concat_batches_of:
  assumes "0 < batch_size" "rising (entries st)"
  shows "concat (batches_of batch_size st seq through kinds) = filter (wanted seq through kinds) (entries st)"
  using assms
proof (induction batch_size st seq through kinds rule: batches_of.induct)
  case (1 batch_size st seq through kinds)
  let ?all = "filter (wanted seq through kinds) (entries st)"
  let ?batch = "after_seq st seq batch_size kinds through"
  show ?case
  proof (cases "length ?batch < batch_size \<or> ?batch = []")
    case True
    then have "?batch = ?all" using "1.prems"(1) by (auto simp: after_seq_def)
    then show ?thesis
      using True by (subst batches_of.simps) (simp add: Let_def)
  next
    case False
    then have "?batch = butlast ?batch @ [last ?batch]" by simp
    moreover have take: "?all = ?batch @ drop batch_size ?all" by (simp add: after_seq_def)
    ultimately have "?all = butlast ?batch @ last ?batch # drop batch_size ?all"
      by (metis append.assoc append_Cons append_Nil)
    from rising_tail_wanted [OF "1.prems"(2) this] "1.IH" [OF refl False "1.prems"]
    have "concat (batches_of batch_size st (e_seq (last ?batch)) through kinds) = drop batch_size ?all"
      by simp
    with False take show ?thesis by (subst batches_of.simps) (simp add: Let_def)
  qed
qed

end
