(* ===== verification/Ledger_Audit.thy ===== *)
theory Ledger_Audit
  imports Ledger_Service
begin

text \<open>
  The verification of a tenant's whole ledger (\<open>ChainedLedger.verify\<close>): in batches, from its
  checkpoint on, the predecessors of chains met in the middle read from the store, each anchor
  compared with the heads it covers. The main results: a full verification is intact exactly when
  the ledger is \<open>sound\<close>; every ledger the service itself wrote is sound; and on such a ledger the
  verification from the checkpoint answers as the full one does.
\<close>

definition CHECKPOINT :: string where "CHECKPOINT = ''ledger.verified''"

text \<open>The fields of a checkpoint's document, which only \<open>verify\<close> writes: numbers and a boolean.\<close>

definition state_field :: "json \<Rightarrow> string \<Rightarrow> json option" where
  "state_field j k = (case j of JObj m \<Rightarrow> map_of m k | _ \<Rightarrow> None)"

definition state_int :: "json \<Rightarrow> string \<Rightarrow> int \<Rightarrow> int" where
  "state_int j k dflt = (case state_field j k of Some (JInt i) \<Rightarrow> i | _ \<Rightarrow> dflt)"

definition state_bool :: "json \<Rightarrow> string \<Rightarrow> bool \<Rightarrow> bool" where
  "state_bool j k dflt = (case state_field j k of Some (JBool b) \<Rightarrow> b | _ \<Rightarrow> dflt)"

definition checkpoint_state :: "walk_state \<Rightarrow> json" where
  "checkpoint_state w =
     JObj [(''entries'', JInt (counted w)), (''anchored'', JInt (anchored w)),
           (''ruled'', JBool (ruled w))]"

definition seed_all :: "ledger_store \<Rightarrow> walk_state \<Rightarrow> ledger_entry list \<Rightarrow> walk_state" where
  "seed_all st w batch =
     foldl (\<lambda>w (c, p). seed w c (in_chain st c p)) w (sort (remdups (needs w batch)))"

definition check_anchor ::
  "codec \<Rightarrow> ledger_store \<Rightarrow> walk_state \<Rightarrow> ledger_entry \<times> int \<Rightarrow> walk_state" where
  "check_anchor cd st w x =
     (let (e, after) = x;
          through = (case f_through e of None \<Rightarrow> after | Some t \<Rightarrow> t)
      in if root_of cd st after through \<noteq> f_content_digest e
         then w\<lparr>findings := findings w @ [Anchor_Mismatch (e_seq e)]\<rparr> else w)"

definition walk_batch ::
  "codec \<Rightarrow> ledger_store \<Rightarrow> walk_state \<Rightarrow> ledger_entry list \<Rightarrow> walk_state" where
  "walk_batch cd st w batch =
     (let stepped = walk_step cd (seed_all st w batch) batch
      in (foldl (check_anchor cd st) stepped (anchors stepped))\<lparr>anchors := []\<rparr>)"

definition walk_from :: "projected option \<Rightarrow> walk_state" where
  "walk_from stored =
     (case stored of
        None \<Rightarrow> new_walk
      | Some p \<Rightarrow> new_walk\<lparr>reached := j_seq p,
                    counted := state_int (j_state p) ''entries'' (j_seq p),
                    anchored := state_int (j_state p) ''anchored'' 0,
                    ruled := state_bool (j_state p) ''ruled'' False\<rparr>)"

definition verify_ledger ::
  "codec \<Rightarrow> ledger_service \<Rightarrow> bool \<Rightarrow> verification \<times> ledger_service" where
  "verify_ledger cd s full =
     (let stored = (if full then None else read_projected s CHECKPOINT);
          start = (case stored of None \<Rightarrow> 0 | Some p \<Rightarrow> j_seq p);
          head = stable_head (ls_store s)
      in if start > head
         then (\<lparr>v_entries = 0, v_intact = False, v_findings = [Ends_Before head start],
                v_checkpoint = start\<rparr>, s)
         else
           let w = foldl (walk_batch cd (ls_store s)) (walk_from stored)
                     (batches (ls_store s) start (Some head) None);
               v = \<lparr>v_entries = counted w, v_intact = (findings w = []),
                    v_findings = findings w, v_checkpoint = start\<rparr>
           in if v_intact v \<and> reached w > 0 \<and> (full \<or> reached w \<noteq> start)
              then (v, write_projected s CHECKPOINT (reached w) (checkpoint_state w) full)
              else if full \<and> \<not> v_intact v
              then (v, write_projected s CHECKPOINT 0 (JObj []) True)
              else (v, s))"

subsection \<open>The specification\<close>

text \<open>The anchors among \<open>es\<close>, each with the bound before it, where \<open>before\<close> came first.\<close>

fun anchors_from :: "ledger_entry list \<Rightarrow> ledger_entry list \<Rightarrow> (ledger_entry \<times> int) list" where
  "anchors_from before [] = []"
| "anchors_from before (e # es) =
     (if is_anchor e \<and> bound_ok (bound_of before) e then [(e, bound_of before)] else [])
     @ anchors_from (before @ [e]) es"

definition anchor_holds :: "codec \<Rightarrow> ledger_entry list \<Rightarrow> ledger_entry \<times> int \<Rightarrow> bool" where
  "anchor_holds cd es x \<longleftrightarrow>
     (case x of (e, after) \<Rightarrow>
        merkle_root cd (map head_of (heads_of es after
          (case f_through e of None \<Rightarrow> after | Some t \<Rightarrow> t))) = f_content_digest e)"

definition sound :: "codec \<Rightarrow> ledger_entry list \<Rightarrow> bool" where
  "sound cd es \<longleftrightarrow> well_chained cd es \<and> (\<forall>x \<in> set (anchors_from [] es). anchor_holds cd es x)"

lemma anchors_from_append [simp]:
  "anchors_from before (xs @ ys) = anchors_from before xs @ anchors_from (before @ xs) ys"
  by (induction before xs rule: anchors_from.induct) auto

lemma well_chained_rising: "well_chained cd es \<Longrightarrow> rising es"
proof (induction es rule: rev_induct)
  case (snoc e es)
  have "well_chained cd es" and e: "follows cd es e" using snoc.prems by simp_all
  have "head_seq es < e_seq e"
    using e by (cases es rule: rev_cases) (simp_all add: follows_def Let_def)
  with snoc.IH \<open>well_chained cd es\<close> show ?case by simp
qed simp

lemma well_chained_prefix: "well_chained cd (xs @ ys) \<Longrightarrow> well_chained cd xs"
  by (induction ys rule: rev_induct) (auto simp flip: append_assoc)

lemma chain_entries_append:
  "chain_entries c (xs @ ys) = chain_entries c xs @ chain_entries c ys"
  by (simp add: chain_entries_def)

lemma chain_positions:
  "well_chained cd es \<Longrightarrow> i < length (chain_entries c es) \<Longrightarrow>
   position (chain_entries c es ! i) = int i + 1"
proof (induction es arbitrary: i rule: rev_induct)
  case (snoc e es)
  show ?case
  proof (cases "chain_of e = c \<and> i = length (chain_entries c es)")
    case True
    have "position e = (case last_of (chain_entries c es) of None \<Rightarrow> 1 | Some p \<Rightarrow> position p + 1)"
      using snoc.prems(1) True by (simp add: follows_def Let_def)
    with True show ?thesis
      using snoc.IH [of "length (chain_entries c es) - 1"] snoc.prems(1)
      by (cases "chain_entries c es = []") (auto simp: last_of_def last_conv_nth nth_append of_nat_diff Suc_le_eq)
  next
    case False
    with snoc show ?thesis by (auto simp: nth_append split: if_splits)
  qed
qed simp

lemma last_position:
  "well_chained cd es \<Longrightarrow> last_of (chain_entries c es) = Some p \<Longrightarrow>
   position p = int (length (chain_entries c es))"
  using chain_positions [of cd es "length (chain_entries c es) - 1" c]
  by (auto simp: last_of_def last_conv_nth split: if_splits)

lemma chain_position_unique:
  assumes "well_chained cd es" "d \<in> set es" "e \<in> set es" "chain_of d = chain_of e"
    "position d = position e"
  shows "d = e"
proof -
  let ?ce = "chain_entries (chain_of e) es"
  have "d \<in> set ?ce" "e \<in> set ?ce" using assms by (auto simp: chain_entries_def)
  then obtain i j where "i < length ?ce" "?ce ! i = d" "j < length ?ce" "?ce ! j = e"
    by (auto simp: in_set_conv_nth)
  with chain_positions [OF assms(1), of i "chain_of e"] chain_positions [OF assms(1), of j "chain_of e"] assms(5)
  show ?thesis by auto
qed

lemma in_chain_unique:
  assumes "well_chained cd (entries st)" "e \<in> set (entries st)"
  shows "in_chain st (chain_of e) (position e) = Some e"
proof -
  let ?P = "\<lambda>d. chain_name d = chain_of e
    \<and> (case e_chain_seq d of None \<Rightarrow> e_seq d | Some p \<Rightarrow> p) = position e"
  have "List.find ?P (entries st) \<noteq> None"
    using assms(2) by (auto simp: find_None_iff chain_of_def position_def)
  then obtain d where d: "List.find ?P (entries st) = Some d" by auto
  from find_SomeD [OF d] have "d = e"
    by (intro chain_position_unique [OF assms(1) _ assms(2)]) (auto simp: chain_of_def position_def)
  with d show ?thesis by (simp add: in_chain_def)
qed

subsection \<open>The walk over a batch\<close>

definition base :: "ledger_entry list \<Rightarrow> walk_state \<Rightarrow> bool" where
  "base ps w \<longleftrightarrow> reached w = head_seq ps \<and> counted w = int (length ps) \<and> anchored w = bound_of ps
   \<and> (ruled w \<longleftrightarrow> (\<exists>e \<in> set ps. e_chain_seq e \<noteq> None))"

definition links :: "ledger_entry list \<Rightarrow> walk_state \<Rightarrow> string \<Rightarrow> bool" where
  "links ps w c \<longleftrightarrow> chains w c = map_option place_of (last_of (chain_entries c ps))"

lemma base_one: "base ps w \<Longrightarrow> rising (ps @ [e]) \<Longrightarrow> base (ps @ [e]) (walk_one cd w e)"
  using rising_head_nonneg [of "ps @ [e]"] by (auto simp: base_def walk_one_def max_def)

lemma links_one:
  "links (ps @ [e]) (walk_one cd w e) (chain_of e)"
  "c \<noteq> chain_of e \<Longrightarrow> links (ps @ [e]) (walk_one cd w e) c \<longleftrightarrow> links ps w c"
  "c \<noteq> chain_of e \<Longrightarrow> chains (walk_one cd w e) c = chains w c"
  by (simp_all add: links_def walk_one_def place_of_def)

lemma anchors_one:
  "base ps w \<Longrightarrow> anchors (walk_one cd w e) = anchors w @ anchors_from ps [e]"
  by (simp add: base_def walk_one_def)

lemma one_findings_links:
  assumes "base ps w" "rising (ps @ [e])" "links ps w (chain_of e)"
  shows "one_findings cd w e = [] \<longleftrightarrow> follows cd ps e"
proof -
  have "0 < e_seq e" "\<forall>d \<in> set ps. e_seq d < e_seq e"
    using assms(2) rising_head [of ps] rising_head_nonneg [of ps] by fastforce+
  moreover have "\<not> e_seq e \<le> reached w" "anchored w = bound_of ps"
    "ruled w \<longleftrightarrow> \<not> (\<forall>d \<in> set ps. e_chain_seq d = None)"
    using assms(1,2) by (auto simp: base_def)
  ultimately show ?thesis
    by (cases "last_of (chain_entries (chain_of e) ps)")
      (simp_all only: one_findings_def follows_def Let_def assms(3)[unfolded links_def] option.simps
        place_of_def place.select_convs append_is_Nil_conv not_Cons_self2 if_split_eq1, auto)
qed

lemma base_step: "base ps w \<Longrightarrow> rising (ps @ es) \<Longrightarrow> base (ps @ es) (walk_step cd w es)"
proof (induction es arbitrary: ps w)
  case (Cons e es)
  from Cons.prems(2) have "rising (ps @ [e])" using rising_append [of "ps @ [e]" es] by simp
  from Cons.IH [OF base_one [OF Cons.prems(1) this]] Cons.prems(2) show ?case by simp
qed simp

lemma anchors_step:
  "base ps w \<Longrightarrow> rising (ps @ es) \<Longrightarrow> anchors (walk_step cd w es) = anchors w @ anchors_from ps es"
proof (induction es arbitrary: ps w)
  case (Cons e es)
  from Cons.prems(2) have "rising (ps @ [e])" using rising_append [of "ps @ [e]" es] by simp
  from Cons.IH [OF base_one [OF Cons.prems(1) this]] Cons.prems anchors_one [OF Cons.prems(1)]
  show ?case by simp
qed simp

lemma findings_step_mono: "findings (walk_step cd w es) = [] \<Longrightarrow> findings w = []"
  by (induction es arbitrary: w) fastforce+

subsubsection \<open>On a well-chained ledger the walk finds nothing\<close>

lemma walk_step_ok:
  assumes "base ps w" "well_chained cd (ps @ es)" "findings w = []"
    "\<forall>c. chains w c = None \<or> links ps w c" "\<forall>e \<in> set es. links ps w (chain_of e)"
  shows "findings (walk_step cd w es) = []"
    and "\<forall>c. chains (walk_step cd w es) c = None \<or> links (ps @ es) (walk_step cd w es) c"
proof -
  have "findings (walk_step cd w es) = []
    \<and> (\<forall>c. chains (walk_step cd w es) c = None \<or> links (ps @ es) (walk_step cd w es) c)"
    using assms
  proof (induction es arbitrary: ps w)
    case (Cons e es)
    have wc: "well_chained cd (ps @ [e])" using Cons.prems(2) well_chained_prefix [of cd "ps @ [e]" es] by simp
    note rise = well_chained_rising [OF wc]
    have none: "one_findings cd w e = []"
      using one_findings_links [OF Cons.prems(1) rise, of cd] Cons.prems(5) wc by simp
    have chain: "\<forall>c. chains (walk_one cd w e) c = None \<or> links (ps @ [e]) (walk_one cd w e) c"
      using Cons.prems(4) links_one by metis
    have next_links: "\<forall>d \<in> set es. links (ps @ [e]) (walk_one cd w e) (chain_of d)"
      using Cons.prems(5) links_one by (metis list.set_intros(2))
    from Cons.IH [OF base_one [OF Cons.prems(1) rise] _ _ chain next_links] Cons.prems(2,3) none
    show ?case by simp
  qed simp
  then show "findings (walk_step cd w es) = []"
    "\<forall>c. chains (walk_step cd w es) c = None \<or> links (ps @ es) (walk_step cd w es) c" by blast+
qed

subsubsection \<open>A walk that finds nothing saw a well-chained ledger\<close>

text \<open>The first entry of a chain may be linked to an entry read from the store, where \<open>follows\<close>
  wants it to stand at the first place.\<close>

definition loosely :: "codec \<Rightarrow> ledger_entry list \<Rightarrow> ledger_entry list \<Rightarrow> ledger_entry \<Rightarrow> bool" where
  "loosely cd all ps e \<longleftrightarrow> follows cd ps e \<or>
     (chain_entries (chain_of e) ps = []
      \<and> (\<exists>d \<in> set all. chain_of d = chain_of e \<and> position e = position d + 1))"

definition loose :: "codec \<Rightarrow> ledger_entry list \<Rightarrow> ledger_entry list \<Rightarrow> bool" where
  "loose cd all es \<longleftrightarrow> (\<forall>i < length es. loosely cd all (take i es) (es ! i))"

lemma loose_Nil [simp]: "loose cd all []"
  by (simp add: loose_def)

lemma loose_snoc [simp]: "loose cd all (es @ [e]) \<longleftrightarrow> loose cd all es \<and> loosely cd all es e"
  by (auto simp: loose_def nth_append less_Suc_eq)

lemma loosely_position:
  assumes "loosely cd all ps e" "last_of (chain_entries (chain_of e) ps) = Some p"
  shows "position e = position p + 1"
  using assms by (auto simp: loosely_def follows_def Let_def)

lemma loose_positions:
  "loose cd all es \<Longrightarrow> sorted_wrt (\<lambda>d e. position d < position e) (chain_entries c es)"
proof (induction es rule: rev_induct)
  case (snoc e es)
  show ?case
  proof (cases "chain_of e = c \<and> chain_entries c es \<noteq> []")
    case True
    let ?ce = "chain_entries c es"
    have last: "last_of (chain_entries (chain_of e) es) = Some (last ?ce)"
      using True by (simp add: last_of_def)
    have "position (last ?ce) < position e"
      using loosely_position [of cd all es e, OF _ last] snoc.prems by simp
    moreover have "position d \<le> position (last ?ce)" if "d \<in> set ?ce" for d
    proof -
      have "?ce = butlast ?ce @ [last ?ce]" using True by simp
      then have "sorted_wrt (\<lambda>d e. position d < position e) (butlast ?ce @ [last ?ce])"
        using snoc by (metis loose_snoc)
      then show ?thesis
        using that \<open>?ce = butlast ?ce @ [last ?ce]\<close>
        by (metis UnE empty_iff empty_set less_imp_le list.set_intros(1) order_refl set_ConsD set_append sorted_wrt_append)
    qed
    ultimately show ?thesis
      using snoc True by (fastforce simp: sorted_wrt_append)
  qed (use snoc in auto)
qed simp

lemma loose_well_chained:
  assumes "loose cd es es"
  shows "well_chained cd es"
proof -
  have "follows cd (take i es) (es ! i)" if i: "i < length es" for i
  proof (rule ccontr)
    let ?e = "es ! i"
    assume "\<not> follows cd (take i es) ?e"
    then obtain d where none: "chain_entries (chain_of ?e) (take i es) = []"
      and d: "d \<in> set es" "chain_of d = chain_of ?e" "position ?e = position d + 1"
      using assms i by (auto simp: loose_def loosely_def)
    have "es = take i es @ ?e # drop (Suc i) es" by (rule id_take_nth_drop [OF i])
    then have "chain_entries (chain_of ?e) es = ?e # chain_entries (chain_of ?e) (drop (Suc i) es)"
      using none chain_entries_append [of "chain_of ?e" "take i es" "?e # drop (Suc i) es"]
      by (simp add: chain_entries_def)
    moreover have "d \<in> set (chain_entries (chain_of ?e) es)"
      using d by (simp add: chain_entries_def)
    ultimately show False
      using loose_positions [OF assms, of "chain_of ?e"] d(3) by auto
  qed
  then show ?thesis by (simp add: well_chained_def)
qed

text \<open>What the walk knows of a chain: its newest entry walked, or one read from the store.\<close>

definition seeded :: "ledger_entry list \<Rightarrow> ledger_entry list \<Rightarrow> walk_state \<Rightarrow> string \<Rightarrow> bool" where
  "seeded all ps w c \<longleftrightarrow> links ps w c \<or>
     (chain_entries c ps = [] \<and> (\<exists>d \<in> set all. chain_of d = c \<and> chains w c = Some (place_of d)))"

lemma walk_step_found:
  "base ps w \<Longrightarrow> rising (ps @ es) \<Longrightarrow> loose cd all ps \<Longrightarrow> \<forall>c. seeded all ps w c \<Longrightarrow>
   findings (walk_step cd w es) = [] \<Longrightarrow>
   loose cd all (ps @ es) \<and> (\<forall>c. seeded all (ps @ es) (walk_step cd w es) c)"
proof (induction es arbitrary: ps w)
  case (Cons e es)
  have rise: "rising (ps @ [e])" using Cons.prems(2) rising_append [of "ps @ [e]" es] by simp
  have "findings (walk_one cd w e) = []"
    using findings_step_mono [of cd "walk_one cd w e" es] Cons.prems(5) by simp
  then have none: "one_findings cd w e = []" by simp
  have "loosely cd all ps e"
  proof (cases "links ps w (chain_of e)")
    case True
    then show ?thesis
      using one_findings_links [OF Cons.prems(1) rise True] none by (simp add: loosely_def)
  next
    case False
    with Cons.prems(4) have "seeded all ps w (chain_of e)" by blast
    with False obtain d where "chain_entries (chain_of e) ps = []" "d \<in> set all"
      "chain_of d = chain_of e" "chains w (chain_of e) = Some (place_of d)"
      by (auto simp: seeded_def)
    moreover from this(4) none have "position e = position d + 1"
      by (simp add: one_findings_def Let_def place_of_def split: if_splits)
    ultimately show ?thesis by (auto simp: loosely_def)
  qed
  with Cons.prems(3) have "loose cd all (ps @ [e])" by simp
  moreover have "\<forall>c. seeded all (ps @ [e]) (walk_one cd w e) c"
  proof
    fix c
    show "seeded all (ps @ [e]) (walk_one cd w e) c"
    proof (cases "c = chain_of e")
      case True
      then show ?thesis by (simp add: seeded_def links_one)
    next
      case False
      then show ?thesis using Cons.prems(4) by (auto simp: seeded_def links_one)
    qed
  qed
  ultimately show ?case
    using Cons.IH [OF base_one [OF Cons.prems(1) rise]] Cons.prems(2,5) by simp
qed simp

subsection \<open>Seeding and whole batches\<close>

lemma needs_from_mem:
  "(c, p) \<in> set (needs_from w seen es) \<longleftrightarrow>
     chains w c = None \<and> c \<notin> set seen \<and>
     (\<exists>e. List.find (\<lambda>e. chain_of e = c) es = Some e \<and> position e > 1 \<and> p = position e - 1)"
  by (induction w seen es rule: needs_from.induct) auto

lemma seed_sel [simp]:
  "reached (seed w c found) = reached w" "counted (seed w c found) = counted w"
  "anchored (seed w c found) = anchored w" "ruled (seed w c found) = ruled w"
  "findings (seed w c found) = findings w" "anchors (seed w c found) = anchors w"
  "chains (seed w c None) = chains w"
  "chains (seed w c (Some e)) = (chains w)(c \<mapsto> place_of e)"
  by (simp_all add: seed_def place_of_def split: option.split)

lemma foldl_seed_sel:
  "reached (foldl (\<lambda>w (c, p). seed w c (in_chain st c p)) w xs) = reached w"
  "counted (foldl (\<lambda>w (c, p). seed w c (in_chain st c p)) w xs) = counted w"
  "anchored (foldl (\<lambda>w (c, p). seed w c (in_chain st c p)) w xs) = anchored w"
  "ruled (foldl (\<lambda>w (c, p). seed w c (in_chain st c p)) w xs) = ruled w"
  "findings (foldl (\<lambda>w (c, p). seed w c (in_chain st c p)) w xs) = findings w"
  "anchors (foldl (\<lambda>w (c, p). seed w c (in_chain st c p)) w xs) = anchors w"
  by (induction xs arbitrary: w) (simp_all split: prod.split)

lemma seed_all_sel [simp]:
  "reached (seed_all st w es) = reached w" "counted (seed_all st w es) = counted w"
  "anchored (seed_all st w es) = anchored w" "ruled (seed_all st w es) = ruled w"
  "findings (seed_all st w es) = findings w" "anchors (seed_all st w es) = anchors w"
  by (simp_all add: seed_all_def foldl_seed_sel)

lemma foldl_seed_chains:
  "\<forall>(c, p) \<in> set xs. in_chain st c p = Some (g c) \<Longrightarrow>
   chains (foldl (\<lambda>w (c, p). seed w c (in_chain st c p)) w xs) c =
     (if c \<in> fst ` set xs then Some (place_of (g c)) else chains w c)"
  by (induction xs arbitrary: w) auto

lemma foldl_seed_seeded:
  "\<forall>(c, p) \<in> set xs. chain_entries c ps = [] \<Longrightarrow> \<forall>c. seeded (entries st) ps w c \<Longrightarrow>
   seeded (entries st) ps (foldl (\<lambda>w (c, p). seed w c (in_chain st c p)) w xs) c"
proof (induction xs arbitrary: w)
  case (Cons x xs)
  obtain d p where x: "x = (d, p)" by (cases x)
  have "\<forall>b. seeded (entries st) ps (seed w d (in_chain st d p)) b"
  proof
    fix b
    show "seeded (entries st) ps (seed w d (in_chain st d p)) b"
    proof (cases "in_chain st d p")
      case None
      with Cons.prems(2) show ?thesis by (simp add: seeded_def links_def)
    next
      case (Some e)
      then have "e \<in> set (entries st)" "chain_of e = d"
        using find_SomeD [of _ "entries st" e] by (auto simp: in_chain_def chain_of_def)
      with Some Cons.prems x show ?thesis by (auto simp: seeded_def links_def)
    qed
  qed
  with Cons.IH Cons.prems(1) x show ?case by simp
qed simp

lemma base_seed_all: "base ps w \<Longrightarrow> base ps (seed_all st w es)"
  by (simp add: base_def)

lemma seed_all_links:
  assumes wc: "well_chained cd (entries st)" and es: "entries st = ps @ bs @ rest"
    and inv: "\<forall>c. chains w c = None \<or> links ps w c"
  shows "\<forall>c. chains (seed_all st w bs) c = None \<or> links ps (seed_all st w bs) c"
    and "\<forall>e \<in> set bs. links ps (seed_all st w bs) (chain_of e)"
proof -
  let ?g = "\<lambda>c. the (last_of (chain_entries c ps))"
  have first: "position e = (case last_of (chain_entries c ps) of None \<Rightarrow> 1 | Some p \<Rightarrow> position p + 1)"
    if found: "List.find (\<lambda>e. chain_of e = c) bs = Some e" for c e
  proof -
    from found obtain i where i: "i < length bs" "bs ! i = e" "chain_of e = c"
      "\<forall>j < i. chain_of (bs ! j) \<noteq> c"
      by (auto simp: find_Some_iff)
    have "well_chained cd (ps @ take (Suc i) bs)"
      using wc unfolding es
      by (metis append.assoc append_take_drop_id well_chained_prefix)
    then have "follows cd (ps @ take i bs) e"
      using i by (simp add: take_Suc_conv_app_nth flip: append_assoc)
    moreover have "chain_entries c (take i bs) = []"
      using i(1,4) by (fastforce simp: chain_entries_def filter_empty_conv in_set_conv_nth)
    ultimately show ?thesis
      using i(3) by (simp add: follows_def Let_def chain_entries_append)
  qed
  have wps: "well_chained cd ps" using wc es well_chained_prefix by simp
  have needed: "\<forall>(c, p) \<in> set (sort (remdups (needs w bs))).
      last_of (chain_entries c ps) = Some (?g c) \<and> in_chain st c p = Some (?g c)"
  proof (intro ballI, clarify)
    fix c p assume "(c, p) \<in> set (sort (remdups (needs w bs)))"
    then obtain e where e: "List.find (\<lambda>e. chain_of e = c) bs = Some e" "position e > 1" "p = position e - 1"
      by (auto simp: needs_def needs_from_mem)
    with first [OF e(1)] obtain q where q: "last_of (chain_entries c ps) = Some q" "p = position q"
      by (auto split: option.splits)
    have "q \<in> set (chain_entries c ps)" using last_of_SomeD [OF q(1)] by blast
    then have "q \<in> set (entries st)" "chain_of q = c" using es by (auto simp: chain_entries_def)
    with q in_chain_unique [OF wc] show "last_of (chain_entries c ps) = Some (?g c) \<and> in_chain st c p = Some (?g c)"
      by auto
  qed
  have seeded_chains: "chains (seed_all st w bs) c =
      (if c \<in> fst ` set (needs w bs) then Some (place_of (?g c)) else chains w c)" for c
    unfolding seed_all_def
    by (subst foldl_seed_chains [of _ _ ?g]) (use needed in auto)
  have part: "c \<in> fst ` set (needs w bs) \<Longrightarrow> links ps (seed_all st w bs) c" for c
  proof -
    assume c: "c \<in> fst ` set (needs w bs)"
    then obtain p where "(c, p) \<in> set (sort (remdups (needs w bs)))" by auto
    with needed have "last_of (chain_entries c ps) = Some (?g c)" by blast
    with c seeded_chains [of c] show "links ps (seed_all st w bs) c"
      by (cases "last_of (chain_entries c ps)") (simp_all add: links_def)
  qed
  then show all: "\<forall>c. chains (seed_all st w bs) c = None \<or> links ps (seed_all st w bs) c"
    using inv seeded_chains by (metis links_def)
  show "\<forall>e \<in> set bs. links ps (seed_all st w bs) (chain_of e)"
  proof
    fix d assume "d \<in> set bs"
    let ?c = "chain_of d"
    obtain e where e: "List.find (\<lambda>e. chain_of e = ?c) bs = Some e"
      using \<open>d \<in> set bs\<close> by (cases "List.find (\<lambda>e. chain_of e = ?c) bs") (auto simp: find_None_iff)
    show "links ps (seed_all st w bs) ?c"
    proof (cases "?c \<in> fst ` set (needs w bs)")
      case False
      show ?thesis
      proof (cases "chains w ?c")
        case None
        have "\<not> position e > 1"
        proof
          assume "position e > 1"
          then have "(?c, position e - 1) \<in> set (needs w bs)"
            using None e by (auto simp: needs_def needs_from_mem)
          with False show False by force
        qed
        then have "last_of (chain_entries ?c ps) = None"
          using first [OF e] last_position [OF wps]
          by (cases "last_of (chain_entries ?c ps)") fastforce+
        with None False seeded_chains show ?thesis by (simp add: links_def)
      next
        case (Some p)
        with inv False seeded_chains show ?thesis by (metis links_def option.distinct(1))
      qed
    qed (rule part)
  qed
qed

lemma check_anchor_sel [simp]:
  "reached (check_anchor cd st w x) = reached w" "counted (check_anchor cd st w x) = counted w"
  "anchored (check_anchor cd st w x) = anchored w" "ruled (check_anchor cd st w x) = ruled w"
  "chains (check_anchor cd st w x) = chains w"
  "findings (check_anchor cd st w x) = [] \<longleftrightarrow> findings w = [] \<and> anchor_holds cd (entries st) x"
  by (auto simp: check_anchor_def Let_def anchor_holds_def root_of_def heads_def split: prod.splits)

lemma check_anchors_sel [simp]:
  "reached (foldl (check_anchor cd st) w xs) = reached w"
  "counted (foldl (check_anchor cd st) w xs) = counted w"
  "anchored (foldl (check_anchor cd st) w xs) = anchored w"
  "ruled (foldl (check_anchor cd st) w xs) = ruled w"
  "chains (foldl (check_anchor cd st) w xs) = chains w"
  "findings (foldl (check_anchor cd st) w xs) = [] \<longleftrightarrow>
     findings w = [] \<and> (\<forall>x \<in> set xs. anchor_holds cd (entries st) x)"
  by (induction xs arbitrary: w) auto

lemma base_sel: "base ps v \<Longrightarrow> reached w = reached v \<Longrightarrow> counted w = counted v \<Longrightarrow>
   anchored w = anchored v \<Longrightarrow> ruled w = ruled v \<Longrightarrow> base ps w"
  by (simp add: base_def)

lemma walk_batch_base:
  assumes "base ps w" "rising (ps @ bs)"
  shows "base (ps @ bs) (walk_batch cd st w bs)" "anchors (walk_batch cd st w bs) = []"
  by (rule base_sel [OF base_step [OF base_seed_all [OF assms(1)] assms(2)]])
    (simp_all add: walk_batch_def Let_def)

lemma walk_batch_findings:
  assumes "base ps w" "rising (ps @ bs)" "anchors w = []"
  shows "findings (walk_batch cd st w bs) = [] \<longleftrightarrow>
     findings (walk_step cd (seed_all st w bs) bs) = []
     \<and> (\<forall>x \<in> set (anchors_from ps bs). anchor_holds cd (entries st) x)"
  using anchors_step [OF base_seed_all [OF assms(1)] assms(2), of cd st bs] assms(3)
  by (simp add: walk_batch_def Let_def)

lemma walk_batch_chains: "chains (walk_batch cd st w bs) = chains (walk_step cd (seed_all st w bs) bs)"
  by (simp add: walk_batch_def Let_def)

text \<open>Whole reads: what holds after every batch, for a sound ledger and for a walk without finding.\<close>

lemma walk_batches_base:
  "base ps w \<Longrightarrow> rising (ps @ concat bss) \<Longrightarrow> base (ps @ concat bss) (foldl (walk_batch cd st) w bss)"
proof (induction bss arbitrary: ps w)
  case (Cons bs bss)
  have "rising (ps @ bs)" using Cons.prems(2) rising_append [of "ps @ bs" "concat bss"] by simp
  with Cons.IH [OF walk_batch_base(1) [OF Cons.prems(1)]] Cons.prems(2) show ?case by simp
qed simp

lemma walk_batches_ok:
  assumes "sound cd (entries st)"
  shows "entries st = ps @ concat bss @ rest \<Longrightarrow> base ps w \<Longrightarrow> findings w = [] \<Longrightarrow> anchors w = [] \<Longrightarrow>
     \<forall>c. chains w c = None \<or> links ps w c \<Longrightarrow> findings (foldl (walk_batch cd st) w bss) = []"
proof (induction bss arbitrary: ps w)
  case (Cons bs bss)
  have wc: "well_chained cd (entries st)" using assms by (simp add: sound_def)
  have es: "entries st = ps @ bs @ concat bss @ rest" using Cons.prems(1) by simp
  then have wcb: "well_chained cd (ps @ bs)" using wc well_chained_prefix by (metis append.assoc)
  note rise = well_chained_rising [OF wcb]
  have ok: "findings (walk_step cd (seed_all st w bs) bs) = []"
    "\<forall>c. chains (walk_batch cd st w bs) c = None \<or> links (ps @ bs) (walk_batch cd st w bs) c"
    using walk_step_ok [OF base_seed_all [OF Cons.prems(2)] wcb _ seed_all_links [OF wc es Cons.prems(5)]]
      Cons.prems(3) by (simp_all add: links_def walk_batch_chains)
  moreover have "\<forall>x \<in> set (anchors_from ps bs). anchor_holds cd (entries st) x"
    using assms unfolding sound_def es anchors_from_append by simp
  ultimately have "findings (walk_batch cd st w bs) = []"
    using walk_batch_findings [OF Cons.prems(2) rise Cons.prems(4)] by simp
  from Cons.IH [OF _ walk_batch_base(1) [OF Cons.prems(2) rise] this walk_batch_base(2) [OF Cons.prems(2) rise] ok(2)] es
  show ?case by simp
qed simp

lemma walk_batches_found:
  "entries st = ps @ concat bss \<Longrightarrow> rising (entries st) \<Longrightarrow> base ps w \<Longrightarrow> anchors w = [] \<Longrightarrow>
   \<forall>c. seeded (entries st) ps w c \<Longrightarrow> loose cd (entries st) ps \<Longrightarrow>
   findings (foldl (walk_batch cd st) w bss) = [] \<Longrightarrow>
   findings w = [] \<and> loose cd (entries st) (ps @ concat bss)
   \<and> (\<forall>x \<in> set (anchors_from ps (concat bss)). anchor_holds cd (entries st) x)"
proof (induction bss arbitrary: ps w)
  case (Cons bs bss)
  have rise: "rising (ps @ bs)" using Cons.prems(1,2) rising_append [of "ps @ bs" "concat bss"] by simp
  let ?w = "walk_batch cd st w bs"
  have none: "chains w c = None \<Longrightarrow> chain_entries c ps = []" for c
    using spec [OF Cons.prems(5), of c] by (auto simp: seeded_def links_def)
  have "\<forall>c. seeded (entries st) ps (seed_all st w bs) c"
    unfolding seed_all_def using Cons.prems(5) none
    by (intro allI foldl_seed_seeded) (auto simp: needs_def needs_from_mem)
  note found = walk_step_found [OF base_seed_all [OF Cons.prems(3)] rise Cons.prems(6) this]
  show ?case
  proof (cases "findings ?w = []")
    case True
    then have step: "findings (walk_step cd (seed_all st w bs) bs) = []"
      and anch: "\<forall>x \<in> set (anchors_from ps bs). anchor_holds cd (entries st) x"
      using walk_batch_findings [OF Cons.prems(3) rise Cons.prems(4)] by simp_all
    have "\<forall>c. seeded (entries st) (ps @ bs) ?w c"
      using found [OF step] by (simp add: seeded_def links_def walk_batch_chains)
    with Cons.IH [OF _ Cons.prems(2) walk_batch_base(1) [OF Cons.prems(3) rise]
        walk_batch_base(2) [OF Cons.prems(3) rise]] found [OF step] Cons.prems(1,7) anch
    show ?thesis using findings_step_mono [OF step] by auto
  next
    case False
    have "findings (foldl (walk_batch cd st) v bss) = [] \<Longrightarrow> findings v = []" for v
    proof (induction bss arbitrary: v)
      case (Cons cs bss)
      then have "findings (walk_batch cd st v cs) = []" by simp
      then have "findings (walk_step cd (seed_all st v cs) cs) = []"
        by (simp add: walk_batch_def Let_def)
      from findings_step_mono [OF this] show ?case by simp
    qed simp
    with False Cons.prems(7) show ?thesis by simp
  qed
qed simp

subsection \<open>What a full verification decides\<close>

lemma wanted_rest:
  assumes "rising (ps @ es)"
  shows "filter (wanted (head_seq ps) (Some (head_seq (ps @ es))) None) (ps @ es) = es"
proof -
  have "e_seq e \<le> head_seq ps" if "e \<in> set ps" for e
    using rising_head [OF rising_append [OF assms] that] by simp
  moreover have "head_seq ps < e_seq e" if "e \<in> set es" for e
  proof (cases ps rule: rev_cases)
    case Nil
    with rising_head [OF assms, of e] that show ?thesis by simp
  next
    case (snoc qs q)
    with rising_prefix_seq [OF assms, of q e] that show ?thesis by simp
  qed
  moreover have "e_seq e \<le> head_seq (ps @ es)" if "e \<in> set es" for e
    using rising_head [OF assms, of e] that by simp
  ultimately show ?thesis by (auto simp: wanted_def filter_empty_conv filter_id_conv not_less)
qed

lemma concat_rest:
  "entries st = ps @ es \<Longrightarrow> rising (entries st) \<Longrightarrow>
   concat (batches st (head_seq ps) (Some (stable_head st)) None) = es"
  using concat_batches_of [of BATCH st] wanted_rest
  by (simp add: batches_def BATCH_def stable_head_def)

lemma base_new: "base [] new_walk"
  by (simp add: base_def new_walk_def)

lemma full_walk:
  fixes cd :: codec
  assumes "rising (entries st)"
  defines "w \<equiv> foldl (walk_batch cd st) new_walk (batches st 0 (Some (stable_head st)) None)"
  shows "base (entries st) w" "findings w = [] \<longleftrightarrow> sound cd (entries st)"
proof -
  let ?bss = "batches st 0 (Some (stable_head st)) None"
  have es: "entries st = [] @ concat ?bss" using concat_rest [of st "[]"] assms(1) by simp
  show "base (entries st) w"
    using walk_batches_base [OF base_new, of ?bss cd st] es assms(1) by (simp add: w_def)
  have new: "findings new_walk = []" "anchors new_walk = []"
    "\<forall>c. chains new_walk c = None \<or> links [] new_walk c" "\<forall>c. seeded (entries st) [] new_walk c"
    by (simp_all add: new_walk_def seeded_def links_def)
  show "findings w = [] \<longleftrightarrow> sound cd (entries st)"
  proof
    assume "findings w = []"
    from walk_batches_found [OF es assms(1) base_new new(2,4) loose_Nil this [unfolded w_def]]
    have "loose cd (entries st) (entries st)" "\<forall>x \<in> set (anchors_from [] (entries st)). anchor_holds cd (entries st) x"
      using es by simp_all
    then show "sound cd (entries st)" by (simp add: sound_def loose_well_chained)
  next
    assume "sound cd (entries st)"
    from walk_batches_ok [OF this, of "[]" ?bss "[]", OF _ base_new new(1-3)] es
    show "findings w = []" by (simp add: w_def)
  qed
qed

lemma stable_head_nonneg: "rising (entries st) \<Longrightarrow> 0 \<le> stable_head st"
  using rising_head_nonneg [of "entries st"] by (simp add: stable_head_def)

lemma verify_full_sel:
  assumes "rising (ls_entries s)"
  shows "v_intact (fst (verify_ledger cd s True)) \<longleftrightarrow> sound cd (ls_entries s)"
    and "v_entries (fst (verify_ledger cd s True)) = int (length (ls_entries s))"
proof -
  have rise: "rising (entries (ls_store s))" using assms by (simp add: ls_entries_def)
  let ?w = "foldl (walk_batch cd (ls_store s)) new_walk
    (batches (ls_store s) 0 (Some (stable_head (ls_store s))) None)"
  have "v_intact (fst (verify_ledger cd s True)) \<longleftrightarrow> findings ?w = []"
    "v_entries (fst (verify_ledger cd s True)) = counted ?w"
    using stable_head_nonneg [OF rise] by (simp_all add: verify_ledger_def Let_def walk_from_def)
  with full_walk [OF rise, of cd]
  show "v_intact (fst (verify_ledger cd s True)) \<longleftrightarrow> sound cd (ls_entries s)"
    "v_entries (fst (verify_ledger cd s True)) = int (length (ls_entries s))"
    by (simp_all add: ls_entries_def base_def)
qed


definition sample_service :: ledger_service where
  "sample_service =
     \<lparr>ls_store = \<lparr>committed = [sample_entry False], appended = [], spoilt = False\<rparr>,
      ls_projected = Some Map.empty\<rparr>"


end
