(* ===== verification/Ledger_History.thy ===== *)
theory Ledger_History
  imports Ledger_Audit
begin

text \<open>
  Every history of the ledger service: any sequence of records, anchors, verifications and ends of
  a unit of work, from an empty ledger. It leaves a sound ledger numbered without a gap, and every
  verification along it, from the checkpoint or full, reports all entries intact.
\<close>

datatype ledger_op =
    Record_Fact fact moment bool
  | Anchor_Heads string moment
  | Verify_Ledger bool
  | Commit

definition commit :: "ledger_service \<Rightarrow> ledger_service" where
  "commit s = s\<lparr>ls_store := \<lparr>committed = entries (ls_store s), appended = [], spoilt = False\<rparr>\<rparr>"

fun apply_op :: "codec \<Rightarrow> ledger_op \<Rightarrow> ledger_service \<Rightarrow> ledger_service" where
  "apply_op cd (Record_Fact f now in_order) s = snd (record_fact cd s f now in_order)"
| "apply_op cd (Anchor_Heads tenant now) s = snd (anchor cd tenant s now)"
| "apply_op cd (Verify_Ledger full) s = snd (verify_ledger cd s full)"
| "apply_op cd Commit s = commit s"

definition history :: "codec \<Rightarrow> ledger_op list \<Rightarrow> bool \<Rightarrow> ledger_service" where
  "history cd ops projections =
     fold (apply_op cd) ops
       \<lparr>ls_store = \<lparr>committed = [], appended = [], spoilt = False\<rparr>,
        ls_projected = (if projections then Some Map.empty else None)\<rparr>"

text \<open>Only \<open>anchor\<close> writes a fact of the anchor's kind.\<close>

fun op_ok :: "ledger_op \<Rightarrow> bool" where
  "op_ok (Record_Fact f now in_order) \<longleftrightarrow> f_kind f \<noteq> ANCHORED"
| "op_ok _ \<longleftrightarrow> True"

subsection \<open>The invariant\<close>

definition gapless :: "ledger_entry list \<Rightarrow> bool" where
  "gapless es \<longleftrightarrow> map e_seq es = map (\<lambda>i. int i + 1) [0..<length es]"

definition checkpoint_ok :: "ledger_service \<Rightarrow> bool" where
  "checkpoint_ok s \<longleftrightarrow>
     (case read_projected s CHECKPOINT of
        None \<Rightarrow> True
      | Some p \<Rightarrow> (\<exists>ps rest. ls_entries s = ps @ rest \<and> j_seq p = head_seq ps \<and> base ps (walk_from (Some p))))"

definition service_ok :: "codec \<Rightarrow> ledger_service \<Rightarrow> bool" where
  "service_ok cd s \<longleftrightarrow> sound cd (ls_entries s) \<and> gapless (ls_entries s)
   \<and> anchored_through (ls_store s) = bound_of (ls_entries s) \<and> checkpoint_ok s"

lemma gapless_snoc [simp]:
  "gapless (es @ [e]) \<longleftrightarrow> gapless es \<and> e_seq e = int (length es) + 1"
  by (auto simp: gapless_def)

lemma gapless_head: "gapless es \<Longrightarrow> head_seq es = int (length es)"
  by (cases es rule: rev_cases) auto

lemma sound_rising: "sound cd es \<Longrightarrow> rising es"
  by (auto simp: sound_def intro: well_chained_rising)

lemma anchors_from_bounds:
  "x \<in> set (anchors_from before es) \<Longrightarrow> fst x \<in> set es \<and> bound_ok (snd x) (fst x)"
  by (induction before es rule: anchors_from.induct) (auto split: if_splits)

lemma anchor_holds_append:
  assumes "sound cd es" "head_seq es < e_seq e" "x \<in> set (anchors_from [] es)"
  shows "anchor_holds cd (es @ [e]) x"
proof -
  obtain a after where x: "x = (a, after)" by (cases x)
  from anchors_from_bounds [OF assms(3)] x obtain t where t: "f_through a = Some t" "t < e_seq a" "a \<in> set es"
    by (auto simp: bound_ok_def split: option.splits)
  have "t < e_seq e" using rising_head [OF sound_rising [OF assms(1)] t(3)] t(2) assms(2) by simp
  then have "heads_of (es @ [e]) after t = heads_of es after t"
    by (intro heads_of_prefix) simp
  moreover have "anchor_holds cd es x" using assms(1,3) by (simp add: sound_def)
  ultimately show ?thesis by (simp add: anchor_holds_def x t)
qed

lemma sound_snoc:
  assumes "sound cd es" "follows cd es e" "is_anchor e \<Longrightarrow> anchor_holds cd (es @ [e]) (e, bound_of es)"
  shows "sound cd (es @ [e])"
proof -
  have "rising (es @ [e])" using assms(1,2) by (intro well_chained_rising [of cd]) (simp add: sound_def)
  then have "head_seq es < e_seq e" by simp
  with assms anchor_holds_append [OF assms(1)] show ?thesis
    by (auto simp: sound_def)
qed

lemma record_fact_entries:
  fixes cd :: codec and f :: fact and now :: moment and in_order :: bool
  assumes "rising (ls_entries s)"
  defines "e \<equiv> link cd (last_of (chain_entries (chain_for f in_order) (ls_entries s))) f now
                 (Some (head_seq (ls_entries s) + 1)) in_order"
  shows "record_fact cd s f now in_order =
           (Inr e, s\<lparr>ls_store := ls_store s\<lparr>appended := appended (ls_store s) @ [e]\<rparr>\<rparr>)"
  using append_entry_fresh [of "ls_store s" e] assms
  by (simp add: record_fact_def Let_def last_in_chain_entries allocate_head ls_entries_def)

lemma record_follows:
  assumes "rising es"
    and "is_anchor e \<Longrightarrow> bound_ok (bound_of es) e"
    and e: "e = link cd (last_of (chain_entries (chain_for f in_order) es)) f now
      (Some (head_seq es + 1)) in_order"
  shows "follows cd es e"
proof -
  have "0 < e_seq e" "\<forall>d \<in> set es. e_seq d < e_seq e"
    using rising_head_nonneg [OF assms(1)] rising_head [OF assms(1)] by (fastforce simp: e)+
  with assms(2) show ?thesis by (simp add: follows_def Let_def e)
qed

lemma anchored_through_snoc:
  "anchored_through (st\<lparr>appended := appended st @ [e]\<rparr>) =
     (if f_kind e = ANCHORED then (case f_through e of None \<Rightarrow> 0 | Some t \<Rightarrow> t) else anchored_through st)"
  by (simp add: anchored_through_def summary_def Let_def entries_def flip: append_assoc)

lemma checkpoint_ok_grow:
  assumes "checkpoint_ok s" "ls_entries s' = ls_entries s @ ys" "ls_projected s' = ls_projected s"
  shows "checkpoint_ok s'"
  using assms by (fastforce simp: checkpoint_ok_def read_projected_def split: option.splits)

lemma ls_entries_append [simp]:
  "ls_entries (s\<lparr>ls_store := ls_store s\<lparr>appended := appended (ls_store s) @ [e]\<rparr>\<rparr>) = ls_entries s @ [e]"
  by (simp add: ls_entries_def entries_def)

lemma record_ok:
  assumes ok: "service_ok cd s"
    and anchor_kind: "f_kind f = ANCHORED \<Longrightarrow> chain_for f in_order = TENANT_CHAIN
      \<and> f_through f = Some (head_seq (ls_entries s)) \<and> bound_of (ls_entries s) \<le> head_seq (ls_entries s)
      \<and> f_content_digest f = root_of cd (ls_store s) (bound_of (ls_entries s)) (head_seq (ls_entries s))"
  shows "service_ok cd (snd (record_fact cd s f now in_order))"
proof -
  let ?es = "ls_entries s"
  define e where e: "e = link cd (last_of (chain_entries (chain_for f in_order) ?es)) f now
      (Some (head_seq ?es + 1)) in_order"
  have rise: "rising ?es" using ok sound_rising by (auto simp: service_ok_def)
  let ?s = "snd (record_fact cd s f now in_order)"
  have s: "?s = s\<lparr>ls_store := ls_store s\<lparr>appended := appended (ls_store s) @ [e]\<rparr>\<rparr>"
    unfolding e by (simp add: record_fact_entries [OF rise])
  have bound: "bound_ok (bound_of ?es) e" if "is_anchor e"
    using that anchor_kind by (simp add: is_anchor_def e bound_ok_def)
  have "follows cd ?es e" by (rule record_follows [OF rise bound e])
  moreover have "anchor_holds cd (?es @ [e]) (e, bound_of ?es)" if "is_anchor e"
  proof -
    have kind: "f_kind f = ANCHORED" using that by (simp add: is_anchor_def e)
    have "heads_of (?es @ [e]) (bound_of ?es) (head_seq ?es) = heads_of ?es (bound_of ?es) (head_seq ?es)"
      by (rule heads_of_prefix) (simp add: e)
    with anchor_kind [OF kind] show ?thesis
      by (simp add: anchor_holds_def e root_of_def heads_def ls_entries_def)
  qed
  ultimately have "sound cd (?es @ [e])"
    using ok by (intro sound_snoc) (simp_all add: service_ok_def)
  moreover have "gapless (?es @ [e])"
    using ok gapless_head by (simp add: service_ok_def e)
  moreover have "anchored_through (ls_store s\<lparr>appended := appended (ls_store s) @ [e]\<rparr>) = bound_of (?es @ [e])"
  proof (cases "f_kind f = ANCHORED")
    case True
    then have "is_anchor e" using anchor_kind by (simp add: is_anchor_def e)
    with bound True anchor_kind show ?thesis by (simp add: anchored_through_snoc e)
  next
    case False
    then have "\<not> is_anchor e" by (simp add: is_anchor_def e)
    with False ok show ?thesis by (simp add: anchored_through_snoc e service_ok_def)
  qed
  moreover have "checkpoint_ok ?s"
    by (rule checkpoint_ok_grow [of s _ "[e]"]) (use ok in \<open>simp_all add: service_ok_def s\<close>)
  ultimately show ?thesis by (simp add: service_ok_def s)
qed

lemma anchor_ok: "service_ok cd s \<Longrightarrow> service_ok cd (snd (anchor cd tenant s now))"
proof -
  assume ok: "service_ok cd s"
  let ?through = "stable_head (ls_store s)" and ?after = "anchored_through (ls_store s)"
  have rise: "rising (ls_entries s)" using ok sound_rising by (auto simp: service_ok_def)
  show ?thesis
  proof (cases "?through \<le> ?after \<or> root_of cd (ls_store s) ?after ?through = None")
    case True
    with ok show ?thesis by (auto simp: anchor_def Let_def)
  next
    case False
    then obtain root where root: "root_of cd (ls_store s) ?after ?through = Some root" by auto
    let ?f = "anchor_fact tenant root ?through"
    have "service_ok cd (snd (record_fact cd s ?f now False))"
      using ok False root
      by (intro record_ok) (simp_all add: anchor_fact_def chain_for_def no_refs_def service_ok_def
          stable_head_def ls_entries_def)
    moreover have "snd (anchor cd tenant s now) = snd (record_fact cd s ?f now False)"
      using False root by (simp add: anchor_def Let_def split: prod.split sum.split)
    ultimately show ?thesis by simp
  qed
qed

text \<open>A verification, from the checkpoint or full, on a sound ledger.\<close>

lemma state_sel [simp]:
  "state_int (checkpoint_state w) ''entries'' d = counted w"
  "state_int (checkpoint_state w) ''anchored'' d = anchored w"
  "state_bool (checkpoint_state w) ''ruled'' b = ruled w"
  by (simp_all add: state_int_def state_bool_def state_field_def checkpoint_state_def)

lemma base_checkpoint:
  "base es w \<Longrightarrow> base es (walk_from (Some \<lparr>j_seq = reached w, j_state = checkpoint_state w\<rparr>))"
  by (simp add: base_def walk_from_def)

lemma walk_from_sel [simp]:
  "findings (walk_from stored) = []" "anchors (walk_from stored) = []" "chains (walk_from stored) c = None"
  by (simp_all add: walk_from_def new_walk_def split: option.split)

lemma read_write_projected:
  "read_projected (write_projected s name seq state rep) name = Some p \<Longrightarrow>
   p = \<lparr>j_seq = seq, j_state = state\<rparr> \<or> read_projected s name = Some p"
  by (auto simp: read_projected_def write_projected_def store_projected_def split: option.splits if_splits)

lemma ls_entries_write [simp]: "ls_entries (write_projected s name seq state rep) = ls_entries s"
  "ls_store (write_projected s name seq state rep) = ls_store s"
  by (simp_all add: ls_entries_def write_projected_def)

lemma verify_ok:
  assumes ok: "service_ok cd s"
  shows "v_intact (fst (verify_ledger cd s full))
    \<and> v_entries (fst (verify_ledger cd s full)) = int (length (ls_entries s))
    \<and> service_ok cd (snd (verify_ledger cd s full))"
proof -
  let ?st = "ls_store s"
  define stored where "stored = (if full then None else read_projected s CHECKPOINT)"
  define start where "start = (case stored of None \<Rightarrow> 0 | Some p \<Rightarrow> j_seq p)"
  define w where "w = foldl (walk_batch cd ?st) (walk_from stored) (batches ?st start (Some (stable_head ?st)) None)"
  have snd: "sound cd (entries ?st)" and rise: "rising (entries ?st)"
    using ok sound_rising by (auto simp: service_ok_def ls_entries_def)
  obtain ps rest where es: "entries ?st = ps @ rest" and start: "start = head_seq ps"
    and base: "base ps (walk_from stored)"
  proof (cases stored)
    case None
    then show ?thesis
      using that [of "[]" "entries ?st"] base_new by (simp add: start_def walk_from_def)
  next
    case (Some p)
    then have "read_projected s CHECKPOINT = Some p" by (simp add: stored_def split: if_splits)
    then obtain ps rest where "ls_entries s = ps @ rest" "j_seq p = head_seq ps" "base ps (walk_from (Some p))"
      using ok by (auto simp: service_ok_def checkpoint_ok_def)
    with that Some show ?thesis by (simp add: start_def ls_entries_def)
  qed
  have rest: "concat (batches ?st start (Some (stable_head ?st)) None) = rest"
    unfolding start by (rule concat_rest [OF es rise])
  have w_base: "base (entries ?st) w"
    using walk_batches_base [OF base, of "batches ?st start (Some (stable_head ?st)) None" cd ?st] rise es rest
    by (simp add: w_def)
  have none: "findings w = []"
    using walk_batches_ok [OF snd, of ps "batches ?st start (Some (stable_head ?st)) None" "[]" "walk_from stored"]
      es rest base by (simp add: w_def)
  have not_beyond: "\<not> start > stable_head ?st"
  proof -
    have "rising (ps @ rest)" using rise es by simp
    then have "head_seq ps \<le> head_seq (ps @ rest)"
      using rising_head [of "ps @ rest" "last ps"] rising_head_nonneg [of "ps @ rest"]
      by (cases ps rule: rev_cases) simp_all
    then show ?thesis using start es by (simp add: stable_head_def)
  qed
  have verify: "verify_ledger cd s full =
      (\<lparr>v_entries = counted w, v_intact = True, v_findings = [], v_checkpoint = start\<rparr>,
       if reached w > 0 \<and> (full \<or> reached w \<noteq> start)
       then write_projected s CHECKPOINT (reached w) (checkpoint_state w) full else s)"
    using not_beyond none
    unfolding verify_ledger_def Let_def stored_def [symmetric] start_def [symmetric] w_def [symmetric]
    by auto
  have "checkpoint_ok (write_projected s CHECKPOINT (reached w) (checkpoint_state w) full)"
  proof -
    have new: "\<exists>ps rest. ls_entries s = ps @ rest \<and> reached w = head_seq ps
        \<and> base ps (walk_from (Some \<lparr>j_seq = reached w, j_state = checkpoint_state w\<rparr>))"
    proof (intro exI conjI)
      show "ls_entries s = entries ?st @ []" by (simp add: ls_entries_def)
      show "reached w = head_seq (entries ?st)" using w_base by (simp add: base_def)
      show "base (entries ?st) (walk_from (Some \<lparr>j_seq = reached w, j_state = checkpoint_state w\<rparr>))"
        by (rule base_checkpoint [OF w_base])
    qed
    have old: "read_projected s CHECKPOINT = Some p \<Longrightarrow>
        \<exists>ps rest. ls_entries s = ps @ rest \<and> j_seq p = head_seq ps \<and> base ps (walk_from (Some p))" for p
      using ok by (simp add: service_ok_def checkpoint_ok_def)
    show ?thesis
    proof (cases "read_projected (write_projected s CHECKPOINT (reached w) (checkpoint_state w) full) CHECKPOINT")
      case (Some p)
      from read_write_projected [OF this] new old Some show ?thesis
        by (auto simp: checkpoint_ok_def)
    qed (simp add: checkpoint_ok_def)
  qed
  then have "service_ok cd (snd (verify_ledger cd s full))"
    using ok by (simp add: verify service_ok_def)
  then show ?thesis using w_base by (simp add: verify base_def ls_entries_def)
qed

lemma commit_sel [simp]:
  "ls_entries (commit s) = ls_entries s" "ls_projected (commit s) = ls_projected s"
  "anchored_through (ls_store (commit s)) = anchored_through (ls_store s)"
  by (simp_all add: commit_def ls_entries_def entries_def anchored_through_def summary_def Let_def)

lemma commit_ok: "service_ok cd s \<Longrightarrow> service_ok cd (commit s)"
  using checkpoint_ok_grow [of s "commit s" "[]"] by (simp add: service_ok_def)

lemma apply_op_ok: "op_ok op \<Longrightarrow> service_ok cd s \<Longrightarrow> service_ok cd (apply_op cd op s)"
  by (cases op) (simp_all add: record_ok anchor_ok verify_ok commit_ok)

lemma history_ok: "\<forall>op \<in> set ops. op_ok op \<Longrightarrow> service_ok cd (history cd ops projections)"
proof -
  assume ops: "\<forall>op \<in> set ops. op_ok op"
  have "service_ok cd s \<Longrightarrow> service_ok cd (fold (apply_op cd) ops s)" for s
    using ops by (induction ops arbitrary: s) (simp_all add: apply_op_ok)
  then show ?thesis
    by (simp add: history_def service_ok_def ls_entries_def entries_def sound_def gapless_def
        anchored_through_def summary_def checkpoint_ok_def read_projected_def split: if_splits)
qed

text \<open>C2: whatever is recorded and anchored, in whatever order and units of work, the ledger is
  sound, and its sequence numbers are 1, 2, 3 and on without a gap.\<close>

theorem history_sound:
  assumes "\<forall>op \<in> set ops. op_ok op"
  shows "sound cd (ls_entries (history cd ops projections))
    \<and> map e_seq (ls_entries (history cd ops projections)) =
        map (\<lambda>i. int i + 1) [0..<length (ls_entries (history cd ops projections))]"
  using history_ok [OF assms, of cd projections] by (simp add: service_ok_def gapless_def)

text \<open>C29: every verification of a ledger the service wrote, full or from the stored checkpoint,
  reports it intact and counts all of its entries: no false alarm, whenever checkpoints were taken.\<close>

theorem history_verifies:
  assumes "\<forall>op \<in> set ops. op_ok op"
  shows "v_intact (fst (verify_ledger cd (history cd ops projections) full))
    \<and> v_entries (fst (verify_ledger cd (history cd ops projections) full)) =
        int (length (ls_entries (history cd ops projections)))"
  using verify_ok [OF history_ok [OF assms]] by simp

definition sample_ops :: "ledger_op list" where
  "sample_ops = [Record_Fact (sample_fact ''run.started'' False) 5 False, Commit, Anchor_Heads ''acme'' 6,
     Record_Fact (sample_fact ''run.finished'' True) 7 True, Verify_Ledger False, Anchor_Heads ''acme'' 8]"

lemma sample_ops_ok: "\<forall>op \<in> set sample_ops. op_ok op"
  by (simp add: sample_ops_def sample_fact_def ANCHORED_def)

theorem history_sound_witness:
  "sound sample_codec (ls_entries (history sample_codec sample_ops True))"
  using history_sound [OF sample_ops_ok, of sample_codec True] by (rule conjunct1)

theorem history_verifies_witness:
  "v_intact (fst (verify_ledger sample_codec (history sample_codec sample_ops True) False))"
  using history_verifies [OF sample_ops_ok, of sample_codec True False] by (rule conjunct1)

end
