(* ===== verification/Ledger_Projection.thy ===== *)
theory Ledger_Projection
  imports Ledger_History
begin

text \<open>
  Projections of the ledger (\<open>ChainedLedger.project\<close>, \<open>rebuilt\<close>, \<open>_rebuild\<close>, \<open>_beyond\<close>): a value
  folded from the entries, stored with the number it read to, and caught up on the next read. The
  locale is the \<open>Projection\<close> protocol of \<open>ports/ledger.py\<close> with its contract: folding keeps the
  state valid, and a valid state comes back from its document. Its main lemma: whatever is stored,
  a read gives the fold of every entry from the first. The stable head is an argument, since other
  stores than the one in memory hold it behind the newest entry.
\<close>

record 's projection =
  pr_name :: string
  pr_kinds :: "string list option"
  pr_empty :: 's
  pr_fold :: "'s \<Rightarrow> ledger_entry \<Rightarrow> 's"
  pr_dump :: "'s \<Rightarrow> json"
  pr_load :: "json \<Rightarrow> 's"

definition fold_batches ::
  "'s projection \<Rightarrow> 's \<Rightarrow> ledger_entry list list \<Rightarrow> 's" where
  "fold_batches P state bss = foldl (foldl (pr_fold P)) state bss"

definition beyond :: "'s projection \<Rightarrow> ledger_store \<Rightarrow> 's \<Rightarrow> int \<Rightarrow> 's" where
  "beyond P st state head =
     (case batches st head None (pr_kinds P) of
        [] \<Rightarrow> state
      | bss \<Rightarrow> fold_batches P (pr_load P (pr_dump P state)) bss)"

definition rebuild :: "'s projection \<Rightarrow> ledger_service \<Rightarrow> int \<Rightarrow> bool \<Rightarrow> 's \<times> ledger_service" where
  "rebuild P s head rep =
     (let state = fold_batches P (pr_empty P) (batches (ls_store s) 0 (Some head) (pr_kinds P))
      in (beyond P (ls_store s) state head,
          write_projected s (pr_name P) head (pr_dump P state) rep))"

definition project_at :: "'s projection \<Rightarrow> ledger_service \<Rightarrow> int \<Rightarrow> 's \<times> ledger_service" where
  "project_at P s head =
     (case read_projected s (pr_name P) of
        None \<Rightarrow> rebuild P s head False
      | Some p \<Rightarrow>
          if j_seq p > head then rebuild P s head True
          else if j_seq p < head then
            (let state = fold_batches P (pr_load P (j_state p))
                           (batches (ls_store s) (j_seq p) (Some head) (pr_kinds P))
             in (beyond P (ls_store s) state head,
                 write_projected s (pr_name P) head (pr_dump P state) False))
          else (beyond P (ls_store s) (pr_load P (j_state p)) head, s))"

definition project :: "'s projection \<Rightarrow> ledger_service \<Rightarrow> 's \<times> ledger_service" where
  "project P s = project_at P s (stable_head (ls_store s))"

definition rebuilt :: "'s projection \<Rightarrow> ledger_service \<Rightarrow> 's \<times> ledger_service" where
  "rebuilt P s = rebuild P s (stable_head (ls_store s)) True"

subsection \<open>The contract\<close>

definition of_its_kinds :: "'s projection \<Rightarrow> ledger_entry \<Rightarrow> bool" where
  "of_its_kinds P e \<longleftrightarrow> (case pr_kinds P of None \<Rightarrow> True | Some ks \<Rightarrow> f_kind e \<in> set ks)"

text \<open>The full computation the projection must equal.\<close>

definition folded :: "'s projection \<Rightarrow> ledger_entry list \<Rightarrow> 's" where
  "folded P es = foldl (pr_fold P) (pr_empty P) (filter (of_its_kinds P) es)"

text \<open>What is stored is the fold of the entries up to its number, or lies beyond the ledger's end.\<close>

definition stored_ok :: "'s projection \<Rightarrow> ledger_service \<Rightarrow> int \<Rightarrow> bool" where
  "stored_ok P s head \<longleftrightarrow>
     (case read_projected s (pr_name P) of
        None \<Rightarrow> True
      | Some p \<Rightarrow> j_seq p \<le> head \<longrightarrow> 0 \<le> j_seq p
          \<and> j_state p = pr_dump P (folded P (filter (\<lambda>e. e_seq e \<le> j_seq p) (ls_entries s))))"

lemma fold_batches_concat: "fold_batches P state bss = foldl (pr_fold P) state (concat bss)"
  by (induction bss arbitrary: state) (simp_all add: fold_batches_def)

lemma rising_split:
  "rising es \<Longrightarrow> filter (\<lambda>e. e_seq e \<le> n) es @ filter (\<lambda>e. n < e_seq e) es = es"
proof (induction es rule: rev_induct)
  case (snoc e es)
  show ?case
  proof (cases "e_seq e \<le> n")
    case True
    then have "filter (\<lambda>e. n < e_seq e) es = []" "filter (\<lambda>e. e_seq e \<le> n) es = es"
      using snoc.prems rising_head [of es] by (fastforce simp: filter_empty_conv filter_id_conv)+
    with True show ?thesis by simp
  qed (use snoc in simp)
qed simp

lemma ls_entries_projected [simp]: "ls_entries (s\<lparr>ls_projected := m\<rparr>) = ls_entries s"
  by (simp add: ls_entries_def)

locale projection_laws =
  fixes P :: "'s projection" and valid :: "'s \<Rightarrow> bool"
  assumes valid_empty: "valid (pr_empty P)"
    and valid_fold: "valid s \<Longrightarrow> valid (pr_fold P s e)"
    and load_dump: "valid s \<Longrightarrow> pr_load P (pr_dump P s) = s"
begin

lemma valid_foldl: "valid s \<Longrightarrow> valid (foldl (pr_fold P) s es)"
  by (induction es arbitrary: s) (simp_all add: valid_fold)

lemma valid_folded: "valid (folded P es)"
  by (simp add: folded_def valid_foldl valid_empty)

lemma batches_kinds:
  "rising (entries st) \<Longrightarrow> concat (batches st seq through (pr_kinds P)) =
     filter (of_its_kinds P) (filter (wanted seq through None) (entries st))"
  unfolding batches_def
  by (subst concat_batches_of) (auto simp: BATCH_def wanted_def of_its_kinds_def intro!: filter_cong)

lemma beyond_folded:
  assumes "rising (entries st)"
  shows "beyond P st (folded P (filter (\<lambda>e. e_seq e \<le> head) (entries st))) head = folded P (entries st)"
proof -
  let ?low = "filter (\<lambda>e. e_seq e \<le> head) (entries st)"
  let ?high = "filter (\<lambda>e. head < e_seq e) (entries st)"
  let ?bss = "batches st head None (pr_kinds P)"
  have "concat ?bss = filter (of_its_kinds P) ?high"
    using batches_kinds [OF assms, of head None] by (simp add: wanted_def)
  then have "foldl (pr_fold P) (folded P ?low) (concat ?bss) = folded P (?low @ ?high)"
    by (simp only: folded_def filter_append foldl_append)
  also have "?low @ ?high = entries st" by (rule rising_split [OF assms])
  finally show ?thesis
    by (cases ?bss) (simp_all add: beyond_def fold_batches_concat load_dump valid_folded)
qed

lemma rebuild_folded:
  assumes "rising (ls_entries s)"
  shows "fst (rebuild P s head rep) = folded P (ls_entries s)"
    and "snd (rebuild P s head rep) = write_projected s (pr_name P) head
           (pr_dump P (folded P (filter (\<lambda>e. e_seq e \<le> head) (ls_entries s)))) rep"
proof -
  have rise: "rising (entries (ls_store s))" using assms by (simp add: ls_entries_def)
  have pos: "filter (wanted 0 (Some head) None) (entries (ls_store s)) =
      filter (\<lambda>e. e_seq e \<le> head) (entries (ls_store s))"
    using rising_head [OF rise] by (auto simp: wanted_def intro: filter_cong)
  have "fold_batches P (pr_empty P) (batches (ls_store s) 0 (Some head) (pr_kinds P)) =
      folded P (filter (\<lambda>e. e_seq e \<le> head) (ls_entries s))"
    by (simp only: fold_batches_concat batches_kinds [OF rise] pos folded_def ls_entries_def)
  then show "fst (rebuild P s head rep) = folded P (ls_entries s)"
    "snd (rebuild P s head rep) = write_projected s (pr_name P) head
       (pr_dump P (folded P (filter (\<lambda>e. e_seq e \<le> head) (ls_entries s)))) rep"
    using beyond_folded [OF rise] by (simp_all add: rebuild_def Let_def ls_entries_def)
qed

lemma caught_up:
  assumes "rising (ls_entries s)" "n \<le> head"
  shows "fold_batches P (folded P (filter (\<lambda>e. e_seq e \<le> n) (ls_entries s)))
      (batches (ls_store s) n (Some head) (pr_kinds P)) =
    folded P (filter (\<lambda>e. e_seq e \<le> head) (ls_entries s))"
proof -
  have rise: "rising (entries (ls_store s))" using assms(1) by (simp add: ls_entries_def)
  let ?upto = "filter (\<lambda>e. e_seq e \<le> head) (ls_entries s)"
  have "rising ?upto"
    using rising_append rising_split [OF assms(1), of head] assms(1) by metis
  moreover have "filter (\<lambda>e. e_seq e \<le> n) ?upto = filter (\<lambda>e. e_seq e \<le> n) (ls_entries s)"
    using assms(2) by (auto intro: filter_cong)
  moreover have "filter (\<lambda>e. n < e_seq e) ?upto = filter (wanted n (Some head) None) (ls_entries s)"
    by (auto simp: wanted_def intro: filter_cong)
  ultimately have "filter (\<lambda>e. e_seq e \<le> n) (ls_entries s)
      @ filter (wanted n (Some head) None) (ls_entries s) = ?upto"
    using rising_split [of ?upto n] by simp
  then show ?thesis
    by (simp only: fold_batches_concat batches_kinds [OF rise] folded_def ls_entries_def
        foldl_append [symmetric] filter_append [symmetric])
qed

lemma stored_ok_write:
  assumes "0 \<le> head" "stored_ok P s head \<or> rep"
  shows "stored_ok P (write_projected s (pr_name P) head
     (pr_dump P (folded P (filter (\<lambda>e. e_seq e \<le> head) (ls_entries s)))) rep) head"
proof -
  let ?s = "write_projected s (pr_name P) head (pr_dump P (folded P (filter (\<lambda>e. e_seq e \<le> head) (ls_entries s)))) rep"
  show ?thesis
  proof (cases "read_projected ?s (pr_name P)")
    case (Some p)
    from read_write_projected [OF this] show ?thesis
    proof
      assume "read_projected s (pr_name P) = Some p"
      with Some assms show ?thesis
        by (auto simp: stored_ok_def read_projected_def write_projected_def store_projected_def
            split: option.splits if_splits)
    qed (use Some assms(1) in \<open>simp add: stored_ok_def\<close>)
  qed (simp add: stored_ok_def)
qed

lemma project_folded:
  assumes "rising (ls_entries s)" "stored_ok P s head" "0 \<le> head"
  shows "fst (project_at P s head) = folded P (ls_entries s)"
    and "stored_ok P (snd (project_at P s head)) head"
proof -
  have rise: "rising (entries (ls_store s))" using assms(1) by (simp add: ls_entries_def)
  have "fst (project_at P s head) = folded P (ls_entries s) \<and> stored_ok P (snd (project_at P s head)) head"
  proof (cases "read_projected s (pr_name P)")
    case None
    then show ?thesis
      using rebuild_folded [OF assms(1)] stored_ok_write [OF assms(3), of s False] assms(2)
      by (simp add: project_at_def)
  next
    case (Some p)
    consider "j_seq p > head" | "j_seq p \<le> head" by linarith
    then show ?thesis
    proof cases
      case 1
      with Some show ?thesis
        using rebuild_folded [OF assms(1)] stored_ok_write [OF assms(3), of s True]
        by (simp add: project_at_def)
    next
      case 2
      let ?upto = "\<lambda>n. folded P (filter (\<lambda>e. e_seq e \<le> n) (ls_entries s))"
      have loaded: "pr_load P (j_state p) = ?upto (j_seq p)"
        using assms(2) Some 2 by (simp add: stored_ok_def load_dump valid_folded)
      have state: "fold_batches P (pr_load P (j_state p)) (batches (ls_store s) (j_seq p) (Some head) (pr_kinds P))
          = ?upto head"
        unfolding loaded by (rule caught_up [OF assms(1) 2])
      show ?thesis
      proof (cases "j_seq p < head")
        case True
        with Some state 2 show ?thesis
          using beyond_folded [OF rise, of head] stored_ok_write [OF assms(3), of s False] assms(2)
          by (simp add: project_at_def Let_def ls_entries_def)
      next
        case False
        with 2 have "j_seq p = head" by simp
        with Some loaded show ?thesis
          using beyond_folded [OF rise, of head] assms(2) by (simp add: project_at_def ls_entries_def)
      qed
    qed
  qed
  then show "fst (project_at P s head) = folded P (ls_entries s)"
    "stored_ok P (snd (project_at P s head)) head" by blast+
qed

end

end
