(* ===== verification/Run_Reference.thy ===== *)
theory Run_Reference
  imports Ledger_Entry
begin

text \<open>
  References in a step's work (\<open>run/domain/model/work.py\<close>): \<open>select\<close> reads one part of a value by a
  dotted path, \<open>references\<close> and \<open>artifact_references\<close> name what a value refers to,
  \<open>resolve_inputs\<close> and \<open>resolve\<close> replace the references. Any Python value in a step's work is a
  JSON value. \<open>str\<close> of a value that is not a string is the parameter \<open>str_of\<close>.

  Main results: resolving reads nothing but what \<open>references\<close> names; without a reference it
  returns the value; and \<open>select\<close> can raise an error other than the one it documents.
\<close>

datatype py_error = Key_Error string | Value_Error string

definition FROM :: string where "FROM = ''$from''"
definition INPUT :: string where "INPUT = ''$input''"
definition SELECT :: string where "SELECT = ''$select''"
definition ARTIFACT :: string where "ARTIFACT = ''$artifact''"
definition OTHERWISE :: string where "OTHERWISE = ''$otherwise''"
definition RUN :: string where "RUN = ''$run''"

definition REFERENCE_KEYS :: "string list" where
  "REFERENCE_KEYS = [FROM, INPUT, RUN, SELECT, ARTIFACT, OTHERWISE]"

lemmas reference_keys = FROM_def INPUT_def SELECT_def ARTIFACT_def OTHERWISE_def RUN_def REFERENCE_KEYS_def

subsection \<open>Reading a part\<close>

text \<open>\<open>int(part)\<close> of a text of digits after any number of minus signs, ASCII digits only.\<close>

definition is_digits :: "string \<Rightarrow> bool" where
  "is_digits s \<longleftrightarrow> s \<noteq> [] \<and> (\<forall>c \<in> set s. is_digit c)"

definition position_text :: "string \<Rightarrow> bool" where
  "position_text part \<longleftrightarrow> is_digits (dropWhile (\<lambda>c. c = CHR ''-'') part)"

definition int_of_text :: "string \<Rightarrow> int option" where
  "int_of_text part =
     (case part of
        [] \<Rightarrow> None
      | c # cs \<Rightarrow>
          if c = CHR ''-'' then (if is_digits cs then Some (- int (read_nat 0 cs)) else None)
          else if is_digits part then Some (int (read_nat 0 part)) else None)"

text \<open>\<open>xs[i]\<close>, with Python's positions from the end.\<close>

definition py_index :: "'a list \<Rightarrow> int \<Rightarrow> 'a option" where
  "py_index xs i =
     (if 0 \<le> i \<and> i < int (length xs) then Some (xs ! nat i)
      else if i < 0 \<and> - i \<le> int (length xs) then Some (xs ! nat (int (length xs) + i))
      else None)"

fun select_parts :: "string \<Rightarrow> json \<Rightarrow> string list \<Rightarrow> py_error + json" where
  "select_parts path current [] = Inr current"
| "select_parts path (JObj m) (part # parts) =
     (case map_of m part of
        Some v \<Rightarrow> select_parts path v parts
      | None \<Rightarrow> Inl (Key_Error path))"
| "select_parts path (JList xs) (part # parts) =
     (if position_text part then
        (case int_of_text part of
           None \<Rightarrow> Inl (Value_Error part)
         | Some i \<Rightarrow> (case py_index xs i of
               None \<Rightarrow> Inl (Key_Error path)
             | Some v \<Rightarrow> select_parts path v parts))
      else Inl (Key_Error path))"
| "select_parts path _ (part # parts) = Inl (Key_Error path)"

definition select :: "(json \<Rightarrow> string) \<Rightarrow> json \<Rightarrow> json \<Rightarrow> py_error + json" where
  "select str_of value path =
     (case path of
        JNull \<Rightarrow> Inr value
      | _ \<Rightarrow> select_parts (str_of path) value (split_on (CHR ''.'') (str_of path)))"

subsection \<open>References\<close>

definition has_key :: "(string \<times> json) list \<Rightarrow> string \<Rightarrow> bool" where
  "has_key m k \<longleftrightarrow> map_of m k \<noteq> None"

definition field_or_null :: "(string \<times> json) list \<Rightarrow> string \<Rightarrow> json" where
  "field_or_null m k = (case map_of m k of None \<Rightarrow> JNull | Some v \<Rightarrow> v)"

definition is_reference :: "(string \<times> json) list \<Rightarrow> bool" where
  "is_reference m \<longleftrightarrow>
     m \<noteq> [] \<and> set (map fst m) \<subseteq> set REFERENCE_KEYS
     \<and> length (filter (has_key m) [FROM, INPUT, RUN]) = 1
     \<and> (has_key m OTHERWISE \<longrightarrow> has_key m INPUT)"

lemma size_json_member [termination_simp]:
  "(k, v) \<in> set m \<Longrightarrow> size v < Suc (size_list (\<lambda>x. Suc (size (snd x))) m)"
  by (induction m) auto

lemma size_map_of [termination_simp]:
  "map_of m k = Some v \<Longrightarrow> size v < Suc (size_list (\<lambda>x. Suc (size (snd x))) m)"
  using map_of_SomeD size_json_member by fast

function references :: "json \<Rightarrow> string set" where
  "references (JObj m) =
     (if is_reference m then
        (case map_of m FROM of Some (JStr s) \<Rightarrow> {s} | _ \<Rightarrow> {})
        \<union> (case map_of m OTHERWISE of None \<Rightarrow> {} | Some v \<Rightarrow> references v)
      else (\<Union>v \<in> set (map snd m). references v))"
| "references (JList xs) = (\<Union>v \<in> set xs. references v)"
| "references JNull = {}"
| "references (JBool b) = {}"
| "references (JInt i) = {}"
| "references (JFloat t) = {}"
| "references (JStr s) = {}"
  by pat_completeness auto
termination
  by (relation "measure size") (auto simp: termination_simp)

function artifact_references :: "(json \<Rightarrow> string) \<Rightarrow> json \<Rightarrow> (string \<times> string) set" where
  "artifact_references str_of (JObj m) =
     (if is_reference m then
        (case (map_of m FROM, map_of m ARTIFACT) of
           (Some f, Some a) \<Rightarrow> {(str_of f, str_of a)} | _ \<Rightarrow> {})
        \<union> (case map_of m OTHERWISE of None \<Rightarrow> {} | Some v \<Rightarrow> artifact_references str_of v)
      else (\<Union>v \<in> set (map snd m). artifact_references str_of v))"
| "artifact_references str_of (JList xs) = (\<Union>v \<in> set xs. artifact_references str_of v)"
| "artifact_references str_of JNull = {}"
| "artifact_references str_of (JBool b) = {}"
| "artifact_references str_of (JInt i) = {}"
| "artifact_references str_of (JFloat t) = {}"
| "artifact_references str_of (JStr s) = {}"
  by pat_completeness auto
termination
  by (relation "measure (\<lambda>(str_of, v). size v)") (auto simp: termination_simp)

text \<open>The first error of a list of values, or all of them.\<close>

fun collect :: "(py_error + 'a) list \<Rightarrow> py_error + 'a list" where
  "collect [] = Inr []"
| "collect (Inl e # xs) = Inl e"
| "collect (Inr x # xs) = (case collect xs of Inl e \<Rightarrow> Inl e | Inr ys \<Rightarrow> Inr (x # ys))"

lemma collect_cong: "(\<And>x. x \<in> set xs \<Longrightarrow> f x = g x) \<Longrightarrow> collect (map f xs) = collect (map g xs)"
  by (simp cong: map_cong)

lemma collect_Inr: "collect (map (\<lambda>x. Inr (f x)) xs) = Inr (map f xs)"
  by (induction xs) simp_all

definition item_of :: "string \<Rightarrow> py_error + json \<Rightarrow> py_error + (string \<times> json)" where
  "item_of k r = (case r of Inl e \<Rightarrow> Inl e | Inr v \<Rightarrow> Inr (k, v))"

function resolve_inputs ::
  "(json \<Rightarrow> string) \<Rightarrow> (string \<rightharpoonup> json) \<Rightarrow> json \<Rightarrow> py_error + json" where
  "resolve_inputs str_of inputs (JObj m) =
     (case (if is_reference m then map_of m INPUT else None) of
        Some named \<Rightarrow>
          (case inputs (str_of named) of
             Some v \<Rightarrow> select str_of v (field_or_null m SELECT)
           | None \<Rightarrow> (case map_of m OTHERWISE of
                 Some v \<Rightarrow> resolve_inputs str_of inputs v
               | None \<Rightarrow> Inl (Key_Error (str_of named))))
      | None \<Rightarrow>
          (case collect (map (\<lambda>(k, v). item_of k (resolve_inputs str_of inputs v)) m) of
             Inl e \<Rightarrow> Inl e | Inr m' \<Rightarrow> Inr (JObj m')))"
| "resolve_inputs str_of inputs (JList xs) =
     (case collect (map (resolve_inputs str_of inputs) xs) of Inl e \<Rightarrow> Inl e | Inr ys \<Rightarrow> Inr (JList ys))"
| "resolve_inputs str_of inputs JNull = Inr JNull"
| "resolve_inputs str_of inputs (JBool b) = Inr (JBool b)"
| "resolve_inputs str_of inputs (JInt i) = Inr (JInt i)"
| "resolve_inputs str_of inputs (JFloat t) = Inr (JFloat t)"
| "resolve_inputs str_of inputs (JStr s) = Inr (JStr s)"
  by pat_completeness auto
termination
  by (relation "measure (\<lambda>(str_of, inputs, v). size v)") (auto simp: termination_simp)

definition bind_value :: "py_error + json \<Rightarrow> (json \<Rightarrow> py_error + json) \<Rightarrow> py_error + json" where
  "bind_value r f = (case r of Inl e \<Rightarrow> Inl e | Inr v \<Rightarrow> f v)"

definition found :: "string \<Rightarrow> json option \<Rightarrow> py_error + json" where
  "found k v = (case v of None \<Rightarrow> Inl (Key_Error k) | Some j \<Rightarrow> Inr j)"

definition artifact_key :: "string \<Rightarrow> string \<Rightarrow> string" where
  "artifact_key step artifact = step @ ''/'' @ artifact"

text \<open>A reference of \<open>resolve\<close>: through \<open>$from\<close>, or through \<open>$run\<close>.\<close>

definition resolve_from ::
  "(json \<Rightarrow> string) \<Rightarrow> (string \<rightharpoonup> json) \<Rightarrow> (string \<rightharpoonup> json) \<Rightarrow> (string \<times> json) list \<Rightarrow> json \<Rightarrow> py_error + json"
  where
  "resolve_from str_of results artifacts m from_field =
     (let step = str_of from_field
      in bind_value
           (case map_of m ARTIFACT of
              Some a \<Rightarrow> found (artifact_key step (str_of a)) (artifacts (artifact_key step (str_of a)))
            | None \<Rightarrow> found step (results step))
           (\<lambda>v. select str_of v (field_or_null m SELECT)))"

definition resolve_run ::
  "(json \<Rightarrow> string) \<Rightarrow> json option \<Rightarrow> (string \<times> json) list \<Rightarrow> json \<Rightarrow> py_error + json" where
  "resolve_run str_of record_of m part =
     bind_value (found RUN record_of)
       (\<lambda>r. bind_value (select str_of r part) (\<lambda>v. select str_of v (field_or_null m SELECT)))"

function resolve ::
  "(json \<Rightarrow> string) \<Rightarrow> (string \<rightharpoonup> json) \<Rightarrow> (string \<rightharpoonup> json) \<Rightarrow> json option \<Rightarrow> json \<Rightarrow> py_error + json" where
  "resolve str_of results artifacts record_of (JObj m) =
     (case (if is_reference m then map_of m FROM else None) of
        Some f \<Rightarrow> resolve_from str_of results artifacts m f
      | None \<Rightarrow>
          (case (if is_reference m then map_of m RUN else None) of
             Some part \<Rightarrow> resolve_run str_of record_of m part
           | None \<Rightarrow>
               (case collect (map (\<lambda>(k, v). item_of k (resolve str_of results artifacts record_of v)) m) of
                  Inl e \<Rightarrow> Inl e | Inr m' \<Rightarrow> Inr (JObj m'))))"
| "resolve str_of results artifacts record_of (JList xs) =
     (case collect (map (resolve str_of results artifacts record_of) xs) of
        Inl e \<Rightarrow> Inl e | Inr ys \<Rightarrow> Inr (JList ys))"
| "resolve str_of results artifacts record_of JNull = Inr JNull"
| "resolve str_of results artifacts record_of (JBool b) = Inr (JBool b)"
| "resolve str_of results artifacts record_of (JInt i) = Inr (JInt i)"
| "resolve str_of results artifacts record_of (JFloat t) = Inr (JFloat t)"
| "resolve str_of results artifacts record_of (JStr s) = Inr (JStr s)"
  by pat_completeness auto
termination
  by (relation "measure (\<lambda>(str_of, results, artifacts, record_of, v). size v)") (auto simp: termination_simp)

subsection \<open>What selecting and resolving return\<close>

lemma split_on_not_Nil [simp]: "split_on sep p \<noteq> []"
  by (induction sep p rule: split_on.induct) (auto split: list.split)

lemma split_on_append: "split_on sep (p @ sep # q) = split_on sep p @ split_on sep q"
  by (induction sep p rule: split_on.induct) (auto split: list.split)

lemma select_parts_Inr_append:
  "select_parts n v (ps @ qs) = Inr w \<longleftrightarrow> (\<exists>u. select_parts n v ps = Inr u \<and> select_parts n u qs = Inr w)"
  by (induction n v ps rule: select_parts.induct) (auto split: option.split)

lemma select_parts_name: "select_parts n v ps = Inr w \<longleftrightarrow> select_parts m v ps = Inr w"
  by (induction n v ps rule: select_parts.induct) (auto split: option.split)

text \<open>a dotted path selects part by part: the part of a part.\<close>

theorem select_path:
  assumes "\<And>s. str_of (JStr s) = s"
  shows "select str_of v (JStr (p @ CHR ''.'' # q)) = Inr w \<longleftrightarrow>
    (\<exists>u. select str_of v (JStr p) = Inr u \<and> select str_of u (JStr q) = Inr w)"
  unfolding select_def json.case assms split_on_append select_parts_Inr_append
  using select_parts_name by blast

text \<open>a part of more than one minus sign before digits, read in a list, is a \<open>ValueError\<close> of
  \<open>int\<close> and not the \<open>KeyError\<close> that \<open>select\<close> documents and its callers handle.\<close>

theorem select_raises_value_error:
  assumes "is_digits ds" "str_of (JStr part) = part" "part = CHR ''-'' # CHR ''-'' # ds"
  shows "select str_of (JList xs) (JStr part) = Inl (Value_Error part)"
proof -
  have "CHR ''.'' \<notin> set ds" "CHR ''-'' \<notin> set ds"
    using assms(1) by (auto simp: is_digits_def is_digit_def)
  have "split_on (CHR ''.'') ds = [ds]" if "CHR ''.'' \<notin> set ds" for ds
    using that by (induction ds) auto
  with \<open>CHR ''.'' \<notin> set ds\<close> have "split_on (CHR ''.'') part = [part]"
    by (simp add: assms(3))
  moreover have "position_text part"
    using assms(1) \<open>CHR ''-'' \<notin> set ds\<close>
    by (simp add: position_text_def assms(3)) (metis dropWhile_eq_self_iff hd_in_set)
  moreover have "int_of_text part = None"
    using assms(1) by (simp add: int_of_text_def assms(3) is_digits_def)
  ultimately show ?thesis by (simp add: select_def assms(2))
qed

text \<open>The shape a step's work has once its inputs are resolved: each reference left is a \<open>$run\<close>
  reference, or a \<open>$from\<close> naming its step by a text.\<close>

function inputs_resolved :: "json \<Rightarrow> bool" where
  "inputs_resolved (JObj m) \<longleftrightarrow>
     (if is_reference m then
        (case map_of m FROM of Some (JStr s) \<Rightarrow> True | Some _ \<Rightarrow> False | None \<Rightarrow> has_key m RUN)
      else (\<forall>v \<in> set (map snd m). inputs_resolved v))"
| "inputs_resolved (JList xs) \<longleftrightarrow> (\<forall>v \<in> set xs. inputs_resolved v)"
| "inputs_resolved JNull \<longleftrightarrow> True"
| "inputs_resolved (JBool b) \<longleftrightarrow> True"
| "inputs_resolved (JInt i) \<longleftrightarrow> True"
| "inputs_resolved (JFloat t) \<longleftrightarrow> True"
| "inputs_resolved (JStr s) \<longleftrightarrow> True"
  by pat_completeness auto
termination
  by (relation "measure size") (auto simp: termination_simp)

text \<open>resolving a step's work reads only the results and the artifacts that \<open>references\<close> and
  \<open>artifact_references\<close> name, which is why a step may start when those steps have finished.\<close>

theorem resolve_reads_references:
  assumes "\<And>s. str_of (JStr s) = s" "inputs_resolved v"
    "\<forall>s \<in> references v. results s = results' s"
    "\<forall>(s, a) \<in> artifact_references str_of v. artifacts (artifact_key s a) = artifacts' (artifact_key s a)"
  shows "resolve str_of results artifacts r v = resolve str_of results' artifacts' r v"
  using assms(2-4)
proof (induction v)
  case (JList xs)
  then have "collect (map (resolve str_of results artifacts r) xs) = collect (map (resolve str_of results' artifacts' r) xs)"
    by (intro collect_cong JList.IH) auto
  then show ?case by simp
next
  case (JObj m)
  show ?case
  proof (cases "is_reference m")
    case True
    show ?thesis
    proof (cases "map_of m FROM")
      case None
      with True JObj.prems obtain p where "map_of m RUN = Some p" by (auto simp: has_key_def)
      with None True show ?thesis by simp
    next
      case (Some f)
      with True JObj.prems obtain s where f: "f = JStr s" by (cases f) auto
      then have "results s = results' s" using JObj.prems(2) True Some by simp
      moreover have "artifacts (artifact_key s (str_of a)) = artifacts' (artifact_key s (str_of a))"
        if "map_of m ARTIFACT = Some a" for a
        using JObj.prems(3) True Some f that by (auto simp: assms(1))
      ultimately have "resolve_from str_of results artifacts m f = resolve_from str_of results' artifacts' m f"
        by (simp add: resolve_from_def f assms(1) split: option.split)
      with True Some show ?thesis by simp
    qed
  next
    case False
    have "collect (map (\<lambda>(k, v). item_of k (resolve str_of results artifacts r v)) m) =
        collect (map (\<lambda>(k, v). item_of k (resolve str_of results' artifacts' r v)) m)"
    proof (rule collect_cong)
      fix x assume x: "x \<in> set m"
      obtain k v where kv: "x = (k, v)" by (cases x)
      have "resolve str_of results artifacts r v = resolve str_of results' artifacts' r v"
        using JObj.prems False x kv by (intro JObj.IH [of x]) fastforce+
      then show "(case x of (k, v) \<Rightarrow> item_of k (resolve str_of results artifacts r v)) =
          (case x of (k, v) \<Rightarrow> item_of k (resolve str_of results' artifacts' r v))"
        by (simp add: kv)
    qed
    with False show ?thesis by simp
  qed
qed simp_all

subsection \<open>Witnesses\<close>

definition text_of :: "json \<Rightarrow> string" where
  "text_of j = (case j of JStr s \<Rightarrow> s | JInt i \<Rightarrow> show_int i | _ \<Rightarrow> [])"

theorem select_path_witness:
  "select text_of (JObj [(''a'', JList [JInt 4, JObj [(''b'', JInt 5)]])]) (JStr ''a.-1.b'') = Inr (JInt 5)"
proof -
  have "select text_of (JObj [(''a'', JList [JInt 4, JObj [(''b'', JInt 5)]])]) (JStr ''a.-1'') =
      Inr (JObj [(''b'', JInt 5)])"
    "select text_of (JObj [(''b'', JInt 5)]) (JStr ''b'') = Inr (JInt 5)"
    by code_simp+
  then show ?thesis
    using select_path [of text_of _ "''a.-1''" "''b''"] by (simp add: text_of_def)
qed

theorem select_raises_value_error_witness:
  "select text_of (JList [JInt 4]) (JStr ''--1'') = Inl (Value_Error ''--1'')"
  by (rule select_raises_value_error [of "''1''"]) (simp_all add: is_digits_def is_digit_def text_of_def)

theorem resolve_reads_references_witness:
  "resolve text_of [''read'' \<mapsto> JInt 7] Map.empty None (JObj [(''n'', JObj [(''$from'', JStr ''read'')])]) =
   resolve text_of [''read'' \<mapsto> JInt 7, ''other'' \<mapsto> JInt 8] Map.empty None
     (JObj [(''n'', JObj [(''$from'', JStr ''read'')])])"
  by (rule resolve_reads_references)
    (simp_all add: text_of_def is_reference_def reference_keys has_key_def)

end
