(* ===== verification/Run_Open_Work.thy ===== *)
theory Run_Open_Work
  imports Ledger_Projection Run_Reference
begin

text \<open>
  The cap on a process's open work (\<open>run/domain/service/open_work.py\<close>): the runs of a process in
  flight, a projection of the ledger, and the count held against the cap. Main results: the
  projection satisfies the contract of \<open>projection_laws\<close>, so what is read from the projection
  store is the full computation; and a run is in flight exactly when its newest entry of the
  projection's kinds admitted it.
\<close>

definition ADMITTED :: string where "ADMITTED = ''open_work.admitted''"
definition CAPPED :: string where "CAPPED = ''open_work.capped''"
definition ENDS :: "string list" where "ENDS = [''run.finished'', ''run.escalated'']"
definition KINDS :: "string list" where "KINDS = ADMITTED # ENDS"

record in_flight =
  processes :: "string \<rightharpoonup> string set"

definition runs_of :: "in_flight \<Rightarrow> string \<Rightarrow> string set" where
  "runs_of s process = (case processes s process of None \<Rightarrow> {} | Some runs \<Rightarrow> runs)"

definition fold_in_flight :: "in_flight \<Rightarrow> ledger_entry \<Rightarrow> in_flight" where
  "fold_in_flight s e =
     (case (r_run_id (f_refs e), r_process_version (f_refs e)) of
        (Some run, Some version) \<Rightarrow>
          (let process = process_of version in
           if f_rehearsal e then s
           else if f_kind e = ADMITTED then
             s\<lparr>processes := (processes s)(process \<mapsto> insert run (runs_of s process))\<rparr>
           else if f_kind e \<in> set ENDS \<and> processes s process \<noteq> None then
             (if runs_of s process - {run} = {} then s\<lparr>processes := (processes s)(process := None)\<rparr>
              else s\<lparr>processes := (processes s)(process \<mapsto> runs_of s process - {run})\<rparr>)
           else s)
      | _ \<Rightarrow> s)"

definition dump_in_flight :: "in_flight \<Rightarrow> json" where
  "dump_in_flight s =
     JObj [(''processes'', JObj (map (\<lambda>p. (p, JList (map JStr (sorted_list_of_set (runs_of s p)))))
                                  (sorted_list_of_set (dom (processes s)))))]"

definition texts_of :: "json \<Rightarrow> string set" where
  "texts_of j = (case j of JList xs \<Rightarrow> {t. JStr t \<in> set xs} | _ \<Rightarrow> {})"

definition load_in_flight :: "json \<Rightarrow> in_flight" where
  "load_in_flight j =
     (case j of
        JObj m \<Rightarrow> (case map_of m ''processes'' of
           Some (JObj ps) \<Rightarrow> \<lparr>processes = map_of (map (\<lambda>(p, runs). (p, texts_of runs)) ps)\<rparr>
         | _ \<Rightarrow> \<lparr>processes = Map.empty\<rparr>)
      | _ \<Rightarrow> \<lparr>processes = Map.empty\<rparr>)"

definition IN_FLIGHT :: "in_flight projection" where
  "IN_FLIGHT = \<lparr>pr_name = ''run.open_work.v1'', pr_kinds = Some KINDS,
     pr_empty = \<lparr>processes = Map.empty\<rparr>, pr_fold = fold_in_flight,
     pr_dump = dump_in_flight, pr_load = load_in_flight\<rparr>"

text \<open>\<open>in_flight\<close>, the full computation.\<close>

definition in_flight_of :: "ledger_entry list \<Rightarrow> in_flight" where
  "in_flight_of es =
     foldl (\<lambda>s e. if f_kind e \<in> set KINDS then fold_in_flight s e else s) (pr_empty IN_FLIGHT) es"

subsection \<open>The count at the cap\<close>

record counted_work =
  c_kind :: string
  c_cap :: int
  c_read :: "int option"
  c_in_flight :: int
  c_unread :: "string option"

definition open_count :: "counted_work \<Rightarrow> int" where
  "open_count c = (case c_read c of None \<Rightarrow> 0 | Some n \<Rightarrow> n) + c_in_flight c"

definition cap_reached :: "counted_work \<Rightarrow> bool" where
  "cap_reached c \<longleftrightarrow> c_unread c \<noteq> None \<or> open_count c \<ge> c_cap c"

definition describe_count :: "counted_work \<Rightarrow> string" where
  "describe_count c =
     (case c_unread c of
        Some why \<Rightarrow> c_kind c @ '': the open outcomes could not be read ('' @ why @ '')''
      | None \<Rightarrow>
          c_kind c @ '': '' @ show_int (open_count c) @ '' of '' @ show_int (c_cap c) @ '' ('' @
          join '', '' ((case c_read c of None \<Rightarrow> [] | Some n \<Rightarrow> [show_int n @ '' open outside''])
                       @ [show_int (c_in_flight c) @ '' run(s) in flight'']) @ '')'')"

text \<open>The two \<open>ValueError\<close>s \<open>counted_from\<close> raises, and an error of \<open>select\<close> it does not handle.\<close>

datatype count_error = No_Part "string option" | Not_A_Count "string option" | Select_Error py_error

definition counted_from :: "(json \<Rightarrow> string) \<Rightarrow> json \<Rightarrow> string option \<Rightarrow> count_error + int" where
  "counted_from str_of output path =
     (case select str_of output (case path of None \<Rightarrow> JNull | Some p \<Rightarrow> JStr p) of
        Inl (Key_Error _) \<Rightarrow> Inl (No_Part path)
      | Inl e \<Rightarrow> Inl (Select_Error e)
      | Inr (JList xs) \<Rightarrow> Inr (int (length xs))
      | Inr (JInt n) \<Rightarrow> if n \<ge> 0 then Inr n else Inl (Not_A_Count path)
      | Inr _ \<Rightarrow> Inl (Not_A_Count path))"

subsection \<open>The projection keeps its contract\<close>

definition flight_ok :: "in_flight \<Rightarrow> bool" where
  "flight_ok s \<longleftrightarrow> finite (dom (processes s)) \<and>
     (\<forall>p runs. processes s p = Some runs \<longrightarrow> finite runs \<and> runs \<noteq> {})"

lemma flight_ok_fold: "flight_ok s \<Longrightarrow> flight_ok (fold_in_flight s e)"
  by (auto simp: flight_ok_def fold_in_flight_def Let_def runs_of_def split: option.splits)

lemma texts_of_list [simp]: "texts_of (JList (map JStr ts)) = set ts"
  by (auto simp: texts_of_def)

lemma load_dump_in_flight:
  assumes "flight_ok s"
  shows "load_in_flight (dump_in_flight s) = s"
proof -
  have fin: "finite (dom (processes s))" using assms by (simp add: flight_ok_def)
  have "map_of (map (\<lambda>p. (p, runs_of s p)) (sorted_list_of_set (dom (processes s)))) = processes s"
    by (rule ext, rename_tac q, use fin in \<open>case_tac "processes s q"\<close>)
      (auto simp: map_of_map_restrict restrict_map_def runs_of_def domI fin)
  moreover have "set (sorted_list_of_set (runs_of s p)) = runs_of s p" for p
    using assms by (cases "processes s p") (auto simp: flight_ok_def runs_of_def)
  ultimately show ?thesis
    by (simp add: load_in_flight_def dump_in_flight_def comp_def in_flight.equality)
qed

interpretation flight: projection_laws IN_FLIGHT flight_ok
  by unfold_locales
    (simp_all add: IN_FLIGHT_def flight_ok_fold load_dump_in_flight, simp add: flight_ok_def)

lemma in_flight_folded: "in_flight_of es = folded IN_FLIGHT es"
  by (induction es rule: rev_induct)
    (simp_all add: in_flight_of_def folded_def of_its_kinds_def IN_FLIGHT_def)

text \<open>C37: the runs in flight read through the projection store, with whatever head the store
  calls stable, are the full computation over every entry; and what the read stores again is such
  that the next read is too.\<close>

theorem in_flight_projected:
  assumes "rising (ls_entries s)" "stored_ok IN_FLIGHT s head" "0 \<le> head"
  shows "fst (project_at IN_FLIGHT s head) = in_flight_of (ls_entries s)
    \<and> stored_ok IN_FLIGHT (snd (project_at IN_FLIGHT s head)) head"
  using flight.project_folded [OF assms] by (simp add: in_flight_folded)

subsection \<open>Which runs are in flight\<close>

definition moves :: "string \<Rightarrow> string \<Rightarrow> ledger_entry \<Rightarrow> bool" where
  "moves process run e \<longleftrightarrow> f_kind e \<in> set KINDS \<and> \<not> f_rehearsal e \<and> r_run_id (f_refs e) = Some run
     \<and> (case r_process_version (f_refs e) of None \<Rightarrow> False | Some v \<Rightarrow> process_of v = process)"

lemma kinds_disjoint [simp]: "ADMITTED \<notin> set ENDS" "f_kind e = ADMITTED \<Longrightarrow> f_kind e \<in> set KINDS"
  "set KINDS = insert ADMITTED (set ENDS)"
  by (simp_all add: ADMITTED_def ENDS_def KINDS_def)

lemma fold_in_flight_runs:
  "f_kind e \<in> set KINDS \<Longrightarrow> runs_of (fold_in_flight s e) process =
     (if \<exists>run. moves process run e then
        (if f_kind e = ADMITTED then insert (the (r_run_id (f_refs e))) (runs_of s process)
         else runs_of s process - {the (r_run_id (f_refs e))})
      else runs_of s process)"
  by (auto simp: fold_in_flight_def moves_def Let_def runs_of_def split: option.splits)

text \<open>a run is in flight exactly when the newest of its entries that count, no rehearsal's,
  is the one that admitted it: admitted, and neither finished nor escalated since.\<close>

theorem in_flight_iff_admitted_last:
  "run \<in> runs_of (in_flight_of es) process \<longleftrightarrow>
     map_option f_kind (last_of (filter (moves process run) es)) = Some ADMITTED"
proof (induction es rule: rev_induct)
  case Nil
  show ?case by (simp add: in_flight_of_def IN_FLIGHT_def runs_of_def)
next
  case (snoc e es)
  show ?case
  proof (cases "f_kind e \<in> set KINDS")
    case False
    then have "\<not> moves process run e" by (simp add: moves_def)
    with False snoc show ?thesis by (simp add: in_flight_of_def)
  next
    case True
    then have step: "in_flight_of (es @ [e]) = fold_in_flight (in_flight_of es) e"
      by (simp add: in_flight_of_def)
    show ?thesis
    proof (cases "moves process run e")
      case moved: True
      then have "r_run_id (f_refs e) = Some run" by (simp add: moves_def)
      with moved show ?thesis
        unfolding step fold_in_flight_runs [OF True] by auto
    next
      case False
      then have "run \<in> runs_of (fold_in_flight (in_flight_of es) e) process \<longleftrightarrow>
          run \<in> runs_of (in_flight_of es) process"
        unfolding fold_in_flight_runs [OF True] by (auto simp: moves_def)
      with False snoc show ?thesis unfolding step by simp
    qed
  qed
qed

theorem in_flight_projected_witness:
  "fst (project_at IN_FLIGHT sample_service 0) = in_flight_of [sample_entry False]"
proof -
  have "rising (ls_entries sample_service)" "stored_ok IN_FLIGHT sample_service 0"
    by (simp_all add: rising_def sample_entry_def ls_entries_def entries_def sample_service_def
        stored_ok_def read_projected_def)
  from in_flight_projected [OF this] show ?thesis
    by (simp add: ls_entries_def entries_def sample_service_def)
qed

end
