(* ===== verification/Job_Queue.thy ===== *)
theory Job_Queue
  imports Ledger_Entry
begin

text \<open>
  The job queue in memory (\<open>adapters/driven/memory/queue.py\<close>, \<open>ports/queue.py\<close>) of one tenant: the
  rows, the rows an open transaction enqueued, and the jobs held by transactions that fenced a
  claim. An operation takes the clock's reading as \<open>now\<close>. A lease is in the same unit as the
  moments. \<open>queue_step\<close> is any operation of any instance; the main results hold along its runs.
\<close>

definition RUN_EXECUTE :: string where "RUN_EXECUTE = ''run.execute''"

record asked_message =
  m_message_id :: string
  m_step_id :: string
  m_digest :: string
  m_text :: string
  m_handed :: bool

record job =
  j_id :: string
  j_kind :: string
  j_payload :: "(string \<times> json) list"
  j_attempts :: int
  j_deferrals :: int
  j_org_unit :: "string option"
  j_held_since :: "moment option"

record claim =
  cl_job_id :: string
  cl_claimant :: string
  cl_attempt :: int

record takeover_asked =
  ta_holder :: string
  ta_step_id :: string

record job_row =
  q_id :: string
  q_kind :: string
  q_payload :: "(string \<times> json) list"
  q_attempts :: int
  q_deferrals :: int
  q_created_at :: moment
  q_available_at :: "moment option"
  q_claimed_at :: "moment option"
  q_claimed_by :: "string option"
  q_held_until :: "moment option"
  q_takeover_by :: "string option"
  q_takeover_step :: "string option"
  q_messages :: "asked_message list"
  q_org_unit :: "string option"
  q_held_since :: "moment option"

definition job_of :: "job_row \<Rightarrow> job" where
  "job_of r = \<lparr>j_id = q_id r, j_kind = q_kind r, j_payload = q_payload r, j_attempts = q_attempts r,
     j_deferrals = q_deferrals r, j_org_unit = q_org_unit r, j_held_since = q_held_since r\<rparr>"

record queue =
  q_jobs :: "(string \<times> job_row) list"
  q_puts :: "(string \<times> job_row) list"
  q_fenced :: "string \<Rightarrow> nat"
  q_lease :: span
  q_max_attempts :: int
  q_spoilt :: bool

definition row :: "queue \<Rightarrow> string \<Rightarrow> job_row option" where
  "row q jid = map_of (q_jobs q) jid"

definition set_row :: "queue \<Rightarrow> string \<Rightarrow> job_row \<Rightarrow> queue" where
  "set_row q jid r = q\<lparr>q_jobs := AList.update jid r (q_jobs q)\<rparr>"

subsection \<open>Enqueueing\<close>

definition new_row :: "job \<Rightarrow> moment \<Rightarrow> job_row" where
  "new_row j now = \<lparr>q_id = j_id j, q_kind = j_kind j, q_payload = j_payload j,
     q_attempts = j_attempts j, q_deferrals = 0, q_created_at = now, q_available_at = None,
     q_claimed_at = None, q_claimed_by = None, q_held_until = None, q_takeover_by = None,
     q_takeover_step = None, q_messages = [], q_org_unit = j_org_unit j, q_held_since = None\<rparr>"

definition enqueue :: "queue \<Rightarrow> job \<Rightarrow> moment \<Rightarrow> bool \<times> queue" where
  "enqueue q j now =
     (if map_of (q_puts q) (j_id j) \<noteq> None \<or> row q (j_id j) \<noteq> None
      then (False, q\<lparr>q_spoilt := True\<rparr>)
      else (True, q\<lparr>q_puts := AList.update (j_id j) (new_row j now) (q_puts q)\<rparr>))"

text \<open>The end of the transaction: its journal is applied, unless it is spoilt.\<close>

definition end_transaction :: "queue \<Rightarrow> queue" where
  "end_transaction q =
     q\<lparr>q_jobs := (if q_spoilt q then q_jobs q else AList.updates (map fst (q_puts q)) (map snd (q_puts q)) (q_jobs q)),
       q_puts := [], q_spoilt := False\<rparr>"

subsection \<open>Claiming\<close>

definition due :: "queue \<Rightarrow> job_row \<Rightarrow> moment \<Rightarrow> bool" where
  "due q r now \<longleftrightarrow>
     \<not> (q_attempts r - q_deferrals r \<ge> q_max_attempts q
        \<or> q_fenced q (q_id r) \<noteq> 0
        \<or> (case q_available_at r of None \<Rightarrow> False | Some t \<Rightarrow> t > now))
     \<and> (case q_held_until r of
          Some t \<Rightarrow> t \<le> now
        | None \<Rightarrow> (case q_claimed_at r of None \<Rightarrow> True | Some t \<Rightarrow> now - t \<ge> q_lease q))"

definition live :: "queue \<Rightarrow> job_row \<Rightarrow> moment \<Rightarrow> bool" where
  "live q r now \<longleftrightarrow>
     q_claimed_by r \<noteq> None \<and> q_held_until r = None
     \<and> (case q_claimed_at r of None \<Rightarrow> False | Some t \<Rightarrow> now - t < q_lease q)"

definition held_by_unit :: "queue \<Rightarrow> moment \<Rightarrow> string option \<Rightarrow> int" where
  "held_by_unit q now unit =
     int (length (filter (\<lambda>r. live q r now \<and> q_org_unit r = unit) (map snd (q_jobs q))))"

definition due_rows :: "queue \<Rightarrow> moment \<Rightarrow> job_row list" where
  "due_rows q now =
     filter (\<lambda>r. due q r now) (sort_key (\<lambda>r. (q_created_at r, q_id r)) (map snd (q_jobs q)))"

definition unit_limit :: "(string \<rightharpoonup> int) \<Rightarrow> string option \<Rightarrow> int option" where
  "unit_limit limits unit = (case unit of None \<Rightarrow> None | Some u \<Rightarrow> limits u)"

text \<open>The loop over the due rows: \<open>count\<close> is \<open>held + ahead\<close> of each unit before the row.\<close>

fun place_rows ::
  "(string \<rightharpoonup> int) \<Rightarrow> (string option \<Rightarrow> int) \<Rightarrow> job_row list \<Rightarrow> (int \<times> job_row) list" where
  "place_rows limits count [] = []"
| "place_rows limits count (r # rs) =
     (let place = count (q_org_unit r) + 1
      in (case unit_limit limits (q_org_unit r) of
            None \<Rightarrow> [(place, r)]
          | Some l \<Rightarrow> if place \<le> l then [(place, r)] else [])
         @ place_rows limits (count(q_org_unit r := place)) rs)"

definition placed :: "queue \<Rightarrow> moment \<Rightarrow> (string \<rightharpoonup> int) \<Rightarrow> (int \<times> job_row) list" where
  "placed q now limits =
     sort_key (\<lambda>(p, r). (p, q_created_at r, q_id r))
       (place_rows limits (held_by_unit q now) (due_rows q now))"

definition chosen :: "queue \<Rightarrow> moment \<Rightarrow> nat \<Rightarrow> (string \<rightharpoonup> int) \<Rightarrow> job_row list" where
  "chosen q now batch limits = map snd (take batch (placed q now limits))"

definition claimed_row :: "job_row \<Rightarrow> string \<Rightarrow> moment \<Rightarrow> job_row" where
  "claimed_row r claimant now =
     r\<lparr>q_claimed_at := Some now, q_claimed_by := Some claimant, q_attempts := q_attempts r + 1,
       q_held_until := None\<rparr>"

definition take_row :: "string \<Rightarrow> moment \<Rightarrow> job_row \<Rightarrow> queue \<Rightarrow> queue" where
  "take_row claimant now r q = set_row q (q_id r) ((claimed_row r claimant now)\<lparr>q_held_since := None\<rparr>)"

text \<open>The second loop: a due row its unit's limit skipped is marked, from the first time.\<close>

definition mark_row ::
  "(string \<rightharpoonup> int) \<Rightarrow> (string option \<Rightarrow> int) \<Rightarrow> moment \<Rightarrow> job_row \<Rightarrow> queue \<Rightarrow> queue" where
  "mark_row limits held now r q =
     (case (unit_limit limits (q_org_unit r), row q (q_id r)) of
        (Some l, Some current) \<Rightarrow>
          if q_held_since r = None \<and> q_claimed_by current = None \<and> held (q_org_unit r) \<ge> l
          then set_row q (q_id r) (current\<lparr>q_held_since := Some now\<rparr>) else q
      | _ \<Rightarrow> q)"

definition claim_jobs ::
  "queue \<Rightarrow> string \<Rightarrow> nat \<Rightarrow> (string \<rightharpoonup> int) \<Rightarrow> moment \<Rightarrow> job list \<times> queue" where
  "claim_jobs q claimant batch limits now =
     (let rows = chosen q now batch limits;
          taken = fold (take_row claimant now) rows q;
          held = (\<lambda>u. held_by_unit q now u + int (length (filter (\<lambda>r. q_org_unit r = u) rows)));
          jobs = map (\<lambda>r. job_of (claimed_row r claimant now)) (sort_key (\<lambda>r. (q_created_at r, q_id r)) rows)
      in (jobs, fold (mark_row limits held now) (due_rows q now) taken))"

subsection \<open>Holding, giving back, finishing\<close>

definition extend_claim :: "queue \<Rightarrow> string \<Rightarrow> string \<Rightarrow> moment \<Rightarrow> bool \<times> queue" where
  "extend_claim q jid claimant now =
     (case row q jid of
        None \<Rightarrow> (False, q)
      | Some r \<Rightarrow>
          (case q_claimed_at r of
             None \<Rightarrow> (False, q)
           | Some t \<Rightarrow>
               if q_claimed_by r \<noteq> Some claimant then (False, q)
               else (case q_held_until r of
                       Some until \<Rightarrow> (until > now, q)
                     | None \<Rightarrow>
                         if now - t \<ge> q_lease q then (False, q)
                         else (True, set_row q jid (r\<lparr>q_claimed_at := Some now\<rparr>)))))"

definition holds :: "queue \<Rightarrow> claim \<Rightarrow> bool" where
  "holds q c \<longleftrightarrow>
     (case row q (cl_job_id c) of
        None \<Rightarrow> False
      | Some r \<Rightarrow> q_claimed_by r = Some (cl_claimant c) \<and> q_attempts r = cl_attempt c)"

definition fence :: "queue \<Rightarrow> claim \<Rightarrow> bool \<times> queue" where
  "fence q c =
     (if holds q c
      then (True, q\<lparr>q_fenced := (q_fenced q)(cl_job_id c := q_fenced q (cl_job_id c) + 1)\<rparr>)
      else (False, q))"

definition unfence :: "queue \<Rightarrow> string \<Rightarrow> queue" where
  "unfence q jid = q\<lparr>q_fenced := (q_fenced q)(jid := q_fenced q jid - 1)\<rparr>"

text \<open>An update of the row of a job the claimant holds; a no-op for anyone else.\<close>

definition if_claimed :: "queue \<Rightarrow> string \<Rightarrow> string \<Rightarrow> (job_row \<Rightarrow> job_row) \<Rightarrow> queue" where
  "if_claimed q jid claimant f =
     (case row q jid of
        None \<Rightarrow> q
      | Some r \<Rightarrow> if q_claimed_by r = Some claimant then set_row q jid (f r) else q)"

definition release :: "queue \<Rightarrow> string \<Rightarrow> string \<Rightarrow> queue" where
  "release q jid claimant =
     if_claimed q jid claimant
       (\<lambda>r. r\<lparr>q_claimed_at := None, q_claimed_by := None, q_held_until := None\<rparr>)"

definition defer_job :: "queue \<Rightarrow> string \<Rightarrow> string \<Rightarrow> span \<Rightarrow> moment \<Rightarrow> queue" where
  "defer_job q jid claimant delay now =
     if_claimed q jid claimant
       (\<lambda>r. r\<lparr>q_claimed_at := None, q_claimed_by := None, q_deferrals := q_deferrals r + 1,
              q_available_at := Some (now + delay)\<rparr>)"

definition complete :: "queue \<Rightarrow> string \<Rightarrow> string \<Rightarrow> queue" where
  "complete q jid claimant =
     (case row q jid of
        None \<Rightarrow> q
      | Some r \<Rightarrow> if q_claimed_by r = Some claimant then q\<lparr>q_jobs := AList.delete jid (q_jobs q)\<rparr> else q)"

subsection \<open>Take-overs and messages\<close>

definition executes :: "string \<Rightarrow> job_row \<Rightarrow> bool" where
  "executes run r \<longleftrightarrow> q_kind r = RUN_EXECUTE \<and> map_of (q_payload r) ''run_id'' = Some (JStr run)"

definition job_of_run :: "queue \<Rightarrow> string \<Rightarrow> job_row option" where
  "job_of_run q run = List.find (executes run) (map snd (q_jobs q))"

definition ask_takeover :: "queue \<Rightarrow> string \<Rightarrow> string \<Rightarrow> string \<Rightarrow> bool \<times> queue" where
  "ask_takeover q run step holder =
     (case job_of_run q run of
        None \<Rightarrow> (False, q)
      | Some r \<Rightarrow>
          if q_claimed_by r = None \<or> q_held_until r \<noteq> None \<or> q_takeover_by r \<notin> {None, Some []}
          then (False, q)
          else (True, set_row q (q_id r) (r\<lparr>q_takeover_by := Some holder, q_takeover_step := Some step\<rparr>)))"

definition takeover_of :: "queue \<Rightarrow> string \<Rightarrow> takeover_asked option" where
  "takeover_of q jid =
     (case row q jid of
        None \<Rightarrow> None
      | Some r \<Rightarrow> (case (q_takeover_by r, q_takeover_step r) of
            (Some h, Some s) \<Rightarrow> Some \<lparr>ta_holder = h, ta_step_id = s\<rparr>
          | _ \<Rightarrow> None))"

definition withdraw_takeover :: "queue \<Rightarrow> string \<Rightarrow> string \<Rightarrow> queue" where
  "withdraw_takeover q jid holder =
     (case row q jid of
        None \<Rightarrow> q
      | Some r \<Rightarrow> if q_takeover_by r = Some holder
          then set_row q jid (r\<lparr>q_takeover_by := None, q_takeover_step := None\<rparr>) else q)"

definition pass_claim :: "queue \<Rightarrow> claim \<Rightarrow> string \<Rightarrow> span \<Rightarrow> moment \<Rightarrow> bool \<times> queue" where
  "pass_claim q c holder held_for now =
     (case row q (cl_job_id c) of
        None \<Rightarrow> (False, q)
      | Some r \<Rightarrow>
          if q_claimed_by r \<noteq> Some (cl_claimant c) \<or> q_attempts r \<noteq> cl_attempt c
             \<or> q_takeover_by r \<noteq> Some holder
          then (False, q)
          else (True, set_row q (cl_job_id c)
            (r\<lparr>q_claimed_at := Some now, q_claimed_by := Some holder,
               q_attempts := q_attempts r + 1, q_deferrals := q_deferrals r + 2,
               q_held_until := Some (now + held_for), q_takeover_by := None, q_takeover_step := None\<rparr>)))"

definition ask_message :: "queue \<Rightarrow> string \<Rightarrow> asked_message \<Rightarrow> bool \<times> queue" where
  "ask_message q run m =
     (case job_of_run q run of
        None \<Rightarrow> (False, q)
      | Some r \<Rightarrow>
          if q_claimed_by r = None \<or> q_held_until r \<noteq> None then (False, q)
          else if list_ex (\<lambda>n. m_message_id n = m_message_id m) (q_messages r) then (True, q)
          else (True, set_row q (q_id r) (r\<lparr>q_messages := q_messages r @ [m]\<rparr>)))"

definition messages_asked :: "queue \<Rightarrow> string \<Rightarrow> asked_message list" where
  "messages_asked q jid = (case row q jid of None \<Rightarrow> [] | Some r \<Rightarrow> q_messages r)"

definition message_handed :: "queue \<Rightarrow> string \<Rightarrow> string \<Rightarrow> queue" where
  "message_handed q jid message =
     (case row q jid of
        None \<Rightarrow> q
      | Some r \<Rightarrow> set_row q jid
          (r\<lparr>q_messages := map (\<lambda>m. if m_message_id m = message then m\<lparr>m_handed := True\<rparr> else m)
                                (q_messages r)\<rparr>))"

end
