(* ===== verification/Job_Queue_Safety.thy ===== *)
theory Job_Queue_Safety
  imports Job_Queue
begin

text \<open>
  What the queue promises (\<open>ports/queue.py\<close>), over any interleaving of its operations: a claim is
  handed out only for a job nobody holds, and ends every claim of the job before it for good; a
  unit's concurrent limit holds; a job is claimed no more often than its attempts allow.
\<close>

subsection \<open>Any operation of any instance\<close>

text \<open>A step with the claims it hands out.\<close>

inductive queue_step :: "queue \<Rightarrow> claim list \<Rightarrow> queue \<Rightarrow> bool" where
  Enqueue: "queue_step q [] (snd (enqueue q j now))"
| End_Transaction: "queue_step q [] (end_transaction q)"
| Claim_Jobs: "queue_step q
    (map (\<lambda>j. \<lparr>cl_job_id = j_id j, cl_claimant = claimant, cl_attempt = j_attempts j\<rparr>)
         (fst (claim_jobs q claimant batch limits now)))
    (snd (claim_jobs q claimant batch limits now))"
| Extend: "queue_step q [] (snd (extend_claim q jid claimant now))"
| Fence: "queue_step q [] (snd (fence q c))"
| Unfence: "queue_step q [] (unfence q jid)"
| Release: "queue_step q [] (release q jid claimant)"
| Defer: "queue_step q [] (defer_job q jid claimant delay now)"
| Complete: "queue_step q [] (complete q jid claimant)"
| Ask_Takeover: "queue_step q [] (snd (ask_takeover q run step_id holder))"
| Withdraw: "queue_step q [] (withdraw_takeover q jid holder)"
| Pass_Claim: "fst (pass_claim q c holder held_for now) \<Longrightarrow>
    queue_step q [c\<lparr>cl_claimant := holder, cl_attempt := cl_attempt c + 1\<rparr>]
      (snd (pass_claim q c holder held_for now))"
| Ask_Message: "queue_step q [] (snd (ask_message q run m))"
| Handed: "queue_step q [] (message_handed q jid message)"

definition wf_queue :: "queue \<Rightarrow> bool" where
  "wf_queue q \<longleftrightarrow> distinct (map fst (q_jobs q)) \<and> (\<forall>(k, r) \<in> set (q_jobs q). q_id r = k)
   \<and> distinct (map fst (q_puts q)) \<and> (\<forall>(k, r) \<in> set (q_puts q). q_id r = k)
   \<and> fst ` set (q_puts q) \<inter> fst ` set (q_jobs q) = {}"

subsection \<open>Rows\<close>

lemma row_set_row [simp]: "row (set_row q i r) j = (if j = i then Some r else row q j)"
  by (simp add: row_def set_row_def update_conv')

lemma row_sel [simp]:
  "row (q\<lparr>q_fenced := f\<rparr>) = row q" "row (q\<lparr>q_spoilt := b\<rparr>) = row q" "row (q\<lparr>q_puts := p\<rparr>) = row q"
  by (simp_all add: row_def fun_eq_iff)

lemma set_row_sel [simp]:
  "q_puts (set_row q i r) = q_puts q" "q_fenced (set_row q i r) = q_fenced q"
  "q_lease (set_row q i r) = q_lease q" "q_max_attempts (set_row q i r) = q_max_attempts q"
  "q_jobs (set_row q i r) = AList.update i r (q_jobs q)"
  by (simp_all add: set_row_def)

lemma keys_update: "k \<in> fst ` set al \<Longrightarrow> map fst (AList.update k v al) = map fst al"
  by (induction al) auto

lemma keys_set_row: "row q i \<noteq> None \<Longrightarrow> map fst (q_jobs (set_row q i r)) = map fst (q_jobs q)"
  by (simp add: row_def keys_update map_of_eq_None_iff)

lemma update_members: "(k', v') \<in> set (AList.update k v al) \<Longrightarrow> (k' = k \<and> v' = v) \<or> (k', v') \<in> set al"
  by (induction al) (auto split: if_splits)

lemma wf_set_row:
  assumes "wf_queue q" "row q i = Some r" "q_id r' = i"
  shows "wf_queue (set_row q i r')"
proof -
  have keys: "map fst (q_jobs (set_row q i r')) = map fst (q_jobs q)"
    using assms(2) by (intro keys_set_row) simp
  then have "fst ` set (q_jobs (set_row q i r')) = fst ` set (q_jobs q)"
    by (metis list.set_map)
  moreover have "\<forall>(k, r) \<in> set (q_jobs (set_row q i r')). q_id r = k"
    using assms(1,3) update_members [of _ _ i r' "q_jobs q"] by (fastforce simp: wf_queue_def)
  ultimately show ?thesis using assms(1) keys unfolding wf_queue_def by simp
qed

lemma wf_row: "wf_queue q \<Longrightarrow> row q j = Some r \<Longrightarrow> q_id r = j"
  by (fastforce simp: wf_queue_def row_def dest: map_of_SomeD)

lemma row_mem: "wf_queue q \<Longrightarrow> r \<in> set (map snd (q_jobs q)) \<Longrightarrow> row q (q_id r) = Some r"
  by (fastforce simp: wf_queue_def row_def)

lemma values_row: "distinct (map fst al) \<Longrightarrow> map snd al = map (\<lambda>k. the (map_of al k)) (map fst al)"
  by (auto simp: map_of_is_SomeI intro!: map_cong)

text \<open>Two states with the same rows up to an update that keeps the fields \<open>f\<close> reads.\<close>

definition agree :: "(job_row \<Rightarrow> 'a) \<Rightarrow> queue \<Rightarrow> queue \<Rightarrow> bool" where
  "agree f q q' \<longleftrightarrow> (\<forall>j. map_option f (row q j) = map_option f (row q' j))"

subsection \<open>A claim\<close>

lemma sort_filter_mem: "r \<in> set (due_rows q now) \<longleftrightarrow> r \<in> set (map snd (q_jobs q)) \<and> due q r now"
  by (auto simp: due_rows_def)

lemma place_rows_mem: "(p, r) \<in> set (place_rows limits count rs) \<Longrightarrow> r \<in> set rs"
  by (induction limits count rs rule: place_rows.induct) (auto simp: Let_def split: option.splits if_splits)

lemma place_rows_distinct: "distinct (map f rs) \<Longrightarrow> distinct (map (f \<circ> snd) (place_rows limits count rs))"
proof (induction limits count rs rule: place_rows.induct)
  case (2 limits count r rs)
  have "f r \<notin> (f \<circ> snd) ` set (place_rows limits count' rs)" for count'
    using "2.prems" place_rows_mem [of _ _ limits count' rs] by fastforce
  with 2 show ?case by (auto simp: Let_def fun_upd_def split: option.split)
qed simp

lemma chosen_mem:
  assumes "wf_queue q" "r \<in> set (chosen q now batch limits)"
  shows "row q (q_id r) = Some r" "due q r now"
proof -
  obtain p where "(p, r) \<in> set (place_rows limits (held_by_unit q now) (due_rows q now))"
    using assms(2) by (auto simp: chosen_def placed_def dest!: in_set_takeD)
  then have "r \<in> set (due_rows q now)" by (rule place_rows_mem)
  then show "row q (q_id r) = Some r" "due q r now"
    using row_mem [OF assms(1)] by (auto simp: sort_filter_mem)
qed

lemma distinct_map_sort: "distinct (map f (sort_key g xs)) = distinct (map f xs)"
  by (simp add: distinct_map)

lemma chosen_distinct:
  assumes "wf_queue q"
  shows "distinct (map q_id (chosen q now batch limits))"
proof -
  have "map q_id (map snd (q_jobs q)) = map fst (q_jobs q)"
    using assms by (auto simp: wf_queue_def)
  then have "distinct (map q_id (map snd (q_jobs q)))"
    using assms unfolding wf_queue_def by (simp only:)
  then have "distinct (map q_id (sort_key (\<lambda>r. (q_created_at r, q_id r)) (map snd (q_jobs q))))"
    by (simp only: distinct_map_sort)
  then have "distinct (map q_id (due_rows q now))"
    unfolding due_rows_def by (rule distinct_map_filter)
  from place_rows_distinct [OF this] have "distinct (map (q_id \<circ> snd) (placed q now limits))"
    unfolding placed_def by (simp only: distinct_map_sort)
  then have "distinct (take batch (map (q_id \<circ> snd) (placed q now limits)))" by (rule distinct_take)
  then show ?thesis by (simp add: chosen_def take_map)
qed

lemma row_fold_take:
  "distinct (map q_id rs) \<Longrightarrow> row (fold (take_row claimant now) rs q) j =
     (case List.find (\<lambda>r. q_id r = j) rs of
        None \<Rightarrow> row q j
      | Some r \<Rightarrow> Some ((claimed_row r claimant now)\<lparr>q_held_since := None\<rparr>))"
proof (induction rs arbitrary: q)
  case (Cons r rs)
  have "List.find (\<lambda>r. q_id r = j) rs = None" if "q_id r = j"
  proof -
    have "q_id r \<notin> q_id ` set rs" using Cons.prems by simp
    with that show ?thesis unfolding find_None_iff by (metis image_eqI)
  qed
  with Cons show ?case by (auto simp: take_row_def split: option.split)
qed simp

definition same_but_mark :: "job_row \<Rightarrow> job_row \<Rightarrow> bool" where
  "same_but_mark r r' \<longleftrightarrow> r\<lparr>q_held_since := None\<rparr> = r'\<lparr>q_held_since := None\<rparr>"

lemma same_but_mark_refl: "same_but_mark r r"
  by (simp add: same_but_mark_def)

lemma same_but_mark_trans: "same_but_mark a b \<Longrightarrow> same_but_mark b c \<Longrightarrow> same_but_mark a c"
  by (simp add: same_but_mark_def)

lemma row_mark: "rel_option same_but_mark (row q j) (row (mark_row limits held now r q) j)"
proof -
  have "same_but_mark x (x\<lparr>q_held_since := h\<rparr>)" for x h by (simp add: same_but_mark_def)
  then show ?thesis
    by (cases "row q j") (auto simp: mark_row_def same_but_mark_refl split: option.splits)
qed

lemma row_fold_mark: "rel_option same_but_mark (row q j) (row (fold (mark_row limits held now) rs q) j)"
proof (induction rs arbitrary: q)
  case Nil
  show ?case by (simp add: option.rel_refl same_but_mark_refl)
next
  case (Cons r rs)
  from row_mark [of q j limits held now r] Cons [of "mark_row limits held now r q"] show ?case
    by (auto elim!: option.rel_cases intro: same_but_mark_trans simp: option_rel_Some1)
qed

lemma find_id: "distinct (map q_id rs) \<Longrightarrow> r \<in> set rs \<Longrightarrow> List.find (\<lambda>s. q_id s = q_id r) rs = Some r"
  by (induction rs) auto

text \<open>What a claim does to one job's row: taken, or at most marked.\<close>

lemma claim_jobs_row:
  assumes "wf_queue q"
  shows "(case List.find (\<lambda>r. q_id r = j) (chosen q now batch limits) of
        None \<Rightarrow> rel_option same_but_mark (row q j) (row (snd (claim_jobs q claimant batch limits now)) j)
      | Some r \<Rightarrow> row q j = Some r \<and> (\<exists>r'. row (snd (claim_jobs q claimant batch limits now)) j = Some r'
          \<and> same_but_mark (claimed_row r claimant now) r'))"
proof -
  let ?rows = "chosen q now batch limits"
  let ?taken = "fold (take_row claimant now) ?rows q"
  have taken: "row ?taken j = (case List.find (\<lambda>r. q_id r = j) ?rows of
        None \<Rightarrow> row q j
      | Some r \<Rightarrow> Some ((claimed_row r claimant now)\<lparr>q_held_since := None\<rparr>))"
    by (rule row_fold_take [OF chosen_distinct [OF assms]])
  have marked: "rel_option same_but_mark (row ?taken j) (row (snd (claim_jobs q claimant batch limits now)) j)"
    unfolding claim_jobs_def Let_def snd_conv by (rule row_fold_mark)
  show ?thesis
  proof (cases "List.find (\<lambda>r. q_id r = j) ?rows")
    case None
    with taken marked show ?thesis by simp
  next
    case (Some r)
    then have "row q j = Some r" using chosen_mem(1) [OF assms] find_SomeD [OF Some] by auto
    moreover have "same_but_mark (claimed_row r claimant now) ((claimed_row r claimant now)\<lparr>q_held_since := None\<rparr>)"
      by (simp add: same_but_mark_def)
    ultimately show ?thesis
      using taken marked Some by (auto simp: option_rel_Some1 intro: same_but_mark_trans)
  qed
qed

lemma claim_jobs_mem:
  assumes "j \<in> set (fst (claim_jobs q claimant batch limits now))"
  obtains r where "r \<in> set (chosen q now batch limits)" "j = job_of (claimed_row r claimant now)"
  using assms by (auto simp: claim_jobs_def Let_def)

subsection \<open>One step, one job\<close>

text \<open>What a step may do to a job's row: its attempts stay, and then its holder stays or goes; or
  they rise by one. The attempts that count, less the deferrals, rise only below the limit.\<close>

definition spent_attempts :: "job_row \<Rightarrow> int" where
  "spent_attempts r = q_attempts r - q_deferrals r"

definition evolves :: "int \<Rightarrow> job_row \<Rightarrow> job_row \<Rightarrow> bool" where
  "evolves m r r' \<longleftrightarrow>
     ((q_attempts r' = q_attempts r \<and> q_claimed_by r' \<in> {q_claimed_by r, None})
      \<or> q_attempts r' = q_attempts r + 1)
     \<and> (spent_attempts r' \<le> spent_attempts r \<or> (spent_attempts r < m \<and> spent_attempts r' = spent_attempts r + 1))"

lemma evolves_refl [simp]: "evolves m r r"
  by (simp add: evolves_def)

lemma same_but_markD:
  assumes "same_but_mark r r'"
  shows "q_attempts r' = q_attempts r" "q_claimed_by r' = q_claimed_by r" "q_deferrals r' = q_deferrals r"
    "q_id r' = q_id r" "q_org_unit r' = q_org_unit r" "q_claimed_at r' = q_claimed_at r"
    "q_held_until r' = q_held_until r"
proof -
  have eq: "r\<lparr>q_held_since := None\<rparr> = r'\<lparr>q_held_since := None\<rparr>"
    using assms by (simp add: same_but_mark_def)
  from arg_cong [OF eq, of q_attempts] arg_cong [OF eq, of q_claimed_by] arg_cong [OF eq, of q_deferrals]
    arg_cong [OF eq, of q_id] arg_cong [OF eq, of q_org_unit] arg_cong [OF eq, of q_claimed_at]
    arg_cong [OF eq, of q_held_until]
  show "q_attempts r' = q_attempts r" "q_claimed_by r' = q_claimed_by r" "q_deferrals r' = q_deferrals r"
    "q_id r' = q_id r" "q_org_unit r' = q_org_unit r" "q_claimed_at r' = q_claimed_at r"
    "q_held_until r' = q_held_until r" by simp_all
qed

lemma mark_evolves:
  "same_but_mark r r' \<Longrightarrow> evolves m r r'"
  "same_but_mark (claimed_row r claimant now) r' \<Longrightarrow> spent_attempts r < m \<Longrightarrow> evolves m r r'"
  using same_but_markD(1-3) [of r r'] same_but_markD(1,3) [of "claimed_row r claimant now" r']
  by (simp_all add: evolves_def claimed_row_def spent_attempts_def)

lemma if_claimed_row:
  "row (if_claimed q jid claimant f) j =
     (case row q j of None \<Rightarrow> None
      | Some r \<Rightarrow> if j = jid \<and> q_claimed_by r = Some claimant then Some (f r) else Some r)"
  by (auto simp: if_claimed_def split: option.split)

lemma map_of_rev_distinct: "distinct (map fst al) \<Longrightarrow> map_of (rev al) = map_of al"
proof (induction al)
  case (Cons x al)
  then have "map_of al (fst x) = None" by (auto simp: map_of_eq_None_iff)
  with Cons show ?case by (auto simp: fun_eq_iff map_add_def split: option.split)
qed simp

lemma map_of_updates:
  assumes "distinct (map fst al)"
  shows "map_of (AList.updates (map fst al) (map snd al) bl) = map_of bl ++ map_of al"
proof -
  have "map_of (AList.updates (map fst al) (map snd al) bl) = (map_of bl)(map fst al [\<mapsto>] map snd al)"
    by (rule updates_conv')
  also have "\<dots> = map_of bl ++ map_of (rev (zip (map fst al) (map snd al)))"
    by (simp add: map_upds_def)
  also have "map_of (rev (zip (map fst al) (map snd al))) = map_of al"
    using assms by (simp add: zip_map_fst_snd map_of_rev_distinct)
  finally show ?thesis .
qed

lemma end_transaction_row:
  "wf_queue q \<Longrightarrow> row (end_transaction q) j =
     (if q_spoilt q then row q j else case map_of (q_puts q) j of None \<Rightarrow> row q j | Some r \<Rightarrow> Some r)"
  using map_of_updates [of "q_puts q" "q_jobs q"]
  by (auto simp: end_transaction_def row_def wf_queue_def map_add_def split: option.split)

lemma ask_row:
  assumes "wf_queue q"
  shows "row q j = Some r \<Longrightarrow> \<exists>r'. row (snd (ask_takeover q run step_id holder)) j = Some r' \<and> evolves (q_max_attempts q) r r'"
    and "row q j = Some r \<Longrightarrow> \<exists>r'. row (snd (ask_message q run m)) j = Some r' \<and> evolves (q_max_attempts q) r r'"
proof -
  have found: "row q (q_id s) = Some s" if "job_of_run q run = Some s" for s
    using find_SomeD [OF that[unfolded job_of_run_def]] row_mem [OF assms] by simp
  show "row q j = Some r \<Longrightarrow> \<exists>r'. row (snd (ask_takeover q run step_id holder)) j = Some r' \<and> evolves (q_max_attempts q) r r'"
    using found by (auto simp: ask_takeover_def evolves_def spent_attempts_def split: option.split)
  show "row q j = Some r \<Longrightarrow> \<exists>r'. row (snd (ask_message q run m)) j = Some r' \<and> evolves (q_max_attempts q) r r'"
    using found by (auto simp: ask_message_def evolves_def spent_attempts_def split: option.split)
qed

lemma claim_jobs_evolves:
  assumes "wf_queue q" "row q j = Some r"
  shows "\<exists>r'. row (snd (claim_jobs q claimant batch limits now)) j = Some r' \<and> evolves (q_max_attempts q) r r'"
proof (cases "List.find (\<lambda>r. q_id r = j) (chosen q now batch limits)")
  case None
  with claim_jobs_row [OF assms(1), where j = j and now = now and batch = batch and limits = limits
      and claimant = claimant] assms(2)
  show ?thesis by (auto simp: option_rel_Some1 mark_evolves)
next
  case (Some s)
  then have "due q s now" using chosen_mem(2) [OF assms(1)] find_SomeD [OF Some] by blast
  then have "spent_attempts s < q_max_attempts q" by (simp add: due_def spent_attempts_def)
  with claim_jobs_row [OF assms(1), where j = j and now = now and batch = batch and limits = limits
      and claimant = claimant] assms(2) Some
  show ?thesis by (auto simp: mark_evolves(2))
qed

lemma step_row:
  assumes "queue_step q cs q'" "wf_queue q" "row q j = Some r" "row q' j = Some r'"
  shows "evolves (q_max_attempts q) r r'"
  using assms(1)
proof cases
  case (Enqueue k now)
  with assms show ?thesis by (auto simp: enqueue_def split: if_splits)
next
  case End_Transaction
  have "map_of (q_puts q) j = None"
  proof -
    have "j \<in> fst ` set (q_jobs q)" using assms(3) by (metis domI dom_map_of_conv_image_fst row_def)
    with assms(2) show ?thesis unfolding wf_queue_def map_of_eq_None_iff by blast
  qed
  with End_Transaction assms show ?thesis by (simp add: end_transaction_row split: if_splits)
next
  case (Claim_Jobs claimant batch limits now)
  with claim_jobs_evolves [OF assms(2,3), of claimant batch limits now] assms(4) show ?thesis by auto
next
  case (Extend jid claimant now)
  with assms show ?thesis
    by (auto simp: extend_claim_def evolves_def spent_attempts_def split: option.splits if_splits)
next
  case (Fence c)
  with assms show ?thesis by (auto simp: fence_def split: if_splits)
next
  case (Unfence jid)
  with assms show ?thesis by (auto simp: unfence_def)
next
  case (Release jid claimant)
  with assms show ?thesis
    by (auto simp: release_def if_claimed_row evolves_def spent_attempts_def split: if_splits)
next
  case (Defer jid claimant delay now)
  with assms show ?thesis
    by (auto simp: defer_job_def if_claimed_row evolves_def spent_attempts_def split: if_splits)
next
  case (Complete jid claimant)
  with assms show ?thesis
    by (auto simp: complete_def row_def delete_conv' split: option.splits if_splits)
next
  case (Ask_Takeover run step_id holder)
  with ask_row(1) [OF assms(2,3), of run step_id holder] assms(4) show ?thesis by auto
next
  case (Withdraw jid holder)
  with assms show ?thesis
    by (auto simp: withdraw_takeover_def evolves_def spent_attempts_def split: option.splits if_splits)
next
  case (Pass_Claim c holder held_for now)
  with assms show ?thesis
    by (auto simp: pass_claim_def evolves_def spent_attempts_def split: option.splits if_splits)
next
  case (Ask_Message run m)
  with ask_row(2) [OF assms(2,3), of run m] assms(4) show ?thesis by auto
next
  case (Handed jid message)
  with assms show ?thesis
    by (auto simp: message_handed_def evolves_def spent_attempts_def split: option.splits if_splits)
qed

subsection \<open>Well-formedness\<close>

lemma wf_take: "wf_queue q \<Longrightarrow> \<forall>r \<in> set rs. row q (q_id r) \<noteq> None \<Longrightarrow>
   wf_queue (fold (take_row claimant now) rs q)"
proof (induction rs arbitrary: q)
  case (Cons r rs)
  obtain s where "row q (q_id r) = Some s" using Cons.prems(2) by auto
  from wf_set_row [OF Cons.prems(1) this] have "wf_queue (take_row claimant now r q)"
    by (simp add: take_row_def claimed_row_def)
  with Cons show ?case by (simp add: take_row_def)
qed simp

lemma wf_update: "wf_queue q \<Longrightarrow> row q i = Some r \<Longrightarrow> q_id r' = q_id r \<Longrightarrow> wf_queue (set_row q i r')"
  by (rule wf_set_row) (auto dest: wf_row)

lemma wf_mark: "wf_queue q \<Longrightarrow> wf_queue (mark_row limits held now r q)"
  by (auto simp: mark_row_def intro: wf_update split: option.split)

lemma wf_fold_mark: "wf_queue q \<Longrightarrow> wf_queue (fold (mark_row limits held now) rs q)"
  by (induction rs arbitrary: q) (simp_all add: wf_mark)

lemma wf_claim_jobs:
  assumes "wf_queue q"
  shows "wf_queue (snd (claim_jobs q claimant batch limits now))"
proof -
  have "\<forall>r \<in> set (chosen q now batch limits). row q (q_id r) \<noteq> None"
    using chosen_mem(1) [OF assms] by simp
  then show ?thesis
    using wf_take [OF assms] by (simp add: claim_jobs_def Let_def wf_fold_mark)
qed

lemma wf_if_claimed: "wf_queue q \<Longrightarrow> (\<And>r. q_id (f r) = q_id r) \<Longrightarrow> wf_queue (if_claimed q jid claimant f)"
  by (auto simp: if_claimed_def intro: wf_update split: option.split)

lemma wf_complete: "wf_queue q \<Longrightarrow> wf_queue (complete q jid claimant)"
proof -
  assume wf: "wf_queue q"
  have sub: "set (AList.delete jid (q_jobs q)) \<subseteq> set (q_jobs q)" by (auto simp: AList.delete_eq)
  have "distinct (map fst (AList.delete jid (q_jobs q)))"
    using wf by (intro distinct_delete) (simp add: wf_queue_def)
  moreover have "\<forall>(k, r) \<in> set (AList.delete jid (q_jobs q)). q_id r = k"
  proof
    fix x assume "x \<in> set (AList.delete jid (q_jobs q))"
    with sub have "x \<in> set (q_jobs q)" by (rule subsetD)
    with wf show "case x of (k, r) \<Rightarrow> q_id r = k" by (simp add: wf_queue_def)
  qed
  moreover have "fst ` set (q_puts q) \<inter> fst ` set (AList.delete jid (q_jobs q)) = {}"
  proof -
    have "fst ` set (q_puts q) \<inter> fst ` set (q_jobs q) = {}" using wf by (simp add: wf_queue_def)
    with image_mono [OF sub, of fst] show ?thesis by blast
  qed
  ultimately have "wf_queue (q\<lparr>q_jobs := AList.delete jid (q_jobs q)\<rparr>)"
    using wf by (simp add: wf_queue_def)
  then show ?thesis using wf by (simp add: complete_def split: option.split)
qed

lemma wf_enqueue: "wf_queue q \<Longrightarrow> wf_queue (snd (enqueue q j now))"
proof -
  assume wf: "wf_queue q"
  show ?thesis
  proof (cases "map_of (q_puts q) (j_id j) \<noteq> None \<or> row q (j_id j) \<noteq> None")
    case True
    with wf show ?thesis by (simp add: enqueue_def wf_queue_def)
  next
    case False
    have "distinct (map fst (AList.update (j_id j) (new_row j now) (q_puts q)))"
      using wf by (intro distinct_update) (simp add: wf_queue_def)
    moreover have "\<forall>(k, r) \<in> set (AList.update (j_id j) (new_row j now) (q_puts q)). q_id r = k"
      using wf update_members [of _ _ "j_id j" "new_row j now" "q_puts q"]
      by (fastforce simp: wf_queue_def new_row_def)
    moreover have "j_id j \<notin> fst ` set (q_jobs q)"
      using False by (simp add: row_def map_of_eq_None_iff)
    ultimately show ?thesis
      using wf False by (auto simp: enqueue_def wf_queue_def dom_update)
  qed
qed

lemma wf_end_transaction: "wf_queue q \<Longrightarrow> wf_queue (end_transaction q)"
proof -
  assume wf: "wf_queue q"
  let ?new = "AList.updates (map fst (q_puts q)) (map snd (q_puts q)) (q_jobs q)"
  have distinct: "distinct (map fst ?new)"
    using wf by (intro distinct_updates) (simp add: wf_queue_def)
  have "q_id r = k" if "(k, r) \<in> set ?new" for k r
  proof -
    have "map_of ?new k = (case map_of (q_puts q) k of None \<Rightarrow> row q k | Some r \<Rightarrow> Some r)"
      using wf map_of_updates [of "q_puts q" "q_jobs q"] by (simp add: wf_queue_def map_add_def row_def split: option.split)
    moreover have "map_of ?new k = Some r" by (rule map_of_is_SomeI [OF distinct that])
    ultimately have "map_of (q_puts q) k = Some r \<or> row q k = Some r"
      by (simp split: option.splits)
    then show ?thesis
    proof
      assume "map_of (q_puts q) k = Some r"
      then have "(k, r) \<in> set (q_puts q)" by (rule map_of_SomeD)
      with wf show ?thesis by (auto simp: wf_queue_def)
    qed (rule wf_row [OF wf])
  qed
  with distinct wf show ?thesis by (auto simp: wf_queue_def end_transaction_def)
qed

lemma wf_ask:
  assumes "wf_queue q"
  shows "wf_queue (snd (ask_takeover q run step_id holder))" "wf_queue (snd (ask_message q run m))"
proof -
  have found: "row q (q_id s) = Some s" if "job_of_run q run = Some s" for s
    using find_SomeD [OF that[unfolded job_of_run_def]] row_mem [OF assms] by simp
  show "wf_queue (snd (ask_takeover q run step_id holder))" "wf_queue (snd (ask_message q run m))"
    using assms
    by (auto simp: ask_takeover_def ask_message_def intro: wf_update found split: option.split)
qed

lemma step_wf:
  assumes "queue_step q cs q'" "wf_queue q"
  shows "wf_queue q'"
proof -
  show ?thesis
    using assms(1)
  proof cases
    case (Extend jid claimant now)
    with assms(2) show ?thesis by (auto simp: extend_claim_def intro: wf_update split: option.split)
  next
    case (Fence c)
    with assms(2) show ?thesis by (simp add: fence_def wf_queue_def)
  next
    case (Unfence jid)
    with assms(2) show ?thesis by (simp add: unfence_def wf_queue_def)
  next
    case (Withdraw jid holder)
    with assms(2) show ?thesis by (auto simp: withdraw_takeover_def intro: wf_update split: option.split)
  next
    case (Pass_Claim c holder held_for now)
    with assms(2) show ?thesis by (auto simp: pass_claim_def intro: wf_update split: option.split)
  next
    case (Handed jid message)
    with assms(2) show ?thesis by (auto simp: message_handed_def intro: wf_update split: option.split)
  qed (use assms(2) in \<open>simp_all add: wf_enqueue wf_end_transaction wf_claim_jobs wf_complete wf_ask
      wf_if_claimed release_def defer_job_def\<close>)
qed

subsection \<open>Exclusive claims\<close>

definition superseded :: "queue \<Rightarrow> claim \<Rightarrow> bool" where
  "superseded q c \<longleftrightarrow>
     (case row q (cl_job_id c) of
        None \<Rightarrow> False
      | Some r \<Rightarrow> cl_attempt c < q_attempts r
          \<or> (cl_attempt c = q_attempts r \<and> q_claimed_by r \<noteq> Some (cl_claimant c)))"

lemma superseded_not_held: "superseded q c \<Longrightarrow> \<not> holds q c"
  by (auto simp: superseded_def holds_def split: option.splits)

lemma superseded_step:
  assumes "superseded q c" "queue_step q cs q'" "wf_queue q" "row q' (cl_job_id c) \<noteq> None"
  shows "superseded q' c"
proof -
  obtain r where r: "row q (cl_job_id c) = Some r" using assms(1) by (auto simp: superseded_def split: option.splits)
  obtain r' where r': "row q' (cl_job_id c) = Some r'" using assms(4) by auto
  from step_row [OF assms(2,3) r r'] assms(1) r r' show ?thesis
    by (auto simp: superseded_def evolves_def)
qed

text \<open>Any number of steps during which the job is not completed.\<close>

inductive keeps_job :: "string \<Rightarrow> queue \<Rightarrow> queue \<Rightarrow> bool" for jid where
  Stay: "keeps_job jid q q"
| Move: "keeps_job jid q q' \<Longrightarrow> queue_step q' cs q'' \<Longrightarrow> row q'' jid \<noteq> None \<Longrightarrow> keeps_job jid q q''"

lemma keeps_job_wf: "keeps_job jid q q' \<Longrightarrow> wf_queue q \<Longrightarrow> wf_queue q'"
  by (induction rule: keeps_job.induct) (auto intro: step_wf)

lemma superseded_forever:
  "keeps_job (cl_job_id c) q q' \<Longrightarrow> wf_queue q \<Longrightarrow> superseded q c \<Longrightarrow> superseded q' c"
  by (induction rule: keeps_job.induct) (auto intro: superseded_step keeps_job_wf)

lemma handed_out:
  assumes "queue_step q cs q'" "wf_queue q" "c \<in> set cs"
  obtains r r' where "row q (cl_job_id c) = Some r" "row q' (cl_job_id c) = Some r'"
    "q_attempts r' = q_attempts r + 1" "cl_attempt c = q_attempts r'" "q_claimed_by r' = Some (cl_claimant c)"
  using assms(1)
proof cases
  case (Claim_Jobs claimant batch limits now)
  then obtain j where j: "j \<in> set (fst (claim_jobs q claimant batch limits now))"
    and c: "c = \<lparr>cl_job_id = j_id j, cl_claimant = claimant, cl_attempt = j_attempts j\<rparr>"
    using assms(3) by auto
  from claim_jobs_mem [OF j] obtain r where r: "r \<in> set (chosen q now batch limits)"
    and jr: "j = job_of (claimed_row r claimant now)" .
  have "List.find (\<lambda>s. q_id s = q_id r) (chosen q now batch limits) = Some r"
    using find_id [OF chosen_distinct [OF assms(2)] r] .
  with claim_jobs_row [OF assms(2), where j = "q_id r" and now = now and batch = batch
      and limits = limits and claimant = claimant]
  obtain r' where r': "row q (q_id r) = Some r" "row q' (q_id r) = Some r'"
    "same_but_mark (claimed_row r claimant now) r'"
    using Claim_Jobs by auto
  from same_but_markD(1,2) [OF r'(3)] that [of r r'] r'(1,2) c jr
  show ?thesis by (simp add: job_of_def claimed_row_def)
next
  case (Pass_Claim d holder held_for now)
  with assms(3) that show ?thesis
    by (auto simp: pass_claim_def split: option.splits if_splits)
qed (use assms(3) in simp_all)


text \<open>a claim takes only jobs nobody holds: no live lease, no take-over's time still running,
  no transaction fencing them, and attempts left.\<close>

theorem claim_takes_free_jobs:
  assumes "wf_queue q" "j \<in> set (fst (claim_jobs q claimant batch limits now))"
  shows "\<exists>r. row q (j_id j) = Some r \<and> \<not> live q r now \<and> q_fenced q (j_id j) = 0
    \<and> (\<forall>t. q_held_until r = Some t \<longrightarrow> t \<le> now) \<and> q_attempts r - q_deferrals r < q_max_attempts q
    \<and> j_attempts j = q_attempts r + 1"
proof -
  from claim_jobs_mem [OF assms(2)] obtain r where r: "r \<in> set (chosen q now batch limits)"
    and j: "j = job_of (claimed_row r claimant now)" .
  from chosen_mem [OF assms(1) r] j show ?thesis
    by (intro exI [of _ r]) (auto simp: due_def live_def job_of_def claimed_row_def split: option.splits)
qed

subsection \<open>A unit's concurrent limit\<close>

definition held_ids :: "queue \<Rightarrow> moment \<Rightarrow> string option \<Rightarrow> string set" where
  "held_ids q now unit = {j. \<exists>r. row q j = Some r \<and> live q r now \<and> q_org_unit r = unit}"

lemma held_card:
  assumes "wf_queue q"
  shows "held_by_unit q now unit = int (card (held_ids q now unit))" "finite (held_ids q now unit)"
proof -
  let ?rs = "filter (\<lambda>r. live q r now \<and> q_org_unit r = unit) (map snd (q_jobs q))"
  have "map q_id (map snd (q_jobs q)) = map fst (q_jobs q)"
    using assms by (auto simp: wf_queue_def)
  then have "distinct (map q_id (map snd (q_jobs q)))"
    using assms unfolding wf_queue_def by (simp only:)
  then have "distinct (map q_id ?rs)" by (rule distinct_map_filter)
  from distinct_card [OF this] have "length ?rs = card (set (map q_id ?rs))" by (simp only: length_map)
  moreover have ids: "held_ids q now unit = set (map q_id ?rs)"
  proof (intro set_eqI iffI)
    fix j assume "j \<in> held_ids q now unit"
    then obtain r where r: "row q j = Some r" "live q r now" "q_org_unit r = unit"
      by (auto simp: held_ids_def)
    from r(1) have "(j, r) \<in> set (q_jobs q)" unfolding row_def by (rule map_of_SomeD)
    then have "r \<in> set (map snd (q_jobs q))" by force
    with r have "r \<in> set ?rs" by simp
    moreover have "j = q_id r" using wf_row [OF assms r(1)] by simp
    ultimately show "j \<in> set (map q_id ?rs)" unfolding set_map by (rule rev_image_eqI)
  next
    fix j assume "j \<in> set (map q_id ?rs)"
    then obtain r where "r \<in> set ?rs" "j = q_id r" by auto
    with row_mem [OF assms, of r] show "j \<in> held_ids q now unit" by (auto simp: held_ids_def)
  qed
  ultimately show "held_by_unit q now unit = int (card (held_ids q now unit))"
    by (simp add: held_by_unit_def)
  show "finite (held_ids q now unit)" unfolding ids by simp
qed

lemma place_rows_unit:
  assumes "unit_limit limits unit = Some l"
  shows "int (length (filter (\<lambda>(p, r). q_org_unit r = unit) (place_rows limits count rs))) \<le> max 0 (l - count unit)"
proof (induction rs arbitrary: count)
  case (Cons r rs)
  let ?count = "count(q_org_unit r := count (q_org_unit r) + 1)"
  from Cons [of ?count] assms show ?case
    by (cases "q_org_unit r = unit") (auto simp: Let_def fun_upd_def split: option.split)
qed simp

lemma fold_sel:
  "q_lease (fold (take_row claimant now) rs q) = q_lease q"
  "q_lease (fold (mark_row limits held now) rs q) = q_lease q"
  "q_max_attempts (fold (take_row claimant now) rs q) = q_max_attempts q"
  "q_max_attempts (fold (mark_row limits held now) rs q) = q_max_attempts q"
  by (induction rs arbitrary: q) (simp_all add: take_row_def mark_row_def split: option.split)

lemma claim_jobs_sel [simp]:
  "q_lease (snd (claim_jobs q claimant batch limits now)) = q_lease q"
  "q_max_attempts (snd (claim_jobs q claimant batch limits now)) = q_max_attempts q"
  by (simp_all add: claim_jobs_def Let_def fold_sel)

text \<open>C32: a claim leaves a limited unit with at most its limit of live claims, or with as many as
  it had when it had more.\<close>

theorem claim_holds_unit_limit:
  assumes "wf_queue q" "limits u = Some l"
  shows "held_by_unit (snd (claim_jobs q claimant batch limits now)) now (Some u)
    \<le> max l (held_by_unit q now (Some u))"
proof -
  let ?q = "snd (claim_jobs q claimant batch limits now)"
  let ?rows = "filter (\<lambda>r. q_org_unit r = Some u) (chosen q now batch limits)"
  have "held_ids ?q now (Some u) \<subseteq> held_ids q now (Some u) \<union> q_id ` set ?rows"
  proof
    fix j assume "j \<in> held_ids ?q now (Some u)"
    then obtain r' where r': "row ?q j = Some r'" "live ?q r' now" "q_org_unit r' = Some u"
      by (auto simp: held_ids_def)
    show "j \<in> held_ids q now (Some u) \<union> q_id ` set ?rows"
    proof (cases "List.find (\<lambda>r. q_id r = j) (chosen q now batch limits)")
      case None
      with claim_jobs_row [OF assms(1), where j = j and now = now and batch = batch and limits = limits
          and claimant = claimant] r'(1)
      obtain r where r: "row q j = Some r" "same_but_mark r r'" by (auto simp: option_rel_Some2)
      from r' same_but_markD [OF r(2)] have "live q r now" "q_org_unit r = Some u"
        by (simp_all add: live_def split: option.splits)
      with r(1) show ?thesis by (simp add: held_ids_def)
    next
      case (Some r)
      with claim_jobs_row [OF assms(1), where j = j and now = now and batch = batch and limits = limits
          and claimant = claimant] r'(1)
      have "same_but_mark (claimed_row r claimant now) r'" by simp
      from same_but_markD(5) [OF this] r'(3) have "q_org_unit r = Some u" by (simp add: claimed_row_def)
      with find_SomeD [OF Some] show ?thesis by auto
    qed
  qed
  then have "card (held_ids ?q now (Some u)) \<le> card (held_ids q now (Some u) \<union> q_id ` set ?rows)"
    by (rule card_mono [rotated]) (simp add: held_card(2) [OF assms(1)])
  also have "\<dots> \<le> card (held_ids q now (Some u)) + card (q_id ` set ?rows)"
    by (rule card_Un_le)
  also have "card (q_id ` set ?rows) \<le> length ?rows"
    using card_length [of "map q_id ?rows"] by simp
  finally have "held_by_unit ?q now (Some u) \<le> held_by_unit q now (Some u) + int (length ?rows)"
    using held_card(1) [OF wf_claim_jobs [OF assms(1)]] held_card(1) [OF assms(1)] by simp
  moreover have "int (length ?rows) \<le> max 0 (l - held_by_unit q now (Some u))"
  proof -
    let ?P = "\<lambda>(p, r). q_org_unit r = Some u"
    have "length ?rows = length (filter ?P (take batch (placed q now limits)))"
      by (simp add: chosen_def filter_map comp_def case_prod_unfold)
    also have "\<dots> \<le> length (filter ?P (placed q now limits))"
      by (metis append_take_drop_id filter_append le_add1 length_append)
    also have "\<dots> = length (filter ?P (place_rows limits (held_by_unit q now) (due_rows q now)))"
      unfolding placed_def by (metis (no_types, lifting) filter_sort length_sort)
    finally show ?thesis
      using place_rows_unit [of limits "Some u" l "held_by_unit q now" "due_rows q now"] assms(2)
      by (simp add: unit_limit_def)
  qed
  ultimately show ?thesis by linarith
qed

subsection \<open>Attempts\<close>

text \<open>A queue the operations built, from jobs enqueued with attempts left.\<close>

inductive reachable :: "queue \<Rightarrow> bool" where
  Start: "reachable \<lparr>q_jobs = [], q_puts = [], q_fenced = (\<lambda>_. 0), q_lease = lease,
    q_max_attempts = m, q_spoilt = False\<rparr>"
| Next: "reachable q \<Longrightarrow> queue_step q cs q' \<Longrightarrow>
    \<forall>(k, r) \<in> set (q_puts q'). spent_attempts r \<le> q_max_attempts q' \<Longrightarrow> reachable q'"

lemma step_max:
  "queue_step q cs q' \<Longrightarrow> q_max_attempts q' = q_max_attempts q"
  by (induction rule: queue_step.induct)
    (simp_all add: enqueue_def end_transaction_def extend_claim_def fence_def unfence_def release_def
      defer_job_def if_claimed_def complete_def ask_takeover_def withdraw_takeover_def pass_claim_def
      ask_message_def message_handed_def split: option.split)

lemma step_new_row:
  assumes "queue_step q cs q'" "wf_queue q" "row q j = None" "row q' j = Some r"
  shows "map_of (q_puts q) j = Some r"
  using assms(1)
proof cases
  case End_Transaction
  with assms show ?thesis by (simp add: end_transaction_row split: if_splits option.splits)
next
  case (Claim_Jobs claimant batch limits now)
  with claim_jobs_row [OF assms(2), where j = j and now = now and batch = batch and limits = limits
      and claimant = claimant] assms(3,4)
  show ?thesis by (auto split: option.splits)
next
  case (Ask_Takeover run step_id holder)
  have "row q (q_id s) = Some s" if "job_of_run q run = Some s" for s
    using find_SomeD [OF that[unfolded job_of_run_def]] row_mem [OF assms(2)] by simp
  with Ask_Takeover assms(3,4) show ?thesis
    by (auto simp: ask_takeover_def split: option.splits if_splits)
next
  case (Ask_Message run m)
  have "row q (q_id s) = Some s" if "job_of_run q run = Some s" for s
    using find_SomeD [OF that[unfolded job_of_run_def]] row_mem [OF assms(2)] by simp
  with Ask_Message assms(3,4) show ?thesis
    by (auto simp: ask_message_def split: option.splits if_splits)
next
  case (Complete jid claimant)
  with assms(3,4) show ?thesis
    by (auto simp: complete_def row_def delete_conv' split: option.splits if_splits)
qed (use assms(3,4) in \<open>auto simp: enqueue_def extend_claim_def fence_def unfence_def release_def
      defer_job_def if_claimed_row withdraw_takeover_def pass_claim_def
      message_handed_def split: option.splits if_splits\<close>)

lemma reachable_inv:
  "reachable q \<Longrightarrow> wf_queue q \<and> (\<forall>j r. row q j = Some r \<longrightarrow> spent_attempts r \<le> q_max_attempts q)
     \<and> (\<forall>(k, r) \<in> set (q_puts q). spent_attempts r \<le> q_max_attempts q)"
proof (induction rule: reachable.induct)
  case (Start lease m)
  show ?case by (simp add: wf_queue_def row_def)
next
  case (Next q cs q')
  have "spent_attempts r' \<le> q_max_attempts q'" if r': "row q' j = Some r'" for j r'
  proof (cases "row q j")
    case None
    with step_new_row [OF Next.hyps(2) _ None r'] Next.IH have "(j, r') \<in> set (q_puts q)"
      by (auto dest: map_of_SomeD)
    with Next.IH step_max [OF Next.hyps(2)] show ?thesis by auto
  next
    case (Some r)
    with step_row [OF Next.hyps(2) _ Some r'] Next.IH have "evolves (q_max_attempts q) r r'" by blast
    with Next.IH Some step_max [OF Next.hyps(2)] show ?thesis by (fastforce simp: evolves_def)
  qed
  with Next step_wf show ?case by blast
qed

text \<open>C33: whatever the operations' order, the claims of a job that count as attempts never exceed
  the limit: a job that keeps failing stops being claimed.\<close>

theorem attempts_bounded:
  assumes "reachable q" "row q j = Some r"
  shows "q_attempts r - q_deferrals r \<le> q_max_attempts q"
  using reachable_inv [OF assms(1)] assms(2) by (auto simp: spent_attempts_def)

subsection \<open>Witnesses\<close>

text \<open>A job whose claim by one runner has expired, and the claim of another.\<close>

definition sample_row :: job_row where
  "sample_row =
     (new_row \<lparr>j_id = ''job_1'', j_kind = RUN_EXECUTE, j_payload = [(''run_id'', JStr ''run_1'')],
        j_attempts = 0, j_deferrals = 0, j_org_unit = Some ''sales'', j_held_since = None\<rparr> 0)
     \<lparr>q_attempts := 1, q_claimed_at := Some 0, q_claimed_by := Some ''runner_a''\<rparr>"

definition sample_queue :: queue where
  "sample_queue = \<lparr>q_jobs = [(''job_1'', sample_row)], q_puts = [], q_fenced = (\<lambda>_. 0), q_lease = 60,
     q_max_attempts = 5, q_spoilt = False\<rparr>"

lemma sample_queue_wf: "wf_queue sample_queue"
  by (simp add: wf_queue_def sample_queue_def sample_row_def new_row_def)

lemma sample_claimed:
  "map (\<lambda>j. (j_id j, j_attempts j)) (fst (claim_jobs sample_queue ''runner_b'' 1 [''sales'' \<mapsto> 1] 100)) = [(''job_1'', 2)]"
  by (simp add: claim_jobs_def Let_def chosen_def placed_def due_rows_def due_def held_by_unit_def live_def
      sample_queue_def sample_row_def new_row_def unit_limit_def job_of_def claimed_row_def)

lemma sample_claim:
  "\<lparr>cl_job_id = ''job_1'', cl_claimant = ''runner_b'', cl_attempt = 2\<rparr> \<in> set
     (map (\<lambda>j. \<lparr>cl_job_id = j_id j, cl_claimant = ''runner_b'', cl_attempt = j_attempts j\<rparr>)
       (fst (claim_jobs sample_queue ''runner_b'' 1 [''sales'' \<mapsto> 1] 100)))"
proof -
  have "(''job_1'', 2) \<in> (\<lambda>j. (j_id j, j_attempts j)) `
      set (fst (claim_jobs sample_queue ''runner_b'' 1 [''sales'' \<mapsto> 1] 100))"
    using arg_cong [OF sample_claimed, of set] by simp
  then show ?thesis by force
qed


theorem claim_takes_free_jobs_witness:
  "\<exists>(j :: job) r. row sample_queue (j_id j) = Some r \<and> \<not> live sample_queue r 100 \<and> j_attempts j = q_attempts r + 1"
proof -
  obtain j where "j \<in> set (fst (claim_jobs sample_queue ''runner_b'' 1 [''sales'' \<mapsto> 1] 100))"
    using sample_claim by auto
  from claim_takes_free_jobs [OF sample_queue_wf this] show ?thesis by blast
qed

theorem claim_holds_unit_limit_witness:
  "held_by_unit (snd (claim_jobs sample_queue ''runner_b'' 1 [''sales'' \<mapsto> 1] 100)) 100 (Some ''sales'') \<le> 1"
proof -
  have "held_by_unit sample_queue 100 (Some ''sales'') = 0"
    by (simp add: held_by_unit_def live_def sample_queue_def sample_row_def new_row_def)
  with claim_holds_unit_limit [OF sample_queue_wf, of "[''sales'' \<mapsto> 1]" "''sales''" 1 "''runner_b''" 1 100]
  show ?thesis by simp
qed

theorem attempts_bounded_witness:
  "\<exists>q r. reachable q \<and> row q ''job_1'' = Some r \<and> q_attempts r - q_deferrals r \<le> q_max_attempts q"
proof -
  let ?q = "\<lparr>q_jobs = [], q_puts = [], q_fenced = (\<lambda>_. 0), q_lease = 60, q_max_attempts = 5, q_spoilt = False\<rparr>"
  let ?j = "job_of (sample_row\<lparr>q_attempts := 0\<rparr>)"
  have puts: "q_puts (snd (enqueue ?q ?j 0)) = [(''job_1'', new_row ?j 0)]"
    by (simp add: enqueue_def row_def job_of_def sample_row_def new_row_def)
  have "reachable (snd (enqueue ?q ?j 0))"
    by (rule reachable.Next [OF reachable.Start Enqueue])
      (simp add: puts, simp add: spent_attempts_def enqueue_def job_of_def new_row_def row_def)
  then have reach: "reachable (end_transaction (snd (enqueue ?q ?j 0)))"
    by (rule reachable.Next [OF _ End_Transaction]) (simp add: end_transaction_def)
  obtain r where "row (end_transaction (snd (enqueue ?q ?j 0))) ''job_1'' = Some r"
    by (simp add: end_transaction_def puts row_def) (simp add: enqueue_def row_def job_of_def sample_row_def new_row_def)
  with attempts_bounded [OF reach this] reach show ?thesis by blast
qed

end
