(* ===== verification/Shared_Step.thy ===== *)
theory Shared_Step
  imports Complex_Main Ledger_Entry
begin

text \<open>
  The shared values a plan is made of: a step with its rules (\<open>shared/v1/step.py\<close>), the autonomy
  of a process (\<open>shared/v1/autonomy.py\<close>), and the quantities a step uses
  (\<open>shared/v1/consumption.py\<close>). A validator returns the list of findings the code joins into
  its error; no finding is a valid value. A float quantity is a rational number: the rounding of
  IEEE arithmetic is not modelled. A dict is the list of its items with distinct keys.
\<close>

subsection \<open>Steps\<close>

record rejected_method =
  rj_method :: method_kind
  rj_why :: string

record fallback =
  fb_when :: string
  fb_to :: method_kind
  fb_role :: "string option"
  fb_expertise :: "string list option"

datatype shape_finding =
    Role_Not_For_Person method_kind
  | Expertise_Without_Role
  | Listed_Twice string
  | Lacks_Exactness method_kind
  | Carries_Exactness method_kind
  | Declares_Check method_kind
  | Lacks_Fallback method_kind
  | Lacks_Model method_kind
  | Exact_Not_Admissible method_kind

definition twice :: "string \<Rightarrow> 'a list option \<Rightarrow> shape_finding list" where
  "twice name xs =
     (case xs of None \<Rightarrow> [] | Some ys \<Rightarrow> if length (remdups ys) \<noteq> length ys then [Listed_Twice name] else [])"

definition fallback_findings :: "fallback \<Rightarrow> shape_finding list" where
  "fallback_findings f =
     (if fb_role f \<noteq> None \<and> fb_to f \<noteq> HUMAN then [Role_Not_For_Person (fb_to f)] else [])
   @ (if fb_expertise f \<noteq> None \<and> fb_role f = None then [Expertise_Without_Role] else [])
   @ twice ''expertise'' (fb_expertise f)"

record step =
  s_id :: string
  s_method :: method_kind
  s_reason :: string
  s_rejected :: "rejected_method list"
  s_exactness :: "exactness_class option"
  s_checks :: "json list option"
  s_fallback :: "fallback option"
  s_model :: "string option"
  s_requires :: "string list option"
  s_depends_on :: "string list option"
  s_role :: "string option"
  s_expertise :: "string list option"

definition step_findings :: "step \<Rightarrow> shape_finding list" where
  "step_findings s =
     (let m = s_method s in
      (if m \<in> PRODUCING \<and> s_exactness s = None then [Lacks_Exactness m] else [])
    @ (if m \<in> NON_PRODUCING \<and> s_exactness s \<noteq> None then [Carries_Exactness m] else [])
    @ (if m \<in> NON_PRODUCING \<and> s_checks s \<noteq> None then [Declares_Check m] else [])
    @ (if m \<in> VARIABLE \<and> s_fallback s = None then [Lacks_Fallback m] else [])
    @ (if m \<in> PINNED \<and> s_model s = None then [Lacks_Model m] else [])
    @ (if s_exactness s = Some EXACT \<and> m \<notin> EXACT_ADMISSIBLE then [Exact_Not_Admissible m] else [])
    @ (if (s_role s \<noteq> None \<or> s_expertise s \<noteq> None) \<and> m \<noteq> HUMAN then [Role_Not_For_Person m] else [])
    @ (if s_expertise s \<noteq> None \<and> s_role s = None then [Expertise_Without_Role] else [])
    @ twice ''checks'' (s_checks s) @ twice ''requires'' (s_requires s)
    @ twice ''depends_on'' (s_depends_on s) @ twice ''expertise'' (s_expertise s))"

definition dependencies :: "step \<Rightarrow> string list" where
  "dependencies s = (case s_depends_on s of None \<Rightarrow> [] | Some ds \<Rightarrow> ds)"

definition performer :: "step \<Rightarrow> string option" where
  "performer s =
     (if s_method s = HUMAN then s_role s
      else case s_fallback s of
             Some f \<Rightarrow> if fb_to f = HUMAN then fb_role f else None
           | None \<Rightarrow> None)"

definition required_capabilities :: "step \<Rightarrow> string list" where
  "required_capabilities s = (case s_requires s of None \<Rightarrow> [] | Some cs \<Rightarrow> cs)"

subsection \<open>Autonomy\<close>

text \<open>\<open>AutonomyLevel\<close>: 1 to 4.\<close>

type_synonym level = int

datatype autonomy_error = Next_Level_At_Four | Next_Level_Missing | Action_Above_Process string

definition toward_next_findings :: "level \<Rightarrow> string option \<Rightarrow> autonomy_error list" where
  "toward_next_findings l t =
     (if l = 4 \<and> t \<noteq> None then [Next_Level_At_Four]
      else if l < 4 \<and> t = None then [Next_Level_Missing] else [])"

record action_autonomy =
  aa_level :: level
  aa_reason :: string
  aa_toward_next :: "string option"

record autonomy =
  au_level :: level
  au_reason :: string
  au_toward_next :: "string option"
  au_actions :: "(string \<times> action_autonomy) list option"
  au_history :: "int option"

definition au_statements :: "autonomy \<Rightarrow> (string \<times> action_autonomy) list" where
  "au_statements a = (case au_actions a of None \<Rightarrow> [] | Some m \<Rightarrow> m)"

text \<open>\<open>_shape\<close> raises the first finding; an action's own validator ran before it.\<close>

definition autonomy_findings :: "autonomy \<Rightarrow> autonomy_error list" where
  "autonomy_findings a =
     concat (map (\<lambda>(_, s). toward_next_findings (aa_level s) (aa_toward_next s)) (au_statements a))
   @ toward_next_findings (au_level a) (au_toward_next a)
   @ concat (map (\<lambda>(k, s). if aa_level s > au_level a then [Action_Above_Process k] else []) (au_statements a))"

definition action_levels :: "autonomy \<Rightarrow> (string \<times> level) list" where
  "action_levels a = map (\<lambda>(k, s). (k, aa_level s)) (au_statements a)"

definition level_of :: "autonomy \<Rightarrow> string \<Rightarrow> level" where
  "level_of a action =
     (case map_of (au_statements a) action of None \<Rightarrow> au_level a | Some s \<Rightarrow> aa_level s)"

subsection \<open>Consumption\<close>

record price_kinds =
  k_input :: "int option"
  k_output :: "int option"
  k_cache_read :: "int option"
  k_cache_write :: "int option"

definition or0 :: "'a::zero option \<Rightarrow> 'a" where
  "or0 x = (case x of None \<Rightarrow> 0 | Some v \<Rightarrow> v)"

definition kinds_ok :: "price_kinds \<Rightarrow> bool" where
  "kinds_ok k \<longleftrightarrow> \<not> (k_input k = None \<and> k_output k = None \<and> k_cache_read k = None \<and> k_cache_write k = None)
   \<and> (\<forall>x \<in> {k_input k, k_output k, k_cache_read k, k_cache_write k}. or0 x \<ge> 0)"

definition kinds_tokens_in :: "price_kinds \<Rightarrow> int" where
  "kinds_tokens_in k = or0 (k_input k) + or0 (k_cache_read k) + or0 (k_cache_write k)"

definition plus_opt :: "'a::monoid_add option \<Rightarrow> 'a option \<Rightarrow> 'a option" where
  "plus_opt a b = (if a \<noteq> None \<or> b \<noteq> None then Some (or0 a + or0 b) else None)"

definition kinds_plus :: "price_kinds \<Rightarrow> price_kinds \<Rightarrow> price_kinds" where
  "kinds_plus a b = \<lparr>k_input = plus_opt (k_input a) (k_input b),
     k_output = plus_opt (k_output a) (k_output b),
     k_cache_read = plus_opt (k_cache_read a) (k_cache_read b),
     k_cache_write = plus_opt (k_cache_write a) (k_cache_write b)\<rparr>"

type_synonym tokens_by_model = "(string \<times> price_kinds) list"

definition items :: "('k \<times> 'v) list option \<Rightarrow> ('k \<times> 'v) list" where
  "items m = (case m of None \<Rightarrow> [] | Some xs \<Rightarrow> xs)"

definition add_kinds :: "tokens_by_model \<Rightarrow> string \<times> price_kinds \<Rightarrow> tokens_by_model" where
  "add_kinds summed x =
     AList.update (fst x)
       (case map_of summed (fst x) of None \<Rightarrow> snd x | Some k \<Rightarrow> kinds_plus k (snd x)) summed"

definition add_tokens_by_model ::
  "tokens_by_model option \<Rightarrow> tokens_by_model option \<Rightarrow> tokens_by_model option" where
  "add_tokens_by_model left right =
     (if items left = [] then (if items right = [] then None else right)
      else Some (foldl add_kinds (items left) (items right)))"

record compression =
  z_before :: int
  z_after :: int

definition saved :: "compression \<Rightarrow> int" where
  "saved z = z_before z - z_after z"

definition compression_plus :: "compression \<Rightarrow> compression \<Rightarrow> compression" where
  "compression_plus a b = \<lparr>z_before = z_before a + z_before b, z_after = z_after a + z_after b\<rparr>"

record quantities =
  u_in :: "int option"
  u_out :: "int option"
  u_by_model :: "tokens_by_model option"
  u_currency :: "(string \<times> rat) list option"
  u_quota :: "rat option"
  u_compute :: "rat option"
  u_class :: "string option"
  u_storage :: "int option"
  u_turns :: "int option"
  u_compression :: "compression option"

definition no_quantities :: quantities where
  "no_quantities = \<lparr>u_in = None, u_out = None, u_by_model = None, u_currency = None, u_quota = None,
     u_compute = None, u_class = None, u_storage = None, u_turns = None, u_compression = None\<rparr>"

text \<open>The validators of the quantities: \<open>_compute_names_its_class\<close> and the fields' bounds.\<close>

definition quantities_ok :: "quantities \<Rightarrow> bool" where
  "quantities_ok q \<longleftrightarrow>
     \<not> (u_compute q \<noteq> None \<and> u_class q = None)
   \<and> or0 (u_in q) \<ge> 0 \<and> or0 (u_out q) \<ge> 0 \<and> or0 (u_quota q) \<ge> 0 \<and> or0 (u_compute q) \<ge> 0
   \<and> or0 (u_storage q) \<ge> 0 \<and> or0 (u_turns q) \<ge> 0
   \<and> u_currency q \<noteq> Some [] \<and> (\<forall>(c, a) \<in> set (items (u_currency q)). a \<ge> 0)
   \<and> distinct (map fst (items (u_currency q)))
   \<and> u_by_model q \<noteq> Some [] \<and> list_all (kinds_ok \<circ> snd) (items (u_by_model q))
   \<and> distinct (map fst (items (u_by_model q)))"

definition present_quantities :: "quantities \<Rightarrow> string list" where
  "present_quantities q =
     (if u_in q \<noteq> None then [''tokens_in''] else []) @ (if u_out q \<noteq> None then [''tokens_out''] else [])
   @ (if u_by_model q \<noteq> None then [''tokens_by_model''] else [])
   @ (if u_currency q \<noteq> None then [''currency''] else [])
   @ (if u_quota q \<noteq> None then [''quota_units''] else [])
   @ (if u_compute q \<noteq> None then [''compute_seconds''] else [])
   @ (if u_storage q \<noteq> None then [''storage_bytes''] else [])"

definition consumption_ok :: "quantities \<Rightarrow> bool" where
  "consumption_ok q \<longleftrightarrow> quantities_ok q \<and> present_quantities q \<noteq> []"

definition money :: "quantities \<Rightarrow> string \<Rightarrow> rat" where
  "money q code = or0 (map_of (items (u_currency q)) code)"

subsection \<open>Lemmas\<close>

lemma or0_simps [simp]: "or0 None = 0" "or0 (Some x) = x"
  by (simp_all add: or0_def)

lemma or0_plus_opt [simp]: "or0 (plus_opt a b) = or0 a + or0 b"
  by (cases a; cases b) (simp_all add: plus_opt_def)

lemma items_simps [simp]: "items None = []" "items (Some m) = m"
  by (simp_all add: items_def)

text \<open>The rules of a step, as what a step without a finding satisfies.\<close>

lemma step_findings_Nil:
  "step_findings s = [] \<Longrightarrow> s_method s \<in> PRODUCING \<longleftrightarrow> s_exactness s \<noteq> None"
  by (cases "s_method s")
    (auto simp: step_findings_def Let_def PRODUCING_def NON_PRODUCING_def split: if_splits)


definition tokens_of :: "tokens_by_model option \<Rightarrow> string \<Rightarrow> price_kinds option" where
  "tokens_of m model = map_of (items m) model"

lemma add_kinds_map: "map_of (add_kinds summed (m, k)) n =
   (if n = m then Some (case map_of summed m of None \<Rightarrow> k | Some k' \<Rightarrow> kinds_plus k' k) else map_of summed n)"
  by (auto simp: add_kinds_def update_conv' split: option.split)

lemma foldl_add_kinds:
  "distinct (map fst xs) \<Longrightarrow> map_of (foldl add_kinds summed xs) m =
     (case (map_of summed m, map_of xs m) of
        (Some a, Some b) \<Rightarrow> Some (kinds_plus a b)
      | (None, b) \<Rightarrow> b | (a, None) \<Rightarrow> a)"
proof (induction xs arbitrary: summed)
  case (Cons x xs)
  obtain n k where x: "x = (n, k)" by (cases x)
  have "map_of xs n = None" using Cons.prems x by (auto simp: map_of_eq_None_iff)
  with Cons x show ?case by (auto simp: add_kinds_map split: option.splits)
qed (auto split: option.splits)

text \<open>adding two breakdowns adds each model's tokens kind by kind, and loses no model.\<close>

theorem add_tokens_by_model_sums:
  assumes "distinct (map fst (items right))"
  shows "tokens_of (add_tokens_by_model left right) m =
    (case (tokens_of left m, tokens_of right m) of
       (Some a, Some b) \<Rightarrow> Some (kinds_plus a b) | (None, b) \<Rightarrow> b | (a, None) \<Rightarrow> a)"
  using foldl_add_kinds [OF assms, of "items left" m]
  by (auto simp: tokens_of_def add_tokens_by_model_def split: option.splits)

theorem add_tokens_by_model_sums_witness:
  "tokens_of (add_tokens_by_model
      (Some [(''opus'', \<lparr>k_input = Some 3, k_output = None, k_cache_read = None, k_cache_write = None\<rparr>)])
      (Some [(''opus'', \<lparr>k_input = Some 4, k_output = Some 1, k_cache_read = None, k_cache_write = None\<rparr>)])) ''opus''
    = Some \<lparr>k_input = Some 7, k_output = Some 1, k_cache_read = None, k_cache_write = None\<rparr>"
  by (subst add_tokens_by_model_sums) (simp_all add: tokens_of_def kinds_plus_def plus_opt_def)

definition sample_step :: step where
  "sample_step = \<lparr>s_id = ''check'', s_method = RULE, s_reason = ''a rule'', s_rejected = [],
     s_exactness = Some EXACT, s_checks = None, s_fallback = None, s_model = None, s_requires = None,
     s_depends_on = None, s_role = None, s_expertise = None\<rparr>"


end
