(* ===== verification/Run_Deadline.thy ===== *)
theory Run_Deadline
  imports Ledger_Entry
begin

text \<open>
  A deadline of a run and the working time it may count in (\<open>run/domain/model/deadline.py\<close>) with its rules
  (\<open>run/domain/service/deadlines.py\<close>): which ledger entry starts it and which meets it, when it falls
  due, which action is due.

  A date is the number of days since 1 January 1970, a time of day the microseconds since midnight. A
  time zone is what its database answers: the local date of a moment, and the moment of a local date and
  time. The database is an argument; UTC needs none.
\<close>

subsection \<open>Rules\<close>

datatype deadline_action_kind = DA_REMIND | DA_ESCALATE | DA_START

record deadline_action =
  da_kind :: deadline_action_kind
  da_role :: "string option"
  da_process :: "string option"
  da_inputs :: "(string \<times> json) list"

definition is_lower :: "char \<Rightarrow> bool" where
  "is_lower c \<longleftrightarrow> 97 \<le> (of_char c :: nat) \<and> (of_char c :: nat) \<le> 122"

definition token_text :: "string \<Rightarrow> string \<Rightarrow> bool" where
  "token_text extra s = (case s of [] \<Rightarrow> False
     | c # cs \<Rightarrow> is_lower c \<and> list_all (\<lambda>x. is_lower x \<or> is_digit x \<or> x \<in> set extra) cs)"

definition deadline_name :: "string \<Rightarrow> bool" where "deadline_name = token_text ''_''"
definition role_text :: "string \<Rightarrow> bool" where "role_text = token_text ''_.-''"
definition process_text :: "string \<Rightarrow> bool" where "process_text = token_text ''-''"

definition action_ok :: "deadline_action \<Rightarrow> bool" where
  "action_ok a \<longleftrightarrow>
     (case da_role a of None \<Rightarrow> True | Some r \<Rightarrow> role_text r)
   \<and> (case da_process a of None \<Rightarrow> True | Some p \<Rightarrow> process_text p)
   \<and> (if da_kind a = DA_START then \<not> (da_process a = None \<or> da_role a \<noteq> None)
      else \<not> (da_role a = None \<or> da_process a \<noteq> None \<or> da_inputs a \<noteq> []))"

datatype deadline_start = AT_RUN | AFTER_STEP | AT_DATE

record deadline_rule =
  dr_name :: string
  dr_start :: deadline_start
  dr_after :: "string option"
  dr_date_input :: "string option"
  dr_limit :: span
  dr_lead :: "span option"
  dr_working :: bool
  dr_until :: string
  dr_at_lead :: "deadline_action option"
  dr_at_limit :: deadline_action

datatype deadline_finding = After_Names_Its_Step | Date_Names_Its_Input | Limit_Negative | Lead_Not_Positive
  | Lead_Without_Action

definition rule_findings :: "deadline_rule \<Rightarrow> deadline_finding option" where
  "rule_findings r =
     (if (dr_start r = AFTER_STEP) \<noteq> (dr_after r \<noteq> None) then Some After_Names_Its_Step
      else if (dr_start r = AT_DATE) \<noteq> (dr_date_input r \<noteq> None) then Some Date_Names_Its_Input
      else if dr_limit r < 0 then Some Limit_Negative
      else if (case dr_lead r of None \<Rightarrow> False | Some l \<Rightarrow> l \<le> 0) then Some Lead_Not_Positive
      else if (dr_lead r = None) \<noteq> (dr_at_lead r = None) then Some Lead_Without_Action
      else None)"

subsection \<open>Deadlines\<close>

datatype deadline_state = DL_OPEN | DL_MET

record deadline =
  dl_id :: string
  dl_tenant :: string
  dl_run_id :: string
  dl_process_version :: string
  dl_rule :: deadline_rule
  dl_started_at :: moment
  dl_due_at :: moment
  dl_lead_at :: "moment option"
  dl_created_at :: moment
  dl_state :: deadline_state
  dl_lead_taken_at :: "moment option"
  dl_reached_at :: "moment option"
  dl_refused :: "string option"
  dl_started_run :: "string option"
  dl_met_at :: "moment option"
  dl_met_through :: "string option"

text \<open>The hash's hexadecimal text is an argument.\<close>

definition deadline_id :: "(string \<Rightarrow> string) \<Rightarrow> string \<Rightarrow> string \<Rightarrow> string" where
  "deadline_id hex run name = ''dl_'' @ take 24 (hex (run @ [char_of (0::nat)] @ name))"

definition overdue :: "deadline \<Rightarrow> moment \<Rightarrow> bool" where
  "overdue d now \<longleftrightarrow> dl_state d = DL_OPEN \<and> dl_due_at d \<le> now"

definition deadline_link :: "deadline \<Rightarrow> string" where
  "deadline_link d = ''app/#/runs/'' @ dl_run_id d"

definition role_of :: "deadline_action \<Rightarrow> string" where
  "role_of a = (case da_role a of None \<Rightarrow> [] | Some r \<Rightarrow> r)"

definition deadline_roles :: "deadline \<Rightarrow> string list" where
  "deadline_roles d =
     filter (\<lambda>r. r \<noteq> [])
       ((case (dl_lead_taken_at d, dr_at_lead (dl_rule d)) of (Some _, Some a) \<Rightarrow> [role_of a] | _ \<Rightarrow> [])
        @ (if dl_reached_at d \<noteq> None then [role_of (dr_at_limit (dl_rule d))] else []))"

subsection \<open>Working time\<close>

definition DAY_SPAN :: span where "DAY_SPAN = 86400 * 1000000"

record working_time =
  wt_id :: string
  wt_tenant :: string
  wt_zone :: string
  wt_days :: "int list"
  wt_begins :: span
  wt_ends :: span
  wt_holidays :: "int list"
  wt_configured_at :: "moment option"

record time_zone =
  tz_day :: "moment \<Rightarrow> int"
  tz_moment :: "int \<Rightarrow> span \<Rightarrow> moment"

definition utc :: time_zone where
  "utc = \<lparr>tz_day = (\<lambda>t. t div DAY_SPAN), tz_moment = (\<lambda>d x. d * DAY_SPAN + x)\<rparr>"

definition zone_of :: "(string \<Rightarrow> time_zone option) \<Rightarrow> working_time \<Rightarrow> time_zone option" where
  "zone_of zones w = (if wt_zone w = ''UTC'' then Some utc else zones (wt_zone w))"

datatype working_finding = Not_Its_Tenant | No_Working_Day | Day_Named_Twice | Begins_After_End | No_Such_Zone

definition working_findings :: "(string \<Rightarrow> time_zone option) \<Rightarrow> working_time \<Rightarrow> working_finding option" where
  "working_findings zones w =
     (if wt_id w \<noteq> wt_tenant w then Some Not_Its_Tenant
      else if wt_days w = [] \<or> list_ex (\<lambda>d. d < 0 \<or> d > 6) (wt_days w) then Some No_Working_Day
      else if card (set (wt_days w)) \<noteq> length (wt_days w) then Some Day_Named_Twice
      else if wt_begins w \<ge> wt_ends w then Some Begins_After_End
      else if zone_of zones w = None then Some No_Such_Zone
      else None)"

definition shipped_working_time :: "string \<Rightarrow> working_time" where
  "shipped_working_time tenant = \<lparr>wt_id = tenant, wt_tenant = tenant, wt_zone = ''UTC'', wt_days = [0, 1, 2, 3, 4],
     wt_begins = 9 * 3600 * 1000000, wt_ends = 17 * 3600 * 1000000, wt_holidays = [], wt_configured_at = None\<rparr>"

text \<open>0 is Monday; 1 January 1970 was a Thursday.\<close>

definition weekday :: "int \<Rightarrow> int" where
  "weekday day = (day + 3) mod 7"

definition hours_of :: "time_zone \<Rightarrow> working_time \<Rightarrow> int \<Rightarrow> (moment \<times> moment) option" where
  "hours_of z w day =
     (if weekday day \<notin> set (wt_days w) \<or> day \<in> set (wt_holidays w) then None
      else Some (tz_moment z day (wt_begins w), tz_moment z day (wt_ends w)))"

definition HORIZON_DAYS :: nat where "HORIZON_DAYS = 3660"

fun add_from :: "(int \<Rightarrow> (moment \<times> moment) option) \<Rightarrow> moment \<Rightarrow> nat \<Rightarrow> int \<Rightarrow> span \<Rightarrow> moment option" where
  "add_from hours start 0 day left = None"
| "add_from hours start (Suc n) day left =
     (case hours day of
        None \<Rightarrow> add_from hours start n (day + 1) left
      | Some (b, e) \<Rightarrow>
          (let cursor = max start b; available = e - cursor
           in if cursor < e
              then if left \<le> available then Some (cursor + left)
                else add_from hours start n (day + 1) (left - available)
              else add_from hours start n (day + 1) left))"

definition add_working :: "time_zone \<Rightarrow> working_time \<Rightarrow> moment \<Rightarrow> span \<Rightarrow> moment option" where
  "add_working z w start len =
     (if len \<le> 0 then Some start else add_from (hours_of z w) start HORIZON_DAYS (tz_day z start) len)"

fun subtract_from :: "(int \<Rightarrow> (moment \<times> moment) option) \<Rightarrow> moment \<Rightarrow> nat \<Rightarrow> int \<Rightarrow> span \<Rightarrow> moment option" where
  "subtract_from hours stop 0 day left = None"
| "subtract_from hours stop (Suc n) day left =
     (case hours day of
        None \<Rightarrow> subtract_from hours stop n (day - 1) left
      | Some (b, e) \<Rightarrow>
          (let cursor = min stop e; available = cursor - b
           in if cursor > b
              then if left \<le> available then Some (cursor - left)
                else subtract_from hours stop n (day - 1) (left - available)
              else subtract_from hours stop n (day - 1) left))"

definition subtract_working :: "time_zone \<Rightarrow> working_time \<Rightarrow> moment \<Rightarrow> span \<Rightarrow> moment option" where
  "subtract_working z w stop len =
     (if len \<le> 0 then Some stop else subtract_from (hours_of z w) stop HORIZON_DAYS (tz_day z stop) len)"

subsection \<open>Starting, meeting, falling due\<close>

definition DEADLINE_STARTED :: string where "DEADLINE_STARTED = ''deadline.started''"
definition DEADLINE_REFUSED :: string where "DEADLINE_REFUSED = ''deadline.refused''"
definition DEADLINE_LEAD :: string where "DEADLINE_LEAD = ''deadline.lead''"
definition DEADLINE_REACHED :: string where "DEADLINE_REACHED = ''deadline.reached''"
definition DEADLINE_MET :: string where "DEADLINE_MET = ''deadline.met''"
definition RUN_CREATED :: string where "RUN_CREATED = ''run.created''"
definition RUN_FINISHED :: string where "RUN_FINISHED = ''run.finished''"
definition STEP_FINISHED :: string where "STEP_FINISHED = ''step.finished''"
definition NOT_AN_ANSWER :: "string list" where "NOT_AN_ANSWER = [''failed'', ''skipped'']"

definition deadline_answer :: "string \<Rightarrow> string option \<Rightarrow> string option \<Rightarrow> string option \<Rightarrow> bool" where
  "deadline_answer kind sid outcome wanted \<longleftrightarrow>
     kind = STEP_FINISHED \<and> sid = wanted
     \<and> (case outcome of None \<Rightarrow> [] | Some x \<Rightarrow> x) \<notin> set NOT_AN_ANSWER"

definition starts_deadline :: "deadline_rule \<Rightarrow> string \<Rightarrow> string option \<Rightarrow> string option \<Rightarrow> bool" where
  "starts_deadline r kind sid outcome \<longleftrightarrow>
     (if dr_start r = AFTER_STEP then deadline_answer kind sid outcome (dr_after r) else kind = RUN_CREATED)"

definition meets_deadline :: "deadline_rule \<Rightarrow> string \<Rightarrow> string option \<Rightarrow> string option \<Rightarrow> string option" where
  "meets_deadline r kind sid outcome =
     (if deadline_answer kind sid outcome (Some (dr_until r)) then Some ''step''
      else if kind = RUN_FINISHED then Some ''run_finished''
      else None)"

text \<open>An ISO 8601 text as the library reads it: its date, its time of day, and its offset if it names one.
  The reader and the trimming of a text are arguments.\<close>

record iso_reading =
  ir_day :: int
  ir_time :: span
  ir_offset :: "span option"

record text_reader =
  tr_strip :: "string \<Rightarrow> string"
  tr_iso :: "string \<Rightarrow> iso_reading option"

definition date_of :: "text_reader \<Rightarrow> json option \<Rightarrow> moment option" where
  "date_of tr v =
     (case v of
        Some (JStr s) \<Rightarrow>
          (case tr_iso tr (tr_strip tr s) of
             None \<Rightarrow> None
           | Some i \<Rightarrow>
               if length (tr_strip tr s) = 10 then Some (ir_day i * DAY_SPAN)
               else Some (ir_day i * DAY_SPAN + ir_time i - (case ir_offset i of None \<Rightarrow> 0 | Some x \<Rightarrow> x)))
      | _ \<Rightarrow> None)"

definition starting_moment :: "text_reader \<Rightarrow> deadline_rule \<Rightarrow> (string \<times> json) list \<Rightarrow> moment \<Rightarrow> moment option" where
  "starting_moment tr r inputs now =
     (if dr_start r = AT_DATE
      then date_of tr (map_of inputs (case dr_date_input r of None \<Rightarrow> [] | Some i \<Rightarrow> i))
      else Some now)"

record deadline_schedule =
  ds_due_at :: moment
  ds_lead_at :: "moment option"

text \<open>\<open>None\<close> is the error of a count that meets no working time within the horizon.\<close>

definition schedule_of :: "time_zone \<Rightarrow> working_time \<Rightarrow> deadline_rule \<Rightarrow> moment \<Rightarrow> deadline_schedule option" where
  "schedule_of z w r started =
     (if dr_working r
      then (case add_working z w started (dr_limit r) of
              None \<Rightarrow> None
            | Some t \<Rightarrow>
                (case dr_lead r of
                   None \<Rightarrow> Some \<lparr>ds_due_at = t, ds_lead_at = None\<rparr>
                 | Some l \<Rightarrow> map_option (\<lambda>x. \<lparr>ds_due_at = t, ds_lead_at = Some x\<rparr>) (subtract_working z w t l)))
      else (let t = started + dr_limit r
            in Some \<lparr>ds_due_at = t, ds_lead_at = map_option (\<lambda>l. t - l) (dr_lead r)\<rparr>))"

datatype deadline_moment = AT_LEAD | AT_LIMIT

record due_action =
  du_deadline :: deadline
  du_moment :: deadline_moment

definition du_action :: "due_action \<Rightarrow> deadline_action" where
  "du_action u = (case (du_moment u, dr_at_lead (dl_rule (du_deadline u))) of
     (AT_LEAD, Some a) \<Rightarrow> a | _ \<Rightarrow> dr_at_limit (dl_rule (du_deadline u)))"

definition du_at :: "due_action \<Rightarrow> moment" where
  "du_at u = (case (du_moment u, dl_lead_at (du_deadline u)) of
     (AT_LEAD, Some t) \<Rightarrow> t | _ \<Rightarrow> dl_due_at (du_deadline u))"

definition du_kind :: "due_action \<Rightarrow> string" where
  "du_kind u = (if du_moment u = AT_LEAD then DEADLINE_LEAD else DEADLINE_REACHED)"

definition due_actions :: "deadline \<Rightarrow> moment \<Rightarrow> due_action list" where
  "due_actions d now =
     (if dl_state d \<noteq> DL_OPEN then []
      else (if dl_lead_taken_at d = None \<and> dl_reached_at d = None
               \<and> (case dl_lead_at d of None \<Rightarrow> False | Some t \<Rightarrow> t \<le> now)
            then [\<lparr>du_deadline = d, du_moment = AT_LEAD\<rparr>] else [])
           @ (if dl_reached_at d = None \<and> dl_due_at d \<le> now
              then [\<lparr>du_deadline = d, du_moment = AT_LIMIT\<rparr>] else []))"

definition taken_action :: "deadline \<Rightarrow> deadline_moment \<Rightarrow> moment \<Rightarrow> deadline" where
  "taken_action d m t =
     (if m = AT_LEAD then d\<lparr>dl_lead_taken_at := Some t\<rparr> else d\<lparr>dl_reached_at := Some t\<rparr>)"

definition met_deadline :: "deadline \<Rightarrow> string \<Rightarrow> moment \<Rightarrow> deadline" where
  "met_deadline d through t = d\<lparr>dl_state := DL_MET, dl_met_at := Some t, dl_met_through := Some through\<rparr>"

text \<open>\<open>document\<close>: the deadline as a list prints it. The ISO text of a moment and the document of an
  action's inputs are as the library writes them.\<close>

fun action_kind_value :: "deadline_action_kind \<Rightarrow> string" where
  "action_kind_value DA_REMIND = ''remind''"
| "action_kind_value DA_ESCALATE = ''escalate''"
| "action_kind_value DA_START = ''start''"

fun deadline_state_value :: "deadline_state \<Rightarrow> string" where
  "deadline_state_value DL_OPEN = ''open''"
| "deadline_state_value DL_MET = ''met''"

definition action_document :: "deadline_action \<Rightarrow> json" where
  "action_document a = JObj ([(''kind'', JStr (action_kind_value (da_kind a)))]
     @ field_of ''role'' (map_option JStr (da_role a)) @ field_of ''process'' (map_option JStr (da_process a))
     @ [(''inputs'', JObj (da_inputs a))])"

definition or_null :: "json option \<Rightarrow> json" where
  "or_null v = (case v of None \<Rightarrow> JNull | Some j \<Rightarrow> j)"

definition deadline_document :: "(moment \<Rightarrow> string) \<Rightarrow> deadline \<Rightarrow> moment \<Rightarrow> (string \<times> json) list" where
  "deadline_document ts d now =
     (let r = dl_rule d; at_moment = (\<lambda>t. or_null (map_option (\<lambda>x. JStr (ts x)) t))
      in [(''id'', JStr (dl_id d)), (''name'', JStr (dr_name r)), (''run'', JStr (dl_run_id d)),
          (''process_version'', JStr (dl_process_version d)), (''state'', JStr (deadline_state_value (dl_state d))),
          (''overdue'', JBool (overdue d now)), (''counts'', JStr (if dr_working r then ''working'' else ''calendar'')),
          (''started_at'', JStr (ts (dl_started_at d))), (''lead_at'', at_moment (dl_lead_at d)),
          (''due_at'', JStr (ts (dl_due_at d))), (''at_lead'', or_null (map_option action_document (dr_at_lead r))),
          (''at_limit'', action_document (dr_at_limit r)), (''lead_taken_at'', at_moment (dl_lead_taken_at d)),
          (''reached_at'', at_moment (dl_reached_at d)), (''roles'', JList (map JStr (deadline_roles d))),
          (''link'', JStr (deadline_link d))])"

end
