(* ===== verification/Run_Model.thy ===== *)
theory Run_Model
  imports Shared_Step Run_Deadline
begin

text \<open>
  The run (\<open>run/domain/model/run.py\<close>, \<open>block.py\<close>): its states and transitions, the step runs,
  where execution continues, and what counts against the budget. A step run carries the estimate,
  the reservation and the actual of its step; \<open>consumed\<close> acc what counts.
\<close>

subsection \<open>States\<close>

datatype run_state = R_PLANNED | R_ADMITTED | R_RUNNING | R_WAITING_HUMAN | R_HALTED | R_ESCALATED | R_FINISHED

datatype run_ended = ENDED_OK | ENDED_EMPTY | ENDED_ERROR

datatype cause = LIMIT | NO_ESTIMATE | STOP | FAILURE | CEILING | CAPACITY | PARKED | PERSON | MATURITY
  | ADMINISTRATION | REPEATED | DECLINED

definition RUN_TRANSITIONS :: "(run_state \<times> run_state) list" where
  "RUN_TRANSITIONS =
     [(R_PLANNED, R_ADMITTED), (R_ADMITTED, R_RUNNING), (R_RUNNING, R_WAITING_HUMAN),
      (R_WAITING_HUMAN, R_RUNNING), (R_WAITING_HUMAN, R_HALTED), (R_RUNNING, R_HALTED),
      (R_RUNNING, R_ESCALATED), (R_RUNNING, R_FINISHED), (R_HALTED, R_RUNNING), (R_ESCALATED, R_RUNNING)]"

definition WORKING :: "run_state set" where "WORKING = {R_PLANNED, R_ADMITTED, R_RUNNING}"
definition WAITING :: "run_state set" where "WAITING = {R_WAITING_HUMAN, R_HALTED, R_ESCALATED}"
definition RESUMABLE :: "run_state set" where "RESUMABLE = {R_HALTED, R_ESCALATED, R_WAITING_HUMAN}"
definition INTERRUPTIBLE :: "run_state set" where "INTERRUPTIBLE = {R_PLANNED, R_ADMITTED, R_RUNNING}"

datatype step_state = S_PLANNED | S_REJECTED | S_ADMITTED | S_RUNNING | S_SUCCEEDED | S_FAILED | S_STOPPED
  | S_WAITING_HUMAN

definition STEP_TRANSITIONS :: "(step_state \<times> step_state) list" where
  "STEP_TRANSITIONS =
     [(S_PLANNED, S_ADMITTED), (S_PLANNED, S_REJECTED), (S_REJECTED, S_ADMITTED),
      (S_REJECTED, S_REJECTED), (S_FAILED, S_REJECTED), (S_STOPPED, S_REJECTED),
      (S_ADMITTED, S_RUNNING), (S_ADMITTED, S_REJECTED), (S_ADMITTED, S_STOPPED),
      (S_RUNNING, S_SUCCEEDED), (S_RUNNING, S_FAILED), (S_RUNNING, S_STOPPED),
      (S_STOPPED, S_ADMITTED), (S_FAILED, S_ADMITTED),
      (S_PLANNED, S_FAILED), (S_REJECTED, S_FAILED), (S_STOPPED, S_FAILED), (S_FAILED, S_FAILED),
      (S_ADMITTED, S_FAILED),
      (S_PLANNED, S_STOPPED), (S_REJECTED, S_STOPPED), (S_STOPPED, S_STOPPED), (S_FAILED, S_STOPPED),
      (S_STOPPED, S_RUNNING), (S_FAILED, S_RUNNING), (S_REJECTED, S_RUNNING),
      (S_PLANNED, S_WAITING_HUMAN), (S_WAITING_HUMAN, S_PLANNED), (S_WAITING_HUMAN, S_SUCCEEDED),
      (S_RUNNING, S_WAITING_HUMAN),
      (S_STOPPED, S_WAITING_HUMAN), (S_WAITING_HUMAN, S_STOPPED),
      (S_WAITING_HUMAN, S_REJECTED), (S_REJECTED, S_WAITING_HUMAN),
      (S_PLANNED, S_SUCCEEDED), (S_REJECTED, S_SUCCEEDED),
      (S_STOPPED, S_SUCCEEDED), (S_FAILED, S_SUCCEEDED)]"

definition DONE :: "step_state set" where "DONE = {S_SUCCEEDED}"
definition IN_FLIGHT_STATES :: "step_state set" where "IN_FLIGHT_STATES = {S_ADMITTED, S_RUNNING}"

subsection \<open>Blocks\<close>

datatype account = LIMIT_PROVIDER | LIMIT_QUOTA | LIMIT_BUDGET | LIMIT_COMPUTE | WAIT_HUMAN
  | WAIT_EXTERNAL | WAIT_DEPENDENCY

definition ACCOUNTS :: "account list" where
  "ACCOUNTS = [LIMIT_PROVIDER, LIMIT_QUOTA, LIMIT_BUDGET, LIMIT_COMPUTE, WAIT_HUMAN, WAIT_EXTERNAL,
     WAIT_DEPENDENCY]"

definition LACKS :: "string list" where
  "LACKS = [''no_worker'', ''no_connector'', ''operation_unsupported'']"

definition CLOSED_BY_ADMISSION :: "string list" where
  "CLOSED_BY_ADMISSION = [''rejected_by_capacity'', ''rejected_by_admission'', ''halted_at_limit'']"

definition limit_account :: "string list \<Rightarrow> account" where
  "limit_account kinds = (if set kinds = {''quota''} then LIMIT_QUOTA else LIMIT_BUDGET)"

record takeover =
  to_id :: string
  to_job_id :: string
  to_attempt :: int
  to_until :: moment
  to_state :: string

record awaited =
  aw_channel :: string
  aw_thread :: string
  aw_account :: "string option"
  aw_reading :: "string option"

record open_block =
  ob_account :: account
  ob_cause :: string
  ob_since :: moment
  ob_on :: "string option"
  ob_role :: "string option"
  ob_lacking :: "string option"
  ob_retry_after :: "rat option"
  ob_next_check_at :: "moment option"
  ob_takeover :: "takeover option"
  ob_awaited :: "awaited option"

subsection \<open>Step runs\<close>

record artifact =
  af_id :: string
  af_kind :: string
  af_digest :: string

record checkpoint =
  cp_ref :: string
  cp_step_id :: string
  cp_taken_at :: moment
  cp_artifact_ids :: "string list"
  cp_result_digest :: "string option"

datatype verdict = PROCEED | DECLINE

record anchoring =
  an_requests :: "string list"
  an_round :: int
  an_verdict :: "verdict option"
  an_decided_by :: "string option"

definition proceeds :: "anchoring \<Rightarrow> bool" where
  "proceeds a \<longleftrightarrow> an_verdict a = Some PROCEED"

record received_message =
  rm_message_id :: string
  rm_digest :: string
  rm_received_at :: moment

record step_run =
  sr_step_id :: string
  sr_index :: int
  sr_method :: method_kind
  sr_state :: step_state
  sr_attempt :: int
  sr_retryable :: "bool option"
  sr_adapter :: "string option"
  sr_assignment_id :: "string option"
  sr_assignment_open :: bool
  sr_assignment_seq :: int
  sr_estimate :: "quantities option"
  sr_reservation :: "quantities option"
  sr_consumption :: "quantities option"
  sr_artifacts :: "artifact list"
  sr_checkpoint :: "checkpoint option"
  sr_reason :: "string option"
  sr_started_at :: "moment option"
  sr_finished_at :: "moment option"
  sr_waiting_since :: "moment option"
  sr_waits :: int
  sr_block :: "open_block option"
  sr_confirmed_by :: "string option"
  sr_anchoring :: "anchoring option"
  sr_messages :: "received_message list"

definition new_step_run :: "step \<Rightarrow> int \<Rightarrow> step_run" where
  "new_step_run s i = \<lparr>sr_step_id = s_id s, sr_index = i, sr_method = s_method s, sr_state = S_PLANNED,
     sr_attempt = 1, sr_retryable = None, sr_adapter = None, sr_assignment_id = None,
     sr_assignment_open = False, sr_assignment_seq = 0, sr_estimate = None, sr_reservation = None,
     sr_consumption = None, sr_artifacts = [], sr_checkpoint = None, sr_reason = None,
     sr_started_at = None, sr_finished_at = None, sr_waiting_since = None, sr_waits = 0,
     sr_block = None, sr_confirmed_by = None, sr_anchoring = None, sr_messages = []\<rparr>"

datatype run_error =
    Illegal_Run_Transition string run_state run_state
  | Illegal_Step_Transition string step_state step_state
  | Depends_On_Later string string
  | No_Such_Step string

text \<open>\<open>StepRun.to\<close>: the changes beside the state are a function.\<close>

definition step_to :: "step_run \<Rightarrow> step_state \<Rightarrow> (step_run \<Rightarrow> step_run) \<Rightarrow> run_error + step_run" where
  "step_to s state changes =
     (if (sr_state s, state) \<notin> set STEP_TRANSITIONS
      then Inl (Illegal_Step_Transition (sr_step_id s) (sr_state s) state)
      else Inr (changes (s\<lparr>sr_state := state\<rparr>)))"

definition done_run :: "step_run \<Rightarrow> bool" where
  "done_run s \<longleftrightarrow> sr_state s \<in> DONE"

definition artifact_of :: "step_run \<Rightarrow> string \<Rightarrow> artifact option" where
  "artifact_of s a = List.find (\<lambda>x. af_id x = a) (sr_artifacts s)"

datatype standing = HELD | HANDED_BACK | LAPSED

record takeover_of_step =
  ts_id :: string
  ts_standing :: standing
  ts_until :: "moment option"

definition TAKEOVER_STATE :: string where "TAKEOVER_STATE = ''takeover.state''"

definition ends_with :: "string \<Rightarrow> string \<Rightarrow> bool" where
  "ends_with s suffix \<longleftrightarrow> length suffix \<le> length s \<and> drop (length s - length suffix) s = suffix"

definition remove_suffix :: "string \<Rightarrow> string \<Rightarrow> string" where
  "remove_suffix s suffix = (if ends_with s suffix then take (length s - length suffix) s else s)"

definition takeover_standing :: "step_run \<Rightarrow> string \<Rightarrow> takeover_of_step" where
  "takeover_standing s t =
     (let held = (case sr_block s of None \<Rightarrow> None | Some b \<Rightarrow> ob_takeover b)
      in case held of
           Some h \<Rightarrow> if to_id h = t then \<lparr>ts_id = t, ts_standing = HELD, ts_until = Some (to_until h)\<rparr>
             else \<lparr>ts_id = t, ts_standing = (if artifact_of s (t @ ''.result'') \<noteq> None then HANDED_BACK else LAPSED),
                   ts_until = None\<rparr>
         | None \<Rightarrow> \<lparr>ts_id = t, ts_standing = (if artifact_of s (t @ ''.result'') \<noteq> None then HANDED_BACK else LAPSED),
                   ts_until = None\<rparr>)"

definition takeovers :: "step_run \<Rightarrow> takeover_of_step list" where
  "takeovers s =
     map (\<lambda>a. takeover_standing s (remove_suffix (af_id a) ''.state''))
       (filter (\<lambda>a. af_kind a = TAKEOVER_STATE \<and> ends_with (af_id a) ''.state'') (sr_artifacts s))"

subsection \<open>Limits\<close>

text \<open>\<open>Limits\<close> of \<open>ports/worker.py\<close>: per kind what an assignment or a run may consume.\<close>

record token_limit =
  tl_in :: "int option"
  tl_out :: "int option"

record compute_limit =
  cm_seconds :: rat
  cm_class :: string

record limits =
  l_currency :: "(string \<times> rat) list option"
  l_quota :: "rat option"
  l_compute :: "compute_limit option"
  l_tokens :: "token_limit option"

definition limits_ok :: "limits \<Rightarrow> bool" where
  "limits_ok l \<longleftrightarrow>
     \<not> (l_currency l = None \<and> l_quota l = None \<and> l_compute l = None \<and> l_tokens l = None)
   \<and> l_currency l \<noteq> Some [] \<and> (\<forall>(c, a) \<in> set (items (l_currency l)). a \<ge> 0)
   \<and> distinct (map fst (items (l_currency l)))
   \<and> (case l_quota l of None \<Rightarrow> True | Some u \<Rightarrow> u > 0)
   \<and> (case l_compute l of None \<Rightarrow> True | Some c \<Rightarrow> cm_seconds c > 0)
   \<and> (case l_tokens l of None \<Rightarrow> True
      | Some t \<Rightarrow> \<not> (tl_in t = None \<and> tl_out t = None)
          \<and> (case tl_in t of None \<Rightarrow> True | Some n \<Rightarrow> n \<ge> 1) \<and> (case tl_out t of None \<Rightarrow> True | Some n \<Rightarrow> n \<ge> 1))"

subsection \<open>Runs\<close>

record remedy =
  rd_incident_id :: string
  rd_run_id :: string
  rd_step_id :: string

record run =
  run_id :: string
  run_plan_id :: string
  run_process_version :: string
  run_tenant :: string
  run_identity :: string
  run_autonomy_level :: level
  run_actions :: "(string \<times> level) list"
  run_budget :: limits
  run_margin :: rat
  run_steps :: "step list"
  run_work :: "(string \<times> (string \<times> json) list) list"
  run_inputs :: "(string \<times> json) list"
  run_deadlines :: "deadline_rule list"
  run_rehearsal :: bool
  run_bindings :: "(string \<times> string) list"
  run_skills :: "(string \<times> string) list"
  run_remedy :: "remedy option"
  run_profile :: "string option"
  run_org_unit :: "string option"
  run_org_unit_month :: "string option"
  run_st :: run_state
  run_cause :: "cause option"
  run_reason :: "string option"
  run_step_runs :: "step_run list"
  run_created_at :: moment
  run_updated_at :: moment

text \<open>The first dependency that does not come before its step.\<close>

fun order_error :: "string set \<Rightarrow> step list \<Rightarrow> run_error option" where
  "order_error seen [] = None"
| "order_error seen (s # ss) =
     (case List.find (\<lambda>d. d \<notin> seen) (dependencies s) of
        Some d \<Rightarrow> Some (Depends_On_Later (s_id s) d)
      | None \<Rightarrow> order_error (insert (s_id s) seen) ss)"

definition number_steps :: "step list \<Rightarrow> step_run list" where
  "number_steps ss = map (\<lambda>(i, s). new_step_run s (int i)) (enumerate 0 ss)"

text \<open>\<open>Run._steps_are_in_execution_order\<close>: the validated run, its step runs made when it has none.\<close>

definition validate_run :: "run \<Rightarrow> run_error + run" where
  "validate_run r =
     (case order_error {} (run_steps r) of
        Some e \<Rightarrow> Inl e
      | None \<Rightarrow> Inr (if run_step_runs r = [] then r\<lparr>run_step_runs := number_steps (run_steps r)\<rparr> else r))"

definition run_to :: "run \<Rightarrow> run_state \<Rightarrow> cause option \<Rightarrow> string option \<Rightarrow> run_error + run" where
  "run_to r state c reason =
     (if (run_st r, state) \<notin> set RUN_TRANSITIONS
      then Inl (Illegal_Run_Transition (run_id r) (run_st r) state)
      else Inr (r\<lparr>run_st := state, run_cause := c, run_reason := reason\<rparr>))"

definition step_of :: "run \<Rightarrow> string \<Rightarrow> run_error + step" where
  "step_of r sid =
     (case List.find (\<lambda>s. s_id s = sid) (run_steps r) of None \<Rightarrow> Inl (No_Such_Step sid) | Some s \<Rightarrow> Inr s)"

definition step_run_of :: "run \<Rightarrow> string \<Rightarrow> run_error + step_run" where
  "step_run_of r sid =
     (case List.find (\<lambda>s. sr_step_id s = sid) (run_step_runs r) of
        None \<Rightarrow> Inl (No_Such_Step sid) | Some s \<Rightarrow> Inr s)"

definition with_step_run :: "run \<Rightarrow> step_run \<Rightarrow> run" where
  "with_step_run r s =
     r\<lparr>run_step_runs := map (\<lambda>x. if sr_step_id x = sr_step_id s then s else x) (run_step_runs r)\<rparr>"

definition next_step_run :: "run \<Rightarrow> step_run option" where
  "next_step_run r = List.find (\<lambda>s. \<not> done_run s) (run_step_runs r)"

text \<open>\<open>escalation_steps\<close> and \<open>empty_markers\<close> of \<open>work.py\<close>.\<close>

definition marked :: "string \<Rightarrow> (string \<times> (string \<times> json) list) list \<Rightarrow> string set" where
  "marked key work = fst ` {(s, given) \<in> set work. map_of given key = Some (JBool True)}"

definition escalation_steps :: "(string \<times> (string \<times> json) list) list \<Rightarrow> string set" where
  "escalation_steps work = marked ''on_escalation'' work"

definition empty_markers :: "(string \<times> (string \<times> json) list) list \<Rightarrow> string set" where
  "empty_markers work = marked ''empty_when_skipped'' work"

definition on_escalation :: "run \<Rightarrow> string set" where
  "on_escalation r = escalation_steps (run_work r)"

definition done_steps :: "run \<Rightarrow> string set" where
  "done_steps r = sr_step_id ` set (filter done_run (run_step_runs r))"

text \<open>\<open>runnable\<close>. A step run without its step is a \<open>KeyError\<close> of \<open>step\<close>.\<close>

fun runnable_from :: "run \<Rightarrow> step_run list \<Rightarrow> run_error + step_run option" where
  "runnable_from r [] = Inr None"
| "runnable_from r (s # ss) =
     (if done_run s \<or> sr_state s = S_WAITING_HUMAN \<or> sr_step_id s \<in> on_escalation r
      then runnable_from r ss
      else case step_of r (sr_step_id s) of
             Inl e \<Rightarrow> Inl e
           | Inr st \<Rightarrow> if \<forall>d \<in> set (dependencies st). d \<in> done_steps r then Inr (Some s)
               else runnable_from r ss)"

definition runnable :: "run \<Rightarrow> run_error + step_run option" where
  "runnable r = runnable_from r (run_step_runs r)"

definition failed_step :: "run \<Rightarrow> step_run option" where
  "failed_step r =
     List.find (\<lambda>s. sr_state s = S_FAILED \<and> sr_step_id s \<notin> on_escalation r) (run_step_runs r)"

definition waiting_steps :: "run \<Rightarrow> step_run list" where
  "waiting_steps r = filter (\<lambda>s. sr_state s = S_WAITING_HUMAN) (run_step_runs r)"

definition in_flight_step :: "run \<Rightarrow> step_run option" where
  "in_flight_step r = List.find (\<lambda>s. sr_state s \<in> IN_FLIGHT_STATES) (run_step_runs r)"

definition idempotency_key :: "string \<Rightarrow> string \<Rightarrow> int \<Rightarrow> string" where
  "idempotency_key run_ident sid attempt =
     ''taktus:'' @ run_ident @ '':'' @ sid @ '':'' @ show_int attempt"

definition run_record :: "run \<Rightarrow> json" where
  "run_record r =
     JObj [(''id'', JStr (run_id r)), (''process_version'', JStr (run_process_version r)),
       (''failed'', (case failed_step r of
          None \<Rightarrow> JNull
        | Some s \<Rightarrow> JObj [(''step'', JStr (sr_step_id s)),
                          (''reason'', JStr (case sr_reason s of None \<Rightarrow> [] | Some t \<Rightarrow> t))])),
       (''keys'', JObj (map (\<lambda>s. (sr_step_id s, JStr (idempotency_key (run_id r) (sr_step_id s) (sr_attempt s))))
                          (run_step_runs r)))]"

subsection \<open>What counts against the budget\<close>

definition max_opt :: "'a::linorder option \<Rightarrow> 'a option \<Rightarrow> 'a option" where
  "max_opt a b =
     (case (a, b) of (None, y) \<Rightarrow> y | (x, None) \<Rightarrow> x | (Some x, Some y) \<Rightarrow> Some (max x y))"

definition max_currency :: "quantities \<Rightarrow> quantities \<Rightarrow> (string \<times> rat) list option" where
  "max_currency used reserved =
     (let codes = remdups (map fst (items (u_currency used)) @ map fst (items (u_currency reserved)))
      in if codes = [] then None
         else Some (map (\<lambda>code. (code, max (money used code) (money reserved code))) codes))"

definition counted :: "step_run \<Rightarrow> quantities option" where
  "counted s =
     (case (sr_consumption s, sr_reservation s) of
        (used, None) \<Rightarrow> used
      | (used, Some reserved) \<Rightarrow>
          if sr_state s \<notin> IN_FLIGHT_STATES then used
          else (case used of
                  None \<Rightarrow> Some reserved
                | Some q \<Rightarrow>
                    Some (no_quantities\<lparr>
                      u_in := max_opt (u_in q) (u_in reserved),
                      u_out := max_opt (u_out q) (u_out reserved),
                      u_quota := max_opt (u_quota q) (u_quota reserved),
                      u_storage := max_opt (u_storage q) (u_storage reserved),
                      u_compute := max_opt (u_compute q) (u_compute reserved),
                      u_currency := max_currency q reserved,
                      u_class := (if max_opt (u_compute q) (u_compute reserved) = None then None
                                  else case u_class q of None \<Rightarrow> u_class reserved
                                       | Some c \<Rightarrow> if c = [] then u_class reserved else Some c),
                      u_by_model := u_by_model q\<rparr>)))"

definition add_currency :: "(string \<times> rat) list \<Rightarrow> string \<times> rat \<Rightarrow> (string \<times> rat) list" where
  "add_currency acc x = AList.update (fst x) (or0 (map_of acc (fst x)) + snd x) acc"

definition add_opt :: "'a::monoid_add option \<Rightarrow> 'a option \<Rightarrow> 'a option" where
  "add_opt acc v = (case v of None \<Rightarrow> acc | Some x \<Rightarrow> Some (or0 acc + x))"

definition add_counted :: "string option \<Rightarrow> quantities \<Rightarrow> quantities \<Rightarrow> quantities" where
  "add_counted cls acc q =
     acc\<lparr>u_in := add_opt (u_in acc) (u_in q), u_out := add_opt (u_out acc) (u_out q),
       u_quota := add_opt (u_quota acc) (u_quota q), u_storage := add_opt (u_storage acc) (u_storage q),
       u_currency := Some (foldl add_currency (items (u_currency acc)) (items (u_currency q))),
       u_compute := (if u_compute q \<noteq> None \<and> u_class q = cls
                     then add_opt (u_compute acc) (u_compute q) else u_compute acc),
       u_by_model := add_tokens_by_model (u_by_model acc) (u_by_model q)\<rparr>"

definition counted_steps :: "run \<Rightarrow> quantities list" where
  "counted_steps r = List.map_filter counted (run_step_runs r)"

definition consumed :: "run \<Rightarrow> quantities" where
  "consumed r =
     (let cls = map_option cm_class (l_compute (run_budget r));
          acc = foldl (add_counted cls) no_quantities (counted_steps r)
      in acc\<lparr>u_currency := (if items (u_currency acc) = [] then None else u_currency acc),
               u_class := (if u_compute acc \<noteq> None then cls else None)\<rparr>)"

definition compute_by_class :: "run \<Rightarrow> (string \<times> rat) list" where
  "compute_by_class r =
     foldl (\<lambda>seconds q. case (u_compute q, u_class q) of
              (Some x, Some c) \<Rightarrow> if x = 0 then seconds else add_currency seconds (c, x)
            | _ \<Rightarrow> seconds) [] (counted_steps r)"

text \<open>\<open>tokens_without_money\<close>: the steps whose counted consumption carries no money.\<close>

definition moneyless :: "step_run \<Rightarrow> bool" where
  "moneyless s \<longleftrightarrow> (case counted s of None \<Rightarrow> False | Some q \<Rightarrow> items (u_currency q) = [])"

definition tokens_without_money :: "run \<Rightarrow> tokens_by_model option \<times> string list" where
  "tokens_without_money r =
     (let steps = filter moneyless (run_step_runs r);
          attributed = (\<lambda>s. items (u_by_model (the (counted s))) \<noteq> [])
      in (foldl add_tokens_by_model None (map (\<lambda>s. u_by_model (the (counted s))) (filter attributed steps)),
          map sr_step_id (filter (\<lambda>s. \<not> attributed s
              \<and> (or0 (u_in (the (counted s))) \<noteq> 0 \<or> or0 (u_out (the (counted s))) \<noteq> 0)) steps)))"

end
