(* ===== verification/Run_Budget.thy ===== *)
theory Run_Budget
  imports Run_Model
begin

text \<open>
  Budgets (\<open>run/domain/service/admission.py\<close>, \<open>budget.py\<close>, the price table of \<open>ports/model.py\<close>):
  the line a run is held to, what is left of it, whether a demand fits, what a step reserves, and
  the ceiling its worker is given. Amounts that are floats in the code are rational numbers. A
  finding is a value with its figures.
\<close>

subsection \<open>The held line and what is left\<close>

definition floor_limit :: "int option \<Rightarrow> rat \<Rightarrow> int option" where
  "floor_limit v keep = map_option (\<lambda>n. max 1 \<lfloor>of_int n * keep\<rfloor>) v"

definition held_line :: "limits \<Rightarrow> rat \<Rightarrow> limits" where
  "held_line budget margin =
     (let keep = 1 - margin in
      \<lparr>l_currency = map_option (map (\<lambda>(code, a). (code, a * keep))) (l_currency budget),
       l_quota = map_option (\<lambda>u. u * keep) (l_quota budget),
       l_compute = map_option (\<lambda>c. \<lparr>cm_seconds = cm_seconds c * keep, cm_class = cm_class c\<rparr>) (l_compute budget),
       l_tokens = map_option (\<lambda>t. \<lparr>tl_in = floor_limit (tl_in t) keep, tl_out = floor_limit (tl_out t) keep\<rparr>)
                    (l_tokens budget)\<rparr>)"

definition left_of :: "int option \<Rightarrow> int option \<Rightarrow> int option" where
  "left_of limit used = map_option (\<lambda>n. max 0 (n - or0 used)) limit"

text \<open>\<open>left or None\<close>: None and 0 are both left out.\<close>

definition nonzero :: "int option \<Rightarrow> int option" where
  "nonzero v = (if v = Some 0 then None else v)"

definition remaining_currency :: "limits \<Rightarrow> quantities \<Rightarrow> (string \<times> rat) list option" where
  "remaining_currency budget used =
     map_option (map (\<lambda>(code, a). (code, max 0 (a - money used code)))) (l_currency budget)"

definition remaining_quota :: "limits \<Rightarrow> quantities \<Rightarrow> rat option" where
  "remaining_quota budget used =
     (case l_quota budget of None \<Rightarrow> None
      | Some u \<Rightarrow> let left = u - or0 (u_quota used) in if left > 0 then Some left else None)"

definition remaining_compute :: "limits \<Rightarrow> quantities \<Rightarrow> compute_limit option" where
  "remaining_compute budget used =
     (case l_compute budget of None \<Rightarrow> None
      | Some c \<Rightarrow>
          let spent = (if u_class used = Some (cm_class c) then or0 (u_compute used) else 0);
              left = cm_seconds c - spent
          in if left > 0 then Some \<lparr>cm_seconds = left, cm_class = cm_class c\<rparr> else None)"

definition remaining_tokens :: "limits \<Rightarrow> quantities \<Rightarrow> token_limit option" where
  "remaining_tokens budget used =
     (case l_tokens budget of None \<Rightarrow> None
      | Some t \<Rightarrow>
          let left_in = left_of (tl_in t) (u_in used); left_out = left_of (tl_out t) (u_out used)
          in if nonzero left_in \<noteq> None \<or> nonzero left_out \<noteq> None
             then Some \<lparr>tl_in = nonzero left_in, tl_out = nonzero left_out\<rparr> else None)"

definition exhausted :: "(string \<times> rat) list option \<Rightarrow> bool" where
  "exhausted m = (case m of None \<Rightarrow> False | Some xs \<Rightarrow> list_all (\<lambda>(_, v). v \<le> 0) xs)"

definition remaining :: "limits \<Rightarrow> quantities \<Rightarrow> limits option" where
  "remaining budget used =
     (let currency = remaining_currency budget used;
          quota = remaining_quota budget used;
          compute = remaining_compute budget used;
          tokens = remaining_tokens budget used
      in if (currency = None \<or> exhausted currency) \<and> quota = None \<and> compute = None \<and> tokens = None
         then None
         else Some \<lparr>l_currency = (if exhausted currency then None else currency), l_quota = quota,
                    l_compute = compute, l_tokens = tokens\<rparr>)"

subsection \<open>Admission\<close>

datatype admission_finding =
    Currency_Needed string rat rat
  | Quota_Needed rat rat
  | Tokens_Needed string int int
  | Class_Not_Covered "string option" string
  | Compute_Needed rat rat

fun finding_kind :: "admission_finding \<Rightarrow> string" where
  "finding_kind (Currency_Needed code n a) = ''currency''"
| "finding_kind (Quota_Needed n a) = ''quota''"
| "finding_kind (Tokens_Needed d n a) = ''tokens''"
| "finding_kind (Class_Not_Covered c b) = ''compute''"
| "finding_kind (Compute_Needed n a) = ''compute''"

record admission =
  ad_fits :: bool
  ad_findings :: "admission_finding list"
  ad_kinds :: "string list"

definition left_money :: "limits option \<Rightarrow> string \<Rightarrow> rat" where
  "left_money left code =
     (case left of None \<Rightarrow> 0 | Some l \<Rightarrow> or0 (map_of (items (l_currency l)) code))"

definition left_quota :: "limits option \<Rightarrow> rat" where
  "left_quota left = (case left of None \<Rightarrow> 0 | Some l \<Rightarrow> or0 (l_quota l))"

definition left_tokens :: "limits option \<Rightarrow> (token_limit \<Rightarrow> int option) \<Rightarrow> int" where
  "left_tokens left f =
     (case left of None \<Rightarrow> 0 | Some l \<Rightarrow> (case l_tokens l of None \<Rightarrow> 0 | Some t \<Rightarrow> or0 (f t)))"

definition left_compute :: "limits option \<Rightarrow> rat" where
  "left_compute left =
     (case left of None \<Rightarrow> 0 | Some l \<Rightarrow> (case l_compute l of None \<Rightarrow> 0 | Some c \<Rightarrow> cm_seconds c))"

definition currency_findings :: "quantities \<Rightarrow> limits option \<Rightarrow> limits \<Rightarrow> admission_finding list" where
  "currency_findings demand left budget =
     concat (map (\<lambda>(code, amount).
        if map_of (items (l_currency budget)) code = None then []
        else if amount > left_money left code then [Currency_Needed code amount (left_money left code)]
        else []) (items (u_currency demand)))"

definition quota_findings :: "quantities \<Rightarrow> limits option \<Rightarrow> limits \<Rightarrow> admission_finding list" where
  "quota_findings demand left budget =
     (case (u_quota demand, l_quota budget) of
        (Some needed, Some _) \<Rightarrow> if needed > left_quota left then [Quota_Needed needed (left_quota left)] else []
      | _ \<Rightarrow> [])"

definition token_findings ::
  "string \<Rightarrow> int option \<Rightarrow> (token_limit \<Rightarrow> int option) \<Rightarrow> limits option \<Rightarrow> limits \<Rightarrow> admission_finding list" where
  "token_findings name needed f left budget =
     (case (needed, case l_tokens budget of None \<Rightarrow> None | Some t \<Rightarrow> f t) of
        (Some n, Some _) \<Rightarrow> if n > left_tokens left f then [Tokens_Needed name n (left_tokens left f)] else []
      | _ \<Rightarrow> [])"

definition compute_findings :: "quantities \<Rightarrow> limits option \<Rightarrow> limits \<Rightarrow> admission_finding list" where
  "compute_findings demand left budget =
     (case (u_compute demand, l_compute budget) of
        (Some needed, Some c) \<Rightarrow>
          if u_class demand \<noteq> Some (cm_class c) then [Class_Not_Covered (u_class demand) (cm_class c)]
          else if needed > left_compute left then [Compute_Needed needed (left_compute left)] else []
      | _ \<Rightarrow> [])"

definition admit :: "quantities \<Rightarrow> limits option \<Rightarrow> limits \<Rightarrow> admission" where
  "admit demand left budget =
     (let found = currency_findings demand left budget @ quota_findings demand left budget
            @ token_findings ''input'' (u_in demand) tl_in left budget
            @ token_findings ''output'' (u_out demand) tl_out left budget
            @ compute_findings demand left budget
      in \<lparr>ad_fits = (found = []), ad_findings = found,
          ad_kinds = rev (remdups (rev (map finding_kind found)))\<rparr>)"

subsection \<open>What a step reserves\<close>

record observation =
  o_adapter :: string
  o_method :: method_kind
  o_estimate :: quantities
  o_actual :: quantities
  o_step :: "string option"

definition WINDOW :: nat where "WINDOW = 20"

text \<open>\<open>_pairs\<close>: the quantities \<open>SCALED\<close> names, then each currency.\<close>

definition pairs :: "quantities \<Rightarrow> quantities \<Rightarrow> (string \<times> rat \<times> rat) list" where
  "pairs estimate actual =
     (case u_in estimate of None \<Rightarrow> [] | Some e \<Rightarrow> [(''tokens_in'', of_int e, of_int (or0 (u_in actual)))])
   @ (case u_out estimate of None \<Rightarrow> [] | Some e \<Rightarrow> [(''tokens_out'', of_int e, of_int (or0 (u_out actual)))])
   @ (case u_quota estimate of None \<Rightarrow> [] | Some e \<Rightarrow> [(''quota_units'', e, or0 (u_quota actual))])
   @ (case u_compute estimate of None \<Rightarrow> [] | Some e \<Rightarrow> [(''compute_seconds'', e, or0 (u_compute actual))])
   @ map (\<lambda>(code, a). (''currency.'' @ code, a, money actual code)) (items (u_currency estimate))"

type_synonym scale = "string \<rightharpoonup> rat"

definition factor :: "scale \<Rightarrow> string \<Rightarrow> rat" where
  "factor scale name = (case scale name of None \<Rightarrow> 1 | Some f \<Rightarrow> f)"

definition ratio_step :: "scale \<Rightarrow> string \<times> rat \<times> rat \<Rightarrow> scale" where
  "ratio_step ratios x =
     (case x of (name, estimated, used) \<Rightarrow>
        if estimated > 0 then ratios(name \<mapsto> max (factor ratios name) (used / estimated)) else ratios)"

definition last_n :: "nat \<Rightarrow> 'a list \<Rightarrow> 'a list" where
  "last_n n xs = drop (length xs - n) xs"

definition factors :: "observation list \<Rightarrow> nat \<Rightarrow> scale" where
  "factors obs window =
     foldl ratio_step Map.empty
       (concat (map (\<lambda>ob. pairs (o_estimate ob) (o_actual ob)) (last_n window obs)))"

definition scale_int :: "scale \<Rightarrow> string \<Rightarrow> int option \<Rightarrow> int option" where
  "scale_int scale name v = map_option (\<lambda>n. \<lceil>of_int n * factor scale name\<rceil>) v"

definition scale_rat :: "scale \<Rightarrow> string \<Rightarrow> rat option \<Rightarrow> rat option" where
  "scale_rat scale name v = map_option (\<lambda>x. x * factor scale name) v"

definition currency_factor :: "scale \<Rightarrow> string \<Rightarrow> rat" where
  "currency_factor scale code =
     (case scale (''currency.'' @ code) of Some f \<Rightarrow> f
      | None \<Rightarrow> factor scale ''currency.*'')"

definition reserve :: "quantities \<Rightarrow> scale \<Rightarrow> quantities" where
  "reserve estimate scale = no_quantities\<lparr>
     u_in := scale_int scale ''tokens_in'' (u_in estimate),
     u_out := scale_int scale ''tokens_out'' (u_out estimate),
     u_quota := scale_rat scale ''quota_units'' (u_quota estimate),
     u_compute := scale_rat scale ''compute_seconds'' (u_compute estimate),
     u_currency := (if items (u_currency estimate) = [] then None
        else Some (map (\<lambda>(code, a). (code, a * currency_factor scale code)) (items (u_currency estimate)))),
     u_class := u_class estimate,
     u_by_model := (if items (u_by_model estimate) = [] then None else u_by_model estimate)\<rparr>"

record seed =
  sd_method :: method_kind
  sd_capabilities :: "string set"
  sd_observations :: "observation list"
  sd_source :: string

definition UNCALIBRATED_MARGIN :: rat where "UNCALIBRATED_MARGIN = 1"
definition MARGIN_FLOOR :: rat where "MARGIN_FLOOR = 1 / 10"

definition below_floor :: "rat \<Rightarrow> rat \<Rightarrow> (rat \<times> rat) option" where
  "below_floor margin least_margin = (if margin \<ge> least_margin then None else Some (margin, least_margin))"

definition models_of :: "quantities \<Rightarrow> string set" where
  "models_of q = fst ` set (items (u_by_model q))"

definition current_models :: "observation list \<Rightarrow> string set \<Rightarrow> string set" where
  "current_models history models =
     (if models \<noteq> {} then models
      else case List.find (\<lambda>ob. models_of (o_actual ob) \<noteq> {}) (rev history) of
             None \<Rightarrow> {} | Some ob \<Rightarrow> models_of (o_actual ob))"

definition same_model :: "observation list \<Rightarrow> string set \<Rightarrow> observation list" where
  "same_model history models =
     (let current = current_models history models
      in if current = {} then history
         else rev (takeWhile (\<lambda>ob. models_of (o_actual ob) = {} \<or> models_of (o_actual ob) = current) (rev history)))"

datatype scale_source =
    Bound_As_Given
  | From_Step nat string string
  | Own_Observations nat string
  | Current_Model nat string
  | No_Current_Model string
  | No_Observation
  | Seed_From string
  | With_Margin scale_source rat

definition history_for ::
  "string \<Rightarrow> method_kind \<Rightarrow> string set \<Rightarrow> observation list \<Rightarrow> seed list \<Rightarrow> string set \<Rightarrow>
   observation list \<times> scale_source" where
  "history_for adapter m required own seeds models =
     (if own = [] then
        (case List.find (\<lambda>x. sd_method x = m \<and> sd_capabilities x \<subseteq> required) seeds of
           None \<Rightarrow> ([], No_Observation)
         | Some sd \<Rightarrow> (sd_observations sd, Seed_From (sd_source sd)))
      else if m = WORKER then
        (let history = same_model own models
         in (history, if history = [] then No_Current_Model adapter
                      else Current_Model (length (last_n WINDOW history)) adapter))
      else (own, Own_Observations (length (last_n WINDOW own)) adapter))"

definition raise_to :: "rat \<Rightarrow> string list \<Rightarrow> scale \<Rightarrow> scale" where
  "raise_to least names scale =
     (\<lambda>n. if n \<in> set names then Some (max (factor scale n) least)
          else if scale n \<noteq> None \<and> take 9 n = ''currency.'' then Some (max (factor scale n) least)
          else scale n)"

definition SCALED :: "string list" where
  "SCALED = [''tokens_in'', ''tokens_out'', ''quota_units'', ''compute_seconds'']"

definition scale_for ::
  "string \<Rightarrow> method_kind \<Rightarrow> string set \<Rightarrow> observation list \<Rightarrow> seed list \<Rightarrow> rat \<Rightarrow> string set \<Rightarrow> rat \<Rightarrow>
   string option \<Rightarrow> scale \<times> scale_source" where
  "scale_for adapter m required observed seeds uncalibrated models least_margin stp =
     (let own = filter (\<lambda>ob. o_adapter ob = adapter \<and> o_method ob = m) observed;
          (history, source) = history_for adapter m required own seeds models
      in if m \<noteq> WORKER then
           (let (h, src) = (case stp of
                Some name \<Rightarrow> if own = [] then (history, source)
                  else (let hs = filter (\<lambda>ob. o_step ob = Some name) own
                        in (hs, From_Step (length (last_n WINDOW hs)) name adapter))
              | None \<Rightarrow> (history, source))
            in if h = [] then (Map.empty, Bound_As_Given) else (factors h WINDOW, src))
         else
           (let margin = max (uncalibrated / (1 + of_nat (length (last_n WINDOW history)))) (min least_margin uncalibrated)
            in (raise_to (1 + margin) (SCALED @ [''currency.*'']) (factors history WINDOW),
                With_Margin source margin)))"

definition min_limit :: "'a::linorder option \<Rightarrow> 'a option \<Rightarrow> 'a option" where
  "min_limit v l = (case (v, l) of (Some x, Some n) \<Rightarrow> Some (min x n) | _ \<Rightarrow> v)"

definition capped :: "quantities \<Rightarrow> limits option \<Rightarrow> quantities" where
  "capped reservation left =
     (case left of None \<Rightarrow> reservation
      | Some l \<Rightarrow> reservation\<lparr>
          u_in := (case l_tokens l of None \<Rightarrow> u_in reservation | Some t \<Rightarrow> min_limit (u_in reservation) (tl_in t)),
          u_out := (case l_tokens l of None \<Rightarrow> u_out reservation | Some t \<Rightarrow> min_limit (u_out reservation) (tl_out t)),
          u_quota := min_limit (u_quota reservation) (l_quota l),
          u_compute := min_limit (u_compute reservation) (map_option cm_seconds (l_compute l)),
          u_currency := (if l_currency l \<noteq> None \<and> items (u_currency reservation) \<noteq> []
             then Some (map (\<lambda>(code, a). (code, case map_of (items (l_currency l)) code of
                     None \<Rightarrow> a | Some m \<Rightarrow> min a m)) (items (u_currency reservation)))
             else u_currency reservation)\<rparr>)"

subsection \<open>The worker's ceiling\<close>

definition factor_names :: "quantities \<Rightarrow> string list" where
  "factor_names q =
     (if u_in q \<noteq> None then [''tokens_in''] else []) @ (if u_out q \<noteq> None then [''tokens_out''] else [])
   @ (if u_quota q \<noteq> None then [''quota_units''] else [])
   @ (if u_compute q \<noteq> None then [''compute_seconds''] else [])
   @ map (\<lambda>(code, _). ''currency.'' @ code) (items (u_currency q))"

definition grow :: "quantities \<Rightarrow> rat \<Rightarrow> quantities" where
  "grow reservation margin =
     (if margin \<le> 0 then reservation
      else reserve reservation
        (\<lambda>n. if n \<in> set (factor_names reservation) then Some (1 / (1 - margin)) else None))"

text \<open>\<open>_least\<close>, and the minimum with infinity for what is absent.\<close>

definition least :: "'a::linorder option \<Rightarrow> 'a option \<Rightarrow> 'a option" where
  "least a b = (case (a, b) of (None, y) \<Rightarrow> y | (x, None) \<Rightarrow> x | (Some x, Some y) \<Rightarrow> Some (min x y))"

definition positive :: "rat option \<Rightarrow> rat option" where
  "positive v = (case v of None \<Rightarrow> None | Some x \<Rightarrow> if x > 0 then Some x else None)"

definition ceiling_currency :: "limits option \<Rightarrow> limits \<Rightarrow> (string \<times> rat) list option" where
  "ceiling_currency left budget =
     map_option (map (\<lambda>(code, a). (code, case left of None \<Rightarrow> a
        | Some l \<Rightarrow> or0 (map_of (items (l_currency l)) code)))) (l_currency budget)"

definition bought_seconds :: "quantities \<Rightarrow> limits option \<Rightarrow> string \<Rightarrow> rat \<Rightarrow> rat option" where
  "bought_seconds reservation left code price =
     least (u_compute reservation)
       (if price > 0 then
          (case left of None \<Rightarrow> None | Some l \<Rightarrow> (case l_currency l of None \<Rightarrow> None
             | Some m \<Rightarrow> Some (or0 (map_of m code) / price)))
        else None)"

definition ceiling_compute ::
  "quantities \<Rightarrow> limits option \<Rightarrow> limits \<Rightarrow> (string \<times> rat) option \<Rightarrow> compute_limit option" where
  "ceiling_compute reservation left budget per_second =
     (case l_compute budget of
        None \<Rightarrow>
          (case per_second of None \<Rightarrow> None
           | Some (code, price) \<Rightarrow>
               if or0 (u_compute reservation) = 0 then None
               else (case (positive (bought_seconds reservation left code price), u_class reservation) of
                       (Some seconds, Some c) \<Rightarrow> Some \<lparr>cm_seconds = seconds, cm_class = c\<rparr>
                     | _ \<Rightarrow> None))
      | Some b \<Rightarrow>
          map_option (\<lambda>seconds. \<lparr>cm_seconds = seconds, cm_class = cm_class b\<rparr>)
            (positive (least (u_compute reservation)
               (case left of None \<Rightarrow> None | Some l \<Rightarrow> map_option cm_seconds (l_compute l)))))"

definition ceiling_tokens :: "quantities \<Rightarrow> limits option \<Rightarrow> limits \<Rightarrow> token_limit option" where
  "ceiling_tokens reservation left budget =
     (if l_tokens budget = None then None
      else
        let lt = (case left of None \<Rightarrow> None | Some l \<Rightarrow> l_tokens l);
            limit_in = nonzero (least (u_in reservation) (case lt of None \<Rightarrow> None | Some t \<Rightarrow> tl_in t));
            limit_out = nonzero (least (u_out reservation) (case lt of None \<Rightarrow> None | Some t \<Rightarrow> tl_out t))
        in if limit_in \<noteq> None \<or> limit_out \<noteq> None then Some \<lparr>tl_in = limit_in, tl_out = limit_out\<rparr> else None)"

definition ceiling_limits ::
  "quantities \<Rightarrow> limits option \<Rightarrow> limits \<Rightarrow> (string \<times> rat) option \<Rightarrow> limits" where
  "ceiling_limits reservation left budget per_second =
     (let currency = ceiling_currency left budget;
          quota = (if l_quota budget = None then None
             else positive (least (u_quota reservation) (case left of None \<Rightarrow> None | Some l \<Rightarrow> l_quota l)));
          compute = ceiling_compute reservation left budget per_second;
          tokens = ceiling_tokens reservation left budget
      in if items currency = [] \<and> quota = None \<and> compute = None \<and> tokens = None
         then (case left of Some l \<Rightarrow> l | None \<Rightarrow> budget)
         else \<lparr>l_currency = (if items currency = [] then None else currency), l_quota = quota,
               l_compute = compute, l_tokens = tokens\<rparr>)"

end
