(* ===== verification/Run_Progress.thy ===== *)
theory Run_Progress
  imports Run_Model
begin

text \<open>
  Where a run continues, and what it holds of its budget: the step \<open>runnable\<close> names may run, a run
  with none left to run is stopped by a wait or an escalation and by nothing else, its states only
  move along the transitions, and \<open>consumed\<close> is the sum of what each step counts.
\<close>

subsection \<open>The step to run\<close>

definition aside :: "run \<Rightarrow> step_run \<Rightarrow> bool" where
  "aside r s \<longleftrightarrow> sr_state s = S_WAITING_HUMAN \<or> sr_step_id s \<in> on_escalation r"

definition step_ready :: "run \<Rightarrow> string \<Rightarrow> bool" where
  "step_ready r sid \<longleftrightarrow> (\<exists>st. step_of r sid = Inr st \<and> (\<forall>d \<in> set (dependencies st). d \<in> done_steps r))"

lemma step_of_cases:
  obtains (found) st where "step_of r sid = Inr st" "st \<in> set (run_steps r)" "s_id st = sid"
  | (none) "step_of r sid = Inl (No_Such_Step sid)" "sid \<notin> s_id ` set (run_steps r)"
  by (cases "List.find (\<lambda>s. s_id s = sid) (run_steps r)")
    (auto simp: step_of_def find_Some_iff find_None_iff dest: nth_mem)

lemma runnable_from_Some:
  "runnable_from r ss = Inr (Some s) \<Longrightarrow>
     s \<in> set ss \<and> \<not> done_run s \<and> \<not> aside r s \<and> step_ready r (sr_step_id s)"
  by (induction r ss rule: runnable_from.induct)
    (auto simp: aside_def step_ready_def split: if_splits sum.splits)

lemma runnable_from_Cons:
  "runnable_from r (x # ss) = Inr (Some s) \<Longrightarrow>
     s = x \<or> (runnable_from r ss = Inr (Some s) \<and> (done_run x \<or> aside r x \<or> \<not> step_ready r (sr_step_id x)))"
  by (cases "step_of r (sr_step_id x)") (auto simp: aside_def step_ready_def split: if_splits)

lemma runnable_from_first:
  "runnable_from r ss = Inr (Some s) \<Longrightarrow>
     \<exists>before after. ss = before @ s # after
       \<and> (\<forall>x \<in> set before. done_run x \<or> aside r x \<or> \<not> step_ready r (sr_step_id x))"
proof (induction ss)
  case (Cons x ss)
  consider "s = x" | "runnable_from r ss = Inr (Some s)"
    "done_run x \<or> aside r x \<or> \<not> step_ready r (sr_step_id x)"
    using runnable_from_Cons [OF Cons.prems] by blast
  then show ?case
  proof cases
    case 1
    then show ?thesis by (intro exI [of _ "[]"] exI [of _ ss]) simp
  next
    case 2
    with Cons.IH obtain before after where "ss = before @ s # after"
      "\<forall>x \<in> set before. done_run x \<or> aside r x \<or> \<not> step_ready r (sr_step_id x)" by blast
    with 2 show ?thesis by (intro exI [of _ "x # before"] exI [of _ after]) simp
  qed
qed simp

text \<open>the step the engine runs next is a step of the run that is neither done, nor waiting for a
  person, nor an escalation, and each of its dependencies has a succeeded step run; every step
  before it is done, set aside or not ready.\<close>

theorem runnable_is_first_ready:
  assumes "runnable r = Inr (Some s)"
  shows "\<exists>before after st. run_step_runs r = before @ s # after
    \<and> sr_state s \<noteq> S_SUCCEEDED \<and> sr_state s \<noteq> S_WAITING_HUMAN \<and> sr_step_id s \<notin> on_escalation r
    \<and> st \<in> set (run_steps r) \<and> s_id st = sr_step_id s
    \<and> (\<forall>d \<in> set (dependencies st). \<exists>x \<in> set (run_step_runs r). sr_step_id x = d \<and> sr_state x = S_SUCCEEDED)
    \<and> (\<forall>x \<in> set before. done_run x \<or> aside r x \<or> \<not> step_ready r (sr_step_id x))"
proof -
  from assms have run: "runnable_from r (run_step_runs r) = Inr (Some s)" by (simp add: runnable_def)
  from runnable_from_Some [OF run] have s: "\<not> done_run s" "\<not> aside r s" "step_ready r (sr_step_id s)" by auto
  from runnable_from_first [OF run] obtain before after where split: "run_step_runs r = before @ s # after"
    and before: "\<forall>x \<in> set before. done_run x \<or> aside r x \<or> \<not> step_ready r (sr_step_id x)" by blast
  from s(3) obtain st where st: "step_of r (sr_step_id s) = Inr st"
    and deps: "\<forall>d \<in> set (dependencies st). d \<in> done_steps r" by (auto simp: step_ready_def)
  have in_run: "st \<in> set (run_steps r) \<and> s_id st = sr_step_id s"
    by (rule step_of_cases [of r "sr_step_id s"]) (use st in auto)
  have done_deps: "\<forall>d \<in> set (dependencies st).
      \<exists>x \<in> set (run_step_runs r). sr_step_id x = d \<and> sr_state x = S_SUCCEEDED"
  proof
    fix d assume "d \<in> set (dependencies st)"
    with deps have "d \<in> done_steps r" by blast
    then show "\<exists>x \<in> set (run_step_runs r). sr_step_id x = d \<and> sr_state x = S_SUCCEEDED"
      by (auto simp: done_steps_def done_run_def DONE_def)
  qed
  show ?thesis
    by (rule exI [of _ before], rule exI [of _ after], rule exI [of _ st])
      (use split before in_run done_deps s in \<open>simp add: aside_def done_run_def DONE_def\<close>)
qed

subsection \<open>A run that stalls\<close>

text \<open>A step waits for another when it depends, through unfinished steps, on one set aside.\<close>

inductive stalled_by :: "run \<Rightarrow> string \<Rightarrow> step_run \<Rightarrow> bool" for r where
  direct: "step_of r sid = Inr st \<Longrightarrow> d \<in> set (dependencies st) \<Longrightarrow> w \<in> set (run_step_runs r)
    \<Longrightarrow> sr_step_id w = d \<Longrightarrow> \<not> done_run w \<Longrightarrow> aside r w \<Longrightarrow> stalled_by r sid w"
| through: "step_of r sid = Inr st \<Longrightarrow> d \<in> set (dependencies st) \<Longrightarrow> d \<notin> done_steps r
    \<Longrightarrow> stalled_by r d w \<Longrightarrow> stalled_by r sid w"

lemma runnable_from_None:
  "runnable_from r ss = Inr None \<Longrightarrow> s \<in> set ss \<Longrightarrow> \<not> done_run s \<Longrightarrow> \<not> aside r s \<Longrightarrow>
     \<exists>st d. step_of r (sr_step_id s) = Inr st \<and> d \<in> set (dependencies st) \<and> d \<notin> done_steps r"
  by (induction r ss rule: runnable_from.induct) (auto simp: aside_def split: if_splits sum.splits)

lemma order_error_None:
  "order_error seen ss = None \<Longrightarrow> i < length ss \<Longrightarrow> d \<in> set (dependencies (ss ! i)) \<Longrightarrow>
     d \<in> seen \<or> (\<exists>j<i. s_id (ss ! j) = d)"
proof (induction seen ss arbitrary: i rule: order_error.induct)
  case (2 seen s ss)
  have none: "List.find (\<lambda>d. d \<notin> seen) (dependencies s) = None"
    and rest: "order_error (insert (s_id s) seen) ss = None"
    using "2.prems"(1) by (auto split: option.splits)
  show ?case
  proof (cases i)
    case 0
    with none "2.prems"(3) show ?thesis by (auto simp: find_None_iff)
  next
    case (Suc k)
    with "2.IH" [OF none rest, of k] "2.prems"
    have "d \<in> insert (s_id s) seen \<or> (\<exists>j<k. s_id (ss ! j) = d)" by simp
    then show ?thesis
    proof
      assume "d \<in> insert (s_id s) seen"
      then show ?thesis using Suc by (auto intro: exI [of _ "0::nat"])
    next
      assume "\<exists>j<k. s_id (ss ! j) = d"
      then obtain j where "j < k" "s_id (ss ! j) = d" by blast
      then show ?thesis using Suc by (auto intro: exI [of _ "Suc j"])
    qed
  qed
qed simp

lemma step_of_index:
  assumes "i < length (run_steps r)" "s_id (run_steps r ! i) = sid"
  obtains k where "k \<le> i" "step_of r sid = Inr (run_steps r ! k)"
proof -
  have "List.find (\<lambda>s. s_id s = sid) (run_steps r) \<noteq> None"
    using nth_mem [OF assms(1)] assms(2) by (auto simp: find_None_iff)
  then obtain st where st: "List.find (\<lambda>s. s_id s = sid) (run_steps r) = Some st" by blast
  then obtain k where k: "k < length (run_steps r)" "st = run_steps r ! k"
    "\<forall>j<k. s_id (run_steps r ! j) \<noteq> sid" by (auto simp: find_Some_iff)
  have "k \<le> i" by (rule ccontr) (use k(3) assms(2) in auto)
  moreover have "step_of r sid = Inr (run_steps r ! k)" using st k(2) by (simp add: step_of_def)
  ultimately show ?thesis by (rule that)
qed

lemma stalled_step:
  assumes order: "order_error {} (run_steps r) = None"
    and same: "map sr_step_id (run_step_runs r) = map s_id (run_steps r)"
    and stuck: "runnable r = Inr None"
  shows "i < length (run_step_runs r) \<Longrightarrow> \<not> done_run (run_step_runs r ! i)
    \<Longrightarrow> \<not> aside r (run_step_runs r ! i) \<Longrightarrow> \<exists>w. stalled_by r (sr_step_id (run_step_runs r ! i)) w"
proof (induction i rule: less_induct)
  case (less i)
  let ?s = "run_step_runs r ! i"
  have len: "length (run_step_runs r) = length (run_steps r)" using same by (metis length_map)
  have id_at: "\<And>j. j < length (run_steps r) \<Longrightarrow> sr_step_id (run_step_runs r ! j) = s_id (run_steps r ! j)"
    using same len by (metis nth_map)
  from less.prems stuck obtain st d where st: "step_of r (sr_step_id ?s) = Inr st"
    and d: "d \<in> set (dependencies st)" and open_dep: "d \<notin> done_steps r"
    using runnable_from_None [of r "run_step_runs r" ?s] by (auto simp: runnable_def)
  from less.prems len have "i < length (run_steps r)" by simp
  then obtain k where k: "k \<le> i" "step_of r (sr_step_id ?s) = Inr (run_steps r ! k)"
    using step_of_index [of i r "sr_step_id ?s"] id_at by metis
  with st have "st = run_steps r ! k" by simp
  with order_error_None [OF order, of k d] d k(1) less.prems len
  obtain j where j: "j < k" "s_id (run_steps r ! j) = d" by fastforce
  let ?w = "run_step_runs r ! j"
  have jlen: "j < length (run_step_runs r)" using j k less.prems by simp
  have wid: "sr_step_id ?w = d" using j id_at jlen len by simp
  have wopen: "\<not> done_run ?w" using open_dep wid jlen by (auto simp: done_steps_def)
  show ?case
  proof (cases "aside r ?w")
    case True
    with st d wid wopen jlen have "stalled_by r (sr_step_id ?s) ?w"
      by (intro stalled_by.direct [of r _ st d]) auto
    then show ?thesis by blast
  next
    case False
    with less.IH [of j] j k jlen wopen obtain w where "stalled_by r d w" using wid by auto
    with st d open_dep have "stalled_by r (sr_step_id ?s) w" by (rule stalled_by.through)
    then show ?thesis by (rule exI)
  qed
qed

text \<open>C6: a validated run does not deadlock: when it names no step to run, every step that is neither
  done nor set aside depends, through unfinished steps, on one that waits for a person or is an
  escalation.\<close>

theorem stalled_run_waits:
  assumes "validate_run r = Inr v" "map sr_step_id (run_step_runs v) = map s_id (run_steps v)"
    and "runnable v = Inr None" "s \<in> set (run_step_runs v)" "sr_state s \<noteq> S_SUCCEEDED"
    and "sr_state s \<noteq> S_WAITING_HUMAN" "sr_step_id s \<notin> on_escalation v"
  shows "\<exists>w \<in> set (run_step_runs v). stalled_by v (sr_step_id s) w \<and> sr_state w \<noteq> S_SUCCEEDED
    \<and> (sr_state w = S_WAITING_HUMAN \<or> sr_step_id w \<in> on_escalation v)"
proof -
  have order: "order_error {} (run_steps v) = None"
    using assms(1) by (auto simp: validate_run_def split: option.splits if_splits)
  from assms(4) obtain i where i: "i < length (run_step_runs v)" "s = run_step_runs v ! i"
    by (metis in_set_conv_nth)
  have "\<exists>w. stalled_by v (sr_step_id s) w"
    using stalled_step [OF order assms(2,3) i(1)] i(2) assms(5-7)
    by (simp add: done_run_def DONE_def aside_def)
  then obtain w where w: "stalled_by v (sr_step_id s) w" by blast
  then have "w \<in> set (run_step_runs v) \<and> \<not> done_run w \<and> aside v w" by induction auto
  with w show ?thesis by (auto simp: done_run_def DONE_def aside_def)
qed

subsection \<open>A life of a run\<close>

fun run_through :: "run \<Rightarrow> (run_state \<times> cause option \<times> string option) list \<Rightarrow> run_error + run" where
  "run_through r [] = Inr r"
| "run_through r ((state, c, reason) # moves) =
     (case run_to r state c reason of Inl e \<Rightarrow> Inl e | Inr r' \<Rightarrow> run_through r' moves)"

fun along :: "run_state list \<Rightarrow> bool" where
  "along (a # b # rest) \<longleftrightarrow> (a, b) \<in> set RUN_TRANSITIONS \<and> along (b # rest)"
| "along _ \<longleftrightarrow> True"

lemma run_through_along:
  "run_through r moves = Inr r' \<Longrightarrow> along (run_st r # map fst moves) \<and> run_st r' = last (run_st r # map fst moves)
     \<and> run_budget r' = run_budget r \<and> run_step_runs r' = run_step_runs r \<and> run_steps r' = run_steps r"
  by (induction r moves rule: run_through.induct) (auto simp: run_to_def split: sum.splits if_splits)

lemma along_planned: "along (R_PLANNED # xs) \<Longrightarrow> xs \<noteq> [] \<Longrightarrow> hd xs = R_ADMITTED"
  by (cases xs) (auto simp: RUN_TRANSITIONS_def)

lemma along_never_after_finished: "along (x # xs) \<Longrightarrow> R_FINISHED \<notin> set (butlast (x # xs))"
proof (induction xs arbitrary: x)
  case (Cons y ys)
  then have "x \<noteq> R_FINISHED" by (auto simp: RUN_TRANSITIONS_def)
  with Cons show ?case by simp
qed simp

lemma along_into_finished: "along (xs @ [x, R_FINISHED]) \<Longrightarrow> x = R_RUNNING"
proof (induction xs)
  case (Cons y ys)
  then show ?case by (cases ys) simp_all
qed (auto simp: RUN_TRANSITIONS_def)

text \<open>a planned run that moves at all is admitted first; it finishes only from running, and a
  finished run never moves again; moving changes neither its steps nor its budget.\<close>

theorem run_lifecycle:
  assumes "run_through r moves = Inr r'" "run_st r = R_PLANNED"
  shows "(moves \<noteq> [] \<longrightarrow> fst (hd moves) = R_ADMITTED)
    \<and> R_FINISHED \<notin> set (butlast (map fst moves))
    \<and> (run_st r' = R_FINISHED \<longrightarrow> (\<exists>before. map fst moves = before @ [R_RUNNING, R_FINISHED]))
    \<and> run_budget r' = run_budget r \<and> run_step_runs r' = run_step_runs r"
proof -
  from run_through_along [OF assms(1)] assms(2)
  have path: "along (R_PLANNED # map fst moves)" and at: "run_st r' = last (R_PLANNED # map fst moves)"
    and kept: "run_budget r' = run_budget r" "run_step_runs r' = run_step_runs r" by simp_all
  have first: "moves \<noteq> [] \<longrightarrow> fst (hd moves) = R_ADMITTED"
    using along_planned [OF path] by (simp add: hd_map)
  have never: "R_FINISHED \<notin> set (butlast (map fst moves))"
    using along_never_after_finished [OF path] by (cases "map fst moves") simp_all
  have finish: "\<exists>before. map fst moves = before @ [R_RUNNING, R_FINISHED]" if "run_st r' = R_FINISHED"
  proof -
    from that at have ne: "moves \<noteq> []" by auto
    have lst: "last (map fst moves) = R_FINISHED" using that at ne by simp
    obtain m ms where m: "map fst moves = ms @ [m]" using ne by (cases "map fst moves" rule: rev_cases) auto
    with lst have fin: "map fst moves = ms @ [R_FINISHED]" by simp
    have "ms \<noteq> []" using first ne fin by (cases moves) auto
    then obtain n ns where ns: "ms = ns @ [n]" by (cases ms rule: rev_cases) auto
    have "along ((R_PLANNED # ns) @ [n, R_FINISHED])" using path fin ns by simp
    from along_into_finished [OF this] fin ns show ?thesis by simp
  qed
  show ?thesis using first never finish kept by blast
qed

subsection \<open>What the budget is debited\<close>

definition amount_of :: "(quantities \<Rightarrow> 'a::zero) \<Rightarrow> quantities option \<Rightarrow> 'a" where
  "amount_of f q = (case q of None \<Rightarrow> 0 | Some x \<Rightarrow> f x)"

text \<open>The contract: the larger of reservation and use while in flight, the use once it ended.\<close>

definition debited :: "(quantities \<Rightarrow> 'a::{linorder,zero}) \<Rightarrow> step_run \<Rightarrow> 'a" where
  "debited f s =
     (if sr_state s \<in> IN_FLIGHT_STATES then max (amount_of f (sr_consumption s)) (amount_of f (sr_reservation s))
      else amount_of f (sr_consumption s))"

definition step_quantities_ok :: "step_run \<Rightarrow> bool" where
  "step_quantities_ok s \<longleftrightarrow>
     (\<forall>q \<in> {sr_consumption s, sr_reservation s}. case q of None \<Rightarrow> True | Some x \<Rightarrow> quantities_ok x)"

lemma or0_max_opt: "or0 a \<ge> 0 \<Longrightarrow> or0 b \<ge> 0 \<Longrightarrow> or0 (max_opt a b) = max (or0 a) (or0 b)"
  for a b :: "'a::{linorder,zero} option"
  by (cases a; cases b) (auto simp: max_opt_def max_def)

lemma map_of_codes: "map_of (map (\<lambda>c. (c, f c)) cs) c = (if c \<in> set cs then Some (f c) else None)"
  by (induction cs) auto

lemma money_absent: "c \<notin> set (map fst (items (u_currency q))) \<Longrightarrow> money q c = 0"
  by (simp add: money_def map_of_eq_None_iff [THEN iffD2])

lemma money_max_currency:
  assumes "u_currency x = max_currency q p"
  shows "money x c = max (money q c) (money p c)"
proof -
  have x: "money x c = or0 (map_of (items (max_currency q p)) c)" by (simp add: money_def assms)
  show ?thesis
  proof (cases "c \<in> set (map fst (items (u_currency q)) @ map fst (items (u_currency p)))")
    case True
    then have "items (u_currency q) \<noteq> [] \<or> items (u_currency p) \<noteq> []" by auto
    with True show ?thesis by (auto simp: x max_currency_def Let_def map_of_codes)
  next
    case False
    then have "money q c = 0" "money p c = 0" by (auto intro: money_absent)
    with False show ?thesis by (auto simp: x max_currency_def Let_def map_of_codes)
  qed
qed

lemma money_nonneg: "quantities_ok q \<Longrightarrow> money q c \<ge> 0"
  by (cases "map_of (items (u_currency q)) c")
    (auto simp: money_def quantities_ok_def dest!: map_of_SomeD)

lemma counted_debited:
  assumes "step_quantities_ok s"
  shows "amount_of (\<lambda>q. or0 (u_in q)) (counted s) = debited (\<lambda>q. or0 (u_in q)) s"
    and "amount_of (\<lambda>q. or0 (u_out q)) (counted s) = debited (\<lambda>q. or0 (u_out q)) s"
    and "amount_of (\<lambda>q. or0 (u_quota q)) (counted s) = debited (\<lambda>q. or0 (u_quota q)) s"
    and "amount_of (\<lambda>q. money q c) (counted s) = debited (\<lambda>q. money q c) s"
proof -
  note defs = counted_def debited_def amount_of_def step_quantities_ok_def quantities_ok_def
  show "amount_of (\<lambda>q. or0 (u_in q)) (counted s) = debited (\<lambda>q. or0 (u_in q)) s"
    "amount_of (\<lambda>q. or0 (u_out q)) (counted s) = debited (\<lambda>q. or0 (u_out q)) s"
    "amount_of (\<lambda>q. or0 (u_quota q)) (counted s) = debited (\<lambda>q. or0 (u_quota q)) s"
    using assms
    by (cases "sr_consumption s"; cases "sr_reservation s"; simp add: defs or0_max_opt max_absorb1 max_absorb2)+
  show "amount_of (\<lambda>q. money q c) (counted s) = debited (\<lambda>q. money q c) s"
  proof (cases "\<exists>a b. sr_consumption s = Some a \<and> sr_reservation s = Some b \<and> sr_state s \<in> IN_FLIGHT_STATES")
    case True
    then obtain a b where ab: "sr_consumption s = Some a" "sr_reservation s = Some b"
      "sr_state s \<in> IN_FLIGHT_STATES" by blast
    then obtain q where q: "counted s = Some q" "u_currency q = max_currency a b" by (simp add: counted_def)
    from money_max_currency [OF q(2)] show ?thesis by (simp add: amount_of_def debited_def q(1) ab)
  next
    case False
    have "0 \<le> amount_of (\<lambda>q. money q c) (sr_consumption s)" "0 \<le> amount_of (\<lambda>q. money q c) (sr_reservation s)"
      using assms money_nonneg by (auto simp: amount_of_def step_quantities_ok_def split: option.splits)
    with False show ?thesis
      by (cases "sr_consumption s"; cases "sr_reservation s")
        (auto simp: counted_def debited_def amount_of_def max_absorb1 max_absorb2)
  qed
qed

lemma or0_add_opt [simp]: "or0 (add_opt a v) = or0 a + or0 v" for a v :: "'a::monoid_add option"
  by (cases v) (simp_all add: add_opt_def)

lemma map_of_add_currency: "map_of (add_currency acc (k, v)) c =
   (if c = k then Some (or0 (map_of acc k) + v) else map_of acc c)"
  by (auto simp: add_currency_def update_conv')

lemma foldl_add_currency:
  "distinct (map fst xs) \<Longrightarrow>
     or0 (map_of (foldl add_currency acc xs) c) = or0 (map_of acc c) + or0 (map_of xs c)"
proof (induction xs arbitrary: acc)
  case (Cons x xs)
  obtain k v where x: "x = (k, v)" by (cases x)
  have "map_of xs k = None" using Cons.prems x by (auto simp: map_of_eq_None_iff)
  with Cons x show ?case by (auto simp: map_of_add_currency)
qed simp

lemma foldl_add_counted:
  "or0 (u_in (foldl (add_counted cls) acc qs)) = or0 (u_in acc) + sum_list (map (\<lambda>q. or0 (u_in q)) qs)"
  "or0 (u_out (foldl (add_counted cls) acc qs)) = or0 (u_out acc) + sum_list (map (\<lambda>q. or0 (u_out q)) qs)"
  "or0 (u_quota (foldl (add_counted cls) acc qs)) = or0 (u_quota acc) + sum_list (map (\<lambda>q. or0 (u_quota q)) qs)"
  "or0 (u_compute (foldl (add_counted cls) acc qs)) =
     or0 (u_compute acc) + sum_list (map (\<lambda>q. if u_class q = cls then or0 (u_compute q) else 0) qs)"
  by (induction qs arbitrary: acc) (simp_all add: add_counted_def add.assoc)

lemma foldl_add_counted_money:
  "(\<And>q. q \<in> set qs \<Longrightarrow> distinct (map fst (items (u_currency q)))) \<Longrightarrow>
     money (foldl (add_counted cls) acc qs) c = money acc c + sum_list (map (\<lambda>q. money q c) qs)"
proof (induction qs arbitrary: acc)
  case (Cons q qs)
  have "money (add_counted cls acc q) c = money acc c + money q c"
    using foldl_add_currency [of "items (u_currency q)" "items (u_currency acc)" c] Cons.prems
    by (simp add: money_def add_counted_def)
  with Cons show ?case by (simp add: add.assoc)
qed simp

lemma sum_counted_steps:
  "sum_list (map f (counted_steps r)) = sum_list (map (\<lambda>s. amount_of f (counted s)) (run_step_runs r))"
proof -
  have "sum_list (map f (List.map_filter counted ss)) = sum_list (map (\<lambda>s. amount_of f (counted s)) ss)" for ss
    by (induction ss) (simp_all add: map_filter_simps amount_of_def split: option.split)
  then show ?thesis by (simp add: counted_steps_def)
qed

lemma counted_distinct:
  assumes "step_quantities_ok s" "counted s = Some q"
  shows "distinct (map fst (items (u_currency q)))"
proof -
  have max: "distinct (map fst (items (max_currency a b)))" for a b
    by (simp add: max_currency_def Let_def comp_def)
  show ?thesis
    using assms max
    by (cases "sr_consumption s"; cases "sr_reservation s")
      (auto simp: counted_def step_quantities_ok_def quantities_ok_def split: if_splits)
qed

lemma counted_stepsD: "q \<in> set (counted_steps r) \<Longrightarrow> \<exists>s \<in> set (run_step_runs r). counted s = Some q"
  by (auto simp: counted_steps_def List.map_filter_def)

lemma consumed_fields:
  "u_in (consumed r) = u_in (foldl (add_counted (map_option cm_class (l_compute (run_budget r)))) no_quantities (counted_steps r))"
  "u_out (consumed r) = u_out (foldl (add_counted (map_option cm_class (l_compute (run_budget r)))) no_quantities (counted_steps r))"
  "u_quota (consumed r) = u_quota (foldl (add_counted (map_option cm_class (l_compute (run_budget r)))) no_quantities (counted_steps r))"
  "money (consumed r) c = money (foldl (add_counted (map_option cm_class (l_compute (run_budget r)))) no_quantities (counted_steps r)) c"
  by (simp_all add: consumed_def Let_def money_def)

lemma consumed_debited:
  assumes "\<forall>s \<in> set (run_step_runs r). step_quantities_ok s"
  shows "or0 (u_in (consumed r)) = sum_list (map (debited (\<lambda>q. or0 (u_in q))) (run_step_runs r))"
    and "or0 (u_out (consumed r)) = sum_list (map (debited (\<lambda>q. or0 (u_out q))) (run_step_runs r))"
    and "or0 (u_quota (consumed r)) = sum_list (map (debited (\<lambda>q. or0 (u_quota q))) (run_step_runs r))"
    and "money (consumed r) c = sum_list (map (debited (\<lambda>q. money q c)) (run_step_runs r))"
proof -
  have same: "sum_list (map (\<lambda>s. amount_of f (counted s)) (run_step_runs r)) = sum_list (map (debited f) (run_step_runs r))"
    if "\<And>s. step_quantities_ok s \<Longrightarrow> amount_of f (counted s) = debited f s" for f :: "quantities \<Rightarrow> 'b::{linorder,monoid_add}"
    using that assms by (intro arg_cong [where f = sum_list] map_cong) auto
  have "money no_quantities c = 0" by (simp add: money_def no_quantities_def)
  moreover have "distinct (map fst (items (u_currency q)))" if "q \<in> set (counted_steps r)" for q
    using counted_stepsD [OF that] counted_distinct assms by blast
  moreover have "u_in no_quantities = None" "u_out no_quantities = None" "u_quota no_quantities = None"
    by (simp_all add: no_quantities_def)
  ultimately show "or0 (u_in (consumed r)) = sum_list (map (debited (\<lambda>q. or0 (u_in q))) (run_step_runs r))"
    "or0 (u_out (consumed r)) = sum_list (map (debited (\<lambda>q. or0 (u_out q))) (run_step_runs r))"
    "or0 (u_quota (consumed r)) = sum_list (map (debited (\<lambda>q. or0 (u_quota q))) (run_step_runs r))"
    "money (consumed r) c = sum_list (map (debited (\<lambda>q. money q c)) (run_step_runs r))"
    by (simp_all add: consumed_fields foldl_add_counted foldl_add_counted_money sum_counted_steps
        same counted_debited)
qed


subsection \<open>A concrete run\<close>

definition tokens_limit :: limits where
  "tokens_limit = \<lparr>l_currency = None, l_quota = None, l_compute = None,
     l_tokens = Some \<lparr>tl_in = Some 1000, tl_out = Some 200\<rparr>\<rparr>"

definition two_steps :: "step list" where
  "two_steps = [sample_step, sample_step\<lparr>s_id := ''release'', s_depends_on := Some [''check'']\<rparr>]"

definition sample_run :: run where
  "sample_run = \<lparr>run_id = ''run-1'', run_plan_id = ''plan-1'', run_process_version = ''release@1.0.0'',
     run_tenant = ''acme'', run_identity = ''ada'', run_autonomy_level = 1, run_actions = [],
     run_budget = tokens_limit, run_margin = 0, run_steps = two_steps, run_work = [], run_inputs = [],
     run_deadlines = [], run_rehearsal = False, run_bindings = [], run_skills = [], run_remedy = None,
     run_profile = None, run_org_unit = None, run_org_unit_month = None, run_st = R_PLANNED,
     run_cause = None, run_reason = None, run_step_runs = number_steps two_steps, run_created_at = 0,
     run_updated_at = 0\<rparr>"

definition waiting_run :: run where
  "waiting_run = sample_run\<lparr>run_step_runs :=
     map (\<lambda>s. if sr_step_id s = ''check'' then s\<lparr>sr_state := S_WAITING_HUMAN\<rparr> else s) (run_step_runs sample_run)\<rparr>"

definition reserving_run :: run where
  "reserving_run = sample_run\<lparr>run_step_runs :=
     [(new_step_run sample_step 0)\<lparr>sr_state := S_SUCCEEDED, sr_consumption := Some (no_quantities\<lparr>u_in := Some 70\<rparr>),
         sr_reservation := Some (no_quantities\<lparr>u_in := Some 100\<rparr>)\<rparr>,
      (new_step_run sample_step 1)\<lparr>sr_step_id := ''release'', sr_state := S_RUNNING,
         sr_consumption := Some (no_quantities\<lparr>u_in := Some 10\<rparr>),
         sr_reservation := Some (no_quantities\<lparr>u_in := Some 30\<rparr>)\<rparr>]\<rparr>"

lemma sample_steps_of:
  "run_steps sample_run = two_steps" "run_steps waiting_run = two_steps"
  "on_escalation sample_run = {}" "on_escalation waiting_run = {}"
  by (simp_all add: sample_run_def waiting_run_def on_escalation_def escalation_steps_def marked_def)

lemma sample_step_runs:
  "run_step_runs sample_run = [new_step_run sample_step 0, (new_step_run sample_step 1)\<lparr>sr_step_id := ''release''\<rparr>]"
  "run_step_runs waiting_run =
     [(new_step_run sample_step 0)\<lparr>sr_state := S_WAITING_HUMAN\<rparr>, (new_step_run sample_step 1)\<lparr>sr_step_id := ''release''\<rparr>]"
  by (simp_all add: sample_run_def waiting_run_def number_steps_def two_steps_def sample_step_def new_step_run_def)

theorem runnable_is_first_ready_witness:
  "\<exists>before after. run_step_runs sample_run = before @ new_step_run sample_step 0 # after"
proof -
  have "runnable sample_run = Inr (Some (new_step_run sample_step 0))"
    by (simp add: runnable_def sample_step_runs sample_steps_of step_of_def two_steps_def done_run_def
        DONE_def new_step_run_def sample_step_def dependencies_def)
  from runnable_is_first_ready [OF this] show ?thesis by blast
qed

theorem stalled_run_waits_witness:
  "\<exists>w \<in> set (run_step_runs waiting_run). stalled_by waiting_run ''release'' w"
proof -
  let ?s = "(new_step_run sample_step 1)\<lparr>sr_step_id := ''release''\<rparr>"
  have valid: "validate_run waiting_run = Inr waiting_run"
    by (simp add: validate_run_def sample_step_runs sample_steps_of two_steps_def sample_step_def dependencies_def)
  have same: "map sr_step_id (run_step_runs waiting_run) = map s_id (run_steps waiting_run)"
    by (simp add: sample_step_runs sample_steps_of two_steps_def sample_step_def new_step_run_def)
  have stuck: "runnable waiting_run = Inr None"
    by (simp add: runnable_def sample_step_runs sample_steps_of step_of_def two_steps_def done_run_def
        DONE_def new_step_run_def sample_step_def dependencies_def done_steps_def)
  have inn: "?s \<in> set (run_step_runs waiting_run)" by (simp add: sample_step_runs)
  have "sr_state ?s \<noteq> S_SUCCEEDED" "sr_state ?s \<noteq> S_WAITING_HUMAN" "sr_step_id ?s \<notin> on_escalation waiting_run"
    by (simp_all add: new_step_run_def sample_steps_of)
  from stalled_run_waits [OF valid same stuck inn this] show ?thesis by auto
qed

theorem run_lifecycle_witness:
  "\<exists>r'. run_through sample_run [(R_ADMITTED, None, None), (R_RUNNING, None, None), (R_FINISHED, None, None)] = Inr r'
     \<and> run_st r' = R_FINISHED \<and> run_budget r' = run_budget sample_run"
proof -
  obtain r' where r': "run_through sample_run [(R_ADMITTED, None, None), (R_RUNNING, None, None), (R_FINISHED, None, None)] = Inr r'"
    "run_st r' = R_FINISHED" by (simp add: run_to_def sample_run_def RUN_TRANSITIONS_def)
  moreover have "run_st sample_run = R_PLANNED" by (simp add: sample_run_def)
  ultimately show ?thesis using run_lifecycle [of sample_run _ r'] by blast
qed


end
