(* ===== verification/Run_Admission.thy ===== *)
theory Run_Admission
  imports Run_Budget Run_Progress
begin

text \<open>
  What admission promises (\<open>admission.py\<close>, \<open>budget.py\<close>): a demand fits exactly when every quantity
  the budget limits is within the limit less what was used; an admitted reservation keeps the run
  on its line; a reservation is never below its estimate; a capped one always fits.
\<close>

subsection \<open>When a demand fits\<close>

text \<open>The contract of admission, over the budget and what was used alone.\<close>

definition holds_limit :: "'a::{linorder,ab_group_add} option \<Rightarrow> 'a \<Rightarrow> 'a option \<Rightarrow> bool" where
  "holds_limit limit used demand \<longleftrightarrow>
     (case (limit, demand) of (Some l, Some d) \<Rightarrow> d \<le> max 0 (l - used) | _ \<Rightarrow> True)"

definition token_limit_of :: "limits \<Rightarrow> (token_limit \<Rightarrow> int option) \<Rightarrow> int option" where
  "token_limit_of l f = (case l_tokens l of None \<Rightarrow> None | Some t \<Rightarrow> f t)"

definition money_limit :: "limits \<Rightarrow> string \<Rightarrow> rat option" where
  "money_limit l code = map_of (items (l_currency l)) code"

definition compute_within :: "quantities \<Rightarrow> quantities \<Rightarrow> limits \<Rightarrow> bool" where
  "compute_within demand used budget \<longleftrightarrow>
     (case (l_compute budget, u_compute demand) of
        (Some c, Some d) \<Rightarrow> u_class demand = Some (cm_class c)
          \<and> d \<le> max 0 (cm_seconds c - (if u_class used = Some (cm_class c) then or0 (u_compute used) else 0))
      | _ \<Rightarrow> True)"

definition fits_line :: "quantities \<Rightarrow> quantities \<Rightarrow> limits \<Rightarrow> bool" where
  "fits_line demand used budget \<longleftrightarrow>
     (\<forall>(code, amount) \<in> set (items (u_currency demand)).
        holds_limit (money_limit budget code) (money used code) (Some amount))
   \<and> holds_limit (l_quota budget) (or0 (u_quota used)) (u_quota demand)
   \<and> holds_limit (token_limit_of budget tl_in) (or0 (u_in used)) (u_in demand)
   \<and> holds_limit (token_limit_of budget tl_out) (or0 (u_out used)) (u_out demand)
   \<and> compute_within demand used budget"

lemma left_quota_remaining:
  "l_quota budget = Some u \<Longrightarrow> left_quota (remaining budget used) = max 0 (u - or0 (u_quota used))"
  by (auto simp: left_quota_def remaining_def remaining_quota_def Let_def)

lemma left_compute_remaining:
  "l_compute budget = Some c \<Longrightarrow> left_compute (remaining budget used)
     = max 0 (cm_seconds c - (if u_class used = Some (cm_class c) then or0 (u_compute used) else 0))"
  by (auto simp: left_compute_def remaining_def remaining_compute_def Let_def)

lemma nonzero_max: "or0 (nonzero (Some (max 0 n))) = max 0 n"
  by (auto simp: nonzero_def)

lemma or0_nonzero [simp]: "or0 (nonzero v) = or0 v"
  by (auto simp: nonzero_def)

lemma nonzero_None: "nonzero v = None \<longleftrightarrow> or0 v = 0"
  by (cases v) (auto simp: nonzero_def)

lemma left_tokens_remaining:
  "token_limit_of budget tl_in = Some l \<Longrightarrow>
     left_tokens (remaining budget used) tl_in = max 0 (l - or0 (u_in used))"
  "token_limit_of budget tl_out = Some l \<Longrightarrow>
     left_tokens (remaining budget used) tl_out = max 0 (l - or0 (u_out used))"
  by (auto simp: token_limit_of_def left_tokens_def remaining_def remaining_tokens_def left_of_def
      nonzero_None Let_def split: option.splits)

lemma map_of_map_pair: "map_of (map (\<lambda>(c, a). (c, f c a)) xs) k = map_option (f k) (map_of xs k)"
  by (induction xs) auto

lemma left_money_remaining:
  assumes "money_limit budget code = Some l"
  shows "left_money (remaining budget used) code = max 0 (l - money used code)"
proof -
  obtain m where m: "l_currency budget = Some m" "map_of m code = Some l"
    using assms by (cases "l_currency budget") (auto simp: money_limit_def)
  let ?r = "map (\<lambda>(code, a). (code, max 0 (a - money used code))) m"
  have cur: "remaining_currency budget used = Some ?r" by (simp add: remaining_currency_def m)
  have at: "map_of ?r code = Some (max 0 (l - money used code))" by (simp add: map_of_map_pair m)
  show ?thesis
  proof (cases "exhausted (Some ?r)")
    case True
    then have "\<forall>(c, v) \<in> set ?r. v \<le> 0" by (simp add: exhausted_def list_all_iff)
    with map_of_SomeD [OF at] have "max 0 (l - money used code) = 0" by force
    moreover have "left_money (remaining budget used) code = 0"
      using True by (simp add: left_money_def remaining_def Let_def cur)
    ultimately show ?thesis by simp
  next
    case False
    then show ?thesis using at by (simp add: left_money_def remaining_def Let_def cur)
  qed
qed

lemma quota_findings_Nil:
  "quota_findings demand (remaining budget used) budget = []
     \<longleftrightarrow> holds_limit (l_quota budget) (or0 (u_quota used)) (u_quota demand)"
  by (cases "l_quota budget"; cases "u_quota demand")
    (auto simp: quota_findings_def holds_limit_def left_quota_remaining not_less)

lemma token_findings_within:
  assumes "\<And>l. token_limit_of budget f = Some l \<Longrightarrow> left_tokens left f = max 0 (l - used)"
  shows "token_findings name needed f left budget = [] \<longleftrightarrow> holds_limit (token_limit_of budget f) used needed"
  using assms
  by (cases "token_limit_of budget f"; cases needed)
    (auto simp: token_findings_def holds_limit_def not_less simp flip: token_limit_of_def)

lemmas token_findings_Nil =
  token_findings_within [OF left_tokens_remaining(1)] token_findings_within [OF left_tokens_remaining(2)]

lemma currency_finding_Nil:
  "(if map_of (items (l_currency budget)) code = None then []
    else if amount > left_money (remaining budget used) code
      then [Currency_Needed code amount (left_money (remaining budget used) code)] else []) = []
   \<longleftrightarrow> holds_limit (money_limit budget code) (money used code) (Some amount)"
proof (cases "money_limit budget code")
  case None
  then show ?thesis by (simp add: holds_limit_def money_limit_def)
next
  case (Some l)
  from left_money_remaining [OF this, of used] Some show ?thesis
    by (auto simp: holds_limit_def money_limit_def not_less max_def)
qed

lemma currency_findings_Nil:
  "currency_findings demand (remaining budget used) budget = []
     \<longleftrightarrow> (\<forall>(code, amount) \<in> set (items (u_currency demand)).
           holds_limit (money_limit budget code) (money used code) (Some amount))"
  unfolding currency_findings_def concat_eq_Nil_conv set_map ball_simps
  by (intro ball_cong refl) (simp add: split_beta flip: currency_finding_Nil)

lemma compute_findings_Nil:
  "compute_findings demand (remaining budget used) budget = []
     \<longleftrightarrow> compute_within demand used budget"
  using left_compute_remaining [of budget _ used]
  by (cases "l_compute budget"; cases "u_compute demand") (auto simp: compute_findings_def compute_within_def not_less)

lemma admit_exact:
  "ad_fits (admit demand (remaining budget used) budget) \<longleftrightarrow> fits_line demand used budget"
  by (simp add: admit_def Let_def fits_line_def currency_findings_Nil quota_findings_Nil
      token_findings_Nil compute_findings_Nil)

text \<open>C28: admission is exact: a demand fits what remains of a budget exactly when every quantity the
  budget limits is within its limit less what was used, and its compute is in the budget's class.\<close>

theorem admit_is_exact:
  "ad_fits (admit demand (remaining budget used) budget) \<longleftrightarrow> fits_line demand used budget"
  by (rule admit_exact)

subsection \<open>What a step reserves holds the line\<close>

text \<open>\<open>_released\<close> of \<open>execute_run.py\<close>: the step's old reservation is replaced, its use kept.\<close>

definition released :: "run \<Rightarrow> string \<Rightarrow> run" where
  "released r sid =
     (case List.find (\<lambda>s. sr_step_id s = sid \<and> sr_reservation s \<noteq> None) (run_step_runs r) of
        None \<Rightarrow> r | Some s \<Rightarrow> with_step_run r (s\<lparr>sr_reservation := None\<rparr>))"

definition reserving :: "run \<Rightarrow> step_run \<Rightarrow> quantities \<Rightarrow> run" where
  "reserving r s d = with_step_run r (s\<lparr>sr_state := S_ADMITTED, sr_reservation := Some d\<rparr>)"

lemma sum_list_replace:
  fixes f :: "step_run \<Rightarrow> 'a::ab_group_add"
  assumes "distinct (map sr_step_id xs)" "s \<in> set xs" "sr_step_id s' = sr_step_id s"
  shows "sum_list (map f (map (\<lambda>x. if sr_step_id x = sr_step_id s' then s' else x) xs))
    = sum_list (map f xs) - f s + f s'"
  using assms
proof (induction xs)
  case (Cons x xs)
  show ?case
  proof (cases "x = s")
    case True
    with Cons.prems have "map (\<lambda>x. if sr_step_id x = sr_step_id s' then s' else x) xs = xs"
      by (intro map_idI) (auto simp: image_iff)
    with True Cons.prems(3) show ?thesis by (simp add: comp_def)
  next
    case False
    with Cons have "sr_step_id x \<noteq> sr_step_id s'" by (auto simp: image_iff)
    with False Cons show ?thesis by (simp add: comp_def)
  qed
qed simp

lemma released_cases:
  assumes "distinct (map sr_step_id (run_step_runs r))" "s \<in> set (run_step_runs r)" "sr_step_id s = sid"
  shows "run_step_runs (released r sid)
    = map (\<lambda>x. if sr_step_id x = sid then s\<lparr>sr_reservation := None\<rparr> else x) (run_step_runs r)"
proof -
  have only: "x = s" if "x \<in> set (run_step_runs r)" "sr_step_id x = sid" for x
    using assms that by (metis inj_on_def distinct_map)
  show ?thesis
  proof (cases "List.find (\<lambda>s. sr_step_id s = sid \<and> sr_reservation s \<noteq> None) (run_step_runs r)")
    case None
    with assms(2,3) have "sr_reservation s = None" by (auto simp: find_None_iff)
    then have "s\<lparr>sr_reservation := None\<rparr> = s" by simp
    with None only show ?thesis by (simp add: released_def) (rule map_idI [symmetric], auto)
  next
    case (Some x)
    then have "x = s" using only find_SomeD by fastforce
    with Some assms(3) show ?thesis by (simp add: released_def with_step_run_def)
  qed
qed

lemma debited_reserving:
  fixes f :: "quantities \<Rightarrow> 'a::{linorder, ordered_ab_group_add}"
  assumes "distinct (map sr_step_id (run_step_runs r))" "s \<in> set (run_step_runs r)"
    and "f d \<ge> 0" "amount_of f (sr_consumption s) \<ge> 0"
  shows "sum_list (map (debited f) (run_step_runs (reserving r s d)))
    \<le> sum_list (map (debited f) (run_step_runs (released r (sr_step_id s)))) + f d"
proof -
  let ?c = "amount_of f (sr_consumption s)" and ?old = "sum_list (map (debited f) (run_step_runs r))"
  have keep: "sum_list (map (debited f) (run_step_runs (reserving r s d)))
      = ?old - debited f s + max ?c (f d)"
    using sum_list_replace [OF assms(1,2), of "s\<lparr>sr_state := S_ADMITTED, sr_reservation := Some d\<rparr>" "debited f"]
    by (simp add: reserving_def with_step_run_def debited_def IN_FLIGHT_STATES_def amount_of_def)
  have "debited f (s\<lparr>sr_reservation := None\<rparr>) = ?c"
    using assms(4) by (simp add: debited_def amount_of_def max_absorb1)
  then have rel: "sum_list (map (debited f) (run_step_runs (released r (sr_step_id s)))) = ?old - debited f s + ?c"
    using sum_list_replace [OF assms(1,2), of "s\<lparr>sr_reservation := None\<rparr>" "debited f"]
    by (simp add: released_cases [OF assms(1,2) refl])
  have "max ?c (f d) \<le> ?c + f d" using assms(3,4) by (simp add: add_increasing add_increasing2)
  then show ?thesis by (simp add: keep rel add.assoc)
qed

text \<open>A consumption kept on its line: within the limit, or no more than it was.\<close>

definition on_line :: "'a::linorder option \<Rightarrow> 'a \<Rightarrow> 'a \<Rightarrow> bool" where
  "on_line limit before now \<longleftrightarrow> (case limit of None \<Rightarrow> True | Some l \<Rightarrow> now \<le> max l before)"

lemma holds_limit_on_line:
  fixes now :: "'a::{linorder, ordered_ab_group_add}"
  assumes "holds_limit limit before demand" "now \<le> before + (case demand of None \<Rightarrow> 0 | Some x \<Rightarrow> x)"
  shows "on_line limit before now"
proof (cases limit)
  case (Some l)
  let ?d = "case demand of None \<Rightarrow> 0 | Some x \<Rightarrow> x"
  have "?d \<le> max 0 (l - before)" using assms(1) Some by (cases demand) (simp_all add: holds_limit_def)
  then have "before + ?d \<le> before + max 0 (l - before)" by (rule add_left_mono)
  also have "before + max 0 (l - before) = max l before" by (auto simp: max_def algebra_simps)
  finally show ?thesis using assms(2) Some by (simp add: on_line_def)
qed (simp add: on_line_def)

lemma or0_case: "(case v of None \<Rightarrow> 0 | Some x \<Rightarrow> x) = or0 v"
  by (simp add: or0_def)

lemma money_within:
  assumes "fits_line d used line"
  shows "holds_limit (money_limit line code) (money used code) (Some (money d code))"
proof (cases "map_of (items (u_currency d)) code")
  case None
  then show ?thesis by (cases "money_limit line code") (simp_all add: holds_limit_def money_def)
next
  case (Some a)
  with map_of_SomeD [OF Some] assms show ?thesis by (auto simp: fits_line_def money_def)
qed

lemma step_quantities_okD:
  assumes "step_quantities_ok s"
  shows "amount_of (\<lambda>q. or0 (u_in q)) (sr_consumption s) \<ge> 0"
    and "amount_of (\<lambda>q. or0 (u_out q)) (sr_consumption s) \<ge> 0"
    and "amount_of (\<lambda>q. or0 (u_quota q)) (sr_consumption s) \<ge> 0"
    and "amount_of (\<lambda>q. money q c) (sr_consumption s) \<ge> 0"
  using assms money_nonneg
  by (auto simp: step_quantities_ok_def amount_of_def quantities_ok_def split: option.splits)

lemma with_step_run_ok:
  "\<forall>x \<in> set (run_step_runs r). step_quantities_ok x \<Longrightarrow> step_quantities_ok s' \<Longrightarrow>
     \<forall>x \<in> set (run_step_runs (with_step_run r s')). step_quantities_ok x"
  by (auto simp: with_step_run_def)

lemma released_ok:
  assumes "\<forall>x \<in> set (run_step_runs r). step_quantities_ok x"
  shows "\<forall>x \<in> set (run_step_runs (released r sid)). step_quantities_ok x"
proof (cases "List.find (\<lambda>s. sr_step_id s = sid \<and> sr_reservation s \<noteq> None) (run_step_runs r)")
  case (Some x)
  then have "step_quantities_ok x" using assms find_SomeD by fastforce
  then have "step_quantities_ok (x\<lparr>sr_reservation := None\<rparr>)" by (simp add: step_quantities_ok_def)
  with assms have "\<forall>y \<in> set (run_step_runs (with_step_run r (x\<lparr>sr_reservation := None\<rparr>))). step_quantities_ok y"
    by (rule with_step_run_ok)
  with Some show ?thesis by (simp add: released_def)
qed (simp add: released_def assms)

text \<open>C3: an admitted step keeps its run on its line: when its reservation fits what is left once its
  old reservation is released, what the run counts as consumed after it holds the reservation is,
  for tokens, quota and every currency, within the limit, or no more than it was before.\<close>

theorem admitted_step_keeps_line:
  assumes "distinct (map sr_step_id (run_step_runs r))" "s \<in> set (run_step_runs r)"
    and "\<forall>x \<in> set (run_step_runs r). step_quantities_ok x" "quantities_ok d"
    and "ad_fits (admit d (remaining line (consumed (released r (sr_step_id s)))) line)"
  shows "on_line (token_limit_of line tl_in) (or0 (u_in (consumed (released r (sr_step_id s)))))
           (or0 (u_in (consumed (reserving r s d))))
    \<and> on_line (token_limit_of line tl_out) (or0 (u_out (consumed (released r (sr_step_id s)))))
           (or0 (u_out (consumed (reserving r s d))))
    \<and> on_line (l_quota line) (or0 (u_quota (consumed (released r (sr_step_id s)))))
           (or0 (u_quota (consumed (reserving r s d))))
    \<and> on_line (money_limit line code) (money (consumed (released r (sr_step_id s))) code)
           (money (consumed (reserving r s d)) code)"
proof -
  let ?old = "released r (sr_step_id s)" and ?new = "reserving r s d"
  have s: "step_quantities_ok s" using assms(2,3) by blast
  then have s': "step_quantities_ok (s\<lparr>sr_state := S_ADMITTED, sr_reservation := Some d\<rparr>)"
    using assms(4) by (simp add: step_quantities_ok_def)
  have new_ok: "\<forall>x \<in> set (run_step_runs ?new). step_quantities_ok x"
    using with_step_run_ok [OF assms(3) s'] by (simp add: reserving_def)
  note new = consumed_debited [OF new_ok] and old = consumed_debited [OF released_ok [OF assms(3)]]
  note more = debited_reserving [OF assms(1,2)]
  have fits: "fits_line d (consumed ?old) line" using assms(5) by (simp add: admit_exact)
  have d: "or0 (u_in d) \<ge> 0" "or0 (u_out d) \<ge> 0" "or0 (u_quota d) \<ge> 0" "money d code \<ge> 0"
    using assms(4) money_nonneg by (simp_all add: quantities_ok_def)
  have "on_line (token_limit_of line tl_in) (or0 (u_in (consumed ?old))) (or0 (u_in (consumed ?new)))"
    by (rule holds_limit_on_line [where demand = "u_in d"])
      (use fits more [where f = "\<lambda>q. or0 (u_in q)"] d step_quantities_okD(1) [OF s] in
        \<open>simp_all add: fits_line_def or0_case new old\<close>)
  moreover have "on_line (token_limit_of line tl_out) (or0 (u_out (consumed ?old))) (or0 (u_out (consumed ?new)))"
    by (rule holds_limit_on_line [where demand = "u_out d"])
      (use fits more [where f = "\<lambda>q. or0 (u_out q)"] d step_quantities_okD(2) [OF s] in
        \<open>simp_all add: fits_line_def or0_case new old\<close>)
  moreover have "on_line (l_quota line) (or0 (u_quota (consumed ?old))) (or0 (u_quota (consumed ?new)))"
    by (rule holds_limit_on_line [where demand = "u_quota d"])
      (use fits more [where f = "\<lambda>q. or0 (u_quota q)"] d step_quantities_okD(3) [OF s] in
        \<open>simp_all add: fits_line_def or0_case new old\<close>)
  moreover have "on_line (money_limit line code) (money (consumed ?old) code) (money (consumed ?new) code)"
    by (rule holds_limit_on_line [where demand = "Some (money d code)"])
      (use money_within [OF fits, of code] more [where f = "\<lambda>q. money q code"] d step_quantities_okD(4) [OF s] in
        \<open>simp_all add: new old\<close>)
  ultimately show ?thesis by blast
qed

subsection \<open>A capped reservation\<close>

definition left_limit :: "limits option \<Rightarrow> (limits \<Rightarrow> 'a option) \<Rightarrow> 'a option" where
  "left_limit left f = (case left of None \<Rightarrow> None | Some l \<Rightarrow> f l)"

text \<open>A limit that is exhausted leaves no limit of its kind: then the estimate it let through is 0.\<close>

lemma remaining_tokens_limit:
  "token_limit_of budget tl_in = Some l \<Longrightarrow> left_limit (remaining budget used) (\<lambda>x. token_limit_of x tl_in)
     = nonzero (Some (max 0 (l - or0 (u_in used))))"
  "token_limit_of budget tl_out = Some l \<Longrightarrow> left_limit (remaining budget used) (\<lambda>x. token_limit_of x tl_out)
     = nonzero (Some (max 0 (l - or0 (u_out used))))"
  by (auto simp: token_limit_of_def left_limit_def remaining_def remaining_tokens_def left_of_def nonzero_def
      Let_def split: option.splits if_splits)

lemma remaining_quota_limit:
  "l_quota budget = Some u \<Longrightarrow> left_limit (remaining budget used) l_quota
     = positive (Some (u - or0 (u_quota used)))"
  by (auto simp: left_limit_def remaining_def remaining_quota_def positive_def Let_def)

lemma min_limit_token_limit:
  "u_in (capped reservation left) = min_limit (u_in reservation) (left_limit left (\<lambda>x. token_limit_of x tl_in))"
  "u_out (capped reservation left) = min_limit (u_out reservation) (left_limit left (\<lambda>x. token_limit_of x tl_out))"
  "u_quota (capped reservation left) = min_limit (u_quota reservation) (left_limit left l_quota)"
  "u_compute (capped reservation left)
     = min_limit (u_compute reservation) (left_limit left (\<lambda>x. map_option cm_seconds (l_compute x)))"
  "u_class (capped reservation left) = u_class reservation"
  by (auto simp: capped_def left_limit_def token_limit_of_def min_limit_def split: option.splits)

lemma min_limit_holds:
  fixes v :: "'a::{linorder, ordered_ab_group_add} option"
  assumes "left_limit left f = (if max 0 (l - used) = 0 then None else Some (max 0 (l - used)))"
    and "or0 v = 0 \<or> 0 < l - used"
  shows "holds_limit (Some l) used (min_limit v (left_limit left f))"
  using assms by (cases v) (auto simp: holds_limit_def min_limit_def max_def)

lemma scaled_zero:
  "or0 v = 0 \<Longrightarrow> or0 (scale_int scale n v) = 0"
  "or0 w = 0 \<Longrightarrow> or0 (scale_rat scale n w) = 0"
  by (cases v; simp add: scale_int_def) (cases w; simp add: scale_rat_def)

lemma or0_nonneg_fits:
  fixes l :: "'a::{linorder, ordered_ab_group_add}"
  assumes "holds_limit (Some l) used v" "or0 v \<ge> 0"
  shows "or0 v = 0 \<or> 0 < l - used"
  using assms by (cases v) (auto simp: holds_limit_def)

lemma capped_tokens:
  assumes "quantities_ok e"
    and "holds_limit (token_limit_of budget tl_in) (or0 (u_in used)) (u_in e)"
    and "holds_limit (token_limit_of budget tl_out) (or0 (u_out used)) (u_out e)"
  shows "holds_limit (token_limit_of budget tl_in) (or0 (u_in used)) (u_in (capped (reserve e scale) (remaining budget used)))"
    and "holds_limit (token_limit_of budget tl_out) (or0 (u_out used)) (u_out (capped (reserve e scale) (remaining budget used)))"
proof -
  have nonneg: "or0 (u_in e) \<ge> 0" "or0 (u_out e) \<ge> 0" using assms(1) by (simp_all add: quantities_ok_def)
  have res: "u_in (reserve e scale) = scale_int scale ''tokens_in'' (u_in e)"
    "u_out (reserve e scale) = scale_int scale ''tokens_out'' (u_out e)" by (simp_all add: reserve_def)
  show "holds_limit (token_limit_of budget tl_in) (or0 (u_in used)) (u_in (capped (reserve e scale) (remaining budget used)))"
  proof (cases "token_limit_of budget tl_in")
    case (Some l)
    have "or0 (u_in e) = 0 \<or> 0 < l - or0 (u_in used)" using or0_nonneg_fits assms(2) nonneg Some by metis
    then have "or0 (scale_int scale ''tokens_in'' (u_in e)) = 0 \<or> 0 < l - or0 (u_in used)" using scaled_zero by blast
    then show ?thesis unfolding Some min_limit_token_limit res
      by (intro min_limit_holds) (simp_all add: remaining_tokens_limit(1) [OF Some] nonzero_def)
  qed (simp add: holds_limit_def)
  show "holds_limit (token_limit_of budget tl_out) (or0 (u_out used)) (u_out (capped (reserve e scale) (remaining budget used)))"
  proof (cases "token_limit_of budget tl_out")
    case (Some l)
    have "or0 (u_out e) = 0 \<or> 0 < l - or0 (u_out used)" using or0_nonneg_fits assms(3) nonneg Some by metis
    then have "or0 (scale_int scale ''tokens_out'' (u_out e)) = 0 \<or> 0 < l - or0 (u_out used)" using scaled_zero by blast
    then show ?thesis unfolding Some min_limit_token_limit res
      by (intro min_limit_holds) (simp_all add: remaining_tokens_limit(2) [OF Some] nonzero_def)
  qed (simp add: holds_limit_def)
qed

lemma capped_quota:
  assumes "quantities_ok e" "holds_limit (l_quota budget) (or0 (u_quota used)) (u_quota e)"
  shows "holds_limit (l_quota budget) (or0 (u_quota used)) (u_quota (capped (reserve e scale) (remaining budget used)))"
proof (cases "l_quota budget")
  case (Some l)
  have "or0 (u_quota e) \<ge> 0" using assms(1) by (simp add: quantities_ok_def)
  then have "or0 (u_quota e) = 0 \<or> 0 < l - or0 (u_quota used)" using or0_nonneg_fits assms(2) Some by metis
  then have "or0 (scale_rat scale ''quota_units'' (u_quota e)) = 0 \<or> 0 < l - or0 (u_quota used)"
    using scaled_zero by blast
  moreover have "u_quota (reserve e scale) = scale_rat scale ''quota_units'' (u_quota e)" by (simp add: reserve_def)
  ultimately show ?thesis unfolding Some min_limit_token_limit
    by (intro min_limit_holds) (auto simp: remaining_quota_limit [OF Some] positive_def max_def)
qed (simp add: holds_limit_def)

lemma capped_compute:
  assumes "quantities_ok e" "compute_within e used budget"
  shows "compute_within (capped (reserve e scale) (remaining budget used)) used budget"
proof (cases "l_compute budget")
  case (Some c)
  show ?thesis
  proof (cases "u_compute e")
    case None
    then have "u_compute (capped (reserve e scale) (remaining budget used)) = None"
      by (simp add: min_limit_token_limit reserve_def scale_rat_def min_limit_def)
    then show ?thesis by (simp add: compute_within_def split: option.split)
  next
    case (Some d)
    let ?u = "if u_class used = Some (cm_class c) then or0 (u_compute used) else 0"
    have cls: "u_class e = Some (cm_class c)" and le: "d \<le> max 0 (cm_seconds c - ?u)"
      using assms(2) Some \<open>l_compute budget = Some c\<close> by (auto simp: compute_within_def)
    have "d \<ge> 0" using assms(1) Some by (simp add: quantities_ok_def)
    have lim: "left_limit (remaining budget used) (\<lambda>x. map_option cm_seconds (l_compute x))
        = (if max 0 (cm_seconds c - ?u) = 0 then None else Some (max 0 (cm_seconds c - ?u)))"
      using \<open>l_compute budget = Some c\<close>
      by (auto simp: left_limit_def remaining_def remaining_compute_def Let_def)
    have "holds_limit (Some (cm_seconds c)) ?u (min_limit (scale_rat scale ''compute_seconds'' (u_compute e))
        (left_limit (remaining budget used) (\<lambda>x. map_option cm_seconds (l_compute x))))"
    proof (rule min_limit_holds [OF lim])
      have "holds_limit (Some (cm_seconds c)) ?u (Some d)" using le by (simp add: holds_limit_def)
      from or0_nonneg_fits [OF this] \<open>d \<ge> 0\<close> have "or0 (u_compute e) = 0 \<or> 0 < cm_seconds c - ?u"
        by (simp add: Some)
      then show "or0 (scale_rat scale ''compute_seconds'' (u_compute e)) = 0 \<or> 0 < cm_seconds c - ?u"
        using scaled_zero by blast
    qed
    moreover have "u_compute (capped (reserve e scale) (remaining budget used))
      = min_limit (scale_rat scale ''compute_seconds'' (u_compute e))
          (left_limit (remaining budget used) (\<lambda>x. map_option cm_seconds (l_compute x)))"
      by (simp add: min_limit_token_limit reserve_def)
    moreover have "u_class (capped (reserve e scale) (remaining budget used)) = Some (cm_class c)"
      by (simp add: min_limit_token_limit reserve_def cls)
    ultimately show ?thesis using \<open>l_compute budget = Some c\<close>
      by (auto simp: compute_within_def holds_limit_def split: option.splits)
  qed
qed (simp add: compute_within_def)

lemma capped_currency_items:
  "set (items (u_currency (capped (reserve e scale) left)))
     = (\<lambda>(code, a). (code, case left_limit left (\<lambda>x. money_limit x code) of
           None \<Rightarrow> a * currency_factor scale code | Some m \<Rightarrow> min (a * currency_factor scale code) m))
       ` set (items (u_currency e))"
proof -
  have res: "items (u_currency (reserve e scale)) = map (\<lambda>(code, a). (code, a * currency_factor scale code)) (items (u_currency e))"
    by (simp add: reserve_def)
  show ?thesis
  proof (cases left)
    case None
    then show ?thesis by (simp add: capped_def left_limit_def res)
  next
    case (Some l)
    show ?thesis
    proof (cases "l_currency l = None \<or> items (u_currency e) = []")
      case True
      then have same: "u_currency (capped (reserve e scale) left) = u_currency (reserve e scale)"
        by (auto simp: capped_def Some res)
      show ?thesis unfolding same res using True by (auto simp: Some left_limit_def money_limit_def)
    next
      case False
      then show ?thesis
        by (simp add: capped_def Some res left_limit_def money_limit_def image_image split_beta)
    qed
  qed
qed

lemma remaining_money_limit:
  assumes "money_limit budget code = Some l"
  shows "left_limit (remaining budget used) (\<lambda>x. money_limit x code) = Some (max 0 (l - money used code))
    \<or> left_limit (remaining budget used) (\<lambda>x. money_limit x code) = None \<and> max 0 (l - money used code) = 0"
proof -
  obtain m where m: "l_currency budget = Some m" "map_of m code = Some l"
    using assms by (cases "l_currency budget") (auto simp: money_limit_def)
  let ?r = "map (\<lambda>(code, a). (code, max 0 (a - money used code))) m"
  have cur: "remaining_currency budget used = Some ?r" by (simp add: remaining_currency_def m)
  have at: "map_of ?r code = Some (max 0 (l - money used code))" by (simp add: map_of_map_pair m)
  show ?thesis
  proof (cases "exhausted (Some ?r)")
    case True
    then have "\<forall>(c, v) \<in> set ?r. v \<le> 0" by (simp add: exhausted_def list_all_iff)
    with map_of_SomeD [OF at] have "max 0 (l - money used code) = 0" by force
    moreover have "left_limit (remaining budget used) (\<lambda>x. money_limit x code) = None"
      using True by (simp add: left_limit_def remaining_def Let_def cur money_limit_def)
    ultimately show ?thesis by simp
  next
    case False
    then show ?thesis using at by (simp add: left_limit_def remaining_def Let_def cur money_limit_def)
  qed
qed

lemma capped_currency:
  assumes "quantities_ok e"
    and "\<forall>(code, a) \<in> set (items (u_currency e)). holds_limit (money_limit budget code) (money used code) (Some a)"
  shows "\<forall>(code, a) \<in> set (items (u_currency (capped (reserve e scale) (remaining budget used)))).
    holds_limit (money_limit budget code) (money used code) (Some a)"
proof -
  have "holds_limit (money_limit budget code) (money used code)
      (Some (case left_limit (remaining budget used) (\<lambda>x. money_limit x code) of
           None \<Rightarrow> a * currency_factor scale code | Some m \<Rightarrow> min (a * currency_factor scale code) m))"
    if "(code, a) \<in> set (items (u_currency e))" for code a
  proof (cases "money_limit budget code")
    case (Some l)
    have "a \<ge> 0" using assms(1) that by (auto simp: quantities_ok_def)
    moreover have "a \<le> max 0 (l - money used code)" using assms(2) that Some by (auto simp: holds_limit_def)
    ultimately show ?thesis using remaining_money_limit [OF Some, of used] Some
      by (auto simp: holds_limit_def)
  qed (simp add: holds_limit_def)
  then show ?thesis by (force simp: capped_currency_items)
qed

text \<open>a worker step whose own estimate fits is never refused for the error measured on others: the
  calibrated reservation, capped to what is left, fits whatever the scale.\<close>

theorem capped_reservation_fits:
  assumes "quantities_ok e" "ad_fits (admit e (remaining budget used) budget)"
  shows "ad_fits (admit (capped (reserve e scale) (remaining budget used)) (remaining budget used) budget)"
  using assms capped_tokens [OF assms(1), of budget used scale] capped_quota [OF assms(1), of budget used scale]
    capped_compute [OF assms(1), of used budget scale] capped_currency [OF assms(1), of budget used scale]
  by (simp add: admit_exact fits_line_def)

subsection \<open>The worker's ceiling\<close>

lemma least_le:
  "least a b = Some n \<Longrightarrow> b = Some x \<Longrightarrow> n \<le> x" "least a b = Some n \<Longrightarrow> a = Some y \<Longrightarrow> n \<le> y"
  by (auto simp: least_def split: option.splits)

lemma nonzero_Some: "nonzero v = Some n \<longleftrightarrow> v = Some n \<and> n \<noteq> 0"
  by (auto simp: nonzero_def)

lemma positive_Some: "positive v = Some x \<longleftrightarrow> v = Some x \<and> x > 0"
  by (auto simp: positive_def split: option.splits)

lemma ceiling_money:
  assumes "map_of (items (ceiling_currency (Some l) budget)) code = Some a"
  shows "a = or0 (money_limit l code)"
  using assms by (cases "l_currency budget") (auto simp: ceiling_currency_def map_of_map_pair money_limit_def)

lemma ceiling_token_limits:
  assumes "ceiling_tokens reservation (Some l) budget = Some t"
  shows "tl_in t = Some n \<Longrightarrow> token_limit_of l tl_in = Some x \<Longrightarrow> n \<le> x"
    and "tl_out t = Some n \<Longrightarrow> token_limit_of l tl_out = Some x \<Longrightarrow> n \<le> x"
    and "tl_in t = Some n \<Longrightarrow> u_in reservation = Some y \<Longrightarrow> n \<le> y"
    and "tl_out t = Some n \<Longrightarrow> u_out reservation = Some y \<Longrightarrow> n \<le> y"
  using assms by (auto simp: ceiling_tokens_def token_limit_of_def nonzero_Some Let_def least_le
      split: if_splits option.splits dest: least_le)

text \<open>while something is left of the budget, a worker's ceiling is never more than what is left of
  a kind the remainder names, nor than its reservation where the ceiling is not the remainder
  itself; in a currency it is exactly the money left.\<close>

theorem ceiling_within_left:
  assumes "remaining budget used = Some l" "c = ceiling_limits reservation (remaining budget used) budget per_second"
  shows "(\<forall>n x. token_limit_of c tl_in = Some n \<and> token_limit_of l tl_in = Some x \<longrightarrow> n \<le> x)
    \<and> (\<forall>n x. token_limit_of c tl_out = Some n \<and> token_limit_of l tl_out = Some x \<longrightarrow> n \<le> x)
    \<and> (\<forall>u x. l_quota c = Some u \<and> l_quota l = Some x \<longrightarrow> u \<le> x)
    \<and> (\<forall>code a. money_limit c code = Some a \<longrightarrow> a = or0 (money_limit l code))
    \<and> (c = l \<or> (\<forall>n y. token_limit_of c tl_in = Some n \<and> u_in reservation = Some y \<longrightarrow> n \<le> y)
         \<and> (\<forall>n y. token_limit_of c tl_out = Some n \<and> u_out reservation = Some y \<longrightarrow> n \<le> y)
         \<and> (\<forall>u y. l_quota c = Some u \<and> u_quota reservation = Some y \<longrightarrow> u \<le> y))"
proof (cases "c = l")
  case True
  then show ?thesis by auto
next
  case False
  let ?q = "if l_quota budget = None then None else positive (least (u_quota reservation) (l_quota l))"
  have c: "c = \<lparr>l_currency = (if items (ceiling_currency (Some l) budget) = [] then None else ceiling_currency (Some l) budget),
      l_quota = ?q, l_compute = ceiling_compute reservation (Some l) budget per_second,
      l_tokens = ceiling_tokens reservation (Some l) budget\<rparr>"
    using False unfolding assms(2) assms(1) ceiling_limits_def Let_def by (auto split: if_splits)
  have quota: "u \<le> x" if "l_quota c = Some u" "l_quota l = Some x" for u x
    using that by (auto simp: c positive_Some dest: least_le split: if_splits)
  have quota': "u \<le> y" if "l_quota c = Some u" "u_quota reservation = Some y" for u y
    using that by (auto simp: c positive_Some dest: least_le split: if_splits)
  have money: "a = or0 (money_limit l code)" if "money_limit c code = Some a" for code a
    using that ceiling_money [of l budget code a] by (auto simp: c money_limit_def split: if_splits)
  have toks: "\<exists>t. ceiling_tokens reservation (Some l) budget = Some t \<and> f t = Some n"
    if "token_limit_of c f = Some n" for f n
    using that by (auto simp: c token_limit_of_def split: option.splits)
  show ?thesis
    using quota quota' money toks ceiling_token_limits [of reservation l budget] by (intro conjI) blast+
qed

text \<open>C34: when nothing is left of any kind, the ceiling a worker is given is the whole budget in every
  currency, not what is left of the run's money: \<open>remaining\<close> says None for nothing left, and
  \<open>ceiling\<close> reads None as no limit known.\<close>

theorem exhausted_budget_is_handed_out_whole:
  assumes "remaining budget used = None"
  shows "l_currency budget \<noteq> Some [] \<longrightarrow>
    l_currency (ceiling_limits reservation (remaining budget used) budget per_second) = l_currency budget"
proof -
  have "ceiling_currency None budget = l_currency budget"
    by (cases "l_currency budget") (simp_all add: ceiling_currency_def map_idI)
  then show ?thesis using assms by (cases "l_currency budget") (auto simp: ceiling_limits_def Let_def)
qed

subsection \<open>A concrete admission\<close>

definition estimate_30 :: quantities where "estimate_30 = no_quantities\<lparr>u_in := Some 30\<rparr>"

definition euros :: "rat \<Rightarrow> limits" where
  "euros n = \<lparr>l_currency = Some [(''eur'', n)], l_quota = None, l_compute = None, l_tokens = None\<rparr>"

lemma estimate_30_ok: "quantities_ok estimate_30"
  by (simp add: estimate_30_def quantities_ok_def no_quantities_def)

lemma estimate_30_fits: "ad_fits (admit estimate_30 (remaining tokens_limit no_quantities) tokens_limit)"
  by (simp add: admit_exact fits_line_def compute_within_def holds_limit_def token_limit_of_def
      tokens_limit_def estimate_30_def no_quantities_def)

theorem admitted_step_keeps_line_witness:
  "or0 (u_in (consumed (reserving sample_run (new_step_run sample_step 0) estimate_30))) \<le> 1000"
proof -
  let ?s = "new_step_run sample_step 0"
  have "sr_step_id ?s = ''check''" by (simp add: new_step_run_def sample_step_def)
  have rel: "released sample_run (sr_step_id ?s) = sample_run"
    by (simp add: released_def sample_step_runs new_step_run_def)
  have "counted_steps sample_run = []"
    by (simp add: counted_steps_def sample_step_runs counted_def new_step_run_def map_filter_simps)
  then have used: "consumed sample_run = no_quantities"
    by (simp add: consumed_def Let_def no_quantities_def)
  have ids: "distinct (map sr_step_id (run_step_runs sample_run))"
    by (simp add: sample_step_runs new_step_run_def sample_step_def)
  have inn: "?s \<in> set (run_step_runs sample_run)" by (simp add: sample_step_runs)
  have ok: "\<forall>x \<in> set (run_step_runs sample_run). step_quantities_ok x"
    by (simp add: sample_step_runs step_quantities_ok_def new_step_run_def)
  have fits: "ad_fits (admit estimate_30 (remaining tokens_limit (consumed (released sample_run (sr_step_id ?s)))) tokens_limit)"
    by (simp add: rel used estimate_30_fits)
  from conjunct1 [OF admitted_step_keeps_line [OF ids inn ok estimate_30_ok fits]]
  show ?thesis by (simp add: rel used on_line_def token_limit_of_def tokens_limit_def no_quantities_def)
qed

theorem capped_reservation_fits_witness:
  "ad_fits (admit (capped (reserve estimate_30 [''tokens_in'' \<mapsto> 50]) (remaining tokens_limit no_quantities))
     (remaining tokens_limit no_quantities) tokens_limit)"
  by (rule capped_reservation_fits [OF estimate_30_ok estimate_30_fits])

theorem ceiling_within_left_witness:
  "money_limit (ceiling_limits estimate_30 (remaining (euros 10) no_quantities) (euros 10) None) ''eur'' = Some 10"
proof -
  have left: "remaining (euros 10) no_quantities = Some (euros 10)"
    by (simp add: remaining_def Let_def euros_def remaining_currency_def remaining_quota_def remaining_compute_def
        remaining_tokens_def exhausted_def money_def no_quantities_def)
  let ?c = "ceiling_limits estimate_30 (remaining (euros 10) no_quantities) (euros 10) None"
  have "\<forall>code a. money_limit ?c code = Some a \<longrightarrow> a = or0 (money_limit (euros 10) code)"
    using ceiling_within_left [OF left refl, of estimate_30 None] by blast
  moreover have "money_limit ?c ''eur'' \<noteq> None"
    unfolding left by (simp add: ceiling_limits_def Let_def ceiling_currency_def euros_def money_limit_def)
  moreover have "or0 (money_limit (euros 10) ''eur'') = 10" by (simp add: euros_def money_limit_def)
  ultimately show ?thesis by auto
qed

theorem exhausted_budget_is_handed_out_whole_witness:
  "l_currency (ceiling_limits estimate_30 (remaining (euros 10) (no_quantities\<lparr>u_currency := Some [(''eur'', 12)]\<rparr>))
     (euros 10) None) = Some [(''eur'', 10)]"
proof -
  have "remaining (euros 10) (no_quantities\<lparr>u_currency := Some [(''eur'', 12)]\<rparr>) = None"
    by (simp add: remaining_def Let_def euros_def remaining_currency_def remaining_quota_def remaining_compute_def
        remaining_tokens_def exhausted_def money_def no_quantities_def)
  from exhausted_budget_is_handed_out_whole [OF this] show ?thesis by (simp add: euros_def)
qed

end
