(* ===== verification/Run_Calibration.thy ===== *)
theory Run_Calibration
  imports Run_Budget
begin

text \<open>
  Calibration (\<open>budget.py\<close>): a scale over the observations of an adapter makes every one of them
  covered by what its estimate would reserve now, and a worker reserves its margin however many
  observations it has.
\<close>

lemma factor_Some: "s n = Some f \<Longrightarrow> factor s n = f"
  by (simp add: factor_def)

lemma factor_ratio_step: "factor s n \<le> factor (ratio_step s x) n"
proof (cases x)
  case (fields name est used)
  then show ?thesis by (simp add: ratio_step_def factor_def)
qed

lemma factor_foldl: "factor s n \<le> factor (foldl ratio_step s xs) n"
proof (induction xs arbitrary: s)
  case (Cons x xs)
  from Cons [of "ratio_step s x"] factor_ratio_step [of s n x] show ?case by simp
qed simp

lemma foldl_covers:
  "(name, est, used) \<in> set xs \<Longrightarrow> est > 0 \<Longrightarrow>
     used / est \<le> factor (foldl ratio_step s xs) name \<and> foldl ratio_step s xs name \<noteq> None"
proof (induction xs rule: rev_induct)
  case (snoc x xs)
  show ?case
  proof (cases "(name, est, used) = x")
    case True
    then have "foldl ratio_step s (xs @ [x]) = (foldl ratio_step s xs)(name \<mapsto> max (factor (foldl ratio_step s xs) name) (used / est))"
      using snoc.prems(2) by (simp add: ratio_step_def True [symmetric])
    then have "foldl ratio_step s (xs @ [x]) name = Some (max (factor (foldl ratio_step s xs) name) (used / est))"
      by simp
    moreover from this have "factor (foldl ratio_step s (xs @ [x])) name
        = max (factor (foldl ratio_step s xs) name) (used / est)" by (rule factor_Some)
    ultimately show ?thesis by simp
  next
    case False
    with snoc have ih: "used / est \<le> factor (foldl ratio_step s xs) name" "foldl ratio_step s xs name \<noteq> None"
      by auto
    have "foldl ratio_step s (xs @ [x]) name \<noteq> None"
      using ih(2) by (cases x) (simp add: ratio_step_def)
    moreover have "used / est \<le> factor (foldl ratio_step s (xs @ [x])) name"
      using ih(1) factor_ratio_step [of "foldl ratio_step s xs" name x] by simp
    ultimately show ?thesis by blast
  qed
qed simp

lemma factors_ge_1: "1 \<le> factor (factors obs window) name"
  using factor_foldl [of Map.empty name] by (simp add: factors_def factor_def [of Map.empty])

lemma factors_cover:
  assumes "ob \<in> set (last_n window obs)" "(name, est, used) \<in> set (pairs (o_estimate ob) (o_actual ob))" "est > 0"
  shows "used \<le> est * factor (factors obs window) name" "est \<le> est * factor (factors obs window) name"
    and "factors obs window name \<noteq> None"
proof -
  have "(name, est, used) \<in> set (concat (map (\<lambda>ob. pairs (o_estimate ob) (o_actual ob)) (last_n window obs)))"
    using assms(1,2) by auto
  from foldl_covers [OF this assms(3), of Map.empty]
  have f: "used / est \<le> factor (factors obs window) name" "factors obs window name \<noteq> None"
    by (simp_all add: factors_def)
  then show "used \<le> est * factor (factors obs window) name" using assms(3) by (simp add: field_simps)
  show "est \<le> est * factor (factors obs window) name"
    using mult_left_mono [OF factors_ge_1 [of obs window name], of est] assms(3) by simp
  show "factors obs window name \<noteq> None" by (rule f(2))
qed

lemma pairs_members:
  "u_in e = Some n \<Longrightarrow> (''tokens_in'', of_int n, of_int (or0 (u_in a))) \<in> set (pairs e a)"
  "u_out e = Some n \<Longrightarrow> (''tokens_out'', of_int n, of_int (or0 (u_out a))) \<in> set (pairs e a)"
  "u_quota e = Some x \<Longrightarrow> (''quota_units'', x, or0 (u_quota a)) \<in> set (pairs e a)"
  "u_compute e = Some x \<Longrightarrow> (''compute_seconds'', x, or0 (u_compute a)) \<in> set (pairs e a)"
  "(code, x) \<in> set (items (u_currency e)) \<Longrightarrow> (''currency.'' @ code, x, money a code) \<in> set (pairs e a)"
  by (auto simp: pairs_def)

lemma ceil_cover: "x \<le> of_int n * f \<Longrightarrow> of_int m = x \<Longrightarrow> m \<le> \<lceil>of_int n * f\<rceil>" for f x :: rat
  by (metis ceiling_mono ceiling_of_int)

text \<open>a calibrated reservation would have held every step it was calibrated on: for each of the last
  \<open>window\<close> observations, the estimate scaled by the factors is at least what the step used, and
  never below the estimate, for tokens, quota, compute and every currency.\<close>

theorem calibration_covers_observations:
  assumes "ob \<in> set (last_n window obs)"
  shows "(\<forall>n > 0. u_in (o_estimate ob) = Some n \<longrightarrow>
        (\<exists>m. u_in (reserve (o_estimate ob) (factors obs window)) = Some m \<and> n \<le> m \<and> or0 (u_in (o_actual ob)) \<le> m))
    \<and> (\<forall>n > 0. u_out (o_estimate ob) = Some n \<longrightarrow>
        (\<exists>m. u_out (reserve (o_estimate ob) (factors obs window)) = Some m \<and> n \<le> m \<and> or0 (u_out (o_actual ob)) \<le> m))
    \<and> (\<forall>x > 0. u_quota (o_estimate ob) = Some x \<longrightarrow>
        (\<exists>y. u_quota (reserve (o_estimate ob) (factors obs window)) = Some y \<and> x \<le> y \<and> or0 (u_quota (o_actual ob)) \<le> y))
    \<and> (\<forall>x > 0. u_compute (o_estimate ob) = Some x \<longrightarrow>
        (\<exists>y. u_compute (reserve (o_estimate ob) (factors obs window)) = Some y \<and> x \<le> y \<and> or0 (u_compute (o_actual ob)) \<le> y))
    \<and> (\<forall>(code, x) \<in> set (items (u_currency (o_estimate ob))). x > 0 \<longrightarrow>
        (\<exists>y. (code, y) \<in> set (items (u_currency (reserve (o_estimate ob) (factors obs window))))
            \<and> x \<le> y \<and> money (o_actual ob) code \<le> y))"
proof -
  note cover = factors_cover [OF assms]
  let ?e = "o_estimate ob" and ?a = "o_actual ob" and ?s = "factors obs window"
  have ints: "n \<le> \<lceil>of_int n * factor ?s name\<rceil> \<and> or0 used \<le> \<lceil>of_int n * factor ?s name\<rceil>"
    if "(name, of_int n, of_int (or0 used)) \<in> set (pairs ?e ?a)" "n > 0" for name n used
  proof -
    have "of_int n \<le> of_int n * factor ?s name" "of_int (or0 used) \<le> of_int n * factor ?s name"
      using cover(1,2) [OF that(1)] that(2) by simp_all
    then show ?thesis using ceil_cover by blast
  qed
  have "\<exists>m. u_in (reserve ?e ?s) = Some m \<and> n \<le> m \<and> or0 (u_in ?a) \<le> m"
    if "u_in ?e = Some n" "n > 0" for n
    using ints [OF pairs_members(1)] that by (simp add: reserve_def scale_int_def)
  moreover have "\<exists>m. u_out (reserve ?e ?s) = Some m \<and> n \<le> m \<and> or0 (u_out ?a) \<le> m"
    if "u_out ?e = Some n" "n > 0" for n
    using ints [OF pairs_members(2)] that by (simp add: reserve_def scale_int_def)
  moreover have "\<exists>y. u_quota (reserve ?e ?s) = Some y \<and> x \<le> y \<and> or0 (u_quota ?a) \<le> y"
    if "u_quota ?e = Some x" "x > 0" for x
    using cover [OF pairs_members(3)] that by (simp add: reserve_def scale_rat_def)
  moreover have "\<exists>y. u_compute (reserve ?e ?s) = Some y \<and> x \<le> y \<and> or0 (u_compute ?a) \<le> y"
    if "u_compute ?e = Some x" "x > 0" for x
    using cover [OF pairs_members(4)] that by (simp add: reserve_def scale_rat_def)
  moreover have "\<exists>y. (code, y) \<in> set (items (u_currency (reserve ?e ?s))) \<and> x \<le> y \<and> money ?a code \<le> y"
    if "(code, x) \<in> set (items (u_currency ?e))" "x > 0" for code x
  proof -
    from cover [OF pairs_members(5) [OF that(1)] that(2)] obtain f where f: "?s (''currency.'' @ code) = Some f"
      "x \<le> x * f" "money ?a code \<le> x * f" by (auto simp: factor_def)
    then have "currency_factor ?s code = f" by (simp add: currency_factor_def)
    moreover have "(code, x * currency_factor ?s code) \<in> set (items (u_currency (reserve ?e ?s)))"
      using that(1) by (force simp: reserve_def)
    ultimately show ?thesis using f by auto
  qed
  ultimately show ?thesis by blast
qed

subsection \<open>A worker's margin\<close>

lemma raise_to_named: "n \<in> set names \<Longrightarrow> least_factor \<le> factor (raise_to least_factor names s) n"
  by (rule order_trans [OF max.cobounded2 eq_refl [OF factor_Some [symmetric]]]) (simp add: raise_to_def)

lemma raise_to_currency:
  "''currency.*'' \<in> set names \<Longrightarrow> least_factor \<le> currency_factor (raise_to least_factor names s) code"
proof (cases "raise_to least_factor names s (''currency.'' @ code)")
  case None
  assume "''currency.*'' \<in> set names"
  from raise_to_named [OF this] None show ?thesis by (simp add: currency_factor_def)
next
  case (Some f)
  then have "least_factor \<le> f" by (auto simp: raise_to_def split: if_splits)
  with Some show ?thesis by (simp add: currency_factor_def)
qed

definition worker_margin :: "rat \<Rightarrow> rat \<Rightarrow> nat \<Rightarrow> rat" where
  "worker_margin uncalibrated least_margin count =
     max (uncalibrated / (1 + of_nat count)) (min least_margin uncalibrated)"

lemma scale_for_worker:
  "\<exists>history. fst (scale_for adapter WORKER required obs seeds unc models least_margin stp)
     = raise_to (1 + worker_margin unc least_margin (length (last_n WINDOW history))) (SCALED @ [''currency.*'']) (factors history WINDOW)
     \<and> (filter (\<lambda>ob. o_adapter ob = adapter \<and> o_method ob = WORKER) obs = [] \<and> seeds = [] \<longrightarrow> history = [])"
  by (rule exI [of _ "fst (history_for adapter WORKER required
        (filter (\<lambda>ob. o_adapter ob = adapter \<and> o_method ob = WORKER) obs) seeds models)"])
    (simp add: scale_for_def worker_margin_def Let_def split_beta history_for_def)

lemma reserve_at_least:
  assumes "\<And>n. n \<in> set SCALED \<Longrightarrow> f \<le> factor scale n" "\<And>code. f \<le> currency_factor scale code" "quantities_ok e"
  shows "u_in e = Some n \<Longrightarrow> \<exists>m. u_in (reserve e scale) = Some m \<and> of_int n * f \<le> of_int m"
    and "u_out e = Some n \<Longrightarrow> \<exists>m. u_out (reserve e scale) = Some m \<and> of_int n * f \<le> of_int m"
    and "u_quota e = Some x \<Longrightarrow> \<exists>y. u_quota (reserve e scale) = Some y \<and> x * f \<le> y"
    and "u_compute e = Some x \<Longrightarrow> \<exists>y. u_compute (reserve e scale) = Some y \<and> x * f \<le> y"
    and "(code, x) \<in> set (items (u_currency e)) \<Longrightarrow>
      \<exists>y. (code, y) \<in> set (items (u_currency (reserve e scale))) \<and> x * f \<le> y"
proof -
  have nonneg: "or0 (u_in e) \<ge> 0" "or0 (u_out e) \<ge> 0" "or0 (u_quota e) \<ge> 0" "or0 (u_compute e) \<ge> 0"
    using assms(3) by (simp_all add: quantities_ok_def)
  have int_case: "of_int n * f \<le> of_int \<lceil>of_int n * factor scale name\<rceil>" if "name \<in> set SCALED" "n \<ge> 0" for n name
    using order_trans [OF mult_left_mono [OF assms(1) [OF that(1)], of "of_int n"] le_of_int_ceiling] that(2) by simp
  have rat_case: "x * f \<le> x * factor scale name" if "name \<in> set SCALED" "x \<ge> 0" for x name
    using mult_left_mono [OF assms(1) [OF that(1)], of x] that(2) by simp
  show "u_in e = Some n \<Longrightarrow> \<exists>m. u_in (reserve e scale) = Some m \<and> of_int n * f \<le> of_int m"
    using nonneg(1) by (simp add: reserve_def scale_int_def int_case SCALED_def)
  show "u_out e = Some n \<Longrightarrow> \<exists>m. u_out (reserve e scale) = Some m \<and> of_int n * f \<le> of_int m"
    using nonneg(2) by (simp add: reserve_def scale_int_def int_case SCALED_def)
  show "u_quota e = Some x \<Longrightarrow> \<exists>y. u_quota (reserve e scale) = Some y \<and> x * f \<le> y"
    using nonneg(3) by (simp add: reserve_def scale_rat_def rat_case SCALED_def)
  show "u_compute e = Some x \<Longrightarrow> \<exists>y. u_compute (reserve e scale) = Some y \<and> x * f \<le> y"
    using nonneg(4) by (simp add: reserve_def scale_rat_def rat_case SCALED_def)
  show "\<exists>y. (code, y) \<in> set (items (u_currency (reserve e scale))) \<and> x * f \<le> y"
    if cur: "(code, x) \<in> set (items (u_currency e))"
  proof -
    have "x \<ge> 0" using assms(3) cur by (auto simp: quantities_ok_def)
    then have "x * f \<le> x * currency_factor scale code" using assms(2) by (intro mult_left_mono)
    moreover have "(code, x * currency_factor scale code) \<in> set (items (u_currency (reserve e scale)))"
      using cur by (force simp: reserve_def)
    ultimately show ?thesis by blast
  qed
qed

text \<open>a worker reserves at least its estimate plus the margin floor, or plus the operator's smaller
  uncalibrated margin, for every quantity, however its observations turned out.\<close>

theorem worker_reserves_margin:
  assumes "quantities_ok e" "scale = fst (scale_for adapter WORKER required obs seeds unc models least_margin stp)"
  shows "(\<forall>n. u_in e = Some n \<longrightarrow>
        (\<exists>m. u_in (reserve e scale) = Some m \<and> of_int n * (1 + min least_margin unc) \<le> of_int m))
    \<and> (\<forall>n. u_out e = Some n \<longrightarrow>
        (\<exists>m. u_out (reserve e scale) = Some m \<and> of_int n * (1 + min least_margin unc) \<le> of_int m))
    \<and> (\<forall>x. u_quota e = Some x \<longrightarrow>
        (\<exists>y. u_quota (reserve e scale) = Some y \<and> x * (1 + min least_margin unc) \<le> y))
    \<and> (\<forall>x. u_compute e = Some x \<longrightarrow>
        (\<exists>y. u_compute (reserve e scale) = Some y \<and> x * (1 + min least_margin unc) \<le> y))
    \<and> (\<forall>(code, x) \<in> set (items (u_currency e)).
        \<exists>y. (code, y) \<in> set (items (u_currency (reserve e scale))) \<and> x * (1 + min least_margin unc) \<le> y)"
proof -
  let ?f = "1 + min least_margin unc"
  obtain history where scale: "scale = raise_to (1 + worker_margin unc least_margin (length (last_n WINDOW history)))
      (SCALED @ [''currency.*'']) (factors history WINDOW)"
    using scale_for_worker [of adapter required obs seeds unc models least_margin stp]
    unfolding assms(2) by blast
  have f: "?f \<le> 1 + worker_margin unc least_margin (length (last_n WINDOW history))"
    by (simp add: worker_margin_def)
  have named: "?f \<le> factor scale n" if "n \<in> set SCALED" for n
    unfolding scale by (rule order_trans [OF f raise_to_named]) (use that in simp)
  have currency: "?f \<le> currency_factor scale code" for code
    unfolding scale by (rule order_trans [OF f raise_to_currency]) simp
  note at_least = reserve_at_least [OF named currency assms(1)]
  have "\<forall>(code, x) \<in> set (items (u_currency e)).
        \<exists>y. (code, y) \<in> set (items (u_currency (reserve e scale))) \<and> x * ?f \<le> y"
    using at_least(5) by blast
  then show ?thesis by (intro conjI allI impI) ((rule at_least(1-4), assumption+) | assumption)+
qed

subsection \<open>Concrete observations\<close>

definition sample_observation :: observation where
  "sample_observation = \<lparr>o_adapter = ''writer'', o_method = WORKER,
     o_estimate = no_quantities\<lparr>u_in := Some 100\<rparr>, o_actual = no_quantities\<lparr>u_in := Some 250\<rparr>, o_step = None\<rparr>"

theorem calibration_covers_observations_witness:
  "\<exists>m. u_in (reserve (o_estimate sample_observation) (factors [sample_observation] WINDOW)) = Some m \<and> 250 \<le> m"
proof -
  have "sample_observation \<in> set (last_n WINDOW [sample_observation])" by (simp add: last_n_def WINDOW_def)
  note cover = conjunct1 [OF calibration_covers_observations [OF this]]
  have "u_in (o_estimate sample_observation) = Some 100" "or0 (u_in (o_actual sample_observation)) = 250"
    by (simp_all add: sample_observation_def)
  with cover show ?thesis by fastforce
qed

theorem worker_reserves_margin_witness:
  "\<exists>m. u_in (reserve (no_quantities\<lparr>u_in := Some 100\<rparr>)
       (fst (scale_for ''writer'' WORKER {} [] [] UNCALIBRATED_MARGIN {} MARGIN_FLOOR None))) = Some m \<and> 110 \<le> m"
proof -
  have "quantities_ok (no_quantities\<lparr>u_in := Some 100\<rparr>)" by (simp add: quantities_ok_def no_quantities_def)
  from conjunct1 [OF worker_reserves_margin [OF this refl,
        of "''writer''" "{}" "[]" "[]" UNCALIBRATED_MARGIN "{}" MARGIN_FLOOR None]]
  obtain m where "u_in (reserve (no_quantities\<lparr>u_in := Some 100\<rparr>)
       (fst (scale_for ''writer'' WORKER {} [] [] UNCALIBRATED_MARGIN {} MARGIN_FLOOR None))) = Some m"
    "of_int 100 * (1 + min MARGIN_FLOOR UNCALIBRATED_MARGIN) \<le> (of_int m :: rat)" by auto
  then show ?thesis by (auto simp: MARGIN_FLOOR_def UNCALIBRATED_MARGIN_def)
qed

end
