(* ===== verification/Run_Provenance.thy ===== *)
theory Run_Provenance
  imports Run_Model
begin

text \<open>
  The provenance of a run (\<open>shared/v1/provenance.py\<close>, \<open>run/domain/service/provenance.py\<close>): the
  record a completed step leaves, and the walk that says where a run's chain is broken. A finding
  is a value with what it names. A run with a step run whose step it does not have makes the walk
  raise, as \<open>Run.step\<close> does.
\<close>

subsection \<open>Records\<close>

datatype input_kind = IN_ARTIFACT | IN_RESULT | IN_SOURCE | IN_MESSAGE

record provenance_input =
  pi_kind :: input_kind
  pi_run_id :: "string option"
  pi_step_id :: "string option"
  pi_artifact_id :: "string option"
  pi_capability :: "string option"
  pi_ref :: "string option"
  pi_digest :: "string option"
  pi_observed_at :: moment

definition input_present :: "provenance_input \<Rightarrow> string list" where
  "input_present i =
     (if pi_run_id i \<noteq> None then [''run_id''] else []) @ (if pi_step_id i \<noteq> None then [''step_id''] else [])
   @ (if pi_artifact_id i \<noteq> None then [''artifact_id''] else [])
   @ (if pi_capability i \<noteq> None then [''capability''] else []) @ (if pi_ref i \<noteq> None then [''ref''] else [])"

fun input_fields :: "input_kind \<Rightarrow> string list \<times> string list" where
  "input_fields IN_ARTIFACT = ([''run_id'', ''step_id'', ''artifact_id''], [''capability'', ''ref''])"
| "input_fields IN_RESULT = ([''run_id'', ''step_id''], [''artifact_id'', ''capability'', ''ref''])"
| "input_fields IN_MESSAGE = ([''ref''], [''run_id'', ''step_id'', ''artifact_id'', ''capability''])"
| "input_fields IN_SOURCE = ([''capability'', ''ref''], [''run_id'', ''step_id'', ''artifact_id''])"

text \<open>\<open>MESSAGE_REF\<close>: \<open>msg_\<close> and at least four characters of its alphabet.\<close>

definition message_char :: "char \<Rightarrow> bool" where
  "message_char c \<longleftrightarrow> lower c \<or> in_range (CHR ''A'') (CHR ''Z'') c \<or> is_digit c \<or> c = CHR ''_'' \<or> c = CHR ''-''"

definition message_ref :: "string \<Rightarrow> bool" where
  "message_ref s \<longleftrightarrow> take 4 s = ''msg_'' \<and> length s \<ge> 8 \<and> list_all message_char (drop 4 s)"

text \<open>\<open>ProvenanceInput._fields_of_its_kind\<close>: whether the validator accepts.\<close>

definition input_ok :: "provenance_input \<Rightarrow> bool" where
  "input_ok i \<longleftrightarrow>
     (pi_kind i \<noteq> IN_SOURCE \<longrightarrow> pi_digest i \<noteq> None)
   \<and> (pi_kind i = IN_MESSAGE \<longrightarrow> pred_option message_ref (pi_ref i))
   \<and> set (fst (input_fields (pi_kind i))) \<subseteq> set (input_present i)
   \<and> set (snd (input_fields (pi_kind i))) \<inter> set (input_present i) = {}"

datatype skip_reason = SKIP_RESIDENCY | SKIP_EXACTNESS | SKIP_COOLING_DOWN

record route_skip =
  rs_adapter :: string
  rs_reason :: skip_reason

record provenance_route =
  pr_purpose :: string
  pr_adapter :: string
  pr_permitted :: string
  pr_data_class :: "string option"
  pr_skipped :: "route_skip list"

record provenance =
  p_id :: string
  p_run_id :: string
  p_step_id :: string
  p_process_version :: string
  p_method :: method_kind
  p_exactness :: "exactness_class option"
  p_model :: "string option"
  p_prompt :: "string option"
  p_adapter :: "string option"
  p_adapter_version :: "string option"
  p_route :: "provenance_route option"
  p_scope :: "string option"
  p_inputs :: "provenance_input list"
  p_outputs :: "string list"
  p_result_digest :: "string option"
  p_ledger_seq :: int
  p_recorded_at :: moment

datatype provenance_rule =
    Result_Without_Exactness
  | Exactness_Without_Result
  | Version_Without_Adapter
  | Route_Of_Other_Adapter
  | Empty_Output
  | Output_Twice

text \<open>\<open>Provenance._rules\<close>.\<close>

definition provenance_findings :: "provenance \<Rightarrow> provenance_rule list" where
  "provenance_findings p =
     (if p_method p \<in> PRODUCING \<and> p_exactness p = None then [Result_Without_Exactness] else [])
   @ (if p_method p \<in> NON_PRODUCING \<and> p_exactness p \<noteq> None then [Exactness_Without_Result] else [])
   @ (if p_adapter_version p \<noteq> None \<and> p_adapter p = None then [Version_Without_Adapter] else [])
   @ (case p_route p of None \<Rightarrow> []
      | Some r \<Rightarrow> if Some (pr_adapter r) \<noteq> p_adapter p then [Route_Of_Other_Adapter] else [])
   @ (if [] \<in> set (p_outputs p) then [Empty_Output] else [])
   @ (if \<not> distinct (p_outputs p) then [Output_Twice] else [])"

definition produced :: "provenance \<Rightarrow> string \<Rightarrow> bool" where
  "produced p a \<longleftrightarrow> a \<in> set (p_outputs p)"

definition reads_from :: "provenance \<Rightarrow> (string \<times> string) set" where
  "reads_from p =
     {(the (pi_run_id i), the (pi_step_id i)) | i. i \<in> set (p_inputs p) \<and> pi_run_id i \<noteq> None \<and> pi_step_id i \<noteq> None}"

subsection \<open>Building a record\<close>

definition exactness_of :: "run \<Rightarrow> step_run \<Rightarrow> run_error + exactness_class option" where
  "exactness_of r s =
     (if sr_method s \<in> NON_PRODUCING then Inr None
      else case step_of r (sr_step_id s) of Inl e \<Rightarrow> Inl e | Inr st \<Rightarrow> Inr (s_exactness st))"

definition result_digest_of :: "step_run \<Rightarrow> string option" where
  "result_digest_of s = (case sr_checkpoint s of None \<Rightarrow> None | Some c \<Rightarrow> cp_result_digest c)"

definition provenance_record ::
  "run \<Rightarrow> step_run \<Rightarrow> string \<Rightarrow> provenance_input list \<Rightarrow> ledger_entry \<Rightarrow> string option \<Rightarrow> moment \<Rightarrow>
   provenance_route option \<Rightarrow> string option \<Rightarrow> run_error + provenance" where
  "provenance_record r s ident inputs entry adapter_version now route scope =
     (case (step_of r (sr_step_id s), exactness_of r s) of
        (Inl e, _) \<Rightarrow> Inl e
      | (_, Inl e) \<Rightarrow> Inl e
      | (Inr st, Inr ex) \<Rightarrow> Inr
          \<lparr>p_id = ident, p_run_id = run_id r, p_step_id = sr_step_id s,
           p_process_version = run_process_version r, p_method = sr_method s, p_exactness = ex,
           p_model = s_model st, p_prompt = None, p_adapter = sr_adapter s,
           p_adapter_version = (if sr_adapter s \<noteq> None then adapter_version else None),
           p_route = (if sr_adapter s \<noteq> None then route else None),
           p_scope = scope, p_inputs = inputs, p_outputs = map af_id (sr_artifacts s),
           p_result_digest = result_digest_of s, p_ledger_seq = e_seq entry, p_recorded_at = now\<rparr>)"

definition FIXED_BYTES :: nat where "FIXED_BYTES = 1024"
definition BYTES_PER_INPUT :: nat where "BYTES_PER_INPUT = 384"
definition BYTES_PER_OUTPUT :: nat where "BYTES_PER_OUTPUT = 80"
definition ROUTE_BYTES :: nat where "ROUTE_BYTES = 320"
definition BYTES_PER_SKIP :: nat where "BYTES_PER_SKIP = 112"
definition SCOPE_BYTES :: nat where "SCOPE_BYTES = 288"

definition size_bound :: "provenance \<Rightarrow> nat" where
  "size_bound p =
     FIXED_BYTES + BYTES_PER_INPUT * length (p_inputs p) + BYTES_PER_OUTPUT * length (p_outputs p)
   + (case p_route p of None \<Rightarrow> 0 | Some r \<Rightarrow> ROUTE_BYTES + BYTES_PER_SKIP * length (pr_skipped r))
   + (if p_scope p = None then 0 else SCOPE_BYTES)"

subsection \<open>Verifying a chain\<close>

datatype chain_finding =
    Other_Run string string
  | Recorded_Twice string
  | Recorded_Although string step_state
  | Without_Record string
  | Unknown_Step string
  | Differs_From_Step string string
  | Reads_Not_Before string "string option"
  | Reads_Unrecorded string "string option"
  | Artifact_Not_Listed string "string option"
  | Digest_Not_Carried string
  | Entry_Missing string int
  | Entry_Not_Completion string int
  | Entry_Of_Other_Step string int
  | Differs_From_Entry string string int

record chain_verification =
  cv_records :: nat
  cv_intact :: bool
  cv_findings :: "chain_finding list"

definition FINISHED :: string where "FINISHED = ''step.finished''"
definition SUCCEEDED :: string where "SUCCEEDED = ''succeeded''"
definition SETTLED :: "string list" where "SETTLED = [''skipped'', ''declined'']"
definition REHEARSED :: string where "REHEARSED = ''rehearsed''"

text \<open>\<open>_ancestors\<close>: the loop over the steps, the dictionary so far an association list.\<close>

definition own_ancestors :: "(string \<times> string set) list \<Rightarrow> step \<Rightarrow> string set" where
  "own_ancestors acc st =
     (\<Union>d \<in> set (dependencies st). insert d (case map_of acc d of None \<Rightarrow> {} | Some a \<Rightarrow> a))"

definition ancestors_step :: "(string \<times> string set) list \<Rightarrow> step \<Rightarrow> (string \<times> string set) list" where
  "ancestors_step acc st = AList.update (s_id st) (own_ancestors acc st) acc"

definition ancestors :: "run \<Rightarrow> (string \<times> string set) list" where
  "ancestors r = foldl ancestors_step [] (run_steps r)"

definition differs :: "(string \<times> bool) list \<Rightarrow> (string \<Rightarrow> 'a) \<Rightarrow> 'a list" where
  "differs expected finding = map (finding \<circ> fst) (filter (\<lambda>(_, same). \<not> same) expected)"

definition against_step_run :: "run \<Rightarrow> step_run \<Rightarrow> provenance \<Rightarrow> run_error + chain_finding list" where
  "against_step_run r s p =
     (case (step_of r (sr_step_id s), exactness_of r s) of
        (Inl e, _) \<Rightarrow> Inl e
      | (_, Inl e) \<Rightarrow> Inl e
      | (Inr st, Inr ex) \<Rightarrow> Inr (differs
          [(''process_version'', run_process_version r = p_process_version p),
           (''method'', sr_method s = p_method p),
           (''exactness'', ex = p_exactness p),
           (''model'', s_model st = p_model p),
           (''adapter'', sr_adapter s = p_adapter p),
           (''outputs'', map af_id (sr_artifacts s) = p_outputs p),
           (''result_digest'', result_digest_of s = p_result_digest p)]
          (Differs_From_Step (sr_step_id s))))"

definition input_findings :: "run \<Rightarrow> provenance \<Rightarrow> string set \<Rightarrow> provenance list \<Rightarrow> provenance_input \<Rightarrow> chain_finding list" where
  "input_findings r p anc records i =
     (if pi_kind i = IN_SOURCE \<or> pi_run_id i \<noteq> Some (run_id r) then []
      else
        (if (case pi_step_id i of None \<Rightarrow> True | Some s \<Rightarrow> s \<notin> anc)
         then [Reads_Not_Before (p_step_id p) (pi_step_id i)] else [])
      @ (case List.find (\<lambda>q. Some (p_run_id q) = pi_run_id i \<and> Some (p_step_id q) = pi_step_id i) records of
           None \<Rightarrow> [Reads_Unrecorded (p_step_id p) (pi_step_id i)]
         | Some q \<Rightarrow>
             (if pi_kind i = IN_ARTIFACT
                 \<and> (case pi_artifact_id i of None \<Rightarrow> True | Some a \<Rightarrow> \<not> produced q a)
              then [Artifact_Not_Listed (p_step_id p) (pi_artifact_id i)] else [])
           @ (if pi_kind i = IN_RESULT \<and> pi_digest i \<noteq> p_result_digest q
              then [Digest_Not_Carried (p_step_id p)] else [])))"

definition inputs_findings :: "run \<Rightarrow> provenance \<Rightarrow> string set \<Rightarrow> provenance list \<Rightarrow> chain_finding list" where
  "inputs_findings r p anc records = concat (map (input_findings r p anc records) (p_inputs p))"

definition completed_entry :: "ledger_entry \<Rightarrow> bool" where
  "completed_entry e \<longleftrightarrow>
     f_outcome e = Some SUCCEEDED \<or> (case f_outcome e of None \<Rightarrow> False | Some t \<Rightarrow> t \<in> set SETTLED)
   \<or> (f_outcome e = Some REHEARSED \<and> f_rehearsal e)"

definition against_ledger :: "provenance \<Rightarrow> ledger_entry option \<Rightarrow> chain_finding list" where
  "against_ledger p entry =
     (case entry of
        None \<Rightarrow> [Entry_Missing (p_step_id p) (p_ledger_seq p)]
      | Some e \<Rightarrow>
          (if f_kind e \<noteq> FINISHED \<or> \<not> completed_entry e then [Entry_Not_Completion (p_step_id p) (e_seq e)] else [])
        @ (if r_run_id (f_refs e) \<noteq> Some (p_run_id p) \<or> r_step_id (f_refs e) \<noteq> Some (p_step_id p)
           then [Entry_Of_Other_Step (p_step_id p) (e_seq e)] else [])
        @ differs
            [(''method'', f_method e = Some (p_method p)),
             (''adapter'', f_adapter e = p_adapter p),
             (''artifact_ids'', (case r_artifact_ids (f_refs e) of None \<Rightarrow> [] | Some ids \<Rightarrow> ids) = p_outputs p),
             (''content_digest'', f_content_digest e = p_result_digest p)]
            (\<lambda>name. Differs_From_Entry (p_step_id p) name (e_seq e)))"

text \<open>The first record of each step of the run, in order; another run's and a second one are findings.\<close>

fun index_records ::
  "run \<Rightarrow> (string \<times> provenance) list \<Rightarrow> provenance list \<Rightarrow> chain_finding list \<times> (string \<times> provenance) list" where
  "index_records r by_step [] = ([], by_step)"
| "index_records r by_step (p # ps) =
     (if p_run_id p \<noteq> run_id r then
        (let (fs, m) = index_records r by_step ps in (Other_Run (p_step_id p) (p_run_id p) # fs, m))
      else if map_of by_step (p_step_id p) \<noteq> None then
        (let (fs, m) = index_records r by_step ps in (Recorded_Twice (p_step_id p) # fs, m))
      else index_records r (by_step @ [(p_step_id p, p)]) ps)"

text \<open>The loop over the step runs; each takes its record out of the index.\<close>

fun walk_step_runs ::
  "run \<Rightarrow> (string \<times> string set) list \<Rightarrow> provenance list \<Rightarrow> (string \<times> provenance) list \<Rightarrow> step_run list \<Rightarrow>
   run_error + chain_finding list \<times> (string \<times> provenance) list" where
  "walk_step_runs r anc records by_step [] = Inr ([], by_step)"
| "walk_step_runs r anc records by_step (s # ss) =
     (let own = map_of by_step (sr_step_id s);
          here = (case own of
             None \<Rightarrow> Inr (if done_run s then [Without_Record (sr_step_id s)] else [])
           | Some p \<Rightarrow>
               if \<not> done_run s then Inr [Recorded_Although (sr_step_id s) (sr_state s)]
               else (case against_step_run r s p of
                       Inl e \<Rightarrow> Inl e
                     | Inr fs \<Rightarrow>
                         (case map_of anc (sr_step_id s) of
                            None \<Rightarrow> Inl (No_Such_Step (sr_step_id s))
                          | Some a \<Rightarrow> Inr (fs @ inputs_findings r p a records))))
      in case here of
           Inl e \<Rightarrow> Inl e
         | Inr fs \<Rightarrow>
             (case walk_step_runs r anc records (AList.delete (sr_step_id s) by_step) ss of
                Inl e \<Rightarrow> Inl e
              | Inr (gs, m) \<Rightarrow> Inr (fs @ gs, m)))"

text \<open>A later entry with a number replaces an earlier one in \<open>by_seq\<close>.\<close>

definition entry_at :: "ledger_entry list \<Rightarrow> int \<Rightarrow> ledger_entry option" where
  "entry_at es n = List.find (\<lambda>e. e_seq e = n) (rev es)"

definition verify_provenance ::
  "run \<Rightarrow> provenance list \<Rightarrow> ledger_entry list option \<Rightarrow> run_error + chain_verification" where
  "verify_provenance r records es =
     (let (fs, by_step) = index_records r [] records
      in case walk_step_runs r (ancestors r) records by_step (run_step_runs r) of
           Inl e \<Rightarrow> Inl e
         | Inr (gs, rest) \<Rightarrow>
             let ledger = (case es of None \<Rightarrow> []
                 | Some entries \<Rightarrow> concat (map (\<lambda>p. against_ledger p (entry_at entries (p_ledger_seq p)))
                     (filter (\<lambda>p. p_run_id p = run_id r) records)));
                 found = fs @ gs @ map (\<lambda>(s, _). Unknown_Step s) rest @ ledger
             in Inr \<lparr>cv_records = length records, cv_intact = (found = []), cv_findings = found\<rparr>)"

subsection \<open>Recordings\<close>

text \<open>\<open>recording\<close> of \<open>rehearsal.py\<close>: the latest real call of an operation.\<close>

record recording =
  rec_run_id :: string
  rec_step_id :: string
  rec_digest :: string
  rec_finished_at :: moment

definition recorded_call :: "run \<Rightarrow> string \<Rightarrow> string \<Rightarrow> step_run \<Rightarrow> recording option" where
  "recorded_call r adapter operation s =
     (if \<not> done_run s \<or> sr_adapter s \<noteq> Some adapter then None
      else case sr_checkpoint s of
        None \<Rightarrow> None
      | Some c \<Rightarrow>
          (case cp_result_digest c of
             None \<Rightarrow> None
           | Some d \<Rightarrow>
               let work = (case map_of (run_work r) (sr_step_id s) of None \<Rightarrow> [] | Some w \<Rightarrow> w)
               in if map_of work ''rule'' \<noteq> Some (JStr ''connector'') \<or> map_of work ''operation'' \<noteq> Some (JStr operation)
                  then None
                  else Some \<lparr>rec_run_id = run_id r, rec_step_id = sr_step_id s, rec_digest = d,
                     rec_finished_at = (case sr_finished_at s of None \<Rightarrow> cp_taken_at c | Some t \<Rightarrow> t)\<rparr>))"

definition later_recording :: "recording option \<Rightarrow> recording option \<Rightarrow> recording option" where
  "later_recording found new =
     (case (found, new) of
        (_, None) \<Rightarrow> found
      | (None, Some n) \<Rightarrow> Some n
      | (Some f, Some n) \<Rightarrow> if rec_finished_at n > rec_finished_at f then Some n else Some f)"

definition find_recording :: "run list \<Rightarrow> string \<Rightarrow> string \<Rightarrow> recording option" where
  "find_recording rs adapter operation =
     foldl (\<lambda>found r. if run_rehearsal r then found
              else foldl (\<lambda>f s. later_recording f (recorded_call r adapter operation s)) found (run_step_runs r))
       None rs"

end
