(* ===== verification/Run_Provenance_Chain.thy ===== *)
theory Run_Provenance_Chain
  imports Run_Provenance Run_Progress Ledger_Verification
begin

text \<open>
  What the walk over a run's provenance says: it finds nothing exactly when the chain is complete
  and every record agrees with its step run and its inputs; and the records Taktus builds for a
  run make such a chain, bound to their ledger entries.
\<close>

subsection \<open>The index of the records\<close>

lemma index_records_Nil:
  "fst (index_records r m ps) = [] \<longleftrightarrow>
     (\<forall>p \<in> set ps. p_run_id p = run_id r) \<and> distinct (map p_step_id ps)
     \<and> fst ` set m \<inter> p_step_id ` set ps = {}"
proof (induction r m ps rule: index_records.induct)
  case (2 r m p ps)
  consider "p_run_id p \<noteq> run_id r" | "p_run_id p = run_id r" "map_of m (p_step_id p) \<noteq> None"
    | "p_run_id p = run_id r" "map_of m (p_step_id p) = None" by blast
  then show ?case
  proof cases
    case 3
    then have "p_step_id p \<notin> fst ` set m" by (simp add: map_of_eq_None_iff)
    with 3 "2.IH"(3) show ?thesis by (auto simp: image_Un)
  next
    case 2
    then have "p_step_id p \<in> fst ` set m" by (simp add: map_of_eq_None_iff)
    with 2 show ?thesis by (auto simp: split_beta)
  qed (simp add: split_beta)
qed simp

lemma index_records_map:
  "fst (index_records r m ps) = [] \<Longrightarrow> snd (index_records r m ps) = m @ map (\<lambda>p. (p_step_id p, p)) ps"
proof (induction r m ps rule: index_records.induct)
  case (2 r m p ps)
  then show ?case by (auto simp: split_beta split: if_splits)
qed simp

subsection \<open>The walk over the step runs\<close>

text \<open>What the walk asks of one step run, given its record in the index.\<close>

definition step_sound ::
  "run \<Rightarrow> (string \<times> string set) list \<Rightarrow> provenance list \<Rightarrow> step_run \<Rightarrow> provenance option \<Rightarrow> bool" where
  "step_sound r anc records s own \<longleftrightarrow>
     (case own of None \<Rightarrow> \<not> done_run s
      | Some p \<Rightarrow> done_run s \<and> against_step_run r s p = Inr []
          \<and> inputs_findings r p (the (map_of anc (sr_step_id s))) records = [])"

lemma against_step_run_Inr: "step_of r (sr_step_id s) = Inr st \<Longrightarrow> \<exists>fs. against_step_run r s p = Inr fs"
  by (simp add: against_step_run_def exactness_of_def)

lemma walk_step_runs_sound:
  assumes "\<forall>s \<in> set ss. (\<exists>st. step_of r (sr_step_id s) = Inr st) \<and> map_of anc (sr_step_id s) \<noteq> None"
    and "distinct (map sr_step_id ss)"
  shows "\<exists>gs. walk_step_runs r anc records m ss
      = Inr (gs, filter (\<lambda>(k, _). k \<notin> sr_step_id ` set ss) m)
    \<and> (gs = [] \<longleftrightarrow> (\<forall>s \<in> set ss. step_sound r anc records s (map_of m (sr_step_id s))))"
  using assms
proof (induction ss arbitrary: m)
  case (Cons s ss)
  let ?k = "sr_step_id s" and ?m = "AList.delete (sr_step_id s) m"
  from Cons.prems have rest: "\<forall>s \<in> set ss. (\<exists>st. step_of r (sr_step_id s) = Inr st) \<and> map_of anc (sr_step_id s) \<noteq> None"
    "distinct (map sr_step_id ss)" by simp_all
  from Cons.IH [OF rest, of ?m] obtain gs where gs:
    "walk_step_runs r anc records ?m ss = Inr (gs, filter (\<lambda>(k, _). k \<notin> sr_step_id ` set ss) ?m)"
    "gs = [] \<longleftrightarrow> (\<forall>s \<in> set ss. step_sound r anc records s (map_of ?m (sr_step_id s)))" by blast
  have other: "map_of ?m (sr_step_id x) = map_of m (sr_step_id x)" if "x \<in> set ss" for x
    using that Cons.prems(2) by (auto simp: delete_conv' image_iff)
  have left: "filter (\<lambda>(k, _). k \<notin> sr_step_id ` set ss) ?m = filter (\<lambda>(k, _). k \<notin> sr_step_id ` set (s # ss)) m"
    by (induction m) auto
  obtain st a where st: "step_of r ?k = Inr st" and a: "map_of anc ?k = Some a" using Cons.prems(1) by auto
  show ?case
  proof (cases "map_of m ?k")
    case None
    then show ?thesis using gs other left by (auto simp: step_sound_def)
  next
    case (Some p)
    obtain fs where fs: "against_step_run r s p = Inr fs" using against_step_run_Inr [OF st] by blast
    show ?thesis using gs other left Some fs a by (auto simp: step_sound_def)
  qed
qed simp

lemma ancestors_keys: "fst ` set (ancestors r) = s_id ` set (run_steps r)"
proof -
  have "fst ` set (foldl ancestors_step acc ss) = fst ` set acc \<union> s_id ` set ss" for acc ss
    by (induction ss arbitrary: acc) (auto simp: ancestors_step_def dom_update)
  then show ?thesis by (simp add: ancestors_def)
qed

subsection \<open>What comes before a step\<close>

inductive precedes :: "run \<Rightarrow> string \<Rightarrow> string \<Rightarrow> bool" for r where
  dependency: "step_of r sid = Inr st \<Longrightarrow> d \<in> set (dependencies st) \<Longrightarrow> precedes r d sid"
| earlier: "step_of r sid = Inr st \<Longrightarrow> d \<in> set (dependencies st) \<Longrightarrow> precedes r e d \<Longrightarrow> precedes r e sid"

inductive_simps precedes_iff: "precedes r e sid"

lemma step_of_member:
  assumes "distinct (map s_id (run_steps r))" "st \<in> set (run_steps r)"
  shows "step_of r (s_id st) = Inr st"
proof (rule step_of_cases [of r "s_id st"])
  fix x assume "step_of r (s_id st) = Inr x" "x \<in> set (run_steps r)" "s_id x = s_id st"
  moreover from this assms have "x = st" by (metis inj_on_def distinct_map)
  ultimately show ?thesis by simp
qed (use assms in auto)

lemma order_error_dependency:
  "order_error seen (xs @ st # ys) = None \<Longrightarrow> d \<in> set (dependencies st) \<Longrightarrow> d \<in> seen \<or> d \<in> s_id ` set xs"
  by (induction xs arbitrary: seen) (auto simp: find_None_iff split: option.splits)

lemma ancestors_prefix:
  assumes "distinct (map s_id (run_steps r))" "order_error {} (run_steps r) = None"
  shows "run_steps r = xs @ ys \<Longrightarrow> st \<in> set xs \<Longrightarrow>
    map_of (foldl ancestors_step [] xs) (s_id st) = Some {e. precedes r e (s_id st)}"
proof (induction xs arbitrary: ys st rule: rev_induct)
  case (snoc x xs)
  let ?acc = "foldl ancestors_step [] xs"
  have x: "step_of r (s_id x) = Inr x" using step_of_member [OF assms(1)] snoc.prems(1) by simp
  have "(case map_of ?acc d of None \<Rightarrow> {} | Some a \<Rightarrow> a) = {e. precedes r e d}" if "d \<in> set (dependencies x)" for d
  proof -
    have "d \<in> s_id ` set xs"
      using order_error_dependency [of "{}" xs x ys d] assms(2) snoc.prems(1) that by simp
    then obtain y where "y \<in> set xs" "s_id y = d" by auto
    with snoc.IH [of "x # ys" y] snoc.prems(1) show ?thesis by auto
  qed
  then have "own_ancestors ?acc x = (\<Union>d \<in> set (dependencies x). insert d {e. precedes r e d})"
    unfolding own_ancestors_def by (intro SUP_cong) auto
  also have "\<dots> = {e. precedes r e (s_id x)}" using x by (auto simp: precedes_iff [of r _ "s_id x"])
  finally have own: "own_ancestors ?acc x = {e. precedes r e (s_id x)}" .
  have last: "foldl ancestors_step [] (xs @ [x]) = AList.update (s_id x) (own_ancestors ?acc x) ?acc"
    by (simp add: ancestors_step_def [of ?acc x])
  show ?case
  proof (cases "s_id st = s_id x")
    case True
    then show ?thesis using own by (simp only: last update_conv') simp
  next
    case False
    with snoc.prems have "st \<in> set xs" by auto
    with snoc.IH [of "x # ys" st] snoc.prems(1) False show ?thesis by (simp only: last update_conv') simp
  qed
qed simp

lemma ancestors_precede:
  assumes "distinct (map s_id (run_steps r))" "order_error {} (run_steps r) = None" "sid \<in> s_id ` set (run_steps r)"
  shows "map_of (ancestors r) sid = Some {e. precedes r e sid}"
  using ancestors_prefix [OF assms(1,2), of "run_steps r" "[]"] assms(3) by (auto simp: ancestors_def)

subsection \<open>A complete chain\<close>

definition record_agrees :: "run \<Rightarrow> step_run \<Rightarrow> provenance \<Rightarrow> bool" where
  "record_agrees r s p \<longleftrightarrow>
     p_process_version p = run_process_version r \<and> p_method p = sr_method s \<and> p_adapter p = sr_adapter s
   \<and> p_outputs p = map af_id (sr_artifacts s) \<and> p_result_digest p = result_digest_of s
   \<and> exactness_of r s = Inr (p_exactness p)
   \<and> (\<exists>st. step_of r (sr_step_id s) = Inr st \<and> p_model p = s_model st)"

definition input_backed :: "run \<Rightarrow> provenance list \<Rightarrow> provenance \<Rightarrow> provenance_input \<Rightarrow> bool" where
  "input_backed r records p i \<longleftrightarrow>
     (pi_kind i \<noteq> IN_SOURCE \<and> pi_run_id i = Some (run_id r) \<longrightarrow>
       (\<exists>sid. \<exists>q \<in> set records. pi_step_id i = Some sid \<and> precedes r sid (p_step_id p) \<and> p_step_id q = sid
          \<and> (pi_kind i = IN_ARTIFACT \<longrightarrow> (\<exists>a \<in> set (p_outputs q). pi_artifact_id i = Some a))
          \<and> (pi_kind i = IN_RESULT \<longrightarrow> pi_digest i = p_result_digest q)))"

definition chain_complete :: "run \<Rightarrow> provenance list \<Rightarrow> bool" where
  "chain_complete r records \<longleftrightarrow>
     (\<forall>p \<in> set records. p_run_id p = run_id r
        \<and> (\<exists>s \<in> set (run_step_runs r). sr_step_id s = p_step_id p \<and> done_run s))
   \<and> distinct (map p_step_id records)
   \<and> (\<forall>s \<in> set (run_step_runs r). done_run s \<longrightarrow>
        (\<exists>p \<in> set records. p_step_id p = sr_step_id s \<and> record_agrees r s p
           \<and> list_all (input_backed r records p) (p_inputs p)))"

lemma differs_Nil: "differs expected finding = [] \<longleftrightarrow> (\<forall>(n, same) \<in> set expected. same)"
  by (auto simp: differs_def filter_empty_conv)

lemma against_step_run_Nil: "against_step_run r s p = Inr [] \<longleftrightarrow> record_agrees r s p"
  by (auto simp: against_step_run_def record_agrees_def differs_Nil exactness_of_def split: sum.splits if_splits)

lemma input_findings_Nil:
  assumes "distinct (map p_step_id records)" "\<forall>p \<in> set records. p_run_id p = run_id r"
  shows "input_findings r p {e. precedes r e (p_step_id p)} records i = [] \<longleftrightarrow> input_backed r records p i"
proof (cases "pi_kind i = IN_SOURCE \<or> pi_run_id i \<noteq> Some (run_id r) \<or> pi_step_id i = None")
  case True
  then show ?thesis by (auto simp: input_findings_def input_backed_def)
next
  case False
  then obtain sid where sid: "pi_step_id i = Some sid" and run: "pi_run_id i = Some (run_id r)"
    and kind: "pi_kind i \<noteq> IN_SOURCE" by auto
  let ?find = "List.find (\<lambda>q. Some (p_run_id q) = pi_run_id i \<and> Some (p_step_id q) = pi_step_id i) records"
  have only: "?find = Some q \<longleftrightarrow> q \<in> set records \<and> p_step_id q = sid" for q
  proof
    assume "?find = Some q"
    then show "q \<in> set records \<and> p_step_id q = sid" using find_SomeD [of _ records q] sid by auto
  next
    assume q: "q \<in> set records \<and> p_step_id q = sid"
    then have "?find \<noteq> None" using assms(2) sid run by (auto simp: find_None_iff)
    then obtain q' where q': "?find = Some q'" by blast
    then have "q' \<in> set records \<and> p_step_id q' = sid" using find_SomeD [of _ records q'] sid by auto
    with q assms(1) have "q' = q" by (metis inj_on_def distinct_map)
    with q' show "?find = Some q" by simp
  qed
  show ?thesis
  proof (cases ?find)
    case None
    then have "\<not> (\<exists>q \<in> set records. p_step_id q = sid)" using only by (metis option.distinct(1))
    then show ?thesis using None sid run kind by (auto simp: input_findings_def input_backed_def)
  next
    case (Some q)
    then have q: "q \<in> set records" "p_step_id q = sid" using only by auto
    have uniq: "x = q" if "x \<in> set records" "p_step_id x = sid" for x
      using only [of x] that Some by simp
    have "input_backed r records p i \<longleftrightarrow> precedes r sid (p_step_id p)
        \<and> (pi_kind i = IN_ARTIFACT \<longrightarrow> (\<exists>a \<in> set (p_outputs q). pi_artifact_id i = Some a))
        \<and> (pi_kind i = IN_RESULT \<longrightarrow> pi_digest i = p_result_digest q)"
      by (simp add: input_backed_def sid run kind) (use q uniq in blast)
    moreover have "input_findings r p {e. precedes r e (p_step_id p)} records i =
        (if precedes r sid (p_step_id p) then [] else [Reads_Not_Before (p_step_id p) (Some sid)])
      @ (if pi_kind i = IN_ARTIFACT \<and> \<not> (\<exists>a \<in> set (p_outputs q). pi_artifact_id i = Some a)
         then [Artifact_Not_Listed (p_step_id p) (pi_artifact_id i)] else [])
      @ (if pi_kind i = IN_RESULT \<and> pi_digest i \<noteq> p_result_digest q then [Digest_Not_Carried (p_step_id p)] else [])"
      using Some
      by (cases "pi_artifact_id i") (simp_all add: input_findings_def produced_def sid run kind)
    ultimately show ?thesis by simp
  qed
qed

definition run_shaped :: "run \<Rightarrow> bool" where
  "run_shaped r \<longleftrightarrow> distinct (map sr_step_id (run_step_runs r)) \<and> distinct (map s_id (run_steps r))
   \<and> order_error {} (run_steps r) = None \<and> sr_step_id ` set (run_step_runs r) \<subseteq> s_id ` set (run_steps r)"

lemma map_of_index:
  "distinct (map p_step_id ps) \<Longrightarrow>
     map_of (map (\<lambda>p. (p_step_id p, p)) ps) sid = Some p \<longleftrightarrow> p \<in> set ps \<and> p_step_id p = sid"
  by (subst map_of_eq_Some_iff) (auto simp: comp_def)

lemma step_sound_iff:
  assumes "run_shaped r" "s \<in> set (run_step_runs r)" "distinct (map p_step_id records)"
    and "\<forall>p \<in> set records. p_run_id p = run_id r"
  shows "step_sound r (ancestors r) records s (map_of (map (\<lambda>p. (p_step_id p, p)) records) (sr_step_id s))
    \<longleftrightarrow> (if done_run s then \<exists>p \<in> set records. p_step_id p = sr_step_id s \<and> record_agrees r s p
            \<and> list_all (input_backed r records p) (p_inputs p)
        else \<forall>p \<in> set records. p_step_id p \<noteq> sr_step_id s)"
proof (cases "map_of (map (\<lambda>p. (p_step_id p, p)) records) (sr_step_id s)")
  case None
  then have "\<forall>p \<in> set records. p_step_id p \<noteq> sr_step_id s" by (force simp: map_of_eq_None_iff)
  with None show ?thesis by (auto simp: step_sound_def)
next
  case (Some p)
  then have p: "p \<in> set records" "p_step_id p = sr_step_id s" using map_of_index [OF assms(3)] by auto
  have only: "q = p" if "q \<in> set records" "p_step_id q = sr_step_id s" for q
    using map_of_index [OF assms(3), of "sr_step_id s" q] that Some by simp
  have "sr_step_id s \<in> s_id ` set (run_steps r)" using assms(1,2) by (auto simp: run_shaped_def)
  then have anc: "the (map_of (ancestors r) (sr_step_id s)) = {e. precedes r e (p_step_id p)}"
    using ancestors_precede [of r "sr_step_id s"] assms(1) p(2) by (simp add: run_shaped_def)
  have "inputs_findings r p {e. precedes r e (p_step_id p)} records = [] \<longleftrightarrow> list_all (input_backed r records p) (p_inputs p)"
    by (simp add: inputs_findings_def input_findings_Nil [OF assms(3,4)] list_all_iff)
  then have sound: "step_sound r (ancestors r) records s (Some p)
      \<longleftrightarrow> done_run s \<and> record_agrees r s p \<and> list_all (input_backed r records p) (p_inputs p)"
    by (simp add: step_sound_def anc against_step_run_Nil)
  show ?thesis
  proof (cases "done_run s")
    case True
    have "(\<exists>q \<in> set records. p_step_id q = sr_step_id s \<and> record_agrees r s q \<and> list_all (input_backed r records q) (p_inputs q))
        \<longleftrightarrow> record_agrees r s p \<and> list_all (input_backed r records p) (p_inputs p)"
      using p only by blast
    with True show ?thesis unfolding Some sound by simp
  next
    case False
    have "\<not> (\<forall>q \<in> set records. p_step_id q \<noteq> sr_step_id s)" using p by blast
    with False show ?thesis unfolding Some sound by simp
  qed
qed

lemma verify_provenance_walk:
  assumes "run_shaped r"
  shows "\<exists>v. verify_provenance r records None = Inr v \<and> cv_records v = length records \<and> (cv_intact v \<longleftrightarrow>
     (\<forall>p \<in> set records. p_run_id p = run_id r \<and> p_step_id p \<in> sr_step_id ` set (run_step_runs r))
   \<and> distinct (map p_step_id records)
   \<and> (\<forall>s \<in> set (run_step_runs r).
        step_sound r (ancestors r) records s (map_of (map (\<lambda>p. (p_step_id p, p)) records) (sr_step_id s))))"
proof -
  obtain fs m where idx: "index_records r [] records = (fs, m)" by (cases "index_records r [] records")
  have steps: "\<forall>s \<in> set (run_step_runs r). (\<exists>st. step_of r (sr_step_id s) = Inr st) \<and> map_of (ancestors r) (sr_step_id s) \<noteq> None"
  proof
    fix s assume "s \<in> set (run_step_runs r)"
    then have inn: "sr_step_id s \<in> s_id ` set (run_steps r)" using assms by (auto simp: run_shaped_def)
    have "\<exists>st. step_of r (sr_step_id s) = Inr st"
      by (rule step_of_cases [of r "sr_step_id s"]) (use inn in auto)
    moreover have "map_of (ancestors r) (sr_step_id s) \<noteq> None"
      using inn by (simp add: map_of_eq_None_iff ancestors_keys)
    ultimately show "(\<exists>st. step_of r (sr_step_id s) = Inr st) \<and> map_of (ancestors r) (sr_step_id s) \<noteq> None" ..
  qed
  have ids: "distinct (map sr_step_id (run_step_runs r))" using assms by (simp add: run_shaped_def)
  from walk_step_runs_sound [OF steps ids, of records m] obtain gs where
    walk: "walk_step_runs r (ancestors r) records m (run_step_runs r)
      = Inr (gs, filter (\<lambda>(k, _). k \<notin> sr_step_id ` set (run_step_runs r)) m)"
    and gs: "gs = [] \<longleftrightarrow> (\<forall>s \<in> set (run_step_runs r). step_sound r (ancestors r) records s (map_of m (sr_step_id s)))"
    by blast
  have fs: "fs = [] \<longleftrightarrow> (\<forall>p \<in> set records. p_run_id p = run_id r) \<and> distinct (map p_step_id records)"
    using index_records_Nil [of r "[]" records] by (simp add: idx)
  have m: "m = map (\<lambda>p. (p_step_id p, p)) records" if "fs = []"
    using index_records_map [of r "[]" records] that by (simp add: idx)
  obtain v where v: "verify_provenance r records None = Inr v" "cv_records v = length records"
    "cv_intact v \<longleftrightarrow> fs = [] \<and> gs = [] \<and> filter (\<lambda>(k, _). k \<notin> sr_step_id ` set (run_step_runs r)) m = []"
    by (simp add: verify_provenance_def idx walk Let_def)
  have "cv_intact v \<longleftrightarrow>
     (\<forall>p \<in> set records. p_run_id p = run_id r \<and> p_step_id p \<in> sr_step_id ` set (run_step_runs r))
   \<and> distinct (map p_step_id records)
   \<and> (\<forall>s \<in> set (run_step_runs r).
        step_sound r (ancestors r) records s (map_of (map (\<lambda>p. (p_step_id p, p)) records) (sr_step_id s)))"
  proof (cases "fs = []")
    case True
    then show ?thesis using v(3) fs gs m by (auto simp: filter_empty_conv)
  next
    case False
    then show ?thesis using v(3) fs by auto
  qed
  with v(1,2) show ?thesis by blast
qed

lemma verify_provenance_complete:
  assumes "run_shaped r"
  shows "\<exists>v. verify_provenance r records None = Inr v \<and> cv_records v = length records
    \<and> (cv_intact v \<longleftrightarrow> chain_complete r records)"
proof -
  from verify_provenance_walk [OF assms] obtain v where v: "verify_provenance r records None = Inr v"
    "cv_records v = length records" "cv_intact v \<longleftrightarrow>
     (\<forall>p \<in> set records. p_run_id p = run_id r \<and> p_step_id p \<in> sr_step_id ` set (run_step_runs r))
   \<and> distinct (map p_step_id records)
   \<and> (\<forall>s \<in> set (run_step_runs r).
        step_sound r (ancestors r) records s (map_of (map (\<lambda>p. (p_step_id p, p)) records) (sr_step_id s)))" by blast
  have ids: "distinct (map sr_step_id (run_step_runs r))" using assms by (simp add: run_shaped_def)
  have "cv_intact v \<longleftrightarrow> chain_complete r records"
  proof (cases "distinct (map p_step_id records) \<and> (\<forall>p \<in> set records. p_run_id p = run_id r)")
    case True
    note sound = step_sound_iff [OF assms _ conjunct1 [OF True] conjunct2 [OF True]]
    have "(\<forall>s \<in> set (run_step_runs r).
        step_sound r (ancestors r) records s (map_of (map (\<lambda>p. (p_step_id p, p)) records) (sr_step_id s)))
      \<longleftrightarrow> (\<forall>s \<in> set (run_step_runs r). if done_run s then \<exists>p \<in> set records. p_step_id p = sr_step_id s \<and> record_agrees r s p
            \<and> list_all (input_backed r records p) (p_inputs p)
        else \<forall>p \<in> set records. p_step_id p \<noteq> sr_step_id s)"
      using sound by (intro ball_cong refl)
    moreover have "(\<forall>p \<in> set records. p_step_id p \<in> sr_step_id ` set (run_step_runs r))
        \<and> (\<forall>s \<in> set (run_step_runs r). done_run s \<or> (\<forall>p \<in> set records. p_step_id p \<noteq> sr_step_id s))
      \<longleftrightarrow> (\<forall>p \<in> set records. \<exists>s \<in> set (run_step_runs r). sr_step_id s = p_step_id p \<and> done_run s)"
      (is "?known \<and> ?open \<longleftrightarrow> ?done")
    proof
      assume "?known \<and> ?open"
      then show ?done by (metis imageE)
    next
      assume d: ?done
      have "done_run s \<or> p_step_id p \<noteq> sr_step_id s" if "s \<in> set (run_step_runs r)" "p \<in> set records" for s p
      proof -
        from d that(2) obtain s' where "s' \<in> set (run_step_runs r)" "sr_step_id s' = p_step_id p" "done_run s'" by blast
        then show ?thesis using ids that(1) by (metis inj_on_def distinct_map)
      qed
      moreover have ?known using d by force
      ultimately show "?known \<and> ?open" by blast
    qed
    ultimately show ?thesis using True unfolding v(3) chain_complete_def by (auto split: if_splits)
  next
    case False
    then show ?thesis by (auto simp: v(3) chain_complete_def)
  qed
  with v(1,2) show ?thesis by blast
qed

text \<open>C35: the walk over a run's provenance finds nothing exactly when the chain is complete: every
  completed step has one record, every record is of a completed step of the run and agrees with it,
  and every input of the run names a step before the reader, with a record that lists the artifact
  or carries the digest read.\<close>

theorem verify_provenance_exact:
  assumes "run_shaped r"
  shows "\<exists>v. verify_provenance r records None = Inr v \<and> cv_records v = length records
    \<and> (cv_intact v \<longleftrightarrow> chain_complete r records)"
  using verify_provenance_complete [OF assms] .

subsection \<open>The chain Taktus writes\<close>

text \<open>An input the engine resolved: an artifact or the result of a completed step before the reader.\<close>

definition resolved_input :: "run \<Rightarrow> step_run \<Rightarrow> provenance_input \<Rightarrow> bool" where
  "resolved_input r s i \<longleftrightarrow>
     (\<exists>q \<in> set (run_step_runs r). done_run q \<and> precedes r (sr_step_id q) (sr_step_id s)
        \<and> pi_step_id i = Some (sr_step_id q)
        \<and> (pi_kind i = IN_ARTIFACT \<longrightarrow> (\<exists>a \<in> set (sr_artifacts q). pi_artifact_id i = Some (af_id a)))
        \<and> (pi_kind i = IN_RESULT \<longrightarrow> pi_digest i = result_digest_of q))"

text \<open>The entry of the step's completion, as \<open>_entry\<close> of \<open>execute_run.py\<close> fills it.\<close>

definition completion_entry :: "run \<Rightarrow> step_run \<Rightarrow> ledger_entry \<Rightarrow> bool" where
  "completion_entry r s e \<longleftrightarrow>
     f_kind e = FINISHED \<and> completed_entry e \<and> r_run_id (f_refs e) = Some (run_id r)
   \<and> r_step_id (f_refs e) = Some (sr_step_id s) \<and> f_method e = Some (sr_method s) \<and> f_adapter e = sr_adapter s
   \<and> r_artifact_ids (f_refs e) = (if sr_artifacts s = [] then None else Some (map af_id (sr_artifacts s)))
   \<and> f_content_digest e = result_digest_of s"

definition recorded :: "run \<Rightarrow> ledger_entry list \<Rightarrow> step_run \<Rightarrow> provenance \<Rightarrow> bool" where
  "recorded r es s p \<longleftrightarrow>
     (\<exists>ident inputs e version now route scope.
        provenance_record r s ident inputs e version now route scope = Inr p
      \<and> (\<forall>i \<in> set inputs. pi_kind i = IN_SOURCE \<or> pi_run_id i \<noteq> Some (run_id r) \<or> resolved_input r s i)
      \<and> e \<in> set es \<and> completion_entry r s e)"

lemma provenance_record_agrees:
  assumes "provenance_record r s ident inputs e version now route scope = Inr p"
  shows "record_agrees r s p" "p_run_id p = run_id r" "p_step_id p = sr_step_id s" "p_inputs p = inputs"
    "p_ledger_seq p = e_seq e"
  using assms by (auto simp: provenance_record_def record_agrees_def split: sum.splits)

lemma recordedE:
  assumes "recorded r es s p"
  obtains e where "record_agrees r s p" "p_run_id p = run_id r" "p_step_id p = sr_step_id s"
    "p_ledger_seq p = e_seq e" "e \<in> set es" "completion_entry r s e"
    "\<forall>i \<in> set (p_inputs p). pi_kind i = IN_SOURCE \<or> pi_run_id i \<noteq> Some (run_id r) \<or> resolved_input r s i"
proof -
  from assms obtain ident inputs e version now route scope where
    rec: "provenance_record r s ident inputs e version now route scope = Inr p"
    and rest: "e \<in> set es" "completion_entry r s e"
      "\<forall>i \<in> set inputs. pi_kind i = IN_SOURCE \<or> pi_run_id i \<noteq> Some (run_id r) \<or> resolved_input r s i"
    unfolding recorded_def by (elim exE conjE)
  note agrees = provenance_record_agrees [OF rec]
  show ?thesis by (rule that [of e]) (use agrees rest in simp_all)
qed

lemma against_ledger_completion:
  assumes "record_agrees r s p" "p_run_id p = run_id r" "p_step_id p = sr_step_id s" "completion_entry r s e"
  shows "against_ledger p (Some e) = []"
  using assms by (auto simp: against_ledger_def completion_entry_def record_agrees_def differs_Nil)

lemma entry_at_member: "distinct (map e_seq es) \<Longrightarrow> e \<in> set es \<Longrightarrow> entry_at es (e_seq e) = Some e"
proof -
  assume d: "distinct (map e_seq es)" and e: "e \<in> set es"
  have "entry_at es (e_seq e) \<noteq> None" using e by (auto simp: entry_at_def find_None_iff)
  then obtain x where x: "entry_at es (e_seq e) = Some x" by blast
  then have "x \<in> set es" "e_seq x = e_seq e" using find_SomeD by (fastforce simp: entry_at_def)+
  with d e have "x = e" by (metis inj_on_def distinct_map)
  with x show ?thesis by simp
qed

lemma recorded_chain_complete:
  assumes "run_shaped r" "list_all2 (recorded r es) (filter done_run (run_step_runs r)) records"
  shows "chain_complete r records"
proof -
  let ?done = "filter done_run (run_step_runs r)"
  have agree: "record_agrees r s p \<and> p_run_id p = run_id r \<and> p_step_id p = sr_step_id s" if "recorded r es s p" for s p
    using that by (rule recordedE) simp
  have ids: "map p_step_id records = map sr_step_id ?done"
    using assms(2) by (induction rule: list_all2_induct) (auto dest: agree)
  have of_step: "\<exists>p \<in> set records. recorded r es s p" if "s \<in> set ?done" for s
    using assms(2) that by (induction rule: list_all2_induct) auto
  have of_record: "\<exists>s \<in> set ?done. recorded r es s p" if "p \<in> set records" for p
    using assms(2) that by (induction rule: list_all2_induct) auto
  have backed: "input_backed r records p i" if "recorded r es s p" "i \<in> set (p_inputs p)" for s p i
  proof (cases "pi_kind i = IN_SOURCE \<or> pi_run_id i \<noteq> Some (run_id r)")
    case True
    then show ?thesis by (auto simp: input_backed_def)
  next
    case False
    moreover from that(1) have "\<forall>i \<in> set (p_inputs p). pi_kind i = IN_SOURCE \<or> pi_run_id i \<noteq> Some (run_id r) \<or> resolved_input r s i"
      by (rule recordedE)
    ultimately have "resolved_input r s i" using that(2) by blast
    then obtain q where q: "q \<in> set ?done" "precedes r (sr_step_id q) (sr_step_id s)" "pi_step_id i = Some (sr_step_id q)"
      "pi_kind i = IN_ARTIFACT \<longrightarrow> (\<exists>a \<in> set (sr_artifacts q). pi_artifact_id i = Some (af_id a))"
      "pi_kind i = IN_RESULT \<longrightarrow> pi_digest i = result_digest_of q" unfolding resolved_input_def by auto
    from of_step [OF q(1)] obtain p' where p': "p' \<in> set records" "recorded r es q p'" by blast
    then have "p_outputs p' = map af_id (sr_artifacts q)" "p_result_digest p' = result_digest_of q" "p_step_id p' = sr_step_id q"
      using agree [OF p'(2)] by (auto simp: record_agrees_def)
    then show ?thesis using p'(1) q agree [OF that(1)] unfolding input_backed_def by fastforce
  qed
  have "distinct (map sr_step_id ?done)" using assms(1) by (simp add: run_shaped_def distinct_map_filter)
  then have dist: "distinct (map p_step_id records)" by (simp only: ids)
  have known: "p_run_id p = run_id r \<and> (\<exists>s \<in> set (run_step_runs r). sr_step_id s = p_step_id p \<and> done_run s)"
    if "p \<in> set records" for p
  proof -
    from of_record [OF that] obtain s where "s \<in> set ?done" "recorded r es s p" by blast
    with agree show ?thesis by fastforce
  qed
  have complete: "\<exists>p \<in> set records. p_step_id p = sr_step_id s \<and> record_agrees r s p \<and> list_all (input_backed r records p) (p_inputs p)"
    if "s \<in> set (run_step_runs r)" "done_run s" for s
  proof -
    from that of_step [of s] obtain p where "p \<in> set records" "recorded r es s p" by auto
    with agree backed show ?thesis by (auto simp: list_all_iff intro!: bexI [of _ p])
  qed
  show ?thesis using known dist complete by (simp add: chain_complete_def)
qed

text \<open>C36: the chain Taktus writes verifies: when every completed step has the record built for it, with
  the inputs the engine resolved and bound to the entry of its completion, the walk over the run's
  provenance, held against its ledger, finds nothing.\<close>

theorem recorded_chain_verifies:
  assumes "run_shaped r" "list_all2 (recorded r es) (filter done_run (run_step_runs r)) records"
    and "distinct (map e_seq es)"
  shows "verify_provenance r records (Some es) = Inr \<lparr>cv_records = length records, cv_intact = True, cv_findings = []\<rparr>"
proof -
  have complete: "chain_complete r records" using recorded_chain_complete [OF assms(1,2)] .
  from verify_provenance_complete [OF assms(1), of records] complete obtain v where
    "verify_provenance r records None = Inr v" "cv_intact v" by blast
  then have walk: "\<exists>m. index_records r [] records = ([], m)
      \<and> walk_step_runs r (ancestors r) records m (run_step_runs r) = Inr ([], [])"
    by (auto simp: verify_provenance_def Let_def split: sum.splits prod.splits)
  have "against_ledger p (entry_at es (p_ledger_seq p)) = []" if "p \<in> set records" for p
  proof -
    have "\<exists>s. recorded r es s p" using assms(2) that by (induction rule: list_all2_induct) auto
    then obtain s where "recorded r es s p" ..
    then show ?thesis
    proof (rule recordedE)
      fix e assume p: "record_agrees r s p" "p_run_id p = run_id r" "p_step_id p = sr_step_id s"
        "p_ledger_seq p = e_seq e" "e \<in> set es" "completion_entry r s e"
      show ?thesis using against_ledger_completion [OF p(1-3,6)] entry_at_member [OF assms(3) p(5)] p(4) by simp
    qed
  qed
  with walk show ?thesis by (auto simp: verify_provenance_def Let_def)
qed

subsection \<open>Recordings\<close>

definition real_calls :: "run list \<Rightarrow> string \<Rightarrow> string \<Rightarrow> recording set" where
  "real_calls rs adapter operation =
     {x. \<exists>r \<in> set rs. \<not> run_rehearsal r \<and> (\<exists>s \<in> set (run_step_runs r). recorded_call r adapter operation s = Some x)}"

definition latest_in :: "recording option \<Rightarrow> recording set \<Rightarrow> bool" where
  "latest_in found xs \<longleftrightarrow>
     (case found of None \<Rightarrow> xs = {} | Some f \<Rightarrow> f \<in> xs \<and> (\<forall>x \<in> xs. rec_finished_at x \<le> rec_finished_at f))"

lemma latest_in_later:
  "latest_in found xs \<Longrightarrow> latest_in (later_recording found new) (xs \<union> set_option new)"
  by (cases found; cases new; auto simp: latest_in_def later_recording_def)

lemma latest_in_steps:
  "latest_in found xs \<Longrightarrow> latest_in (foldl (\<lambda>f s. later_recording f (g s)) found ss) (xs \<union> (\<Union>s \<in> set ss. set_option (g s)))"
proof (induction ss arbitrary: found xs)
  case (Cons s ss)
  from Cons.IH [OF latest_in_later [OF Cons.prems, of "g s"]] show ?case by (simp add: Un_assoc)
qed simp

lemma latest_in_runs:
  "latest_in found xs \<Longrightarrow>
     latest_in (foldl (\<lambda>found r. if run_rehearsal r then found
        else foldl (\<lambda>f s. later_recording f (recorded_call r adapter operation s)) found (run_step_runs r)) found rs)
       (xs \<union> real_calls rs adapter operation)"
proof (induction rs arbitrary: found xs)
  case Nil
  then show ?case by (simp add: real_calls_def)
next
  case (Cons r rs)
  let ?own = "\<Union>s \<in> set (run_step_runs r). set_option (recorded_call r adapter operation s)"
  have split: "real_calls (r # rs) adapter operation
      = (if run_rehearsal r then {} else ?own) \<union> real_calls rs adapter operation"
  proof (cases "run_rehearsal r")
    case True
    then show ?thesis by (simp add: real_calls_def)
  next
    case False
    have "?own = {x. \<exists>s \<in> set (run_step_runs r). recorded_call r adapter operation s = Some x}"
      by (auto simp: elem_set)
    with False show ?thesis by (simp add: real_calls_def Collect_disj_eq)
  qed
  show ?case
  proof (cases "run_rehearsal r")
    case True
    with Cons split show ?thesis by simp
  next
    case False
    from Cons.IH [OF latest_in_steps [OF Cons.prems]] show ?thesis using False by (simp add: split Un_assoc)
  qed
qed

text \<open>a rehearsal answers an outward call from the latest real one: the recording found is of a
  completed step of a run that is no rehearsal, which called the operation through the adapter and
  kept its result, and no other such call ended later; none is found only when there is none.\<close>

theorem recording_is_latest_real_call:
  "latest_in (find_recording rs adapter operation) (real_calls rs adapter operation)"
proof -
  have "latest_in None {}" by (simp add: latest_in_def)
  from latest_in_runs [OF this, of adapter operation rs] show ?thesis by (simp add: find_recording_def)
qed

subsection \<open>A concrete chain\<close>

definition checked_step :: step_run where
  "checked_step = (new_step_run sample_step 0)\<lparr>sr_state := S_SUCCEEDED,
     sr_artifacts := [\<lparr>af_id = ''report'', af_kind = ''text'', af_digest = ''sha256:1''\<rparr>]\<rparr>"

definition checked_run :: run where
  "checked_run = sample_run\<lparr>run_step_runs := [checked_step]\<rparr>"

definition checked_entry :: ledger_entry where
  "checked_entry = (sample_entry False)\<lparr>f_kind := FINISHED, f_outcome := Some SUCCEEDED,
     f_refs := no_refs\<lparr>r_run_id := Some ''run-1'', r_step_id := Some ''check'', r_artifact_ids := Some [''report'']\<rparr>,
     f_method := Some RULE, f_adapter := None, f_content_digest := None\<rparr>"

definition checked_record :: provenance where
  "checked_record = \<lparr>p_id = ''prov-1'', p_run_id = ''run-1'', p_step_id = ''check'',
     p_process_version = ''release@1.0.0'', p_method = RULE, p_exactness = Some EXACT, p_model = None,
     p_prompt = None, p_adapter = None, p_adapter_version = None, p_route = None, p_scope = None,
     p_inputs = [], p_outputs = [''report''], p_result_digest = None, p_ledger_seq = e_seq checked_entry,
     p_recorded_at = 0\<rparr>"

lemma checked_run_facts:
  "run_steps checked_run = two_steps" "run_step_runs checked_run = [checked_step]"
  "run_id checked_run = ''run-1''" "run_process_version checked_run = ''release@1.0.0''"
  by (simp_all add: checked_run_def sample_run_def)

lemma checked_shaped: "run_shaped checked_run"
  by (simp add: run_shaped_def checked_run_facts two_steps_def checked_step_def new_step_run_def sample_step_def
      dependencies_def)

lemma checked_recorded: "recorded checked_run [checked_entry] checked_step checked_record"
proof -
  have step: "step_of checked_run ''check'' = Inr sample_step"
    by (simp add: step_of_def checked_run_facts two_steps_def sample_step_def)
  have sid: "sr_step_id checked_step = ''check''" "sr_method checked_step = RULE" "sr_adapter checked_step = None"
    "sr_checkpoint checked_step = None"
    by (simp_all add: checked_step_def new_step_run_def sample_step_def)
  have "provenance_record checked_run checked_step ''prov-1'' [] checked_entry None 0 None None = Inr checked_record"
    by (simp add: provenance_record_def exactness_of_def NON_PRODUCING_def sid step checked_record_def checked_run_facts
        result_digest_of_def) (simp add: checked_step_def sample_step_def)
  moreover have "completion_entry checked_run checked_step checked_entry"
    by (simp add: completion_entry_def completed_entry_def checked_entry_def checked_run_facts sid result_digest_of_def)
      (simp add: checked_step_def)
  ultimately show ?thesis unfolding recorded_def by fastforce
qed

theorem verify_provenance_exact_witness:
  "\<exists>v. verify_provenance checked_run [] None = Inr v \<and> \<not> cv_intact v"
proof -
  have "\<not> chain_complete checked_run []"
    by (simp add: chain_complete_def checked_run_facts checked_step_def done_run_def DONE_def)
  with verify_provenance_exact [OF checked_shaped, of "[]"] show ?thesis by auto
qed

theorem recorded_chain_verifies_witness:
  "verify_provenance checked_run [checked_record] (Some [checked_entry])
     = Inr \<lparr>cv_records = 1, cv_intact = True, cv_findings = []\<rparr>"
proof -
  have "filter done_run (run_step_runs checked_run) = [checked_step]"
    by (simp add: checked_run_facts done_run_def DONE_def checked_step_def)
  then have "list_all2 (recorded checked_run [checked_entry]) (filter done_run (run_step_runs checked_run)) [checked_record]"
    using checked_recorded by simp
  from recorded_chain_verifies [OF checked_shaped this] show ?thesis by simp
qed

end
