(* ===== verification/Run_Gates.thy ===== *)
theory Run_Gates
  imports Complex_Main Run_Model
begin

text \<open>
  The rules at a step's boundary that are functions of what the engine observed: routing a step to
  a model (\<open>routing.py\<close>, the locations of \<open>ports/model.py\<close>), the stop to repetition
  (\<open>repetition.py\<close>), a wait for capacity (\<open>waiting.py\<close>), admission against the platform
  (\<open>capacity.py\<close>, \<open>ports/platform.py\<close>) and healing at level 4 (\<open>healing.py\<close>). A reason in words is a
  value that carries what the words name.
\<close>

subsection \<open>Where a model processes\<close>

datatype location = AT_OWN | AT_EU | AT_ELSEWHERE
datatype permitted = MAY_OWN | MAY_EU | MAY_ANYWHERE

definition LOCATIONS :: "location list" where "LOCATIONS = [AT_OWN, AT_EU, AT_ELSEWHERE]"
definition PERMITTED :: "permitted list" where "PERMITTED = [MAY_OWN, MAY_EU, MAY_ANYWHERE]"

text \<open>\<open>xs.index(x)\<close>; every value is in its list.\<close>

fun index_of :: "'a list \<Rightarrow> 'a \<Rightarrow> nat" where
  "index_of [] x = 0"
| "index_of (y # ys) x = (if x = y then 0 else Suc (index_of ys x))"

definition admits :: "permitted \<Rightarrow> location \<Rightarrow> bool" where
  "admits p l \<longleftrightarrow> index_of LOCATIONS l \<le> index_of PERMITTED p"

text \<open>The order of the permissions, from the narrowest to the widest.\<close>

instantiation permitted :: linorder
begin

definition less_eq_permitted :: "permitted \<Rightarrow> permitted \<Rightarrow> bool" where
  "less_eq_permitted a b \<longleftrightarrow> index_of PERMITTED a \<le> index_of PERMITTED b"

definition less_permitted :: "permitted \<Rightarrow> permitted \<Rightarrow> bool" where
  "less_permitted a b \<longleftrightarrow> index_of PERMITTED a < index_of PERMITTED b"

instance
proof
  fix a b c :: permitted
  show "(a < b) = (a \<le> b \<and> \<not> b \<le> a)" by (auto simp: less_eq_permitted_def less_permitted_def)
  show "a \<le> a" by (simp add: less_eq_permitted_def)
  show "a \<le> b \<Longrightarrow> b \<le> c \<Longrightarrow> a \<le> c" by (simp add: less_eq_permitted_def)
  show "a \<le> b \<Longrightarrow> b \<le> a \<Longrightarrow> a = b"
    by (cases a; cases b) (simp_all add: less_eq_permitted_def PERMITTED_def)
  show "a \<le> b \<or> b \<le> a" by (auto simp: less_eq_permitted_def)
qed

end

definition narrower :: "permitted \<Rightarrow> permitted \<Rightarrow> permitted" where
  "narrower a b = (if index_of PERMITTED a \<le> index_of PERMITTED b then a else b)"

subsection \<open>The route of a step\<close>

datatype skipped_for = FOR_RESIDENCY | FOR_EXACTNESS | FOR_COOLING_DOWN

record resolved_model =
  rm_adapter :: string
  rm_version :: "string option"
  rm_location :: location
  rm_classes :: "string list"

record route_needs =
  rn_purpose :: string
  rn_exactness :: "exactness_class option"
  rn_permitted :: permitted
  rn_data_class :: "string option"

record model_route =
  mr_needs :: route_needs
  mr_chosen :: "resolved_model option"
  mr_skipped :: "(string \<times> skipped_for) list"
  mr_fitting :: "resolved_model option"

definition cooling_route :: "model_route \<Rightarrow> bool" where
  "cooling_route r \<longleftrightarrow> mr_chosen r = None \<and> mr_fitting r \<noteq> None"

text \<open>The loop over the chain: what is skipped so far, and the first member that fits.\<close>

fun route_from ::
  "route_needs \<Rightarrow> (string \<rightharpoonup> moment) \<Rightarrow> moment \<Rightarrow> (string \<times> skipped_for) list \<Rightarrow> resolved_model option \<Rightarrow>
   resolved_model list \<Rightarrow> model_route" where
  "route_from needs cooling now skipped fitting [] =
     \<lparr>mr_needs = needs, mr_chosen = None, mr_skipped = skipped, mr_fitting = fitting\<rparr>"
| "route_from needs cooling now skipped fitting (m # ms) =
     (if \<not> admits (rn_permitted needs) (rm_location m)
      then route_from needs cooling now (skipped @ [(rm_adapter m, FOR_RESIDENCY)]) fitting ms
      else if (case rn_exactness needs of None \<Rightarrow> False | Some c \<Rightarrow> exactness_value c \<notin> set (rm_classes m))
      then route_from needs cooling now (skipped @ [(rm_adapter m, FOR_EXACTNESS)]) fitting ms
      else
        let fitting' = (case fitting of None \<Rightarrow> Some m | Some f \<Rightarrow> Some f)
        in if (case cooling (rm_adapter m) of None \<Rightarrow> False | Some until \<Rightarrow> until > now)
           then route_from needs cooling now (skipped @ [(rm_adapter m, FOR_COOLING_DOWN)]) fitting' ms
           else \<lparr>mr_needs = needs, mr_chosen = Some m, mr_skipped = skipped, mr_fitting = fitting'\<rparr>)"

definition route_chain ::
  "resolved_model list \<Rightarrow> route_needs \<Rightarrow> (string \<rightharpoonup> moment) \<Rightarrow> moment \<Rightarrow> model_route" where
  "route_chain chain needs cooling now = route_from needs cooling now [] None chain"

subsection \<open>The stop to repetition\<close>

definition CONNECTOR_CALLED :: string where "CONNECTOR_CALLED = ''connector.called''"
definition MODEL_CALLED :: string where "MODEL_CALLED = ''model.called''"
definition TOOL_RESULT :: string where "TOOL_RESULT = ''tool.result''"

definition calls :: "ledger_entry list \<Rightarrow> string \<Rightarrow> nat" where
  "calls es digest = length (filter (\<lambda>e. f_kind e = CONNECTOR_CALLED \<and> f_content_digest e = Some digest) es)"

fun answers_from :: "nat \<Rightarrow> ledger_entry list \<Rightarrow> string \<Rightarrow> nat" where
  "answers_from count [] sid = count"
| "answers_from count (e # es) sid =
     (if r_step_id (f_refs e) \<noteq> Some sid then answers_from count es sid
      else if f_kind e = MODEL_CALLED then answers_from (count + 1) es sid
      else if f_kind e = TOOL_RESULT then answers_from 0 es sid
      else answers_from count es sid)"

definition answers :: "ledger_entry list \<Rightarrow> string \<Rightarrow> nat" where
  "answers es sid = answers_from 0 es sid"

datatype limit_rule = CALLS | MODEL_CALLS

record repetition_stop =
  rp_rule :: limit_rule
  rp_action :: string
  rp_count :: nat
  rp_limit :: nat
  rp_worker :: bool

definition repetition_rule :: "limit_rule \<Rightarrow> string \<Rightarrow> nat \<Rightarrow> nat \<Rightarrow> repetition_stop option" where
  "repetition_rule rule action count limit =
     (if count \<ge> limit
      then Some \<lparr>rp_rule = rule, rp_action = action, rp_count = count, rp_limit = limit, rp_worker = False\<rparr>
      else None)"

record watch =
  wt_calls_limit :: nat
  wt_model_calls_limit :: nat
  wt_made :: "string \<Rightarrow> nat"
  wt_streak :: nat

definition watch_of :: "ledger_entry list \<Rightarrow> string \<Rightarrow> nat \<Rightarrow> nat \<Rightarrow> watch" where
  "watch_of es sid calls_limit model_calls_limit =
     \<lparr>wt_calls_limit = calls_limit, wt_model_calls_limit = model_calls_limit,
      wt_made = (\<lambda>d. count_list (List.map_filter (\<lambda>e. if f_kind e = CONNECTOR_CALLED then f_content_digest e else None) es) d),
      wt_streak = answers es sid\<rparr>"

definition watch_called :: "watch \<Rightarrow> string \<Rightarrow> string \<Rightarrow> repetition_stop option \<times> watch" where
  "watch_called w digest action =
     (let count = wt_made w digest + 1
      in (if count > wt_calls_limit w
          then Some \<lparr>rp_rule = CALLS, rp_action = action, rp_count = count, rp_limit = wt_calls_limit w, rp_worker = True\<rparr>
          else None,
          w\<lparr>wt_made := (wt_made w)(digest := count)\<rparr>))"

definition watch_answered :: "watch \<Rightarrow> string \<Rightarrow> repetition_stop option \<times> watch" where
  "watch_answered w action =
     (let streak = wt_streak w + 1
      in (if streak > wt_model_calls_limit w
          then Some \<lparr>rp_rule = MODEL_CALLS, rp_action = action, rp_count = streak, rp_limit = wt_model_calls_limit w, rp_worker = True\<rparr>
          else None,
          w\<lparr>wt_streak := streak\<rparr>))"

definition watch_resulted :: "watch \<Rightarrow> bool \<times> watch" where
  "watch_resulted w = (wt_streak w > 0, w\<lparr>wt_streak := 0\<rparr>)"

text \<open>A worker's report, and what \<open>_reported\<close> of \<open>execute_run.py\<close> records for it and answers. The
  digest of a call's identity is a function of the tool and the digest of its arguments.\<close>

datatype worker_report =
    Model_Reported
  | Tool_Reported string string bool "string option"

definition report_call ::
  "(string \<Rightarrow> string \<Rightarrow> string) \<Rightarrow> string \<Rightarrow> watch \<Rightarrow> worker_report \<Rightarrow>
   (string \<times> string option) list \<times> repetition_stop option \<times> watch" where
  "report_call identity worker w report =
     (case report of
        Model_Reported \<Rightarrow>
          (let (stop, w') = watch_answered w (''worker '' @ worker) in ([(MODEL_CALLED, None)], stop, w'))
      | Tool_Reported tool arguments_digest refused effect \<Rightarrow>
          if refused then ([], None, w)
          else
            (let (ended, w') = watch_resulted w;
                 result = (if ended then [(TOOL_RESULT, None)] else [])
             in if effect \<noteq> Some ''outward'' then (result, None, w')
                else
                  (let digest = identity tool arguments_digest;
                       (stop, w'') = watch_called w' digest tool
                   in (result @ [(CONNECTOR_CALLED, Some digest)], stop, w''))))"

fun report_calls ::
  "(string \<Rightarrow> string \<Rightarrow> string) \<Rightarrow> string \<Rightarrow> watch \<Rightarrow> worker_report list \<Rightarrow>
   (string \<times> string option) list \<times> repetition_stop option list \<times> watch" where
  "report_calls identity worker w [] = ([], [], w)"
| "report_calls identity worker w (r # rs) =
     (let (new, stop, w') = report_call identity worker w r;
          (rest, stops, w'') = report_calls identity worker w' rs
      in (new @ rest, stop # stops, w''))"

subsection \<open>Waiting for capacity\<close>

definition CAPACITY_CEILING_SECONDS :: int where "CAPACITY_CEILING_SECONDS = 3600"

definition wait_delay :: "nat \<Rightarrow> rat \<Rightarrow> rat \<Rightarrow> rat" where
  "wait_delay waits first cap =
     (if waits \<le> 1 then min first cap else min (first * 2 ^ min (waits - 1) 32) cap)"

text \<open>Microseconds compared with seconds.\<close>

definition wait_over :: "moment \<Rightarrow> moment \<Rightarrow> rat \<Rightarrow> bool" where
  "wait_over since now ceiling_seconds \<longleftrightarrow> of_int (now - since) / 1000000 \<ge> ceiling_seconds"

subsection \<open>Admission against the platform\<close>

datatype platform_unit = CORES | BYTES

record headroom =
  hr_free :: rat
  hr_total :: rat
  hr_unit :: platform_unit
  hr_source :: string

record unobserved =
  un_unit :: platform_unit
  un_reason :: string
  un_total :: "rat option"

datatype reading = Observed headroom | Unobserved unobserved

definition headroom_ok :: "headroom \<Rightarrow> bool" where
  "headroom_ok h \<longleftrightarrow> 0 \<le> hr_free h \<and> 0 < hr_total h \<and> hr_source h \<noteq> [] \<and> hr_free h \<le> hr_total h"

definition unobserved_ok :: "unobserved \<Rightarrow> bool" where
  "unobserved_ok u \<longleftrightarrow> un_reason u \<noteq> [] \<and> (case un_total u of None \<Rightarrow> True | Some t \<Rightarrow> 0 < t)"

definition free_fraction :: "headroom \<Rightarrow> rat" where
  "free_fraction h = hr_free h / hr_total h"

definition unit_of_reading :: "reading \<Rightarrow> platform_unit" where
  "unit_of_reading r = (case r of Observed h \<Rightarrow> hr_unit h | Unobserved u \<Rightarrow> un_unit u)"

definition reading_ok :: "reading \<Rightarrow> bool" where
  "reading_ok r = (case r of Observed h \<Rightarrow> headroom_ok h | Unobserved u \<Rightarrow> unobserved_ok u)"

record observation_of_platform =
  po_at :: moment
  po_cpu :: reading
  po_memory :: reading
  po_storage :: reading
  po_state_bytes :: "int option"

definition platform_ok :: "observation_of_platform \<Rightarrow> bool" where
  "platform_ok p \<longleftrightarrow> reading_ok (po_cpu p) \<and> reading_ok (po_memory p) \<and> reading_ok (po_storage p)
   \<and> (case po_state_bytes p of None \<Rightarrow> True | Some b \<Rightarrow> 0 \<le> b)
   \<and> unit_of_reading (po_cpu p) = CORES \<and> unit_of_reading (po_memory p) = BYTES \<and> unit_of_reading (po_storage p) = BYTES"

definition MIB :: int where "MIB = 1024 * 1024"

record capacity_rules =
  cr_memory_reserve_bytes :: int
  cr_storage_refuse_free_percent :: rat

definition default_capacity_rules :: capacity_rules where
  "default_capacity_rules = \<lparr>cr_memory_reserve_bytes = 256 * MIB, cr_storage_refuse_free_percent = 2\<rparr>"

record capacity_demand =
  cd_memory_bytes :: "int option"

datatype capacity_finding =
    Memory_Short int int rat rat
  | Storage_Short rat rat rat

datatype unobserved_quantity = Memory_Unobserved string | Storage_Unobserved string

record capacity_verdict =
  cy_fits :: bool
  cy_findings :: "capacity_finding list"
  cy_unobserved :: "unobserved_quantity list"

definition admit_capacity :: "observation_of_platform \<Rightarrow> capacity_demand \<Rightarrow> capacity_rules \<Rightarrow> capacity_verdict" where
  "admit_capacity observed demand rules =
     (let (memory_findings, memory_unobserved) =
            (case cd_memory_bytes demand of
               None \<Rightarrow> ([], [])
             | Some b \<Rightarrow>
                 (case po_memory observed of
                    Observed h \<Rightarrow>
                      (if hr_free h < of_int (b + cr_memory_reserve_bytes rules)
                       then [Memory_Short b (cr_memory_reserve_bytes rules) (hr_free h) (hr_total h)] else [], [])
                  | Unobserved u \<Rightarrow> ([], [Memory_Unobserved (un_reason u)])));
          (storage_findings, storage_unobserved) =
            (case po_storage observed of
               Observed h \<Rightarrow>
                 (if free_fraction h < cr_storage_refuse_free_percent rules / 100
                  then [Storage_Short (hr_free h) (hr_total h) (cr_storage_refuse_free_percent rules)] else [], [])
             | Unobserved u \<Rightarrow> ([], [Storage_Unobserved (un_reason u)]))
      in \<lparr>cy_fits = (memory_findings @ storage_findings = []), cy_findings = memory_findings @ storage_findings,
          cy_unobserved = memory_unobserved @ storage_unobserved\<rparr>)"

subsection \<open>Healing\<close>

definition HEALS :: nat where "HEALS = 2"
definition UNATTENDED :: level where "UNATTENDED = 4"

datatype why_not_healed = Stop_Requested | Not_Known | Lacks_Adapter | Not_Repeatable | Frame_Exceeded nat

record healing =
  hl_heals :: bool
  hl_why_not :: "why_not_healed option"

definition healing_of :: "level \<Rightarrow> bool \<Rightarrow> bool option \<Rightarrow> bool \<Rightarrow> bool \<Rightarrow> bool \<Rightarrow> nat \<Rightarrow> healing" where
  "healing_of level rehearsal retryable blocked repeatable stop_requested healed =
     (if level < UNATTENDED \<or> rehearsal then \<lparr>hl_heals = False, hl_why_not = None\<rparr>
      else if stop_requested then \<lparr>hl_heals = False, hl_why_not = Some Stop_Requested\<rparr>
      else if retryable \<noteq> Some True then \<lparr>hl_heals = False, hl_why_not = Some Not_Known\<rparr>
      else if blocked then \<lparr>hl_heals = False, hl_why_not = Some Lacks_Adapter\<rparr>
      else if \<not> repeatable then \<lparr>hl_heals = False, hl_why_not = Some Not_Repeatable\<rparr>
      else if healed \<ge> HEALS then \<lparr>hl_heals = False, hl_why_not = Some (Frame_Exceeded healed)\<rparr>
      else \<lparr>hl_heals = True, hl_why_not = None\<rparr>)"

end
