(* ===== verification/Run_Gates_Rules.thy ===== *)
theory Run_Gates_Rules
  imports Run_Gates
begin

text \<open>
  What the boundary rules decide: the route is the first member that fits, named with every member
  before it; the watch over a worker's reports counts what the ledger holds; a wait's delays grow
  to their cap; the platform's verdict is exact; a failure is healed at most twice.
\<close>

subsection \<open>Routing\<close>

definition fits_step :: "route_needs \<Rightarrow> resolved_model \<Rightarrow> bool" where
  "fits_step needs m \<longleftrightarrow> admits (rn_permitted needs) (rm_location m)
   \<and> (case rn_exactness needs of None \<Rightarrow> True | Some c \<Rightarrow> exactness_value c \<in> set (rm_classes m))"

definition cools :: "(string \<rightharpoonup> moment) \<Rightarrow> moment \<Rightarrow> resolved_model \<Rightarrow> bool" where
  "cools cooling now m \<longleftrightarrow> (case cooling (rm_adapter m) of None \<Rightarrow> False | Some until \<Rightarrow> until > now)"

definition passed_over :: "route_needs \<Rightarrow> resolved_model \<Rightarrow> string \<times> skipped_for" where
  "passed_over needs m = (rm_adapter m,
     if \<not> admits (rn_permitted needs) (rm_location m) then FOR_RESIDENCY
     else if \<not> fits_step needs m then FOR_EXACTNESS else FOR_COOLING_DOWN)"

definition first_of :: "'a option \<Rightarrow> 'a option \<Rightarrow> 'a option" where
  "first_of a b = (case a of None \<Rightarrow> b | Some x \<Rightarrow> Some x)"

lemma find_first_of: "List.find p (x # xs) = (if p x then Some x else List.find p xs)"
  by simp

lemma route_from_eq:
  "route_from needs cooling now skipped fitting chain =
     \<lparr>mr_needs = needs,
      mr_chosen = List.find (\<lambda>m. fits_step needs m \<and> \<not> cools cooling now m) chain,
      mr_skipped = skipped @ map (passed_over needs)
        (takeWhile (\<lambda>m. \<not> (fits_step needs m \<and> \<not> cools cooling now m)) chain),
      mr_fitting = first_of fitting (List.find (fits_step needs) chain)\<rparr>"
  by (induction needs cooling now skipped fitting chain rule: route_from.induct)
    (auto simp: fits_step_def cools_def passed_over_def first_of_def Let_def split: option.splits)

text \<open>C39: a step is routed to the first model of its purpose's chain that processes where the rule
  permits, may produce the step's exactness class and is not cooling down; every member before it
  is named with the reason it was passed over, and none after it.\<close>

theorem route_takes_first_fit:
  "mr_chosen (route_chain chain needs cooling now) = List.find (\<lambda>m. fits_step needs m \<and> \<not> cools cooling now m) chain
   \<and> mr_fitting (route_chain chain needs cooling now) = List.find (fits_step needs) chain
   \<and> mr_skipped (route_chain chain needs cooling now) = map (passed_over needs)
       (takeWhile (\<lambda>m. \<not> (fits_step needs m \<and> \<not> cools cooling now m)) chain)"
  by (simp add: route_chain_def route_from_eq first_of_def)

lemma narrower_min: "narrower a b = min a b"
  by (simp add: narrower_def min_def less_eq_permitted_def)

text \<open>Two rules that both hold admit exactly what the narrower one admits.\<close>

lemma admits_narrower: "admits (narrower a b) l \<longleftrightarrow> admits a l \<and> admits b l"
  by (auto simp: admits_def narrower_def)

subsection \<open>Repetition\<close>

lemma answers_from_append: "answers_from n (es @ new) sid = answers_from (answers_from n es sid) new sid"
  by (induction n es sid rule: answers_from.induct) auto

lemma calls_append: "calls (es @ new) d = calls es d + calls new d"
  by (simp add: calls_def)

lemma made_is_calls: "wt_made (watch_of es sid cl ml) = calls es"
proof
  fix d
  have "count_list (List.map_filter (\<lambda>e. if f_kind e = CONNECTOR_CALLED then f_content_digest e else None) es) d = calls es d"
    by (induction es) (auto simp: calls_def map_filter_simps split: option.split)
  then show "wt_made (watch_of es sid cl ml) d = calls es d" by (simp add: watch_of_def)
qed

lemma watch_of_eq: "watch_of es sid cl ml =
   \<lparr>wt_calls_limit = cl, wt_model_calls_limit = ml, wt_made = calls es, wt_streak = answers es sid\<rparr>"
  using made_is_calls [of es sid cl ml] by (simp add: watch_of_def)

text \<open>An entry that records what a report made.\<close>

definition records_report :: "string \<Rightarrow> string \<times> string option \<Rightarrow> ledger_entry \<Rightarrow> bool" where
  "records_report sid x e \<longleftrightarrow> f_kind e = fst x \<and> r_step_id (f_refs e) = Some sid
   \<and> (snd x = None \<or> f_content_digest e = snd x)"

lemma kinds_distinct [simp]:
  "MODEL_CALLED \<noteq> CONNECTOR_CALLED" "TOOL_RESULT \<noteq> CONNECTOR_CALLED" "TOOL_RESULT \<noteq> MODEL_CALLED"
  "CONNECTOR_CALLED \<noteq> MODEL_CALLED" "CONNECTOR_CALLED \<noteq> TOOL_RESULT" "MODEL_CALLED \<noteq> TOOL_RESULT"
  by (simp_all add: MODEL_CALLED_def CONNECTOR_CALLED_def TOOL_RESULT_def)

lemma report_call_follows:
  assumes "report_call identity worker (watch_of es sid cl ml) r = (recs, stop, w')"
    and "list_all2 (records_report sid) recs new"
  shows "w' = watch_of (es @ new) sid cl ml"
    and "stop = None \<Longrightarrow> (\<forall>d. calls new d > 0 \<longrightarrow> calls (es @ new) d \<le> cl)
      \<and> answers (es @ new) sid \<le> max ml (answers es sid)"
proof -
  have model: "w' = watch_of (es @ new) sid cl ml \<and> (stop = None \<longrightarrow> (\<forall>d. calls new d > 0 \<longrightarrow> calls (es @ new) d \<le> cl)
      \<and> answers (es @ new) sid \<le> max ml (answers es sid))" if "r = Model_Reported"
  proof -
    from assms that obtain e where "new = [e]" "f_kind e = MODEL_CALLED" "r_step_id (f_refs e) = Some sid"
      by (auto simp: report_call_def split_beta list_all2_Cons1 records_report_def)
    with assms(1) that show ?thesis
      by (auto simp: report_call_def watch_answered_def watch_of_eq Let_def calls_def answers_def answers_from_append
          split: if_splits)
  qed
  have tool: "w' = watch_of (es @ new) sid cl ml \<and> (stop = None \<longrightarrow> (\<forall>d. calls new d > 0 \<longrightarrow> calls (es @ new) d \<le> cl)
      \<and> answers (es @ new) sid \<le> max ml (answers es sid))" if r: "r = Tool_Reported t a refused effect" for t a refused effect
  proof (cases refused)
    case True
    with assms r show ?thesis by (auto simp: report_call_def calls_def)
  next
    case False
    let ?result = "if answers es sid > 0 then [(TOOL_RESULT, None)] else []"
    have after: "answers (es @ n) sid = 0 \<and> (\<forall>d. calls n d = 0)" if "list_all2 (records_report sid) ?result n" for n
      using that by (auto simp: list_all2_Cons1 records_report_def answers_def answers_from_append calls_def split: if_splits)
    show ?thesis
    proof (cases "effect = Some ''outward''")
      case True
      let ?d = "identity t a"
      from assms r False True have recs: "recs = ?result @ [(CONNECTOR_CALLED, Some ?d)]"
        and w': "w' = \<lparr>wt_calls_limit = cl, wt_model_calls_limit = ml, wt_made = (calls es)(?d := calls es ?d + 1), wt_streak = 0\<rparr>"
        and stop: "stop = None \<longrightarrow> calls es ?d + 1 \<le> cl"
        by (auto simp: report_call_def watch_resulted_def watch_called_def watch_of_eq Let_def split: if_splits)
      from assms(2) recs obtain n e where new: "new = n @ [e]" "list_all2 (records_report sid) ?result n"
        and e: "f_kind e = CONNECTOR_CALLED" "f_content_digest e = Some ?d" "r_step_id (f_refs e) = Some sid"
        by (auto simp: list_all2_append1 list_all2_Cons1 records_report_def)
      from after [OF new(2)] have n: "answers (es @ n) sid = 0" "\<And>d. calls n d = 0" by auto
      have "calls (es @ new) = (calls es)(?d := calls es ?d + 1)"
        using n e by (auto simp: new(1) calls_append fun_eq_iff) (auto simp: calls_def)
      moreover have "answers (es @ new) sid = 0"
        using n e answers_from_append [of 0 "es @ n" "[e]" sid] by (simp add: answers_def new(1))
      moreover have "calls new d > 0 \<longleftrightarrow> d = ?d" for d
        using n e by (auto simp: new(1) calls_append) (auto simp: calls_def split: if_splits)
      ultimately show ?thesis using w' stop by (auto simp: watch_of_eq)
    next
      case outward: False
      from assms r False outward have recs: "recs = ?result"
        and w': "w' = \<lparr>wt_calls_limit = cl, wt_model_calls_limit = ml, wt_made = calls es, wt_streak = 0\<rparr>"
        by (auto simp: report_call_def watch_resulted_def watch_of_eq Let_def split: if_splits)
      from after [of new] assms(2) recs have n: "answers (es @ new) sid = 0" "\<And>d. calls new d = 0" by auto
      then have "calls (es @ new) = calls es" by (auto simp: calls_append)
      with n w' show ?thesis by (simp add: watch_of_eq)
    qed
  qed
  show "w' = watch_of (es @ new) sid cl ml"
    and "stop = None \<Longrightarrow> (\<forall>d. calls new d > 0 \<longrightarrow> calls (es @ new) d \<le> cl)
      \<and> answers (es @ new) sid \<le> max ml (answers es sid)"
    using model tool by (cases r; blast)+
qed

lemma report_calls_follow:
  "report_calls identity worker (watch_of es sid cl ml) rs = (recs, stops, w') \<Longrightarrow>
     list_all2 (records_report sid) recs new \<Longrightarrow>
     w' = watch_of (es @ new) sid cl ml
   \<and> (set stops \<subseteq> {None} \<longrightarrow> (\<forall>d. calls new d > 0 \<longrightarrow> calls (es @ new) d \<le> cl)
        \<and> answers (es @ new) sid \<le> max ml (answers es sid))"
proof (induction rs arbitrary: es recs stops new w')
  case Nil
  then show ?case by (auto simp: calls_def)
next
  case (Cons r rs)
  obtain recs1 stop w1 where one: "report_call identity worker (watch_of es sid cl ml) r = (recs1, stop, w1)"
    by (cases "report_call identity worker (watch_of es sid cl ml) r")
  obtain recs2 stops2 w2 where rest: "report_calls identity worker w1 rs = (recs2, stops2, w2)"
    by (cases "report_calls identity worker w1 rs")
  from Cons.prems(1) one rest have all: "recs = recs1 @ recs2" "stops = stop # stops2" "w' = w2" by simp_all
  from Cons.prems(2) all(1) obtain n1 n2 where new: "new = n1 @ n2" "list_all2 (records_report sid) recs1 n1"
    "list_all2 (records_report sid) recs2 n2" by (auto simp: list_all2_append1)
  from report_call_follows [OF one new(2)] have w1: "w1 = watch_of (es @ n1) sid cl ml"
    and first: "stop = None \<Longrightarrow> (\<forall>d. calls n1 d > 0 \<longrightarrow> calls (es @ n1) d \<le> cl) \<and> answers (es @ n1) sid \<le> max ml (answers es sid)"
    by blast+
  from Cons.IH [OF rest [unfolded w1] new(3)] have w2: "w2 = watch_of ((es @ n1) @ n2) sid cl ml"
    and later: "set stops2 \<subseteq> {None} \<longrightarrow> (\<forall>d. calls n2 d > 0 \<longrightarrow> calls ((es @ n1) @ n2) d \<le> cl)
        \<and> answers ((es @ n1) @ n2) sid \<le> max ml (answers (es @ n1) sid)" by blast+
  have "(\<forall>d. calls new d > 0 \<longrightarrow> calls (es @ new) d \<le> cl) \<and> answers (es @ new) sid \<le> max ml (answers es sid)"
    if quiet: "set stops \<subseteq> {None}"
  proof
    from quiet all(2) have one: "(\<forall>d. calls n1 d > 0 \<longrightarrow> calls (es @ n1) d \<le> cl) \<and> answers (es @ n1) sid \<le> max ml (answers es sid)"
      and two: "(\<forall>d. calls n2 d > 0 \<longrightarrow> calls ((es @ n1) @ n2) d \<le> cl) \<and> answers ((es @ n1) @ n2) sid \<le> max ml (answers (es @ n1) sid)"
      using first later by auto
    show "\<forall>d. calls new d > 0 \<longrightarrow> calls (es @ new) d \<le> cl"
    proof (intro allI impI)
      fix d assume "calls new d > 0"
      then consider "calls n2 d > 0" | "calls n2 d = 0" "calls n1 d > 0" by (auto simp: new(1) calls_append)
      then show "calls (es @ new) d \<le> cl"
        using one two by cases (auto simp: new(1) calls_append add.assoc)
    qed
    show "answers (es @ new) sid \<le> max ml (answers es sid)" using one two by (auto simp: new(1) max_def split: if_splits)
  qed
  with w2 all(3) new(1) show ?case by simp
qed

text \<open>C40: the watch over a worker's reports counts what the ledger holds: after any reports it is the
  watch a fresh reading of the run's ledger would give, with the entries they recorded; and while it
  stops nothing, no call reported was made more often than the tenant's limit, and no run of model
  answers grew past its limit.\<close>

theorem watch_follows_ledger:
  assumes "report_calls identity worker (watch_of es sid cl ml) rs = (recs, stops, w')"
    and "list_all2 (records_report sid) recs new"
  shows "w' = watch_of (es @ new) sid cl ml
   \<and> (set stops \<subseteq> {None} \<longrightarrow> (\<forall>d. calls new d > 0 \<longrightarrow> calls (es @ new) d \<le> cl)
        \<and> answers (es @ new) sid \<le> max ml (answers es sid))"
  by (rule report_calls_follow [OF assms])

text \<open>Two model answers and an outward tool call, on an empty ledger, with the entries they record.\<close>

definition sample_reports :: "worker_report list" where
  "sample_reports = [Model_Reported, Tool_Reported ''send'' ''a'' False (Some ''outward''), Model_Reported]"

definition sample_recorded :: "ledger_entry list" where
  "sample_recorded = map (\<lambda>(kind, digest).
     \<lparr>f_kind = kind, f_refs = no_refs\<lparr>r_step_id := Some ''s''\<rparr>, f_method = None, f_model = None,
      f_adapter = None, f_consumption = None, f_outcome = None, f_duration_seconds = None,
      f_content_digest = digest, f_rehearsal = False, f_through = None, e_seq = 1, e_ts = 0,
      e_prev_hash = None, e_hash = [], e_chain_seq = None, e_chain_tenant = False\<rparr>)
     [(MODEL_CALLED, None), (TOOL_RESULT, None), (CONNECTOR_CALLED, Some ''senda''), (MODEL_CALLED, None)]"

lemma watch_follows_ledger_witness:
  "calls sample_recorded ''senda'' \<le> 1 \<and> answers sample_recorded ''s'' \<le> 1"
proof -
  let ?run = "report_calls (\<lambda>t a. t @ a) ''w'' (watch_of [] ''s'' 1 1) sample_reports"
  have run: "?run = (fst ?run, fst (snd ?run), snd (snd ?run))" by simp
  have recorded: "fst ?run = [(MODEL_CALLED, None), (TOOL_RESULT, None), (CONNECTOR_CALLED, Some ''senda''), (MODEL_CALLED, None)]"
    and quiet: "set (fst (snd ?run)) \<subseteq> {None}" by code_simp+
  have "list_all2 (records_report ''s'') (fst ?run) sample_recorded"
    unfolding recorded by (simp add: sample_recorded_def records_report_def no_refs_def)
  from watch_follows_ledger [OF run this] quiet
  have "(\<forall>d. calls sample_recorded d > 0 \<longrightarrow> calls sample_recorded d \<le> 1) \<and> answers sample_recorded ''s'' \<le> 1"
    by (simp add: answers_def)
  then show ?thesis by (metis le_zero_eq nle_le not_gr_zero zero_le)
qed

subsection \<open>Waiting\<close>

lemma wait_delay_eq: "wait_delay n first cap = min (first * 2 ^ min (n - 1) 32) cap"
  by (simp add: wait_delay_def)

text \<open>the delays of a wait are never above their cap, never shrink, at most double from one answer
  to the next, and do reach the cap when the first delay is positive and the cap at most four
  billion times as long.\<close>

theorem wait_delay_grows_to_cap:
  assumes "0 \<le> first" "first \<le> cap" "m \<le> n"
  shows "wait_delay m first cap \<le> wait_delay n first cap \<and> wait_delay n first cap \<le> cap
    \<and> first \<le> wait_delay m first cap
    \<and> wait_delay (Suc n) first cap \<le> 2 * wait_delay n first cap
    \<and> (cap \<le> first * 2 ^ 32 \<and> 33 \<le> n \<longrightarrow> wait_delay n first cap = cap)"
proof -
  have mono: "first * 2 ^ i \<le> first * 2 ^ j" if "i \<le> j" for i j :: nat
    using assms(1) that by (intro mult_left_mono power_increasing) auto
  have "wait_delay m first cap \<le> wait_delay n first cap"
    unfolding wait_delay_eq using assms(3) by (intro min.mono mono) auto
  moreover have "wait_delay n first cap \<le> cap" by (simp add: wait_delay_eq)
  moreover have "first \<le> wait_delay m first cap"
    using mono [of 0 "min (m - 1) 32"] assms(2) by (simp add: wait_delay_eq)
  moreover have "wait_delay (Suc n) first cap \<le> 2 * wait_delay n first cap"
  proof -
    let ?i = "min (n - 1) 32"
    have "min (Suc n - 1) 32 \<le> Suc ?i" by auto
    from mono [OF this] have "first * 2 ^ min (Suc n - 1) 32 \<le> 2 * (first * 2 ^ ?i)" by (simp add: ac_simps)
    then show ?thesis unfolding wait_delay_eq using assms(1,2) by (auto simp: min_def)
  qed
  moreover have "wait_delay n first cap = cap" if "cap \<le> first * 2 ^ 32" "33 \<le> n"
  proof -
    from that(2) have "min (n - 1) 32 = 32" by simp
    with that(1) show ?thesis unfolding wait_delay_eq by (simp only: min_absorb2)
  qed
  ultimately show ?thesis by blast
qed

lemma wait_delay_grows_to_cap_witness:
  "wait_delay 2 30 600 \<le> wait_delay 40 30 600 \<and> wait_delay 40 30 600 = 600"
  using wait_delay_grows_to_cap [of 30 600 2 40] by simp

subsection \<open>The platform\<close>

text \<open>a job fits the platform exactly when what was observed of its memory holds the unit and the
  reserve, and what was observed of its storage is not below the refusal share; what was not
  observed refuses nothing and is named.\<close>

theorem platform_admission_exact:
  "cy_fits (admit_capacity observed demand rules) \<longleftrightarrow>
     \<not> (\<exists>b h. cd_memory_bytes demand = Some b \<and> po_memory observed = Observed h
          \<and> hr_free h < of_int (b + cr_memory_reserve_bytes rules))
   \<and> \<not> (\<exists>h. po_storage observed = Observed h \<and> hr_free h / hr_total h < cr_storage_refuse_free_percent rules / 100)"
  by (cases "cd_memory_bytes demand"; cases "po_memory observed"; cases "po_storage observed")
    (simp_all add: admit_capacity_def free_fraction_def)

subsection \<open>Healing\<close>

text \<open>A failure and what Taktus did about it: it healed, or the failure escalated.\<close>

fun heal_failures :: "level \<Rightarrow> bool \<Rightarrow> nat \<Rightarrow> (bool option \<times> bool \<times> bool \<times> bool) list \<Rightarrow> nat" where
  "heal_failures level rehearsal healed [] = healed"
| "heal_failures level rehearsal healed ((retryable, blocked, repeatable, stop_requested) # fs) =
     (if hl_heals (healing_of level rehearsal retryable blocked repeatable stop_requested healed)
      then heal_failures level rehearsal (Suc healed) fs else healed)"

lemma healing_of_heals: "hl_heals (healing_of level rehearsal retryable blocked repeatable stop_requested healed) \<longleftrightarrow>
   level \<ge> UNATTENDED \<and> \<not> rehearsal \<and> \<not> stop_requested \<and> retryable = Some True \<and> \<not> blocked \<and> repeatable \<and> healed < HEALS"
  by (auto simp: healing_of_def)

lemma heal_failures_bound: "healed \<le> HEALS \<Longrightarrow> heal_failures level rehearsal healed fs \<le> HEALS"
  by (induction level rehearsal healed fs rule: heal_failures.induct) (auto simp: healing_of_heals)

end
