(* ===== verification/Run_Pricing.thy ===== *)
theory Run_Pricing
  imports Complex_Main Run_Budget
begin

text \<open>
  Money from the record: the price table of \<open>ports/model.py\<close>, the money of tokens and of compute
  seconds at it, what a budget can promise (\<open>budget.py\<close>), and the figures \<open>execute_run.py\<close> admits
  a step against under a currency budget. Amounts that are floats in the code are rational numbers,
  rounded to nine digits where the code rounds, half to even.
\<close>

subsection \<open>The price table\<close>

datatype input_count = COUNT_EXACT | COUNT_UPPER_BOUND | COUNT_ESTIMATE | COUNT_NONE
datatype output_cap = CAP_HARD | CAP_SOFT | CAP_NONE
datatype billing = PER_TOKEN | PER_WINDOW | PER_HARDWARE_TIME
datatype provider_limit = LIMIT_HARD | LIMIT_ALERT | LIMIT_NONE | LIMIT_UNKNOWN
datatype price_kind = KIND_INPUT | KIND_OUTPUT | KIND_CACHE_READ | KIND_CACHE_WRITE

fun price_kind_value :: "price_kind \<Rightarrow> string" where
  "price_kind_value KIND_INPUT = ''input''"
| "price_kind_value KIND_OUTPUT = ''output''"
| "price_kind_value KIND_CACHE_READ = ''cache_read''"
| "price_kind_value KIND_CACHE_WRITE = ''cache_write''"

record calculability =
  ca_input_count :: input_count
  ca_output_cap :: output_cap
  ca_usage_kinds :: "price_kind list"
  ca_billing :: billing
  ca_provider_limit :: "provider_limit option"
  ca_evidence :: "string option"

definition calculability_ok :: "calculability \<Rightarrow> bool" where
  "calculability_ok c \<longleftrightarrow> ca_usage_kinds c \<noteq> [] \<and> ca_evidence c \<noteq> Some [] \<and> distinct (ca_usage_kinds c)"

record price_table =
  pt_version :: string
  pt_valid_from :: moment
  pt_currency :: string
  pt_unit_tokens :: int
  pt_source :: string
  pt_prices :: "(string \<times> (price_kind \<times> rat) list) list"
  pt_compute :: "(string \<times> rat) list option"

text \<open>The bounds of the fields and \<open>_prices_are_not_negative\<close>; the patterns of the names are left out.\<close>

definition price_table_ok :: "price_table \<Rightarrow> bool" where
  "price_table_ok t \<longleftrightarrow>
     pt_unit_tokens t \<ge> 1 \<and> pt_source t \<noteq> [] \<and> pt_prices t \<noteq> [] \<and> pt_compute t \<noteq> Some []
   \<and> (\<forall>(model, kinds) \<in> set (pt_prices t). kinds \<noteq> [] \<and> (\<forall>(kind, p) \<in> set kinds. p \<ge> 0))
   \<and> (\<forall>(resource_class, p) \<in> set (items (pt_compute t)). p \<ge> 0)"

record priced =
  pd_amount :: rat
  pd_currency :: string
  pd_table :: string
  pd_unpriced :: "string list"

definition priced_complete :: "priced \<Rightarrow> bool" where
  "priced_complete p \<longleftrightarrow> pd_unpriced p = []"

text \<open>\<open>SNAPSHOT_DATE.sub\<close>: a hyphen and eight digits at the end of the name are taken off. A model's
  name is ASCII and has no line break (\<open>MODEL_NAME_PATTERN\<close>).\<close>

definition undated :: "string \<Rightarrow> string" where
  "undated model =
     (let body = take (length model - 9) model; tail = drop (length model - 9) model
      in if length model \<ge> 9 \<and> hd tail = CHR ''-'' \<and> list_all is_digit (tl tail) then body else model)"

definition entry_for :: "string \<Rightarrow> (string \<times> 'a) list \<Rightarrow> 'a option" where
  "entry_for model entries =
     (case map_of entries model of Some e \<Rightarrow> Some e | None \<Rightarrow> map_of entries (undated model))"

text \<open>\<open>round(x, 9)\<close>, half to even.\<close>

definition half_even :: "rat \<Rightarrow> int" where
  "half_even x =
     (let n = \<lfloor>x\<rfloor>; rest = x - of_int n
      in if rest < 1/2 then n else if rest > 1/2 then n + 1 else if even n then n else n + 1)"

definition round9 :: "rat \<Rightarrow> rat" where
  "round9 x = of_int (half_even (x * 10 ^ 9)) / 10 ^ 9"

definition count_of_kind :: "price_kinds \<Rightarrow> price_kind \<Rightarrow> int option" where
  "count_of_kind k kind = (case kind of KIND_INPUT \<Rightarrow> k_input k | KIND_OUTPUT \<Rightarrow> k_output k
     | KIND_CACHE_READ \<Rightarrow> k_cache_read k | KIND_CACHE_WRITE \<Rightarrow> k_cache_write k)"

definition KINDS_PRICED :: "price_kind list" where
  "KINDS_PRICED = [KIND_INPUT, KIND_OUTPUT, KIND_CACHE_READ, KIND_CACHE_WRITE]"

definition price_step :: "price_table \<Rightarrow> rat \<times> string list \<Rightarrow> string \<times> price_kinds \<times> price_kind \<Rightarrow> rat \<times> string list" where
  "price_step t acc x =
     (case (acc, x) of ((amount, unpriced), (model, kinds, kind)) \<Rightarrow>
        let count = or0 (count_of_kind kinds kind)
        in if count = 0 then (amount, unpriced)
           else case (case entry_for model (pt_prices t) of None \<Rightarrow> None | Some prices \<Rightarrow> map_of prices kind) of
                  None \<Rightarrow> (amount, unpriced @ [model @ '' '' @ price_kind_value kind])
                | Some per_unit \<Rightarrow> (amount + of_int count * per_unit / of_int (pt_unit_tokens t), unpriced))"

definition price :: "tokens_by_model \<Rightarrow> price_table \<Rightarrow> priced" where
  "price tokens t =
     (let (amount, unpriced) = foldl (price_step t) (0, [])
            (concat (map (\<lambda>(model, kinds). map (\<lambda>kind. (model, kinds, kind)) KINDS_PRICED) (sort_key fst tokens)))
      in \<lparr>pd_amount = round9 amount, pd_currency = pt_currency t, pd_table = pt_version t, pd_unpriced = unpriced\<rparr>)"

definition compute_price :: "price_table \<Rightarrow> string \<Rightarrow> rat option" where
  "compute_price t c = (case pt_compute t of None \<Rightarrow> None | Some prices \<Rightarrow> map_of prices c)"

definition compute_step :: "price_table \<Rightarrow> rat \<times> string list \<Rightarrow> string \<times> rat \<Rightarrow> rat \<times> string list" where
  "compute_step t acc x =
     (case (acc, x) of ((amount, unpriced), (resource_class, used)) \<Rightarrow>
        if used = 0 then (amount, unpriced)
        else case compute_price t resource_class of
               None \<Rightarrow> (amount, unpriced @ [''compute '' @ resource_class])
             | Some per_second \<Rightarrow> (amount + used * per_second, unpriced))"

definition price_compute :: "(string \<times> rat) list \<Rightarrow> price_table \<Rightarrow> priced" where
  "price_compute seconds t =
     (let (amount, unpriced) = foldl (compute_step t) (0, []) (sort_key fst seconds)
      in \<lparr>pd_amount = round9 amount, pd_currency = pt_currency t, pd_table = pt_version t, pd_unpriced = unpriced\<rparr>)"

subsection \<open>What a budget can promise\<close>

datatype how_held = HELD | ESTIMATE | WINDOW_SHARE | COMPUTE_TIME | UNPRICED

text \<open>The reason of a promise, with what its sentence names.\<close>

datatype promise_reason =
    Every_Model_Counts | Input_Only_As string input_count | Output_Limit string output_cap
  | Reported_Per_Step | Reported_And_Bounded
  | Billed_By_Window string | Costs_Its_Time string | No_Price_For string
  | Money_By_Assignment "string list" | Bounded_And_Priced
  | No_Table | Table_Without_Compute string | Other_Currency string string "string list"
  | Priced_Per_Class string "string list" string

record promise_made =
  pm_kind :: string
  pm_how :: how_held
  pm_reason :: promise_reason

definition COMPUTE_MONEY :: string where "COMPUTE_MONEY = ''compute_money''"

type_synonym configured_model = "string \<times> calculability \<times> bool"

fun weakest_count :: "configured_model list \<Rightarrow> promise_reason option" where
  "weakest_count [] = None"
| "weakest_count ((adapter, c, p) # models) =
     (if ca_input_count c \<in> {COUNT_ESTIMATE, COUNT_NONE} then Some (Input_Only_As adapter (ca_input_count c))
      else if ca_output_cap c \<noteq> CAP_HARD then Some (Output_Limit adapter (ca_output_cap c))
      else weakest_count models)"

definition currency_promise :: "configured_model list \<Rightarrow> string list \<Rightarrow> promise_made" where
  "currency_promise models by_assignment =
     (let made = (\<lambda>how reason. \<lparr>pm_kind = ''currency'', pm_how = how, pm_reason = reason\<rparr>)
      in case List.find (\<lambda>(a, c, p). ca_billing c = PER_WINDOW) models of
           Some (a, _) \<Rightarrow> made WINDOW_SHARE (Billed_By_Window a)
         | None \<Rightarrow>
      (case List.find (\<lambda>(a, c, p). ca_billing c = PER_HARDWARE_TIME) models of
           Some (a, _) \<Rightarrow> made COMPUTE_TIME (Costs_Its_Time a)
         | None \<Rightarrow>
      (case List.find (\<lambda>(a, c, p). \<not> p) models of
           Some (a, _) \<Rightarrow> made UNPRICED (No_Price_For a)
         | None \<Rightarrow>
      (case weakest_count models of
           Some weak \<Rightarrow> made ESTIMATE weak
         | None \<Rightarrow>
             if by_assignment \<noteq> [] then made ESTIMATE (Money_By_Assignment by_assignment)
             else made HELD Bounded_And_Priced))))"

definition compute_money :: "limits \<Rightarrow> price_table option \<Rightarrow> promise_made option" where
  "compute_money budget table =
     (case l_currency budget of
        None \<Rightarrow> None
      | Some currency \<Rightarrow>
          let refused = (\<lambda>reason. Some \<lparr>pm_kind = COMPUTE_MONEY, pm_how = UNPRICED, pm_reason = reason\<rparr>)
          in (case table of
                None \<Rightarrow> refused No_Table
              | Some t \<Rightarrow>
                  (case pt_compute t of
                     None \<Rightarrow> refused (Table_Without_Compute (pt_version t))
                   | Some classes \<Rightarrow>
                       if pt_currency t \<notin> fst ` set currency
                       then refused (Other_Currency (pt_version t) (pt_currency t) (sort (map fst currency)))
                       else Some \<lparr>pm_kind = COMPUTE_MONEY, pm_how = HELD,
                          pm_reason = Priced_Per_Class (pt_version t) (sort (map fst classes)) (pt_currency t)\<rparr>)))"

definition promise ::
  "limits \<Rightarrow> configured_model list \<Rightarrow> string list \<Rightarrow> string list \<Rightarrow> price_table option \<Rightarrow> promise_made list" where
  "promise budget models by_assignment compute_steps table =
     (if l_tokens budget = None then []
      else [case weakest_count models of
              None \<Rightarrow> \<lparr>pm_kind = ''tokens'', pm_how = HELD, pm_reason = Every_Model_Counts\<rparr>
            | Some worst \<Rightarrow> \<lparr>pm_kind = ''tokens'', pm_how = ESTIMATE, pm_reason = worst\<rparr>])
   @ (if l_currency budget = None then [] else [currency_promise models by_assignment])
   @ (if l_quota budget = None then []
      else [\<lparr>pm_kind = ''quota'', pm_how = HELD, pm_reason = Reported_And_Bounded\<rparr>])
   @ (if l_compute budget = None then []
      else [\<lparr>pm_kind = ''compute'', pm_how = HELD, pm_reason = Reported_Per_Step\<rparr>])
   @ (if compute_steps = [] then []
      else case compute_money budget table of None \<Rightarrow> [] | Some p \<Rightarrow> [p])"

subsection \<open>Quantities with their money\<close>

definition add_priced :: "quantities \<Rightarrow> priced \<Rightarrow> quantities \<times> string list" where
  "add_priced q p =
     (if pd_amount p = 0 then (q, pd_unpriced p)
      else (q\<lparr>u_currency := Some (add_currency (items (u_currency q)) (pd_currency p, pd_amount p))\<rparr>, pd_unpriced p))"

definition with_money :: "quantities \<Rightarrow> (string \<times> rat) list \<Rightarrow> price_table \<Rightarrow> quantities \<times> string list" where
  "with_money q seconds t = add_priced q (price_compute seconds t)"

definition with_token_money :: "quantities \<Rightarrow> tokens_by_model option \<Rightarrow> price_table \<Rightarrow> quantities \<times> string list" where
  "with_token_money q tokens t =
     (if items tokens = [] then (q, []) else add_priced q (price (items tokens) t))"

subsection \<open>What the engine admits a step against\<close>

definition compute_table :: "price_table option \<Rightarrow> run \<Rightarrow> price_table option" where
  "compute_table prices r =
     (case compute_money (run_budget r) prices of
        Some p \<Rightarrow> if pm_how p = HELD then prices else None | None \<Rightarrow> None)"

definition token_table :: "price_table option \<Rightarrow> run \<Rightarrow> price_table option" where
  "token_table prices r = (if l_currency (run_budget r) = None then None else prices)"

definition spent :: "price_table option \<Rightarrow> run \<Rightarrow> quantities" where
  "spent prices r =
     (let used = (case token_table prices r of
            None \<Rightarrow> consumed r
          | Some t \<Rightarrow> fst (with_token_money (consumed r) (fst (tokens_without_money r)) t))
      in case compute_table prices r of
           None \<Rightarrow> used | Some t \<Rightarrow> fst (with_money used (compute_by_class r) t))"

definition priced_quantities :: "price_table option \<Rightarrow> run \<Rightarrow> quantities \<Rightarrow> quantities" where
  "priced_quantities prices r q =
     (case (compute_table prices r, u_class q) of
        (Some t, Some c) \<Rightarrow>
          if or0 (u_compute q) = 0 then q else fst (with_money q [(c, or0 (u_compute q))] t)
      | _ \<Rightarrow> q)"

definition per_second :: "price_table option \<Rightarrow> run \<Rightarrow> quantities \<Rightarrow> (string \<times> rat) option" where
  "per_second prices r reservation =
     (case (compute_table prices r, u_class reservation) of
        (Some t, Some c) \<Rightarrow>
          (case compute_price t c of None \<Rightarrow> None | Some p \<Rightarrow> Some (pt_currency t, p))
      | _ \<Rightarrow> None)"

datatype why_unpriced =
    Tokens_Unpriced string "string list" "string list"
  | Compute_Not_Held promise_reason
  | Compute_Unpriced string "string list"

text \<open>\<open>_unpriced\<close>: None when the step's cost and what is left of the budget can be computed.\<close>

definition seconds_with :: "(string \<times> rat) list \<Rightarrow> quantities \<Rightarrow> (string \<times> rat) list" where
  "seconds_with seconds q =
     (if or0 (u_compute q) = 0 then seconds
      else add_currency seconds
        (case u_class q of None \<Rightarrow> ''an unnamed class'' | Some c \<Rightarrow> if c = [] then ''an unnamed class'' else c,
         or0 (u_compute q)))"

definition tokens_unpriced :: "price_table option \<Rightarrow> run \<Rightarrow> quantities \<Rightarrow> why_unpriced option" where
  "tokens_unpriced prices r q =
     (case token_table prices r of
        None \<Rightarrow> None
      | Some t \<Rightarrow>
          let (tokens, unattributed) = tokens_without_money r;
              missing = snd (with_token_money q tokens t)
          in if unattributed \<noteq> [] \<or> missing \<noteq> [] then Some (Tokens_Unpriced (pt_version t) unattributed missing) else None)"

definition unpriced_step :: "price_table option \<Rightarrow> run \<Rightarrow> quantities \<Rightarrow> why_unpriced option" where
  "unpriced_step prices r q =
     (if l_currency (run_budget r) = None \<or> (or0 (u_compute q) = 0 \<and> items (u_currency q) = []) then None
      else case tokens_unpriced prices r q of
        Some w \<Rightarrow> Some w
      | None \<Rightarrow>
          (case compute_table prices r of
             None \<Rightarrow>
               if or0 (u_compute q) = 0 then None
               else map_option (\<lambda>p. Compute_Not_Held (pm_reason p)) (compute_money (run_budget r) prices)
           | Some t \<Rightarrow>
               let missing = snd (with_money q (seconds_with (compute_by_class r) q) t)
               in if missing = [] then None else Some (Compute_Unpriced (pt_version t) missing)))"

subsection \<open>The estimate of a step on a model\<close>

text \<open>\<open>MODEL_NAME_PATTERN\<close>, matched in full.\<close>

definition alnum :: "char \<Rightarrow> bool" where
  "alnum c \<longleftrightarrow> is_digit c \<or> (CHR ''A'' \<le> c \<and> c \<le> CHR ''Z'') \<or> (CHR ''a'' \<le> c \<and> c \<le> CHR ''z'')"

definition model_name :: "string \<Rightarrow> bool" where
  "model_name m \<longleftrightarrow> (case m of [] \<Rightarrow> False
     | c # cs \<Rightarrow> alnum c \<and> length cs \<le> 127 \<and> list_all (\<lambda>c. alnum c \<or> c \<in> set ''._:/@+-'') cs)"

datatype no_estimate =
    Cannot_Count string input_count
  | No_Price string
  | Priced_Without string "string list"
  | No_Money why_unpriced
  | Undeclared string

text \<open>\<open>_llm_demand\<close>, once the model is routed and asked: what its adapter counted, or None.\<close>

definition bound_table :: "price_table \<Rightarrow> string \<Rightarrow> (price_kind \<times> rat) list \<Rightarrow> price_table" where
  "bound_table t model prices =
     t\<lparr>pt_prices := [(model, AList.update KIND_INPUT
         (max (or0 (map_of prices KIND_INPUT)) (or0 (map_of prices KIND_CACHE_WRITE))) prices)]\<rparr>"

definition bounded_tokens :: "int \<Rightarrow> int \<Rightarrow> price_kinds" where
  "bounded_tokens count max_output =
     \<lparr>k_input = Some count, k_output = Some max_output, k_cache_read = None, k_cache_write = None\<rparr>"

definition llm_demand ::
  "price_table option \<Rightarrow> run \<Rightarrow> string \<Rightarrow> string option \<Rightarrow> input_count \<Rightarrow> int option \<Rightarrow> int \<Rightarrow> no_estimate + quantities" where
  "llm_demand prices r adapter version declared counted_input max_output =
     (case counted_input of
        None \<Rightarrow> Inl (Cannot_Count adapter declared)
      | Some count \<Rightarrow>
          let model = (case version of None \<Rightarrow> [] | Some v \<Rightarrow> v);
              tokens = bounded_tokens count max_output;
              demand = no_quantities\<lparr>u_in := Some count, u_out := Some max_output,
                u_by_model := (if model_name model then Some [(model, tokens)] else None)\<rparr>
          in if l_currency (run_budget r) = None then Inr demand
             else (case prices of
                     None \<Rightarrow> Inl (No_Price model)
                   | Some t \<Rightarrow>
                       (case map_of (pt_prices t) model of
                          None \<Rightarrow> Inl (No_Price model)
                        | Some of_model \<Rightarrow>
                            let bound = price [(model, tokens)] (bound_table t model of_model)
                            in if \<not> priced_complete bound then Inl (Priced_Without model (pd_unpriced bound))
                               else Inr (demand\<lparr>u_currency := Some [(pt_currency t, pd_amount bound)]\<rparr>))))"

end
