(* ===== verification/Run_Money.thy ===== *)
theory Run_Money
  imports "HOL-Library.Multiset" Run_Pricing Run_Admission
begin

text \<open>
  What the money of a run is held by: tokens and compute seconds are priced exactly to nine digits
  and whatever has no price is named; what a budget promises follows from the models' declarations;
  what a run spent is what its record says plus the money of the rest; a step admitted under a
  currency budget keeps that sum within the line, and none of it is unpriced.
\<close>

subsection \<open>Rounding\<close>

lemma half_even_close: "\<bar>of_int (half_even x) - x\<bar> \<le> 1 / 2"
proof -
  have "of_int \<lfloor>x\<rfloor> \<le> x" "x < of_int \<lfloor>x\<rfloor> + 1" by linarith+
  then show ?thesis
    unfolding half_even_def Let_def by (simp split: if_splits)
qed

lemma round9_close: "\<bar>round9 x - x\<bar> \<le> 1 / (2 * 10 ^ 9)"
proof -
  have "round9 x - x = (of_int (half_even (x * 10 ^ 9)) - x * 10 ^ 9) / 10 ^ 9"
    by (simp add: round9_def diff_divide_distrib)
  then have "\<bar>round9 x - x\<bar> = \<bar>of_int (half_even (x * 10 ^ 9)) - x * 10 ^ 9\<bar> / 10 ^ 9"
    by (simp only: abs_divide) simp
  with half_even_close [of "x * 10 ^ 9"] show ?thesis by simp
qed

lemma half_even_mono:
  assumes "x \<le> y" shows "half_even x \<le> half_even y"
proof (rule ccontr)
  assume "\<not> half_even x \<le> half_even y"
  then have "of_int (half_even y) + 1 \<le> (of_int (half_even x) :: rat)"
    by (metis not_less of_int_1 of_int_add of_int_le_iff zless_imp_add1_zle)
  moreover have "of_int (half_even x) - x \<le> 1 / 2" "y - of_int (half_even y) \<le> 1 / 2"
    using half_even_close [of x] half_even_close [of y] by linarith+
  ultimately have "x = y" using assms by linarith
  with \<open>\<not> half_even x \<le> half_even y\<close> show False by simp
qed

lemma half_even_of_int [simp]: "half_even (of_int n) = n"
  by (simp add: half_even_def)

lemma round9_mono: "x \<le> y \<Longrightarrow> round9 x \<le> round9 y"
  unfolding round9_def by (intro divide_right_mono) (simp_all add: half_even_mono)

lemma round9_0 [simp]: "round9 0 = 0"
  using half_even_of_int [of 0] by (simp add: round9_def)

lemma round9_nonneg: "0 \<le> x \<Longrightarrow> 0 \<le> round9 x"
  using round9_mono [of 0 x] by simp

subsection \<open>Prices\<close>

text \<open>The price of one kind of tokens of a model, and what has none.\<close>

definition unit_price :: "price_table \<Rightarrow> string \<Rightarrow> price_kind \<Rightarrow> rat option" where
  "unit_price t model kind =
     (case entry_for model (pt_prices t) of None \<Rightarrow> None | Some prices \<Rightarrow> map_of prices kind)"

definition kind_cost :: "price_table \<Rightarrow> string \<times> price_kinds \<times> price_kind \<Rightarrow> rat" where
  "kind_cost t x = (case x of (model, kinds, kind) \<Rightarrow>
     of_int (or0 (count_of_kind kinds kind)) * or0 (unit_price t model kind) / of_int (pt_unit_tokens t))"

definition kind_unpriced :: "price_table \<Rightarrow> string \<times> price_kinds \<times> price_kind \<Rightarrow> string list" where
  "kind_unpriced t x = (case x of (model, kinds, kind) \<Rightarrow>
     if or0 (count_of_kind kinds kind) \<noteq> 0 \<and> unit_price t model kind = None
     then [model @ '' '' @ price_kind_value kind] else [])"

lemma price_step_eq: "price_step t (a, u) x = (a + kind_cost t x, u @ kind_unpriced t x)"
  by (cases x) (auto simp: price_step_def kind_cost_def kind_unpriced_def unit_price_def Let_def split: option.splits)

lemma foldl_price_step:
  "foldl (price_step t) (a, u) xs = (a + sum_list (map (kind_cost t) xs), u @ concat (map (kind_unpriced t) xs))"
  by (induction xs arbitrary: a u) (simp_all add: price_step_eq add.assoc)

definition exact_cost :: "price_table \<Rightarrow> tokens_by_model \<Rightarrow> rat" where
  "exact_cost t tokens = (\<Sum>(model, kinds)\<leftarrow>tokens. \<Sum>kind\<leftarrow>KINDS_PRICED. kind_cost t (model, kinds, kind))"

definition kinds_of :: "tokens_by_model \<Rightarrow> (string \<times> price_kinds \<times> price_kind) list" where
  "kinds_of tokens = concat (map (\<lambda>(model, kinds). map (\<lambda>kind. (model, kinds, kind)) KINDS_PRICED) tokens)"

lemma sum_list_kinds_of:
  "sum_list (map (kind_cost t) (kinds_of tokens)) = exact_cost t tokens"
  by (induction tokens) (auto simp: kinds_of_def exact_cost_def comp_def)

lemma exact_cost_mset: "mset xs = mset ys \<Longrightarrow> exact_cost t xs = exact_cost t ys"
  unfolding exact_cost_def by (simp only: sum_mset_sum_list [symmetric] mset_map)

lemma price_eq:
  "pd_amount (price tokens t) = round9 (exact_cost t tokens)"
  "pd_unpriced (price tokens t) = concat (map (kind_unpriced t) (kinds_of (sort_key fst tokens)))"
  "pd_currency (price tokens t) = pt_currency t"
proof -
  have "sum_list (map (kind_cost t) (kinds_of (sort_key fst tokens))) = exact_cost t tokens"
    using exact_cost_mset [of "sort_key fst tokens" tokens t] by (simp add: sum_list_kinds_of)
  then show "pd_amount (price tokens t) = round9 (exact_cost t tokens)"
    "pd_unpriced (price tokens t) = concat (map (kind_unpriced t) (kinds_of (sort_key fst tokens)))"
    "pd_currency (price tokens t) = pt_currency t"
    by (simp_all add: price_def Let_def foldl_price_step split_beta flip: kinds_of_def)
qed

lemma in_kinds_of: "(model, k, kind) \<in> set (kinds_of tokens) \<longleftrightarrow> (model, k) \<in> set tokens"
  by (cases kind) (auto simp: kinds_of_def KINDS_PRICED_def)

lemma price_of_mset:
  assumes "mset tokens = mset tokens'" "distinct (map fst tokens)"
  shows "price tokens t = price tokens' t"
proof -
  have "inj_on fst (set tokens)" using assms(2) by (simp add: distinct_map)
  from sort_key_inj_key_eq [of tokens "sort_key fst tokens'" fst, OF _ this] assms(1)
  have "sort_key fst tokens = sort_key fst tokens'" by simp
  then show ?thesis by (simp add: price_def)
qed

lemma unit_price_nonneg: "price_table_ok t \<Longrightarrow> or0 (unit_price t model kind) \<ge> 0"
  unfolding unit_price_def entry_for_def price_table_ok_def
  by (auto simp: or0_def split: option.split dest!: map_of_SomeD)

lemma count_nonneg: "kinds_ok k \<Longrightarrow> or0 (count_of_kind k kind) \<ge> 0"
  by (cases kind) (auto simp: kinds_ok_def count_of_kind_def)

lemma kind_cost_nonneg:
  assumes "price_table_ok t" "kinds_ok k"
  shows "kind_cost t (model, k, kind) \<ge> 0"
proof -
  have "1 \<le> pt_unit_tokens t" using assms(1) by (simp add: price_table_ok_def)
  then show ?thesis
    using unit_price_nonneg [OF assms(1)] count_nonneg [OF assms(2)] by (simp add: kind_cost_def)
qed

lemma exact_cost_nonneg:
  assumes "price_table_ok t" "\<forall>(model, k) \<in> set tokens. kinds_ok k"
  shows "exact_cost t tokens \<ge> 0"
  using assms(2) kind_cost_nonneg [OF assms(1)]
  by (induction tokens) (auto simp: exact_cost_def KINDS_PRICED_def)


subsection \<open>Compute seconds\<close>

definition class_cost :: "price_table \<Rightarrow> string \<times> rat \<Rightarrow> rat" where
  "class_cost t x = snd x * or0 (compute_price t (fst x))"

definition class_unpriced :: "price_table \<Rightarrow> string \<times> rat \<Rightarrow> string list" where
  "class_unpriced t x = (if snd x \<noteq> 0 \<and> compute_price t (fst x) = None then [''compute '' @ fst x] else [])"

definition exact_seconds :: "price_table \<Rightarrow> (string \<times> rat) list \<Rightarrow> rat" where
  "exact_seconds t seconds = sum_list (map (class_cost t) seconds)"

lemma compute_step_eq: "compute_step t (a, u) x = (a + class_cost t x, u @ class_unpriced t x)"
  by (cases x) (auto simp: compute_step_def class_cost_def class_unpriced_def split: option.splits)

lemma foldl_compute_step:
  "foldl (compute_step t) (a, u) xs = (a + sum_list (map (class_cost t) xs), u @ concat (map (class_unpriced t) xs))"
  by (induction xs arbitrary: a u) (simp_all add: compute_step_eq add.assoc)

lemma price_compute_eq:
  "pd_amount (price_compute seconds t) = round9 (exact_seconds t seconds)"
  "pd_unpriced (price_compute seconds t) = concat (map (class_unpriced t) (sort_key fst seconds))"
  "pd_currency (price_compute seconds t) = pt_currency t"
proof -
  have "sum_list (map f (sort_key fst seconds)) = sum_list (map f seconds)" for f :: "string \<times> rat \<Rightarrow> rat"
    by (simp only: sum_mset_sum_list [symmetric] mset_map mset_sort)
  then show "pd_amount (price_compute seconds t) = round9 (exact_seconds t seconds)"
    "pd_unpriced (price_compute seconds t) = concat (map (class_unpriced t) (sort_key fst seconds))"
    "pd_currency (price_compute seconds t) = pt_currency t"
    by (simp_all add: price_compute_def Let_def foldl_compute_step split_beta exact_seconds_def)
qed

subsection \<open>What a budget promises\<close>

lemma weakest_count_None:
  "weakest_count models = None \<longleftrightarrow>
     (\<forall>(a, c, p) \<in> set models. ca_input_count c \<in> {COUNT_EXACT, COUNT_UPPER_BOUND} \<and> ca_output_cap c = CAP_HARD)"
proof (induction models rule: weakest_count.induct)
  case (2 a c p models)
  then show ?case by (cases "ca_input_count c") auto
qed simp

lemma find_None_ball: "List.find P xs = None \<longleftrightarrow> (\<forall>x \<in> set xs. \<not> P x)"
  by (auto simp: find_None_iff)

text \<open>What the promises rest on: every model bounds its input and caps its output hard; besides, it is
  billed by token and priced; a kind is promised as held.\<close>

definition all_bounded :: "configured_model list \<Rightarrow> bool" where
  "all_bounded = list_all (\<lambda>(a, c, p). ca_input_count c \<in> {COUNT_EXACT, COUNT_UPPER_BOUND} \<and> ca_output_cap c = CAP_HARD)"

definition all_priced :: "configured_model list \<Rightarrow> bool" where
  "all_priced = list_all (\<lambda>(a, c, p). ca_billing c = PER_TOKEN \<and> p)"

definition promised_held :: "string \<Rightarrow> promise_made list \<Rightarrow> bool" where
  "promised_held kind = list_ex (\<lambda>p. pm_kind p = kind \<and> pm_how p = HELD)"

lemma currency_held:
  "pm_how (currency_promise models by_assignment) = HELD \<longleftrightarrow>
     by_assignment = [] \<and> all_priced models \<and> all_bounded models"
proof -
  have billing: "b = PER_TOKEN \<longleftrightarrow> b \<noteq> PER_WINDOW \<and> b \<noteq> PER_HARDWARE_TIME" for b by (cases b) auto
  have "pm_how (currency_promise models by_assignment) = HELD \<longleftrightarrow>
      List.find (\<lambda>(a, c, p). ca_billing c = PER_WINDOW) models = None
    \<and> List.find (\<lambda>(a, c, p). ca_billing c = PER_HARDWARE_TIME) models = None
    \<and> List.find (\<lambda>(a, c, p). \<not> p) models = None \<and> weakest_count models = None \<and> by_assignment = []"
    by (auto simp: currency_promise_def Let_def split: option.split)
  also have "\<dots> \<longleftrightarrow> by_assignment = [] \<and> all_priced models \<and> all_bounded models"
    unfolding find_None_ball weakest_count_None all_priced_def all_bounded_def list_all_iff billing
    by (auto simp: split_beta)
  finally show ?thesis .
qed

lemma compute_money_held:
  "(\<exists>p. compute_money budget table = Some p \<and> pm_how p = HELD) \<longleftrightarrow>
     (\<exists>t classes. table = Some t \<and> pt_compute t = Some classes \<and> pt_currency t \<in> fst ` set (items (l_currency budget)))"
  by (auto simp: compute_money_def Let_def split: option.splits)

text \<open>what a budget promises is what the configuration can hold: its tokens are promised as held
  exactly when every model bounds its input and caps its output hard; its money exactly when,
  besides, every model is billed by token and priced and no worker reports money only when an
  assignment ends; and the money of compute exactly when the table prices compute in a currency
  the budget limits.\<close>

theorem promise_is_what_is_held:
  "(promised_held ''tokens'' (promise budget models by_assignment compute_steps table)
      = (l_tokens budget \<noteq> None \<and> all_bounded models))
   \<and> (promised_held ''currency'' (promise budget models by_assignment compute_steps table)
      = (l_currency budget \<noteq> None \<and> by_assignment = [] \<and> all_priced models \<and> all_bounded models))
   \<and> (promised_held COMPUTE_MONEY (promise budget models by_assignment compute_steps table)
      = (compute_steps \<noteq> [] \<and> (\<exists>t classes. table = Some t \<and> pt_compute t = Some classes
          \<and> pt_currency t \<in> fst ` set (items (l_currency budget)))))"
proof -
  have kind: "pm_kind (currency_promise models by_assignment) = ''currency''"
    by (auto simp: currency_promise_def Let_def split: option.split)
  have money: "case compute_money budget table of None \<Rightarrow> True | Some p \<Rightarrow> pm_kind p = COMPUTE_MONEY"
    by (auto simp: compute_money_def Let_def split: option.splits)
  have bounded: "weakest_count models = None \<longleftrightarrow> all_bounded models"
    by (simp add: weakest_count_None all_bounded_def list_all_iff)
  have names: "COMPUTE_MONEY \<noteq> ''tokens''" "COMPUTE_MONEY \<noteq> ''currency''" "COMPUTE_MONEY \<noteq> ''quota''" "COMPUTE_MONEY \<noteq> ''compute''"
    by (simp_all add: COMPUTE_MONEY_def)
  have "promised_held ''tokens'' (promise budget models by_assignment compute_steps table)
      = (l_tokens budget \<noteq> None \<and> all_bounded models)"
    using kind money names unfolding bounded [symmetric] promised_held_def promise_def
    by (simp split: option.splits)
  moreover have "promised_held ''currency'' (promise budget models by_assignment compute_steps table)
      = (l_currency budget \<noteq> None \<and> by_assignment = [] \<and> all_priced models \<and> all_bounded models)"
    using kind money names unfolding currency_held [symmetric] promised_held_def promise_def
    by (simp split: option.splits)
  moreover have "promised_held COMPUTE_MONEY (promise budget models by_assignment compute_steps table)
      = (compute_steps \<noteq> [] \<and> (\<exists>p. compute_money budget table = Some p \<and> pm_how p = HELD))"
    using kind money names unfolding promised_held_def promise_def
    by (simp add: names [symmetric] split: option.splits)
  ultimately show ?thesis unfolding compute_money_held by blast
qed

subsection \<open>What a run spent\<close>

lemma money_add_priced:
  "money (fst (add_priced q p)) code = money q code + (if code = pd_currency p then pd_amount p else 0)"
  by (auto simp: add_priced_def money_def map_of_add_currency)

lemma exact_cost_Nil [simp]: "exact_cost t [] = 0"
  by (simp add: exact_cost_def)

lemma money_with_token_money:
  "money (fst (with_token_money q tokens t)) code =
     money q code + (if code = pt_currency t then round9 (exact_cost t (items tokens)) else 0)"
  by (auto simp: with_token_money_def money_add_priced price_eq)

lemma money_with_money:
  "money (fst (with_money q seconds t)) code =
     money q code + (if code = pt_currency t then round9 (exact_seconds t seconds) else 0)"
  by (simp add: with_money_def money_add_priced price_compute_eq)

definition in_currency :: "price_table option \<Rightarrow> string \<Rightarrow> (price_table \<Rightarrow> rat) \<Rightarrow> rat" where
  "in_currency table code f = (case table of None \<Rightarrow> 0 | Some t \<Rightarrow> if code = pt_currency t then f t else 0)"

text \<open>what a run spent is its record and nothing else: in every currency, the money its steps
  recorded, the money of the tokens of the steps that recorded none, and the money of its compute
  seconds, each at the table its budget holds it at.\<close>

theorem spent_is_money_of_the_record:
  "money (spent prices r) code = money (consumed r) code
     + in_currency (token_table prices r) code (\<lambda>t. round9 (exact_cost t (items (fst (tokens_without_money r)))))
     + in_currency (compute_table prices r) code (\<lambda>t. round9 (exact_seconds t (compute_by_class r)))"
  by (simp add: spent_def Let_def in_currency_def money_with_token_money money_with_money split: option.split)

subsection \<open>Unpriced is never free\<close>

lemma compute_table_Some:
  assumes "compute_table prices r = Some t"
  shows "prices = Some t" "pt_compute t \<noteq> None" "pt_currency t \<in> fst ` set (items (l_currency (run_budget r)))"
  using assms by (auto simp: compute_table_def compute_money_def Let_def split: option.splits if_splits)

lemma compute_table_None:
  assumes "compute_table prices r = None" "l_currency (run_budget r) \<noteq> None"
  shows "compute_money (run_budget r) prices \<noteq> None"
  using assms by (auto simp: compute_table_def compute_money_def Let_def split: option.splits if_splits)

lemma counted_compute_nonneg:
  assumes "step_quantities_ok s" "counted s = Some q"
  shows "or0 (u_compute q) \<ge> 0"
proof -
  have ok: "quantities_ok q \<Longrightarrow> or0 (u_compute q) \<ge> 0" for q by (simp add: quantities_ok_def)
  show ?thesis
  proof (cases "\<exists>a b. sr_consumption s = Some a \<and> sr_reservation s = Some b \<and> sr_state s \<in> IN_FLIGHT_STATES")
    case True
    then obtain a b where ab: "sr_consumption s = Some a" "sr_reservation s = Some b" "sr_state s \<in> IN_FLIGHT_STATES"
      by blast
    then have "u_compute q = max_opt (u_compute a) (u_compute b)" using assms(2) by (auto simp: counted_def)
    moreover have "or0 (u_compute a) \<ge> 0" "or0 (u_compute b) \<ge> 0"
      using assms(1) ab ok by (simp_all add: step_quantities_ok_def)
    ultimately show ?thesis by (simp add: or0_max_opt le_max_iff_disj)
  next
    case False
    with assms(2) have "sr_consumption s = Some q \<or> sr_reservation s = Some q"
      by (auto simp: counted_def split: option.splits if_splits)
    with assms(1) ok show ?thesis by (auto simp: step_quantities_ok_def)
  qed
qed

lemma compute_by_class_nonneg:
  assumes "\<forall>s \<in> set (run_step_runs r). step_quantities_ok s"
  shows "or0 (map_of (compute_by_class r) c) \<ge> 0"
proof -
  have pos: "or0 (u_compute q) \<ge> 0" if "q \<in> set (counted_steps r)" for q
  proof -
    from that obtain s where "s \<in> set (run_step_runs r)" "counted s = Some q"
      by (auto simp: counted_steps_def map_filter_def)
    with assms counted_compute_nonneg show ?thesis by blast
  qed
  define f where "f = (\<lambda>seconds (q :: quantities). case (u_compute q, u_class q) of
              (Some x, Some c) \<Rightarrow> if x = 0 then seconds else add_currency seconds (c, x)
            | _ \<Rightarrow> seconds)"
  have step: "or0 (map_of (f seconds q) c) \<ge> 0"
    if "\<And>c. or0 (map_of seconds c) \<ge> 0" "or0 (u_compute q) \<ge> 0" for seconds q c
    using that by (auto simp: f_def map_of_add_currency split: option.split)
  have "or0 (map_of (foldl f seconds qs) c) \<ge> 0"
    if "\<And>c. or0 (map_of seconds c) \<ge> 0" "\<And>q. q \<in> set qs \<Longrightarrow> or0 (u_compute q) \<ge> 0" for seconds qs
    using that by (induction qs arbitrary: seconds) (simp_all add: step)
  from this [of "[]" "counted_steps r"] pos show ?thesis by (simp add: compute_by_class_def f_def)
qed

lemma compute_by_class_distinct: "distinct (map fst (compute_by_class r))"
proof -
  have "distinct (map fst (foldl (\<lambda>seconds q. case (u_compute q, u_class q) of
              (Some x, Some c) \<Rightarrow> if x = 0 then seconds else add_currency seconds (c, x)
            | _ \<Rightarrow> seconds) seconds qs))" if "distinct (map fst seconds)" for seconds qs
    using that
  proof (induction qs arbitrary: seconds)
    case (Cons q qs)
    show ?case
      unfolding foldl.simps by (rule Cons.IH) (auto simp: add_currency_def distinct_update Cons.prems split: option.split)
  qed simp
  from this [of "[]"] show ?thesis by (simp add: compute_by_class_def)
qed

lemma class_unpriced_Nil:
  "pd_unpriced (price_compute seconds t) = [] \<longleftrightarrow> (\<forall>(c, used) \<in> set seconds. used \<noteq> 0 \<longrightarrow> compute_price t c \<noteq> None)"
proof -
  have "pd_unpriced (price_compute seconds t) = [] \<longleftrightarrow> (\<forall>x \<in> set seconds. class_unpriced t x = [])"
    unfolding price_compute_eq(2) concat_eq_Nil_conv by simp
  also have "\<dots> \<longleftrightarrow> (\<forall>x \<in> set seconds. case x of (c, used) \<Rightarrow> used \<noteq> 0 \<longrightarrow> compute_price t c \<noteq> None)"
    by (intro ball_cong refl) (simp add: class_unpriced_def split_beta)
  finally show ?thesis .
qed


subsection \<open>Admission under a currency budget\<close>

text \<open>a step admitted under a currency budget keeps the run on its line in money: what the run spent,
  with the money of its tokens and compute, plus the step's money, with that of its compute, is
  within the line, or no more than it was.\<close>

theorem admitted_money_within_line:
  assumes "ad_fits (admit (priced_quantities prices r d) (remaining line (spent prices r')) line)"
  shows "on_line (money_limit line code) (money (spent prices r') code)
    (money (spent prices r') code + money d code
      + (if or0 (u_compute d) = 0 \<or> u_class d = None then 0
         else in_currency (compute_table prices r) code
           (\<lambda>t. round9 (or0 (u_compute d) * or0 (compute_price t (the (u_class d)))))))"
proof -
  have "money (priced_quantities prices r d) code = money d code
      + (if or0 (u_compute d) = 0 \<or> u_class d = None then 0
         else in_currency (compute_table prices r) code
           (\<lambda>t. round9 (or0 (u_compute d) * or0 (compute_price t (the (u_class d))))))"
    by (auto simp: priced_quantities_def in_currency_def money_with_money exact_seconds_def class_cost_def
        split: option.split)
  moreover from assms have "fits_line (priced_quantities prices r d) (spent prices r') line"
    by (simp only: admit_exact)
  note money_within [OF this, of code]
  ultimately show ?thesis
    by (intro holds_limit_on_line [of _ _ "Some (money (priced_quantities prices r d) code)"])
      (auto simp: add.assoc)
qed

subsection \<open>The estimate of a step on a model\<close>

lemma or0_map_of_nonneg:
  assumes "price_table_ok t" "map_of (pt_prices t) m = Some ps"
  shows "or0 (map_of ps kind) \<ge> 0"
  using assms by (cases "map_of ps kind") (auto simp: price_table_ok_def dest!: map_of_SomeD)

lemma exact_cost_one: "exact_cost t [(m, k)] =
   (of_int (or0 (k_input k)) * or0 (unit_price t m KIND_INPUT) + of_int (or0 (k_output k)) * or0 (unit_price t m KIND_OUTPUT)
  + of_int (or0 (k_cache_read k)) * or0 (unit_price t m KIND_CACHE_READ)
  + of_int (or0 (k_cache_write k)) * or0 (unit_price t m KIND_CACHE_WRITE)) / of_int (pt_unit_tokens t)"
  by (simp add: exact_cost_def KINDS_PRICED_def kind_cost_def count_of_kind_def add_divide_distrib)

lemma unit_price_bound_table:
  "unit_price (bound_table t m ps) m kind =
     (if kind = KIND_INPUT then Some (max (or0 (map_of ps KIND_INPUT)) (or0 (map_of ps KIND_CACHE_WRITE)))
      else map_of ps kind)"
  by (simp add: unit_price_def bound_table_def entry_for_def update_conv')

lemma bound_cost:
  assumes "map_of (pt_prices t) m = Some ps"
  shows "exact_cost (bound_table t m ps) [(m, bounded_tokens n out)] =
     (of_int n * max (or0 (map_of ps KIND_INPUT)) (or0 (map_of ps KIND_CACHE_WRITE))
      + of_int out * or0 (map_of ps KIND_OUTPUT)) / of_int (pt_unit_tokens t)"
  by (simp add: exact_cost_one unit_price_bound_table bounded_tokens_def) (simp add: bound_table_def)

text \<open>An estimate under a currency budget, taken apart.\<close>

lemma llm_demand_money:
  assumes "llm_demand prices r adapter (Some m) declared (Some n) out = Inr d"
    and "l_currency (run_budget r) \<noteq> None"
  obtains t ps where "prices = Some t" "map_of (pt_prices t) m = Some ps"
    "d = no_quantities\<lparr>u_in := Some n, u_out := Some out,
       u_by_model := (if model_name m then Some [(m, bounded_tokens n out)] else None),
       u_currency := Some [(pt_currency t, round9 (exact_cost (bound_table t m ps) [(m, bounded_tokens n out)]))]\<rparr>"
  using assms
  by (auto simp: llm_demand_def Let_def price_eq split: option.splits if_splits)

text \<open>the estimate of a step on a model bounds its money: whatever split of the counted input by
  price kind the provider reports, and whatever output within the step's limit, the money of the
  call at the table is at most what the step was admitted at, where reading from a cache is priced
  no higher than the dearer of input and writing to one.\<close>

theorem llm_estimate_bounds_money:
  assumes "llm_demand (Some t) r adapter (Some m) declared (Some n) out = Inr d"
    and "l_currency (run_budget r) \<noteq> None" "price_table_ok t" "kinds_ok k"
    and "kinds_tokens_in k \<le> n" "or0 (k_output k) \<le> out"
    and "or0 (unit_price t m KIND_CACHE_READ) \<le> max (or0 (unit_price t m KIND_INPUT)) (or0 (unit_price t m KIND_CACHE_WRITE))"
  shows "pd_amount (price [(m, k)] t) \<le> money d (pt_currency t)"
proof -
  from llm_demand_money [OF assms(1,2)] obtain ps where ps: "map_of (pt_prices t) m = Some ps"
    and d: "d = no_quantities\<lparr>u_in := Some n, u_out := Some out,
       u_by_model := (if model_name m then Some [(m, bounded_tokens n out)] else None),
       u_currency := Some [(pt_currency t, round9 (exact_cost (bound_table t m ps) [(m, bounded_tokens n out)]))]\<rparr>"
    by auto
  have unit: "unit_price t m kind = map_of ps kind" for kind by (simp add: unit_price_def entry_for_def ps)
  let ?dear = "max (or0 (map_of ps KIND_INPUT)) (or0 (map_of ps KIND_CACHE_WRITE))"
  have pos: "1 \<le> pt_unit_tokens t" using assms(3) by (simp add: price_table_ok_def)
  have nonneg: "or0 (k_input k) \<ge> 0" "or0 (k_cache_read k) \<ge> 0" "or0 (k_cache_write k) \<ge> 0"
    using assms(4) by (auto simp: kinds_ok_def)
  have price: "or0 (map_of ps kind) \<ge> 0" for kind by (rule or0_map_of_nonneg [OF assms(3) ps])
  have dear: "or0 (map_of ps KIND_INPUT) \<le> ?dear" "or0 (map_of ps KIND_CACHE_WRITE) \<le> ?dear"
    "or0 (map_of ps KIND_CACHE_READ) \<le> ?dear" using assms(7) by (simp_all add: unit)
  have "of_int (or0 (k_input k)) * or0 (map_of ps KIND_INPUT) + of_int (or0 (k_output k)) * or0 (map_of ps KIND_OUTPUT)
      + of_int (or0 (k_cache_read k)) * or0 (map_of ps KIND_CACHE_READ) + of_int (or0 (k_cache_write k)) * or0 (map_of ps KIND_CACHE_WRITE)
    \<le> of_int (or0 (k_input k)) * ?dear + of_int out * or0 (map_of ps KIND_OUTPUT)
      + of_int (or0 (k_cache_read k)) * ?dear + of_int (or0 (k_cache_write k)) * ?dear"
    using dear nonneg price assms(6) by (intro add_mono mult_left_mono mult_right_mono) simp_all
  also have "\<dots> = of_int (kinds_tokens_in k) * ?dear + of_int out * or0 (map_of ps KIND_OUTPUT)"
    by (simp add: kinds_tokens_in_def algebra_simps)
  also have "\<dots> \<le> of_int n * ?dear + of_int out * or0 (map_of ps KIND_OUTPUT)"
    using assms(5) price by (intro add_mono mult_right_mono) (simp_all add: le_max_iff_disj)
  finally have "exact_cost t [(m, k)] \<le> exact_cost (bound_table t m ps) [(m, bounded_tokens n out)]"
    unfolding bound_cost [OF ps] unfolding exact_cost_one unit by (rule divide_right_mono) (use pos in simp)
  then show ?thesis by (simp add: d money_def price_eq round9_mono)
qed

text \<open>C24: a table that prices only the output of a model makes its input free in the estimate: the step is
  estimated at the money of its output alone, and not refused, although the same tokens at the same
  table are not completely priced.\<close>

theorem llm_estimate_takes_unpriced_input_as_free:
  assumes "map_of (pt_prices t) m = Some ps" "map_of ps KIND_OUTPUT = Some p"
    and "map_of ps KIND_INPUT = None" "map_of ps KIND_CACHE_WRITE = None" "0 < n"
    and "l_currency (run_budget r) \<noteq> None"
  shows "\<exists>d. llm_demand (Some t) r adapter (Some m) declared (Some n) out = Inr d
    \<and> u_in d = Some n
    \<and> money d (pt_currency t) = round9 (of_int out * p / of_int (pt_unit_tokens t))
    \<and> \<not> priced_complete (price [(m, bounded_tokens n out)] t)"
proof -
  let ?b = "bound_table t m ps"
  have sorted: "sort_key fst [(m, bounded_tokens n out)] = [(m, bounded_tokens n out)]" by simp
  have kinds: "kinds_of [(m, k)] = [(m, k, KIND_INPUT), (m, k, KIND_OUTPUT), (m, k, KIND_CACHE_READ), (m, k, KIND_CACHE_WRITE)]" for k
    by (simp add: kinds_of_def KINDS_PRICED_def)
  have complete: "pd_unpriced (price [(m, bounded_tokens n out)] ?b) = []"
    by (simp add: price_eq sorted kinds kind_unpriced_def count_of_kind_def bounded_tokens_def
        unit_price_bound_table assms(2))
  have "pd_amount (price [(m, bounded_tokens n out)] ?b) = round9 (of_int out * p / of_int (pt_unit_tokens t))"
    by (simp add: price_eq bound_cost [OF assms(1)] assms(2-4))
  moreover have "\<not> priced_complete (price [(m, bounded_tokens n out)] t)"
    using assms(5) by (simp add: priced_complete_def price_eq sorted kinds kind_unpriced_def
        count_of_kind_def bounded_tokens_def unit_price_def entry_for_def assms(1,3))
  ultimately show ?thesis
    using assms(1,6) complete
    by (auto simp: llm_demand_def Let_def priced_complete_def money_def no_quantities_def)
qed

subsection \<open>A capped reservation and the money of compute\<close>

text \<open>A worker's estimate of six seconds on a run with ten units of money left, at one unit a second,
  and a calibrated reservation of twice as much.\<close>

definition compute_prices :: price_table where
  "compute_prices = \<lparr>pt_version = ''v1'', pt_valid_from = 0, pt_currency = ''usd'', pt_unit_tokens = 1000000,
     pt_source = ''operator'', pt_prices = [(''m'', [(KIND_INPUT, 3), (KIND_OUTPUT, 15)])],
     pt_compute = Some [(''cpu'', 1)]\<rparr>"

definition money_budget :: limits where
  "money_budget = \<lparr>l_currency = Some [(''usd'', 10)], l_quota = None, l_compute = None, l_tokens = None\<rparr>"

definition money_run :: run where
  "money_run = sample_run\<lparr>run_budget := money_budget\<rparr>"

definition six_seconds :: quantities where
  "six_seconds = no_quantities\<lparr>u_compute := Some 6, u_class := Some ''cpu''\<rparr>"

definition doubled :: scale where
  "doubled = (\<lambda>n. if n = ''compute_seconds'' then Some 2 else None)"

lemma money_run_budget: "run_budget money_run = money_budget"
  by (simp add: money_run_def)

lemma money_run_table: "compute_table (Some compute_prices) money_run = Some compute_prices"
  by (simp add: compute_table_def compute_money_def money_run_budget money_budget_def compute_prices_def Let_def)

lemma money_run_consumed: "consumed money_run = no_quantities" "compute_by_class money_run = []"
  "tokens_without_money money_run = (None, [])"
proof -
  have none: "counted s = None" if "s \<in> set (run_step_runs sample_run)" for s
    using that by (auto simp: sample_step_runs counted_def new_step_run_def)
  then have "counted_steps money_run = []" "filter moneyless (run_step_runs money_run) = []"
    by (auto simp: counted_steps_def money_run_def moneyless_def sample_step_runs map_filter_simps filter_empty_conv)
  then show "consumed money_run = no_quantities" "compute_by_class money_run = []"
    "tokens_without_money money_run = (None, [])"
    by (simp_all add: consumed_def compute_by_class_def tokens_without_money_def Let_def no_quantities_def)
qed

lemma money_run_spent: "spent (Some compute_prices) money_run = no_quantities"
  by (simp add: spent_def money_run_table token_table_def money_run_budget money_budget_def money_run_consumed
      with_token_money_def with_money_def add_priced_def price_compute_eq exact_seconds_def Let_def)

lemma round9_of_int [simp]: "round9 (of_int n) = of_int n"
proof -
  have "of_int n * (10 ^ 9 :: rat) = of_int (n * 10 ^ 9)" by simp
  then show ?thesis unfolding round9_def by (simp only: half_even_of_int) simp
qed

lemma round9_numeral [simp]: "round9 (numeral n) = numeral n"
  using round9_of_int [of "numeral n"] by simp

lemma priced_seconds:
  assumes "u_class q = Some ''cpu''" "or0 (u_compute q) \<noteq> 0" "u_currency q = None" "round9 (or0 (u_compute q)) = s" "s \<noteq> 0"
  shows "priced_quantities (Some compute_prices) money_run q = q\<lparr>u_currency := Some [(''usd'', s)]\<rparr>"
proof -
  have "exact_seconds compute_prices [(''cpu'', or0 (u_compute q))] = or0 (u_compute q)"
    by (simp add: exact_seconds_def class_cost_def compute_price_def compute_prices_def)
  moreover have "pt_currency compute_prices = ''usd''" by (simp add: compute_prices_def)
  ultimately show ?thesis
    using assms by (simp add: priced_quantities_def money_run_table with_money_def add_priced_def price_compute_eq add_currency_def)
qed

text \<open>a worker whose own estimate fits is refused for its calibrated error where the budget limits
  money and its compute is priced: the capped reservation cuts what the budget limits, and not the
  compute seconds whose money the budget limits too.\<close>

theorem capped_compute_money_refused:
  "ad_fits (admit (priced_quantities (Some compute_prices) money_run six_seconds)
      (remaining money_budget (spent (Some compute_prices) money_run)) money_budget)
   \<and> \<not> ad_fits (admit (priced_quantities (Some compute_prices) money_run
        (capped (reserve six_seconds doubled) (remaining money_budget (spent (Some compute_prices) money_run))))
      (remaining money_budget (spent (Some compute_prices) money_run)) money_budget)"
proof -
  have scaled: "reserve six_seconds doubled = no_quantities\<lparr>u_compute := Some 12, u_class := Some ''cpu''\<rparr>"
    by (simp add: reserve_def six_seconds_def doubled_def scale_int_def scale_rat_def factor_def no_quantities_def)
  have left: "remaining money_budget no_quantities = Some money_budget"
    by (simp add: remaining_def remaining_currency_def remaining_quota_def remaining_compute_def remaining_tokens_def
        money_budget_def money_def no_quantities_def exhausted_def Let_def)
  have cap: "capped (reserve six_seconds doubled) (Some money_budget) = no_quantities\<lparr>u_compute := Some 12, u_class := Some ''cpu''\<rparr>"
    by (simp add: scaled capped_def money_budget_def no_quantities_def min_limit_def)
  have six: "priced_quantities (Some compute_prices) money_run six_seconds = six_seconds\<lparr>u_currency := Some [(''usd'', 6)]\<rparr>"
    by (rule priced_seconds) (simp_all add: six_seconds_def no_quantities_def)
  have twelve: "priced_quantities (Some compute_prices) money_run (no_quantities\<lparr>u_compute := Some 12, u_class := Some ''cpu''\<rparr>)
      = no_quantities\<lparr>u_compute := Some 12, u_class := Some ''cpu'', u_currency := Some [(''usd'', 12)]\<rparr>"
    by (subst priced_seconds) (simp_all add: no_quantities_def)
  have "ad_fits (admit (six_seconds\<lparr>u_currency := Some [(''usd'', 6)]\<rparr>) (remaining money_budget no_quantities) money_budget)"
    unfolding admit_exact by (simp add: fits_line_def holds_limit_def money_limit_def compute_within_def
        token_limit_of_def money_budget_def six_seconds_def no_quantities_def money_def)
  moreover have "\<not> ad_fits (admit (no_quantities\<lparr>u_compute := Some 12, u_class := Some ''cpu'', u_currency := Some [(''usd'', 12)]\<rparr>)
      (remaining money_budget no_quantities) money_budget)"
    unfolding admit_exact by (simp add: fits_line_def holds_limit_def money_limit_def money_budget_def no_quantities_def money_def)
  ultimately show ?thesis unfolding money_run_spent left cap six twelve by blast
qed

subsection \<open>The witnesses\<close>

definition mixed_tokens :: price_kinds where
  "mixed_tokens = \<lparr>k_input = Some 1000000, k_output = Some 2000000, k_cache_read = Some 5, k_cache_write = None\<rparr>"

lemma compute_prices_sel: "pt_currency compute_prices = ''usd''" "compute_price compute_prices ''cpu'' = Some 1"
  by (simp_all add: compute_prices_def compute_price_def)

lemma compute_prices_ok: "price_table_ok compute_prices"
  by (simp add: price_table_ok_def compute_prices_def)

lemma mixed_tokens_ok: "kinds_ok mixed_tokens"
  by (simp add: kinds_ok_def mixed_tokens_def)



lemma admitted_money_within_line_witness:
  "on_line (money_limit money_budget ''usd'') (0::rat) 6"
proof -
  have "ad_fits (admit (priced_quantities (Some compute_prices) money_run six_seconds)
      (remaining money_budget (spent (Some compute_prices) money_run)) money_budget)"
  proof -
    have six: "priced_quantities (Some compute_prices) money_run six_seconds = six_seconds\<lparr>u_currency := Some [(''usd'', 6)]\<rparr>"
      by (rule priced_seconds) (simp_all add: six_seconds_def no_quantities_def)
    show ?thesis
      unfolding admit_exact six money_run_spent by (simp add: fits_line_def holds_limit_def money_limit_def
          compute_within_def token_limit_of_def money_budget_def six_seconds_def no_quantities_def money_def)
  qed
  from admitted_money_within_line [OF this, of "''usd''"] show ?thesis
    by (simp add: money_run_spent six_seconds_def no_quantities_def money_def in_currency_def money_run_table
        compute_prices_sel)
qed

lemma llm_estimate_bounds_money_witness:
  "pd_amount (price [(''m'', bounded_tokens 1000000 1000000)] compute_prices) \<le> 18"
proof -
  let ?d = "no_quantities\<lparr>u_in := Some 1000000, u_out := Some 1000000,
       u_by_model := Some [(''m'', bounded_tokens 1000000 1000000)], u_currency := Some [(''usd'', 18)]\<rparr>"
  have ps: "map_of (pt_prices compute_prices) ''m'' = Some [(KIND_INPUT, 3), (KIND_OUTPUT, 15)]"
    by (simp add: compute_prices_def)
  have cost: "exact_cost (bound_table compute_prices ''m'' [(KIND_INPUT, 3), (KIND_OUTPUT, 15)]) [(''m'', bounded_tokens 1000000 1000000)] = 18"
    unfolding bound_cost [OF ps] by (simp add: compute_prices_def)
  have kinds: "kinds_of [(''m'', k)] = [(''m'', k, KIND_INPUT), (''m'', k, KIND_OUTPUT), (''m'', k, KIND_CACHE_READ), (''m'', k, KIND_CACHE_WRITE)]" for k
    by (simp add: kinds_of_def KINDS_PRICED_def)
  have complete: "pd_unpriced (price [(''m'', bounded_tokens 1000000 1000000)] (bound_table compute_prices ''m'' [(KIND_INPUT, 3), (KIND_OUTPUT, 15)])) = []"
    unfolding price_eq(2) sort_key_simps
    by (simp add: kinds insort_key.simps kind_unpriced_def count_of_kind_def bounded_tokens_def unit_price_bound_table)
  have cur: "pt_currency (bound_table compute_prices ''m'' ps) = ''usd''" "pt_currency compute_prices = ''usd''" for ps
    by (simp_all add: bound_table_def compute_prices_def)
  have name: "model_name ''m''" by (simp add: model_name_def alnum_def less_eq_char_def)
  have d: "llm_demand (Some compute_prices) money_run ''a'' (Some ''m'') COUNT_EXACT (Some 1000000) 1000000 = Inr ?d"
    using complete cost by (simp add: llm_demand_def Let_def ps money_run_budget money_budget_def priced_complete_def price_eq(1) cur name)
  have "l_currency (run_budget money_run) \<noteq> None" "kinds_ok (bounded_tokens 1000000 1000000)"
    "kinds_tokens_in (bounded_tokens 1000000 1000000) \<le> 1000000" "or0 (k_output (bounded_tokens 1000000 1000000)) \<le> 1000000"
    "or0 (unit_price compute_prices ''m'' KIND_CACHE_READ) \<le> max (or0 (unit_price compute_prices ''m'' KIND_INPUT)) (or0 (unit_price compute_prices ''m'' KIND_CACHE_WRITE))"
    by (simp_all add: money_run_budget money_budget_def kinds_ok_def bounded_tokens_def kinds_tokens_in_def
        unit_price_def entry_for_def ps)
  from llm_estimate_bounds_money [OF d this(1) compute_prices_ok this(2-5)]
  show ?thesis by (simp add: cur money_def)
qed

definition output_prices :: price_table where
  "output_prices = compute_prices\<lparr>pt_prices := [(''m'', [(KIND_OUTPUT, 15)])]\<rparr>"

lemma llm_estimate_takes_unpriced_input_as_free_witness:
  "\<exists>d. llm_demand (Some output_prices) money_run ''a'' (Some ''m'') COUNT_EXACT (Some 1000000) 1000000 = Inr d
    \<and> u_in d = Some 1000000 \<and> money d ''usd'' = 15"
proof -
  have "map_of (pt_prices output_prices) ''m'' = Some [(KIND_OUTPUT, 15)]" "map_of [(KIND_OUTPUT, 15)] KIND_OUTPUT = Some (15::rat)"
    "map_of [(KIND_OUTPUT, 15::rat)] KIND_INPUT = None" "map_of [(KIND_OUTPUT, 15::rat)] KIND_CACHE_WRITE = None"
    "0 < (1000000::int)" "l_currency (run_budget money_run) \<noteq> None"
    by (simp_all add: output_prices_def money_run_budget money_budget_def)
  from llm_estimate_takes_unpriced_input_as_free [OF this, of "''a''" COUNT_EXACT 1000000]
  show ?thesis by (auto simp: output_prices_def compute_prices_def)
qed

end
