(* ===== verification/Run_Commit.thy ===== *)
theory Run_Commit
  imports Run_Provenance_Chain Job_Queue Ledger_History Run_Pricing Run_Open_Work
begin

text \<open>
  How the engine writes a run: \<open>_commit\<close>, \<open>_fence\<close>, \<open>_record\<close> and \<open>_entry\<close> of
  \<open>execute_run.py\<close>, over the ledger service, the job queue, the run repository and the provenance
  store. An action takes the engine's stores and answers an error or a value with the stores after
  it; \<open>andThen\<close> composes actions, and the first error ends the composition. A transaction keeps
  what its actions wrote, or drops it.

  The clock is an argument: one reading for the whole call. An observer of deadlines
  (\<open>deadlines.observe\<close>) is a collaborator: the calls it receives are kept in order.
\<close>

subsection \<open>The engine's stores\<close>

record engine =
  en_ledger :: ledger_service
  en_queue :: "queue option"
  en_claim :: "claim option"
  en_runs :: "string \<rightharpoonup> run"
  en_records :: "provenance list"
  en_recorded :: "provenance list"
  en_observed :: "(string \<times> string \<times> string option \<times> string option) list"
  en_objects :: "string \<rightharpoonup> string"

text \<open>What the engine is configured with: the hash and the text of a moment, the text of a float, a
  moment in ISO form, the
  trace the process is in, whether deadlines are observed, a new identifier of a provenance record,
  and the subject of the case a step serves.\<close>

record engine_env =
  ev_codec :: codec
  ev_float :: "rat \<Rightarrow> string"
  ev_iso :: "moment \<Rightarrow> string"
  ev_trace_id :: "string option"
  ev_deadlines :: bool
  ev_new_id :: string
  ev_subject :: "run \<Rightarrow> string \<Rightarrow> string option"

datatype engine_error =
    Claim_Lost string claim
  | Run_Exists string
  | Ledger_Refused store_error
  | Job_Exists string
  | Duplicate_Provenance string string
  | Run_Refused run_error
  | Queue_Refused string

type_synonym 'a action = "engine \<Rightarrow> (engine_error + 'a) \<times> engine"

definition done_with :: "'a \<Rightarrow> 'a action" where
  "done_with x st = (Inr x, st)"

definition andThen :: "'a action \<Rightarrow> ('a \<Rightarrow> 'b action) \<Rightarrow> 'b action" where
  "andThen a f st = (case a st of (Inl e, st') \<Rightarrow> (Inl e, st') | (Inr x, st') \<Rightarrow> f x st')"

definition next_do :: "'a action \<Rightarrow> 'b action \<Rightarrow> 'b action" where
  "next_do a b = andThen a (\<lambda>_. b)"

definition do_if :: "bool \<Rightarrow> unit action \<Rightarrow> unit action" where
  "do_if c a = (if c then a else done_with ())"

subsection \<open>A document's digest\<close>

text \<open>\<open>_canonical\<close>: \<open>json.dumps\<close> with its own separators, the keys sorted.\<close>

definition member_spaced :: "string \<times> string \<Rightarrow> string" where
  "member_spaced = (\<lambda>(k, t). quoted k @ '': '' @ t)"

primrec dumps_spaced :: "json \<Rightarrow> string" where
  "dumps_spaced JNull = ''null''"
| "dumps_spaced (JBool b) = (if b then ''true'' else ''false'')"
| "dumps_spaced (JInt i) = show_int i"
| "dumps_spaced (JFloat s) = s"
| "dumps_spaced (JStr s) = quoted s"
| "dumps_spaced (JList js) = ''['' @ join '', '' (map dumps_spaced js) @ '']''"
| "dumps_spaced (JObj kvs) =
     ''{'' @ join '', '' (map member_spaced (sort_key fst (map (map_prod id dumps_spaced) kvs))) @ ''}''"

definition object_digest :: "codec \<Rightarrow> string \<Rightarrow> string" where
  "object_digest cd bytes = digest cd bytes"

text \<open>\<open>MemoryObjectStore.put\<close> without a directory.\<close>

definition put_object :: "codec \<Rightarrow> string \<Rightarrow> engine \<Rightarrow> string \<times> engine" where
  "put_object cd bytes st =
     (let d = object_digest cd bytes
      in (d, st\<lparr>en_objects := (case en_objects st d of None \<Rightarrow> (en_objects st)(d \<mapsto> bytes) | Some _ \<Rightarrow> en_objects st)\<rparr>))"

subsection \<open>The document of a consumption\<close>

definition kinds_document :: "price_kinds \<Rightarrow> (string \<times> json) list" where
  "kinds_document k =
     field_of ''input'' (map_option JInt (k_input k)) @ field_of ''output'' (map_option JInt (k_output k))
   @ field_of ''cache_read'' (map_option JInt (k_cache_read k)) @ field_of ''cache_write'' (map_option JInt (k_cache_write k))"

definition consumption_document :: "(rat \<Rightarrow> string) \<Rightarrow> quantities \<Rightarrow> json" where
  "consumption_document float_text q = JObj (
     field_of ''tokens_in'' (map_option JInt (u_in q))
   @ field_of ''tokens_out'' (map_option JInt (u_out q))
   @ field_of ''tokens_by_model'' (map_option (\<lambda>m. JObj (map (\<lambda>(n, k). (n, JObj (kinds_document k))) m)) (u_by_model q))
   @ field_of ''currency'' (map_option (\<lambda>m. JObj (map (\<lambda>(c, a). (c, JFloat (float_text a))) m)) (u_currency q))
   @ field_of ''quota_units'' (map_option (\<lambda>x. JFloat (float_text x)) (u_quota q))
   @ field_of ''compute_seconds'' (map_option (\<lambda>x. JFloat (float_text x)) (u_compute q))
   @ field_of ''resource_class'' (map_option JStr (u_class q))
   @ field_of ''storage_bytes'' (map_option JInt (u_storage q))
   @ field_of ''turns'' (map_option JInt (u_turns q))
   @ field_of ''compression'' (map_option (\<lambda>z. JObj [(''before'', JInt (z_before z)), (''after'', JInt (z_after z))]) (u_compression q)))"

subsection \<open>Recording one entry\<close>

definition WAITED :: string where "WAITED = ''step.waited''"
definition INTERFACE_FAILED :: string where "INTERFACE_FAILED = ''interface.failed''"
definition PROPOSAL_DECIDED :: string where "PROPOSAL_DECIDED = ''proposal.decided''"
definition RUN_ENDED :: string where "RUN_ENDED = ''run.ended''"
definition MESSAGE_SENT :: string where "MESSAGE_SENT = ''message.sent''"
definition RETRIED :: string where "RETRIED = ''step.retried''"

record entry_args =
  ea_kind :: string
  ea_step :: "step_run option"
  ea_outcome :: "string option"
  ea_actor :: "string option"
  ea_digest :: "string option"
  ea_decision :: "string option"
  ea_duration :: "string option"
  ea_action :: "string option"
  ea_bare :: bool

definition entry_of_kind :: "string \<Rightarrow> entry_args" where
  "entry_of_kind kind = \<lparr>ea_kind = kind, ea_step = None, ea_outcome = None, ea_actor = None, ea_digest = None,
     ea_decision = None, ea_duration = None, ea_action = None, ea_bare = False\<rparr>"

definition entry_refs :: "engine_env \<Rightarrow> run \<Rightarrow> entry_args \<Rightarrow> ledger_refs" where
  "entry_refs env r a = no_refs\<lparr>
     r_tenant := Some (run_tenant r), r_plan_id := Some (run_plan_id r),
     r_process_version := Some (run_process_version r), r_run_id := Some (run_id r),
     r_step_id := map_option sr_step_id (ea_step a),
     r_assignment_id := (if ea_bare a then None else Option.bind (ea_step a) sr_assignment_id),
     r_decision_request_id := ea_decision a,
     r_action := ea_action a,
     r_artifact_ids := (case ea_step a of None \<Rightarrow> None
       | Some s \<Rightarrow> if ea_bare a \<or> sr_artifacts s = [] then None else Some (map af_id (sr_artifacts s))),
     r_actor := ea_actor a,
     r_trace_id := ev_trace_id env\<rparr>"

definition entry_consumption :: "engine_env \<Rightarrow> entry_args \<Rightarrow> json option" where
  "entry_consumption env a =
     (case ea_step a of
        None \<Rightarrow> None
      | Some s \<Rightarrow>
          if ea_kind a \<in> {WAITED, INTERFACE_FAILED} then None
          else (case sr_estimate s of
                  Some q \<Rightarrow>
                    if ea_kind a \<in> {''step.admitted'', ''step.rejected''}
                    then if present_quantities q = [] then None
                         else Some (consumption_document (ev_float env) (q\<lparr>u_turns := None, u_compression := None\<rparr>))
                    else map_option (consumption_document (ev_float env)) (sr_consumption s)
                | None \<Rightarrow> map_option (consumption_document (ev_float env)) (sr_consumption s)))"

definition entry_fact :: "engine_env \<Rightarrow> run \<Rightarrow> entry_args \<Rightarrow> fact" where
  "entry_fact env r a =
     (if ea_bare a
      then \<lparr>f_kind = ea_kind a, f_refs = entry_refs env r a, f_method = None, f_model = None, f_adapter = None,
            f_consumption = None, f_outcome = ea_outcome a, f_duration_seconds = None,
            f_content_digest = ea_digest a, f_rehearsal = run_rehearsal r, f_through = None\<rparr>
      else \<lparr>f_kind = ea_kind a, f_refs = entry_refs env r a, f_method = map_option sr_method (ea_step a),
            f_model = None, f_adapter = Option.bind (ea_step a) sr_adapter,
            f_consumption = entry_consumption env a, f_outcome = ea_outcome a,
            f_duration_seconds = ea_duration a,
            f_content_digest = (case ea_digest a of Some d \<Rightarrow> Some d
               | None \<Rightarrow> Option.bind (ea_step a) result_digest_of),
            f_rehearsal = run_rehearsal r, f_through = None\<rparr>)"

definition record_entry :: "engine_env \<Rightarrow> moment \<Rightarrow> run \<Rightarrow> entry_args \<Rightarrow> ledger_entry action" where
  "record_entry env now r a st =
     (case record_fact (ev_codec env) (en_ledger st) (entry_fact env r a) now (\<not> ea_bare a \<and> ea_kind a = ADMITTED) of
        (Inl e, l) \<Rightarrow> (Inl (Ledger_Refused e), st\<lparr>en_ledger := l\<rparr>)
      | (Inr entry, l) \<Rightarrow> (Inr entry, st\<lparr>en_ledger := l,
          en_observed := en_observed st @ (if ev_deadlines env
             then [(run_id r, ea_kind a, map_option sr_step_id (ea_step a), ea_outcome a)] else [])\<rparr>))"

fun record_entries :: "engine_env \<Rightarrow> moment \<Rightarrow> run \<Rightarrow> entry_args list \<Rightarrow> unit action" where
  "record_entries env now r [] = done_with ()"
| "record_entries env now r (a # as) = andThen (record_entry env now r a) (\<lambda>_. record_entries env now r as)"

subsection \<open>The parts of a commit\<close>

definition fence_run :: "run \<Rightarrow> unit action" where
  "fence_run r st =
     (case (en_claim st, en_queue st) of
        (Some c, Some q) \<Rightarrow>
          (case fence q c of
             (True, q') \<Rightarrow> (Inr (), st\<lparr>en_queue := Some q'\<rparr>)
           | (False, q') \<Rightarrow> (Inl (Claim_Lost (run_id r) c), st\<lparr>en_queue := Some q'\<rparr>))
      | _ \<Rightarrow> (Inr (), st))"

definition refuse_known :: "run \<Rightarrow> unit action" where
  "refuse_known r st = (if en_runs st (run_id r) \<noteq> None then (Inl (Run_Exists (run_id r)), st) else (Inr (), st))"

definition put_run :: "run \<Rightarrow> unit action" where
  "put_run r st = (Inr (), st\<lparr>en_runs := (en_runs st)(run_id r \<mapsto> r)\<rparr>)"

definition enqueue_job :: "moment \<Rightarrow> job option \<Rightarrow> unit action" where
  "enqueue_job now j st =
     (case (j, en_queue st) of
        (Some x, Some q) \<Rightarrow>
          (case enqueue q x now of
             (True, q') \<Rightarrow> (Inr (), st\<lparr>en_queue := Some q'\<rparr>)
           | (False, q') \<Rightarrow> (Inl (Job_Exists (j_id x)), st\<lparr>en_queue := Some q'\<rparr>))
      | _ \<Rightarrow> (Inr (), st))"

definition do_inside :: "(queue \<Rightarrow> engine_error + queue) option \<Rightarrow> unit action" where
  "do_inside f st =
     (case (f, en_queue st) of
        (Some g, Some q) \<Rightarrow> (case g q of Inl e \<Rightarrow> (Inl e, st) | Inr q' \<Rightarrow> (Inr (), st\<lparr>en_queue := Some q'\<rparr>))
      | _ \<Rightarrow> (Inr (), st))"

text \<open>\<open>MemoryProvenanceStore.append\<close>: a step run is recorded once.\<close>

definition append_record :: "provenance \<Rightarrow> unit action" where
  "append_record p st =
     (if \<exists>q \<in> set (en_records st @ en_recorded st). p_run_id q = p_run_id p \<and> p_step_id q = p_step_id p
      then (Inl (Duplicate_Provenance (p_run_id p) (p_step_id p)), st)
      else (Inr (), st\<lparr>en_recorded := en_recorded st @ [p]\<rparr>))"

record egress =
  eg_kind :: string
  eg_replayed :: bool
  eg_digest :: "string option"

record step_trace =
  tr_inputs :: "provenance_input list"
  tr_adapter_version :: "string option"
  tr_egress :: "egress option"
  tr_rehearsed :: bool
  tr_route :: "provenance_route option"
  tr_message :: "string option"

record commit_args =
  ca_entry :: "entry_args option"
  ca_trace :: "step_trace option"
  ca_enqueue :: "job option"
  ca_new :: bool
  ca_trigger :: "(string \<times> json) list option"
  ca_interface :: "string option"
  ca_ended :: "string option"
  ca_proposal :: "(string \<times> string option \<times> string) option"
  ca_before :: "entry_args list"
  ca_after :: "entry_args list"
  ca_inside :: "(queue \<Rightarrow> engine_error + queue) option"

definition commit_of :: "entry_args option \<Rightarrow> commit_args" where
  "commit_of entry = \<lparr>ca_entry = entry, ca_trace = None, ca_enqueue = None, ca_new = False, ca_trigger = None,
     ca_interface = None, ca_ended = None, ca_proposal = None, ca_before = [], ca_after = [], ca_inside = None\<rparr>"

text \<open>The duration of a run in seconds, to three digits.\<close>

definition round3 :: "rat \<Rightarrow> rat" where
  "round3 x = of_int (half_even (x * 1000)) / 1000"

definition run_took :: "engine_env \<Rightarrow> moment \<Rightarrow> run \<Rightarrow> string" where
  "run_took env now r = ev_float env (round3 (max (of_int (now - run_created_at r) / 1000000) 0))"

definition trigger_kind :: "(string \<times> json) list \<Rightarrow> string" where
  "trigger_kind trigger = (case map_of trigger ''kind'' of Some (JStr k) \<Rightarrow> k | _ \<Rightarrow> ''trigger'')"

text \<open>The entries recorded beside the step's own, before its provenance record.\<close>

definition beside :: "engine_env \<Rightarrow> moment \<Rightarrow> run \<Rightarrow> commit_args \<Rightarrow> entry_args \<Rightarrow> entry_args list" where
  "beside env now r ca a =
     (case (ca_proposal ca, ea_step a) of
        (Some (decided, held_by, document), Some s) \<Rightarrow>
          [(entry_of_kind PROPOSAL_DECIDED)\<lparr>ea_step := Some s, ea_outcome := Some decided,
             ea_digest := Some document, ea_action := held_by, ea_bare := True\<rparr>]
      | _ \<Rightarrow> [])
   @ (case (ca_interface ca, ea_step a) of
        (Some failed, Some s) \<Rightarrow>
          [(entry_of_kind INTERFACE_FAILED)\<lparr>ea_step := Some s, ea_outcome := Some failed\<rparr>]
      | _ \<Rightarrow> [])
   @ (case ca_ended ca of
        Some ended \<Rightarrow> [(entry_of_kind RUN_ENDED)\<lparr>ea_outcome := Some ended, ea_duration := Some (run_took env now r)\<rparr>]
      | None \<Rightarrow> [])
   @ (case ca_trigger ca of
        Some trigger \<Rightarrow>
          [(entry_of_kind ''run.triggered'')\<lparr>ea_outcome := Some (trigger_kind trigger), ea_actor := ea_actor a,
             ea_digest := Some (object_digest (ev_codec env) (dumps_spaced (JObj trigger)))\<rparr>]
      | None \<Rightarrow> [])"

text \<open>The record of a step that finished with a result, and the entries of what left the system.\<close>

definition provenance_of :: "engine_env \<Rightarrow> moment \<Rightarrow> run \<Rightarrow> step_run \<Rightarrow> step_trace \<Rightarrow> ledger_entry \<Rightarrow> unit action" where
  "provenance_of env now r s t entry st =
     (case provenance_record r s (ev_new_id env) (tr_inputs t) entry (tr_adapter_version t) now (tr_route t)
             (ev_subject env r (sr_step_id s)) of
        Inl e \<Rightarrow> (Inl (Run_Refused e), st)
      | Inr p \<Rightarrow> append_record p st)"

definition egress_entries :: "step_run \<Rightarrow> step_trace \<Rightarrow> entry_args list" where
  "egress_entries s t =
     (case tr_egress t of
        None \<Rightarrow> []
      | Some e \<Rightarrow>
          (entry_of_kind (''egress.'' @ eg_kind e))\<lparr>ea_step := Some s,
             ea_outcome := Some (if eg_replayed e then ''replayed'' else ''acted''), ea_digest := eg_digest e\<rparr>
          # (case tr_message t of
               None \<Rightarrow> []
             | Some m \<Rightarrow> [(entry_of_kind MESSAGE_SENT)\<lparr>ea_step := Some s, ea_outcome := Some ''sent'', ea_digest := Some m\<rparr>]))"

definition traced :: "engine_env \<Rightarrow> moment \<Rightarrow> run \<Rightarrow> entry_args \<Rightarrow> step_trace option \<Rightarrow> ledger_entry \<Rightarrow> unit action" where
  "traced env now r a trace entry =
     (case (ea_step a, trace) of
        (Some s, Some t) \<Rightarrow>
          if done_run s
          then next_do (provenance_of env now r s t entry) (record_entries env now r (egress_entries s t))
          else done_with ()
      | _ \<Rightarrow> done_with ())"

definition commit_entry :: "engine_env \<Rightarrow> moment \<Rightarrow> run \<Rightarrow> commit_args \<Rightarrow> unit action" where
  "commit_entry env now r ca =
     (case ca_entry ca of
        None \<Rightarrow> done_with ()
      | Some a \<Rightarrow>
          andThen (record_entry env now r (a\<lparr>ea_duration := None, ea_bare := False\<rparr>)) (\<lambda>entry.
          next_do (record_entries env now r (beside env now r ca a))
         (next_do (traced env now r a (ca_trace ca) entry)
                  (record_entries env now r (ca_after ca)))))"

definition commit_start :: "moment \<Rightarrow> run \<Rightarrow> commit_args \<Rightarrow> unit action" where
  "commit_start now r ca =
     next_do (fence_run r)
    (next_do (do_if (ca_new ca) (refuse_known r))
    (next_do (put_run r)
    (next_do (enqueue_job now (ca_enqueue ca))
             (do_inside (ca_inside ca)))))"

definition commit_body :: "engine_env \<Rightarrow> moment \<Rightarrow> run \<Rightarrow> commit_args \<Rightarrow> unit action" where
  "commit_body env now r ca =
     next_do (commit_start now r ca)
    (next_do (record_entries env now r (ca_before ca))
             (commit_entry env now r ca))"

subsection \<open>The transaction\<close>

text \<open>The end of a unit of work: the journal is applied, the fences it took are given back.\<close>

definition close_queue :: "engine \<Rightarrow> queue \<Rightarrow> queue" where
  "close_queue before q =
     (case en_queue before of
        None \<Rightarrow> end_transaction q | Some q0 \<Rightarrow> (end_transaction q)\<lparr>q_fenced := q_fenced q0\<rparr>)"

definition keep_all :: "engine \<Rightarrow> engine \<Rightarrow> engine" where
  "keep_all before st =
     st\<lparr>en_ledger := commit (en_ledger st), en_queue := map_option (close_queue before) (en_queue st),
        en_records := en_records st @ en_recorded st, en_recorded := []\<rparr>"

text \<open>A transaction that fails drops its journal; the queue's rows written outside the journal stay.\<close>

definition drop_all :: "engine \<Rightarrow> engine \<Rightarrow> engine" where
  "drop_all before st =
     before\<lparr>en_queue := map_option (\<lambda>q. (close_queue before (q\<lparr>q_puts := []\<rparr>))) (en_queue st)\<rparr>"

definition transaction :: "'a action \<Rightarrow> 'a action" where
  "transaction body st =
     (case body st of
        (Inl e, st') \<Rightarrow> (Inl e, drop_all st st')
      | (Inr x, st') \<Rightarrow> (Inr x, keep_all st st'))"

definition commit_run :: "engine_env \<Rightarrow> moment \<Rightarrow> run \<Rightarrow> commit_args \<Rightarrow> run action" where
  "commit_run env now r ca =
     (let r' = r\<lparr>run_updated_at := now\<rparr>
      in next_do (transaction (commit_body env now r' ca)) (done_with r'))"

end
