(* ===== verification/Run_Commit_Rules.thy ===== *)
theory Run_Commit_Rules
  imports Run_Commit Job_Queue_Safety
begin

text \<open>
  What a commit promises: the run, its entries, its provenance record and its job land together or
  not at all; the entries written are the ones the call names, in their order, on a ledger that
  stays sound; a runner whose job was claimed again writes nothing; and a step committed with its
  result leaves the record that verifies.
\<close>

subsection \<open>Entries\<close>

lemma link_fact [simp]: "fact.truncate (link cd previous f now seq in_order) = f"
  by (simp add: link_def link_unhashed_def Let_def fact.defs ledger_entry.defs)

lemma entry_fact_sel [simp]:
  "f_kind (entry_fact env r a) = ea_kind a" "f_refs (entry_fact env r a) = entry_refs env r a"
  "f_through (entry_fact env r a) = None" "r_run_id (entry_refs env r a) = Some (run_id r)"
  by (simp_all add: entry_fact_def entry_refs_def)

text \<open>What an action that only records entries does.\<close>

definition same_rest :: "engine \<Rightarrow> engine \<Rightarrow> bool" where
  "same_rest st st' \<longleftrightarrow> en_queue st' = en_queue st \<and> en_claim st' = en_claim st \<and> en_runs st' = en_runs st
   \<and> en_records st' = en_records st \<and> en_recorded st' = en_recorded st \<and> en_objects st' = en_objects st"

definition ledger_grew :: "codec \<Rightarrow> engine \<Rightarrow> engine \<Rightarrow> fact list \<Rightarrow> bool" where
  "ledger_grew cd st st' facts \<longleftrightarrow> service_ok cd (en_ledger st')
   \<and> committed (ls_store (en_ledger st')) = committed (ls_store (en_ledger st))
   \<and> (\<exists>new. ls_entries (en_ledger st') = ls_entries (en_ledger st) @ new \<and> map fact.truncate new = facts)"

lemma same_rest_refl [simp]: "same_rest st st"
  by (simp add: same_rest_def)

lemma same_rest_trans: "same_rest a b \<Longrightarrow> same_rest b c \<Longrightarrow> same_rest a c"
  by (simp add: same_rest_def)

lemma ledger_grew_refl: "service_ok cd (en_ledger st) \<Longrightarrow> ledger_grew cd st st []"
  by (simp add: ledger_grew_def)

lemma ledger_grew_trans: "ledger_grew cd a b fs \<Longrightarrow> ledger_grew cd b c gs \<Longrightarrow> ledger_grew cd a c (fs @ gs)"
  unfolding ledger_grew_def by (elim conjE exE) (intro conjI exI, auto)

lemma ledger_grew_ok: "ledger_grew cd a b fs \<Longrightarrow> service_ok cd (en_ledger b)"
  by (simp add: ledger_grew_def)

lemma record_entry_writes:
  assumes "service_ok (ev_codec env) (en_ledger st)" "ea_kind a \<noteq> ANCHORED"
  shows "\<exists>e st'. record_entry env now r a st = (Inr e, st') \<and> same_rest st st'
    \<and> ledger_grew (ev_codec env) st st' [entry_fact env r a]
    \<and> ls_entries (en_ledger st') = ls_entries (en_ledger st) @ [e] \<and> fact.truncate e = entry_fact env r a"
proof -
  let ?s = "en_ledger st" and ?f = "entry_fact env r a" and ?o = "\<not> ea_bare a \<and> ea_kind a = ADMITTED"
  let ?cd = "ev_codec env"
  have rise: "rising (ls_entries ?s)" using assms(1) sound_rising by (auto simp: service_ok_def)
  define e where "e = link ?cd (last_of (chain_entries (chain_for ?f ?o) (ls_entries ?s))) ?f now
      (Some (head_seq (ls_entries ?s) + 1)) ?o"
  have rec: "record_fact ?cd ?s ?f now ?o =
      (Inr e, ?s\<lparr>ls_store := ls_store ?s\<lparr>appended := appended (ls_store ?s) @ [e]\<rparr>\<rparr>)"
    unfolding e_def by (rule record_fact_entries [OF rise])
  have ok: "service_ok ?cd (snd (record_fact ?cd ?s ?f now ?o))"
    by (rule record_ok [OF assms(1)]) (use assms(2) in simp)
  have e: "fact.truncate e = ?f" by (simp add: e_def)
  show ?thesis
    using ok e by (auto simp: record_entry_def rec same_rest_def ledger_grew_def)
qed

lemma record_entries_write:
  assumes "service_ok (ev_codec env) (en_ledger st)" "list_all (\<lambda>a. ea_kind a \<noteq> ANCHORED) as"
  shows "\<exists>st'. record_entries env now r as st = (Inr (), st') \<and> same_rest st st'
    \<and> ledger_grew (ev_codec env) st st' (map (entry_fact env r) as)"
  using assms
proof (induction as arbitrary: st)
  case Nil
  then show ?case by (simp add: done_with_def ledger_grew_refl)
next
  case (Cons a as)
  from record_entry_writes [of env st a now r] Cons.prems obtain e st1 where
    one: "record_entry env now r a st = (Inr e, st1)" "same_rest st st1"
      "ledger_grew (ev_codec env) st st1 [entry_fact env r a]" by auto
  from Cons.IH [of st1] Cons.prems ledger_grew_ok [OF one(3)] obtain st2 where
    two: "record_entries env now r as st1 = (Inr (), st2)" "same_rest st1 st2"
      "ledger_grew (ev_codec env) st1 st2 (map (entry_fact env r) as)" by auto
  have "record_entries env now r (a # as) st = (Inr (), st2)" by (simp add: andThen_def one(1) two(1))
  moreover have "same_rest st st2" using one(2) two(2) by (rule same_rest_trans)
  moreover have "ledger_grew (ev_codec env) st st2 (map (entry_fact env r) (a # as))"
    using ledger_grew_trans [OF one(3) two(3)] by simp
  ultimately show ?case by blast
qed

subsection \<open>The commit\<close>

text \<open>The entries a commit names, in the order they are recorded.\<close>

definition own_entry :: "entry_args \<Rightarrow> entry_args" where
  "own_entry a = a\<lparr>ea_duration := None, ea_bare := False\<rparr>"

definition trace_entries :: "commit_args \<Rightarrow> entry_args \<Rightarrow> entry_args list" where
  "trace_entries ca a =
     (case (ea_step a, ca_trace ca) of (Some s, Some t) \<Rightarrow> if done_run s then egress_entries s t else [] | _ \<Rightarrow> [])"

definition commit_entries :: "engine_env \<Rightarrow> moment \<Rightarrow> run \<Rightarrow> commit_args \<Rightarrow> entry_args list" where
  "commit_entries env now r ca =
     ca_before ca @ (case ca_entry ca of None \<Rightarrow> []
       | Some a \<Rightarrow> own_entry a # beside env now r ca a @ trace_entries ca a @ ca_after ca)"

definition not_anchors :: "commit_args \<Rightarrow> bool" where
  "not_anchors ca \<longleftrightarrow> list_all (\<lambda>a. ea_kind a \<noteq> ANCHORED) (ca_before ca @ ca_after ca)
   \<and> (case ca_entry ca of None \<Rightarrow> True | Some a \<Rightarrow> ea_kind a \<noteq> ANCHORED)"

text \<open>The engine's stores between transactions.\<close>

definition engine_ok :: "codec \<Rightarrow> engine \<Rightarrow> bool" where
  "engine_ok cd st \<longleftrightarrow> service_ok cd (en_ledger st) \<and> appended (ls_store (en_ledger st)) = []
   \<and> en_recorded st = []
   \<and> (case en_queue st of None \<Rightarrow> True | Some q \<Rightarrow> q_puts q = [] \<and> \<not> q_spoilt q)"

lemma kinds_beside: "list_all (\<lambda>a. ea_kind a \<noteq> ANCHORED) (beside env now r ca a)"
  by (simp add: beside_def entry_of_kind_def PROPOSAL_DECIDED_def INTERFACE_FAILED_def RUN_ENDED_def ANCHORED_def
      split: option.split prod.split)

lemma kinds_trace: "list_all (\<lambda>a. ea_kind a \<noteq> ANCHORED) (trace_entries ca a)"
  by (simp add: trace_entries_def egress_entries_def entry_of_kind_def MESSAGE_SENT_def ANCHORED_def
      split: option.split)

text \<open>The part of a commit that writes entries: what it has written when it succeeds.\<close>

definition record_bound :: "engine_env \<Rightarrow> moment \<Rightarrow> run \<Rightarrow> entry_args \<Rightarrow> step_run \<Rightarrow> step_trace \<Rightarrow> engine \<Rightarrow> engine \<Rightarrow> bool" where
  "record_bound env now r a s t st st' \<longleftrightarrow>
     (\<exists>p e. en_recorded st' = en_recorded st @ [p] \<and> e \<in> set (ls_entries (en_ledger st'))
        \<and> fact.truncate e = entry_fact env r (own_entry a)
        \<and> provenance_record r s (ev_new_id env) (tr_inputs t) e (tr_adapter_version t) now (tr_route t)
            (ev_subject env r (sr_step_id s)) = Inr p)"

definition written :: "engine_env \<Rightarrow> moment \<Rightarrow> run \<Rightarrow> commit_args \<Rightarrow> engine \<Rightarrow> engine \<Rightarrow> bool" where
  "written env now r ca st st' \<longleftrightarrow>
     en_queue st' = en_queue st \<and> en_claim st' = en_claim st \<and> en_runs st' = en_runs st
   \<and> en_records st' = en_records st \<and> en_objects st' = en_objects st
   \<and> ledger_grew (ev_codec env) st st' (map (entry_fact env r) (case ca_entry ca of None \<Rightarrow> []
        | Some a \<Rightarrow> own_entry a # beside env now r ca a @ trace_entries ca a @ ca_after ca))
   \<and> (\<forall>a s t. ca_entry ca = Some a \<longrightarrow> ea_step a = Some s \<longrightarrow> ca_trace ca = Some t \<longrightarrow> done_run s \<longrightarrow>
        record_bound env now r a s t st st')"

text \<open>The step may be recorded: its record can be built, and it has none yet.\<close>

definition recordable :: "run \<Rightarrow> step_run \<Rightarrow> engine \<Rightarrow> bool" where
  "recordable r s st \<longleftrightarrow> (\<exists>q ex. step_of r (sr_step_id s) = Inr q \<and> exactness_of r s = Inr ex)
   \<and> (\<forall>p \<in> set (en_records st @ en_recorded st). \<not> (p_run_id p = run_id r \<and> p_step_id p = sr_step_id s))"

definition trace_recordable :: "run \<Rightarrow> commit_args \<Rightarrow> engine \<Rightarrow> bool" where
  "trace_recordable r ca st \<longleftrightarrow>
     (\<forall>a s t. ca_entry ca = Some a \<longrightarrow> ea_step a = Some s \<longrightarrow> ca_trace ca = Some t \<longrightarrow> done_run s \<longrightarrow> recordable r s st)"

lemma recordable_ok:
  assumes "recordable r s st"
  shows "\<exists>st'. provenance_of env now r s t e st = (Inr (), st')"
proof -
  from assms obtain q ex where "step_of r (sr_step_id s) = Inr q" "exactness_of r s = Inr ex"
    by (auto simp: recordable_def)
  then obtain p where p: "provenance_record r s (ev_new_id env) (tr_inputs t) e (tr_adapter_version t) now (tr_route t)
      (ev_subject env r (sr_step_id s)) = Inr p" by (simp add: provenance_record_def)
  from provenance_record_agrees(2,3) [OF p] assms p show ?thesis
    by (auto simp: provenance_of_def append_record_def recordable_def)
qed

lemma recordable_same: "recordable r s st \<Longrightarrow> same_rest st st' \<Longrightarrow> recordable r s st'"
  by (simp add: recordable_def same_rest_def)

lemma commit_entry_writes:
  assumes "service_ok (ev_codec env) (en_ledger st)" "not_anchors ca"
  shows "\<exists>x st'. commit_entry env now r ca st = (x, st') \<and> (x = Inr () \<longrightarrow> written env now r ca st st')
    \<and> (\<forall>e. x = Inl e \<longrightarrow> en_queue st' = en_queue st) \<and> (trace_recordable r ca st \<longrightarrow> x = Inr ())"
proof (cases "ca_entry ca")
  case None
  then show ?thesis using assms(1) by (auto simp: commit_entry_def done_with_def ledger_grew_refl written_def)
next
  case (Some a)
  have kinds: "ea_kind (own_entry a) \<noteq> ANCHORED" "list_all (\<lambda>a. ea_kind a \<noteq> ANCHORED) (ca_after ca)"
    using assms(2) Some by (auto simp: not_anchors_def own_entry_def)
  from record_entry_writes [OF assms(1) kinds(1), of now r] obtain e st1 where
    one: "record_entry env now r (own_entry a) st = (Inr e, st1)" "same_rest st st1"
      "ledger_grew (ev_codec env) st st1 [entry_fact env r (own_entry a)]"
      "ls_entries (en_ledger st1) = ls_entries (en_ledger st) @ [e]" "fact.truncate e = entry_fact env r (own_entry a)"
    by blast
  have kb: "list_all (\<lambda>a. ea_kind a \<noteq> ANCHORED) (beside env now r ca a)" by (rule kinds_beside)
  have kt: "list_all (\<lambda>a. ea_kind a \<noteq> ANCHORED) (trace_entries ca a)" by (rule kinds_trace)
  from record_entries_write [OF ledger_grew_ok [OF one(3)] kb, of now r] obtain st2 where
    two: "record_entries env now r (beside env now r ca a) st1 = (Inr (), st2)" "same_rest st1 st2"
      "ledger_grew (ev_codec env) st1 st2 (map (entry_fact env r) (beside env now r ca a))" by blast
  have e2: "e \<in> set (ls_entries (en_ledger st2))"
    using one(4) two(3) by (auto simp: ledger_grew_def)
  have start: "commit_entry env now r ca st =
      next_do (traced env now r a (ca_trace ca) e) (record_entries env now r (ca_after ca)) st2"
    by (simp add: commit_entry_def Some andThen_def next_do_def one(1) [unfolded own_entry_def] two(1))
  show ?thesis
  proof (cases "\<exists>s t. ea_step a = Some s \<and> ca_trace ca = Some t \<and> done_run s")
    case False
    then have none: "traced env now r a (ca_trace ca) e = done_with ()" "trace_entries ca a = []"
      by (auto simp: traced_def trace_entries_def split: option.split)
    from record_entries_write [OF ledger_grew_ok [OF two(3)] kinds(2), of now r] obtain st3 where
      three: "record_entries env now r (ca_after ca) st2 = (Inr (), st3)" "same_rest st2 st3"
        "ledger_grew (ev_codec env) st2 st3 (map (entry_fact env r) (ca_after ca))" by blast
    have "same_rest st st3" using same_rest_trans [OF same_rest_trans [OF one(2) two(2)] three(2)] .
    moreover have "commit_entry env now r ca st = (Inr (), st3)"
      by (simp add: start none(1) next_do_def andThen_def done_with_def three(1))
    moreover have "ledger_grew (ev_codec env) st st3 (map (entry_fact env r) (own_entry a # beside env now r ca a @ trace_entries ca a @ ca_after ca))"
      using ledger_grew_trans [OF ledger_grew_trans [OF one(3) two(3)] three(3)] by (simp add: none(2))
    ultimately show ?thesis using False by (auto simp: Some same_rest_def written_def)
  next
    case True
    then obtain s t where st: "ea_step a = Some s" "ca_trace ca = Some t" "done_run s" by blast
    show ?thesis
    proof (cases "provenance_of env now r s t e st2")
      case (Pair x st3)
      show ?thesis
      proof (cases x)
        case (Inl err)
        then have "st3 = st2" using Pair by (auto simp: provenance_of_def append_record_def split: sum.splits if_splits)
        moreover have "commit_entry env now r ca st = (Inl err, st3)"
          by (simp add: start traced_def st next_do_def andThen_def Pair Inl)
        moreover have "en_queue st2 = en_queue st" using one(2) two(2) by (simp add: same_rest_def)
        moreover have "\<not> trace_recordable r ca st"
        proof
          assume "trace_recordable r ca st"
          then have "recordable r s st" using Some st by (simp add: trace_recordable_def)
          then have "recordable r s st2" using recordable_same same_rest_trans [OF one(2) two(2)] by blast
          from recordable_ok [OF this, of env now t e] Pair Inl show False by simp
        qed
        ultimately show ?thesis by auto
      next
        case (Inr u)
        with Pair obtain p where p: "provenance_record r s (ev_new_id env) (tr_inputs t) e (tr_adapter_version t) now
            (tr_route t) (ev_subject env r (sr_step_id s)) = Inr p" and st3: "st3 = st2\<lparr>en_recorded := en_recorded st2 @ [p]\<rparr>"
          by (auto simp: provenance_of_def append_record_def split: sum.splits if_splits)
        have ok3: "service_ok (ev_codec env) (en_ledger st3)" using ledger_grew_ok [OF two(3)] by (simp add: st3)
        have te: "trace_entries ca a = egress_entries s t" by (simp add: trace_entries_def st)
        from record_entries_write [OF ok3 kt, of now r] obtain st4 where
          four: "record_entries env now r (egress_entries s t) st3 = (Inr (), st4)" "same_rest st3 st4"
            "ledger_grew (ev_codec env) st3 st4 (map (entry_fact env r) (trace_entries ca a))" unfolding te by blast
        from record_entries_write [OF ledger_grew_ok [OF four(3)] kinds(2), of now r] obtain st5 where
          five: "record_entries env now r (ca_after ca) st4 = (Inr (), st5)" "same_rest st4 st5"
            "ledger_grew (ev_codec env) st4 st5 (map (entry_fact env r) (ca_after ca))" by blast
        have run: "commit_entry env now r ca st = (Inr (), st5)"
          by (simp add: start traced_def st next_do_def andThen_def Pair Inr four(1) five(1))
        have grew3: "ledger_grew (ev_codec env) st2 st3 []" using ledger_grew_ok [OF two(3)] by (simp add: st3 ledger_grew_def)
        from ledger_grew_trans [OF ledger_grew_trans [OF ledger_grew_trans [OF ledger_grew_trans [OF one(3) two(3)] grew3] four(3)] five(3)]
        have grew: "ledger_grew (ev_codec env) st st5 (map (entry_fact env r) (own_entry a # beside env now r ca a @ trace_entries ca a @ ca_after ca))"
          by simp
        have rest: "en_queue st5 = en_queue st" "en_claim st5 = en_claim st" "en_runs st5 = en_runs st"
          "en_records st5 = en_records st" "en_objects st5 = en_objects st" "en_recorded st5 = en_recorded st @ [p]"
          using one(2) two(2) four(2) five(2) by (simp_all add: same_rest_def st3)
        have "e \<in> set (ls_entries (en_ledger st5))"
          using e2 four(3) five(3) by (auto simp: ledger_grew_def st3)
        with p one(5) rest have "record_bound env now r a s t st st5" unfolding record_bound_def by blast
        with grew rest have "written env now r ca st st5" by (simp add: written_def Some st)
        then show ?thesis using run by blast
      qed
    qed
  qed
qed

subsection \<open>All or nothing\<close>

text \<open>A queue as a transaction leaves it that wrote only to its journal and took fences.\<close>

definition journal_only :: "queue option \<Rightarrow> queue option \<Rightarrow> bool" where
  "journal_only before now \<longleftrightarrow>
     (case (before, now) of
        (None, None) \<Rightarrow> True
      | (Some q, Some q') \<Rightarrow> q_jobs q' = q_jobs q \<and> q_lease q' = q_lease q \<and> q_max_attempts q' = q_max_attempts q
      | _ \<Rightarrow> False)"

lemma journal_only_refl [simp]: "journal_only q q"
  by (simp add: journal_only_def split: option.split)

lemma commit_start_effect:
  "\<exists>x st'. commit_start now r ca st = (x, st')
     \<and> en_ledger st' = en_ledger st \<and> en_records st' = en_records st \<and> en_recorded st' = en_recorded st
     \<and> en_objects st' = en_objects st \<and> en_claim st' = en_claim st
     \<and> (ca_inside ca = None \<longrightarrow> journal_only (en_queue st) (en_queue st'))
     \<and> (x = Inr () \<longrightarrow> en_runs st' = (en_runs st)(run_id r \<mapsto> r)
          \<and> (ca_new ca \<longrightarrow> en_runs st (run_id r) = None)
          \<and> (\<forall>c q. en_claim st = Some c \<longrightarrow> en_queue st = Some q \<longrightarrow> holds q c)
          \<and> (ca_inside ca = None \<longrightarrow> (\<forall>q. en_queue st = Some q \<longrightarrow> \<not> q_spoilt q \<longrightarrow>
               (\<exists>q'. en_queue st' = Some q' \<and> \<not> q_spoilt q' \<and> q_puts q' = (case ca_enqueue ca of None \<Rightarrow> q_puts q
                  | Some j \<Rightarrow> AList.update (j_id j) (new_row j now) (q_puts q))))))"
  by (cases "en_queue st"; cases "en_claim st"; cases "ca_enqueue ca"; cases "ca_inside ca")
    (auto simp: commit_start_def next_do_def andThen_def fence_run_def fence_def do_if_def refuse_known_def done_with_def
      put_run_def enqueue_job_def enqueue_def do_inside_def journal_only_def row_def split: sum.splits prod.splits if_splits)

lemma close_queue_journal_only:
  assumes "journal_only (en_queue st) (Some q')" "engine_ok cd st"
  shows "\<exists>q. en_queue st = Some q \<and> close_queue st (q'\<lparr>q_puts := []\<rparr>) = q"
proof -
  from assms(1) obtain q where q: "en_queue st = Some q" "q_jobs q' = q_jobs q" "q_lease q' = q_lease q"
    "q_max_attempts q' = q_max_attempts q" by (auto simp: journal_only_def split: option.splits)
  moreover have "q_puts q = []" "\<not> q_spoilt q" using assms(2) q(1) by (auto simp: engine_ok_def)
  moreover have "AList.updates [] [] xs = xs" for xs :: "(string \<times> job_row) list" by simp
  ultimately show ?thesis by (cases q) (simp add: close_queue_def end_transaction_def)
qed

text \<open>A commit that fails, and one that succeeds, taken apart.\<close>

lemma commit_run_Inl:
  assumes "commit_run env now r ca st = (Inl e, st')"
  shows "en_ledger st' = en_ledger st \<and> en_runs st' = en_runs st \<and> en_records st' = en_records st
    \<and> en_recorded st' = en_recorded st \<and> en_claim st' = en_claim st \<and> en_observed st' = en_observed st
    \<and> en_objects st' = en_objects st"
proof -
  obtain x st1 where "commit_body env now (r\<lparr>run_updated_at := now\<rparr>) ca st = (x, st1)"
    by (cases "commit_body env now (r\<lparr>run_updated_at := now\<rparr>) ca st")
  with assms show ?thesis
    by (auto simp: commit_run_def transaction_def next_do_def andThen_def done_with_def drop_all_def Let_def split: sum.splits)
qed

lemma commit_queue_kept:
  assumes "commit_run env now r ca st = (Inl e, st')" "engine_ok (ev_codec env) st" "not_anchors ca" "ca_inside ca = None"
  shows "en_queue st' = en_queue st"
proof -
  let ?r = "r\<lparr>run_updated_at := now\<rparr>"
  obtain x0 st0 where start: "commit_start now ?r ca st = (x0, st0)" by (cases "commit_start now ?r ca st")
  with commit_start_effect [of now ?r ca st] assms(4) have s0: "en_ledger st0 = en_ledger st"
    "journal_only (en_queue st) (en_queue st0)" by auto
  have ok0: "service_ok (ev_codec env) (en_ledger st0)" using assms(2) s0(1) by (simp add: engine_ok_def)
  have "\<exists>y st1. commit_body env now ?r ca st = (y, st1) \<and> (y = Inr () \<or> journal_only (en_queue st) (en_queue st1))"
  proof (cases x0)
    case (Inl e0)
    with start s0(2) show ?thesis by (auto simp: commit_body_def next_do_def andThen_def)
  next
    case (Inr u)
    have kinds: "list_all (\<lambda>a. ea_kind a \<noteq> ANCHORED) (ca_before ca)" using assms(3) by (simp add: not_anchors_def)
    from record_entries_write [OF ok0 kinds, of now ?r] obtain st1 where
      one: "record_entries env now ?r (ca_before ca) st0 = (Inr (), st1)" "same_rest st0 st1"
        "ledger_grew (ev_codec env) st0 st1 (map (entry_fact env ?r) (ca_before ca))" by blast
    from commit_entry_writes [OF ledger_grew_ok [OF one(3)] assms(3), of now ?r] obtain y st2 where
      two: "commit_entry env now ?r ca st1 = (y, st2)" "\<forall>e. y = Inl e \<longrightarrow> en_queue st2 = en_queue st1" by (elim exE conjE)
    have "commit_body env now ?r ca st = (y, st2)"
      using start Inr one(1) two(1) by (simp add: commit_body_def next_do_def andThen_def)
    moreover have "y = Inr () \<or> en_queue st2 = en_queue st0"
      using two(2) one(2) by (cases y) (simp_all add: same_rest_def)
    ultimately show ?thesis using s0(2) by auto
  qed
  then obtain y st1 where body: "commit_body env now ?r ca st = (y, st1)"
    and kept: "y = Inr () \<or> journal_only (en_queue st) (en_queue st1)" by blast
  from assms(1) body have y: "y = Inl e" "st' = drop_all st st1"
    by (auto simp: commit_run_def transaction_def next_do_def andThen_def done_with_def Let_def split: sum.splits)
  with kept have j: "journal_only (en_queue st) (en_queue st1)" by simp
  show ?thesis
  proof (cases "en_queue st1")
    case None
    then have "en_queue st = None" using j by (auto simp: journal_only_def split: option.splits)
    with None y show ?thesis by (simp add: drop_all_def)
  next
    case (Some q1)
    from close_queue_journal_only [OF j [unfolded Some] assms(2)] Some y show ?thesis by (auto simp: drop_all_def)
  qed
qed

lemma commit_run_Inr:
  assumes "commit_run env now r ca st = (Inr r', st')" "engine_ok (ev_codec env) st" "not_anchors ca"
  shows "r' = r\<lparr>run_updated_at := now\<rparr>"
    and "en_runs st' = (en_runs st)(run_id r \<mapsto> r')"
    and "ca_new ca \<Longrightarrow> en_runs st (run_id r) = None"
    and "\<And>c q. en_claim st = Some c \<Longrightarrow> en_queue st = Some q \<Longrightarrow> holds q c"
    and "engine_ok (ev_codec env) st'"
    and "\<exists>new. ls_entries (en_ledger st') = ls_entries (en_ledger st) @ new
           \<and> map fact.truncate new = map (entry_fact env r') (commit_entries env now r' ca)"
    and "ca_entry ca = Some a \<Longrightarrow> ea_step a = Some s \<Longrightarrow> ca_trace ca = Some t \<Longrightarrow> done_run s \<Longrightarrow>
       \<exists>p e. en_records st' = en_records st @ [p] \<and> e \<in> set (ls_entries (en_ledger st'))
         \<and> fact.truncate e = entry_fact env r' (own_entry a)
         \<and> provenance_record r' s (ev_new_id env) (tr_inputs t) e (tr_adapter_version t) now (tr_route t)
             (ev_subject env r' (sr_step_id s)) = Inr p"
proof -
  let ?r = "r\<lparr>run_updated_at := now\<rparr>"
  obtain x st2 where body: "commit_body env now ?r ca st = (x, st2)" by (cases "commit_body env now ?r ca st")
  with assms(1) have x: "x = Inr ()" and st': "st' = keep_all st st2" and r': "r' = ?r"
    by (cases x; simp add: commit_run_def transaction_def next_do_def andThen_def done_with_def Let_def)+
  note body = body [unfolded x]
  obtain x0 st0 where start: "commit_start now ?r ca st = (x0, st0)" by (cases "commit_start now ?r ca st")
  with body have x0: "x0 = Inr ()" by (cases x0) (auto simp: commit_body_def next_do_def andThen_def)
  from commit_start_effect [of now ?r ca st] start x0 have s0: "en_ledger st0 = en_ledger st" "en_records st0 = en_records st"
    "en_recorded st0 = en_recorded st" "en_runs st0 = (en_runs st)(run_id r \<mapsto> ?r)"
    "ca_new ca \<longrightarrow> en_runs st (run_id r) = None"
    "\<forall>c q. en_claim st = Some c \<longrightarrow> en_queue st = Some q \<longrightarrow> holds q c" by auto
  have ok0: "service_ok (ev_codec env) (en_ledger st0)" using assms(2) s0(1) by (simp add: engine_ok_def)
  have kinds: "list_all (\<lambda>a. ea_kind a \<noteq> ANCHORED) (ca_before ca)" using assms(3) by (simp add: not_anchors_def)
  from record_entries_write [OF ok0 kinds, of now ?r] obtain st1 where
    one: "record_entries env now ?r (ca_before ca) st0 = (Inr (), st1)" "same_rest st0 st1"
      "ledger_grew (ev_codec env) st0 st1 (map (entry_fact env ?r) (ca_before ca))" by blast
  have two: "commit_entry env now ?r ca st1 = (Inr (), st2)"
    using body start x0 one(1) by (simp add: commit_body_def next_do_def andThen_def)
  from commit_entry_writes [OF ledger_grew_ok [OF one(3)] assms(3), of now ?r] two
  have wrote: "written env now ?r ca st1 st2" by auto
  then have grew: "ledger_grew (ev_codec env) st1 st2 (map (entry_fact env ?r) (case ca_entry ca of None \<Rightarrow> []
             | Some a \<Rightarrow> own_entry a # beside env now ?r ca a @ trace_entries ca a @ ca_after ca))"
    and runs: "en_runs st2 = en_runs st1" "en_records st2 = en_records st1" by (simp_all add: written_def)
  have "ledger_grew (ev_codec env) st0 st2 (map (entry_fact env ?r) (commit_entries env now ?r ca))"
    using ledger_grew_trans [OF one(3) grew] by (simp add: commit_entries_def)
  then have all: "service_ok (ev_codec env) (en_ledger st2)"
    "\<exists>new. ls_entries (en_ledger st2) = ls_entries (en_ledger st) @ new
       \<and> map fact.truncate new = map (entry_fact env ?r) (commit_entries env now ?r ca)"
    by (auto simp: ledger_grew_def s0(1))
  have kept: "ls_entries (en_ledger st') = ls_entries (en_ledger st2)" by (simp add: st' keep_all_def)
  show "r' = r\<lparr>run_updated_at := now\<rparr>" by (rule r')
  show "en_runs st' = (en_runs st)(run_id r \<mapsto> r')"
    using one(2) runs(1) s0(4) by (simp add: st' keep_all_def r' same_rest_def)
  show "ca_new ca \<Longrightarrow> en_runs st (run_id r) = None" using s0(5) by blast
  show "\<And>c q. en_claim st = Some c \<Longrightarrow> en_queue st = Some q \<Longrightarrow> holds q c" using s0(6) by blast
  show "engine_ok (ev_codec env) st'"
    using commit_ok [OF all(1)]
    by (auto simp: engine_ok_def st' keep_all_def commit_def close_queue_def end_transaction_def split: option.split)
  show "\<exists>new. ls_entries (en_ledger st') = ls_entries (en_ledger st) @ new
           \<and> map fact.truncate new = map (entry_fact env r') (commit_entries env now r' ca)"
    using all(2) by (simp add: kept r')
  show "\<exists>p e. en_records st' = en_records st @ [p] \<and> e \<in> set (ls_entries (en_ledger st'))
         \<and> fact.truncate e = entry_fact env r' (own_entry a)
         \<and> provenance_record r' s (ev_new_id env) (tr_inputs t) e (tr_adapter_version t) now (tr_route t)
             (ev_subject env r' (sr_step_id s)) = Inr p"
    if a: "ca_entry ca = Some a" "ea_step a = Some s" "ca_trace ca = Some t" "done_run s"
  proof -
    from wrote a have "record_bound env now ?r a s t st1 st2" unfolding written_def by blast
    then obtain p e where p: "en_recorded st2 = en_recorded st1 @ [p]" "e \<in> set (ls_entries (en_ledger st2))"
      "fact.truncate e = entry_fact env ?r (own_entry a)"
      "provenance_record ?r s (ev_new_id env) (tr_inputs t) e (tr_adapter_version t) now (tr_route t)
         (ev_subject env ?r (sr_step_id s)) = Inr p" unfolding record_bound_def by blast
    moreover have "en_records st' = en_records st @ [p]"
      using p(1) one(2) runs(2) s0(2,3) assms(2) by (simp add: st' keep_all_def same_rest_def engine_ok_def)
    ultimately show ?thesis unfolding kept r' by blast
  qed
qed



text \<open>When a commit goes through: without a queue or a claim, and where its step may be recorded.\<close>

lemma commit_succeeds:
  assumes "engine_ok (ev_codec env) st" "not_anchors ca" "en_claim st = None"
    and "ca_new ca \<Longrightarrow> en_runs st (run_id r) = None" "ca_enqueue ca = None" "ca_inside ca = None"
    and "trace_recordable (r\<lparr>run_updated_at := now\<rparr>) ca st"
  shows "\<exists>st'. commit_run env now r ca st = (Inr (r\<lparr>run_updated_at := now\<rparr>), st')"
proof -
  let ?r = "r\<lparr>run_updated_at := now\<rparr>"
  have start: "commit_start now ?r ca st = (Inr (), st\<lparr>en_runs := (en_runs st)(run_id r \<mapsto> ?r)\<rparr>)"
    using assms(3-6) by (auto simp: commit_start_def next_do_def andThen_def fence_run_def do_if_def refuse_known_def
        done_with_def put_run_def enqueue_job_def do_inside_def)
  let ?st0 = "st\<lparr>en_runs := (en_runs st)(run_id r \<mapsto> ?r)\<rparr>"
  have ok0: "service_ok (ev_codec env) (en_ledger ?st0)" using assms(1) by (simp add: engine_ok_def)
  have kinds: "list_all (\<lambda>a. ea_kind a \<noteq> ANCHORED) (ca_before ca)" using assms(2) by (simp add: not_anchors_def)
  from record_entries_write [OF ok0 kinds, of now ?r] obtain st1 where
    one: "record_entries env now ?r (ca_before ca) ?st0 = (Inr (), st1)" "same_rest ?st0 st1"
      "ledger_grew (ev_codec env) ?st0 st1 (map (entry_fact env ?r) (ca_before ca))" by blast
  have "trace_recordable ?r ca st1"
    using assms(7) one(2) by (auto simp: trace_recordable_def recordable_def same_rest_def)
  with commit_entry_writes [OF ledger_grew_ok [OF one(3)] assms(2), of now ?r] obtain st2 where
    "commit_entry env now ?r ca st1 = (Inr (), st2)" by auto
  then have "commit_body env now ?r ca st = (Inr (), st2)"
    using start one(1) by (simp add: commit_body_def next_do_def andThen_def)
  then show ?thesis by (simp add: commit_run_def transaction_def next_do_def andThen_def done_with_def Let_def)
qed

subsection \<open>The record of a completed step\<close>

lemma fact_truncate_sel:
  assumes "fact.truncate (e :: ledger_entry) = f"
  shows "f_kind e = f_kind f" "f_refs e = f_refs f" "f_method e = f_method f" "f_adapter e = f_adapter f"
    "f_outcome e = f_outcome f" "f_content_digest e = f_content_digest f" "f_rehearsal e = f_rehearsal f"
    "f_consumption e = f_consumption f" "f_through e = f_through f"
  using assms by (auto simp: fact.defs)

text \<open>An entry that completes a step: it succeeded, was skipped or declined, or was rehearsed in a
  rehearsal; and the step run's own result digest is the entry's.\<close>

definition completes :: "run \<Rightarrow> entry_args \<Rightarrow> bool" where
  "completes r a \<longleftrightarrow> ea_kind a = FINISHED \<and> ea_digest a = None
   \<and> (ea_outcome a = Some SUCCEEDED \<or> (case ea_outcome a of None \<Rightarrow> False | Some t \<Rightarrow> t \<in> set SETTLED)
      \<or> ea_outcome a = Some REHEARSED \<and> run_rehearsal r)"

definition trace_resolved :: "run \<Rightarrow> step_run \<Rightarrow> step_trace \<Rightarrow> bool" where
  "trace_resolved r s t \<longleftrightarrow> list_all (\<lambda>i. pi_kind i = IN_SOURCE \<or> pi_run_id i \<noteq> Some (run_id r) \<or> resolved_input r s i) (tr_inputs t)"

lemma completes_entry:
  assumes "completes r a" "ea_step a = Some s" "fact.truncate e = entry_fact env r (own_entry a)"
  shows "completion_entry r s e"
  using assms(1,2) fact_truncate_sel [OF assms(3)]
  by (auto simp: completion_entry_def completes_def completed_entry_def own_entry_def entry_fact_def entry_refs_def
      split: option.splits)

text \<open>a step committed with its result leaves its provenance record in the same transaction, bound to
  the entry of its completion: the record the walk over the run's chain accepts.\<close>

theorem committed_step_is_recorded:
  assumes "engine_ok (ev_codec env) st" "not_anchors ca" "commit_run env now r ca st = (Inr r', st')"
    and "ca_entry ca = Some a" "ea_step a = Some s" "ca_trace ca = Some t" "done_run s"
    and "completes r' a" "trace_resolved r' s t"
  shows "\<exists>p. en_records st' = en_records st @ [p] \<and> recorded r' (ls_entries (en_ledger st')) s p"
proof -
  from commit_run_Inr(7) [OF assms(3,1,2,4-7)] obtain p e where
    p: "en_records st' = en_records st @ [p]" and e: "e \<in> set (ls_entries (en_ledger st'))"
      "fact.truncate e = entry_fact env r' (own_entry a)"
      "provenance_record r' s (ev_new_id env) (tr_inputs t) e (tr_adapter_version t) now (tr_route t)
         (ev_subject env r' (sr_step_id s)) = Inr p" by (elim exE conjE)
  have "completion_entry r' s e" by (rule completes_entry [OF assms(8,5) e(2)])
  moreover have "\<forall>i \<in> set (tr_inputs t). pi_kind i = IN_SOURCE \<or> pi_run_id i \<noteq> Some (run_id r') \<or> resolved_input r' s i"
    using assms(9) by (simp add: trace_resolved_def list_all_iff)
  ultimately have "recorded r' (ls_entries (en_ledger st')) s p" unfolding recorded_def using e(1,3) by blast
  with p show ?thesis by blast
qed

lemma claim_jobs_journal:
  "q_puts (snd (claim_jobs q claimant batch limits now)) = q_puts q"
  "q_spoilt (snd (claim_jobs q claimant batch limits now)) = q_spoilt q"
proof -
  have take: "q_puts (take_row c n r q) = q_puts q \<and> q_spoilt (take_row c n r q) = q_spoilt q" for c n r q
    by (simp add: take_row_def set_row_def)
  have mark: "q_puts (mark_row l h n r q) = q_puts q \<and> q_spoilt (mark_row l h n r q) = q_spoilt q" for l h n r q
    by (simp add: mark_row_def set_row_def split: option.split)
  have folds: "q_puts (fold (take_row c n) rs q) = q_puts q \<and> q_spoilt (fold (take_row c n) rs q) = q_spoilt q"
    "q_puts (fold (mark_row l h n) rs q) = q_puts q \<and> q_spoilt (fold (mark_row l h n) rs q) = q_spoilt q" for c n l h rs q
    by (induction rs arbitrary: q) (simp_all add: take mark)
  show "q_puts (snd (claim_jobs q claimant batch limits now)) = q_puts q"
    "q_spoilt (snd (claim_jobs q claimant batch limits now)) = q_spoilt q"
    by (simp_all add: claim_jobs_def Let_def folds)
qed

subsection \<open>A concrete engine\<close>

definition sample_env :: engine_env where
  "sample_env = \<lparr>ev_codec = sample_codec, ev_float = (\<lambda>x. ''0.5''), ev_iso = show_int, ev_trace_id = None, ev_deadlines = False,
     ev_new_id = ''prov-1'', ev_subject = (\<lambda>r s. None)\<rparr>"

definition empty_engine :: "queue option \<Rightarrow> claim option \<Rightarrow> engine" where
  "empty_engine q c = \<lparr>en_ledger = history sample_codec [] False, en_queue = q, en_claim = c, en_runs = Map.empty,
     en_records = [], en_recorded = [], en_observed = [], en_objects = Map.empty\<rparr>"

definition finishing :: commit_args where
  "finishing = (commit_of (Some ((entry_of_kind FINISHED)\<lparr>ea_step := Some checked_step, ea_outcome := Some SUCCEEDED\<rparr>)))
     \<lparr>ca_trace := Some \<lparr>tr_inputs = [], tr_adapter_version = None, tr_egress = None, tr_rehearsed = False,
        tr_route = None, tr_message = None\<rparr>\<rparr>"

lemma empty_engine_ok: "(case q of None \<Rightarrow> True | Some x \<Rightarrow> q_puts x = [] \<and> \<not> q_spoilt x) \<Longrightarrow> engine_ok sample_codec (empty_engine q c)"
  using history_ok [of "[]" sample_codec False] by (simp add: engine_ok_def empty_engine_def history_def)

lemma finishing_ok: "not_anchors finishing"
  by (simp add: not_anchors_def finishing_def commit_of_def entry_of_kind_def FINISHED_def ANCHORED_def)

lemma finishing_succeeds:
  "\<exists>st'. commit_run sample_env 7 checked_run finishing (empty_engine None None) = (Inr (checked_run\<lparr>run_updated_at := 7\<rparr>), st')"
proof -
  let ?r = "checked_run\<lparr>run_updated_at := 7\<rparr>"
  have step: "step_of ?r ''check'' = Inr sample_step"
    by (simp add: step_of_def checked_run_facts two_steps_def sample_step_def)
  have sid: "sr_step_id checked_step = ''check''" "sr_method checked_step = RULE"
    by (simp_all add: checked_step_def new_step_run_def sample_step_def)
  have "trace_recordable ?r finishing (empty_engine None None)"
    by (simp add: trace_recordable_def recordable_def finishing_def commit_of_def entry_of_kind_def empty_engine_def
        exactness_of_def NON_PRODUCING_def sid step)
  then show ?thesis
    by (intro commit_succeeds)
      (simp_all add: empty_engine_ok sample_env_def finishing_ok, simp_all add: empty_engine_def finishing_def commit_of_def)
qed



theorem committed_step_is_recorded_witness:
  "\<exists>st' p. commit_run sample_env 7 checked_run finishing (empty_engine None None) = (Inr (checked_run\<lparr>run_updated_at := 7\<rparr>), st')
     \<and> en_records st' = [p] \<and> recorded (checked_run\<lparr>run_updated_at := 7\<rparr>) (ls_entries (en_ledger st')) checked_step p"
proof -
  let ?a = "(entry_of_kind FINISHED)\<lparr>ea_step := Some checked_step, ea_outcome := Some SUCCEEDED\<rparr>"
  let ?t = "\<lparr>tr_inputs = [], tr_adapter_version = None, tr_egress = None, tr_rehearsed = False,
        tr_route = None, tr_message = None\<rparr>"
  obtain st' where st': "commit_run sample_env 7 checked_run finishing (empty_engine None None)
      = (Inr (checked_run\<lparr>run_updated_at := 7\<rparr>), st')" using finishing_succeeds by blast
  have ok: "engine_ok (ev_codec sample_env) (empty_engine None None)" by (simp add: sample_env_def empty_engine_ok)
  have args: "ca_entry finishing = Some ?a" "ea_step ?a = Some checked_step" "ca_trace finishing = Some ?t"
    by (simp_all add: finishing_def commit_of_def)
  have "done_run checked_step" by (simp add: done_run_def DONE_def checked_step_def)
  moreover have "completes (checked_run\<lparr>run_updated_at := 7\<rparr>) ?a" by (simp add: completes_def entry_of_kind_def)
  moreover have "trace_resolved (checked_run\<lparr>run_updated_at := 7\<rparr>) checked_step ?t" by (simp add: trace_resolved_def)
  moreover have "en_records (empty_engine None None) = []" by (simp add: empty_engine_def)
  ultimately show ?thesis using committed_step_is_recorded [OF ok finishing_ok st' args] st' by auto
qed

end
