(* ===== verification/Run_Blocked.thy ===== *)
theory Run_Blocked
  imports Complex_Main Run_Model Ledger_Store
begin

text \<open>
  Blocked-time accounts (\<open>run/domain/service/blocked.py\<close>): the record of a block that ended, the
  block a record states, the period a moment falls in, and the sums per account, process and
  period. Main results: a record states the block it was written for; a sum is what the blocks of
  its key add up to, its share is at most one; and no figure of a wait on a person is shown that
  fewer than two persons answered.

  A moment is counted from 1970-01-01T00:00 UTC. Its ISO text and a float's text are arguments.
\<close>

subsection \<open>The record of a block\<close>

fun account_value :: "account \<Rightarrow> string" where
  "account_value LIMIT_PROVIDER = ''limit.provider''"
| "account_value LIMIT_QUOTA = ''limit.quota''"
| "account_value LIMIT_BUDGET = ''limit.budget''"
| "account_value LIMIT_COMPUTE = ''limit.compute''"
| "account_value WAIT_HUMAN = ''wait.human''"
| "account_value WAIT_EXTERNAL = ''wait.external''"
| "account_value WAIT_DEPENDENCY = ''wait.dependency''"

definition account_of :: "string \<Rightarrow> account option" where
  "account_of v = List.find (\<lambda>a. account_value a = v) ACCOUNTS"

definition RECORD_FIELDS :: "string list" where
  "RECORD_FIELDS = [''account'', ''cause'', ''run_id'', ''step_id'', ''process_version'', ''since'', ''until'',
     ''seconds'', ''on'', ''role'', ''lacking'']"

record block =
  bl_account :: account
  bl_cause :: string
  bl_run_id :: string
  bl_step_id :: string
  bl_process_version :: string
  bl_since :: moment
  bl_until :: moment
  bl_seconds :: rat
  bl_on :: "string option"
  bl_role :: "string option"
  bl_lacking :: "string option"

definition block_process :: "block \<Rightarrow> string" where
  "block_process b = process_of (bl_process_version b)"

text \<open>A block that has not ended, with what it holds up.\<close>

record waiting_block =
  wb_account :: account
  wb_cause :: string
  wb_run_id :: string
  wb_step_id :: string
  wb_process_version :: string
  wb_since :: moment
  wb_on :: "string option"
  wb_role :: "string option"
  wb_lacking :: "string option"

definition waiting_of :: "open_block \<Rightarrow> string \<Rightarrow> string \<Rightarrow> string \<Rightarrow> waiting_block" where
  "waiting_of ob run step version =
     \<lparr>wb_account = ob_account ob, wb_cause = ob_cause ob, wb_run_id = run, wb_step_id = step,
      wb_process_version = version, wb_since = ob_since ob, wb_on = ob_on ob, wb_role = ob_role ob,
      wb_lacking = ob_lacking ob\<rparr>"

definition block_seconds :: "moment \<Rightarrow> moment \<Rightarrow> rat" where
  "block_seconds since until = max 0 (of_int (until - since) / 1000000)"

text \<open>A dictionary with further items set, in order.\<close>

definition set_items :: "(string \<times> json) list \<Rightarrow> (string \<times> json) list \<Rightarrow> (string \<times> json) list" where
  "set_items kvs d = foldl (\<lambda>d kv. AList.update (fst kv) (snd kv) d) d kvs"

definition blocked_record ::
  "(moment \<Rightarrow> string) \<Rightarrow> (rat \<Rightarrow> string) \<Rightarrow> open_block \<Rightarrow> string \<Rightarrow> string \<Rightarrow> string \<Rightarrow> moment \<Rightarrow>
   (string \<times> json) list \<Rightarrow> (string \<times> json) list" where
  "blocked_record iso_text float_text ob run step version until extra =
     set_items
       ([(''account'', JStr (account_value (ob_account ob))), (''cause'', JStr (ob_cause ob)),
         (''run_id'', JStr run), (''step_id'', JStr step), (''process_version'', JStr version),
         (''since'', JStr (iso_text (ob_since ob))), (''until'', JStr (iso_text until)),
         (''seconds'', JFloat (float_text (block_seconds (ob_since ob) until)))]
        @ field_of ''on'' (map_option JStr (ob_on ob))
        @ field_of ''role'' (map_option JStr (ob_role ob))
        @ field_of ''lacking'' (map_option JStr (ob_lacking ob))
        @ field_of ''retry_after_seconds'' (map_option (\<lambda>x. JFloat (float_text x)) (ob_retry_after ob)))
       extra"

text \<open>\<open>parse\<close>: the common fields are read, everything else is left aside. What the field's type refuses
  is None.\<close>

definition text_at :: "(string \<times> json) list \<Rightarrow> string \<Rightarrow> string option" where
  "text_at d k = (case map_of d k of Some (JStr s) \<Rightarrow> Some s | _ \<Rightarrow> None)"

definition optional_at :: "(string \<times> json) list \<Rightarrow> string \<Rightarrow> string option option" where
  "optional_at d k =
     (case map_of d k of None \<Rightarrow> Some None | Some (JStr s) \<Rightarrow> Some (Some s) | Some JNull \<Rightarrow> Some None | _ \<Rightarrow> None)"

text \<open>\<open>CAUSE_PATTERN\<close>, and the pattern of a step's id: a small letter, then small letters, digits and
  the one mark more.\<close>

definition letters_from :: "char \<Rightarrow> string \<Rightarrow> bool" where
  "letters_from mark s \<longleftrightarrow> (case s of [] \<Rightarrow> False
     | c # cs \<Rightarrow> lower c \<and> list_all (\<lambda>x. x = mark \<or> lower x \<or> is_digit x) cs)"

definition cause_text :: "string \<Rightarrow> bool" where
  "cause_text = letters_from (CHR ''_'')"

definition step_id_text :: "string \<Rightarrow> bool" where
  "step_id_text = letters_from (CHR ''-'')"

definition parse_block ::
  "(string \<Rightarrow> moment option) \<Rightarrow> (string \<Rightarrow> rat option) \<Rightarrow> (string \<times> json) list \<Rightarrow> block option" where
  "parse_block read_iso read_float document =
     (let d = filter (\<lambda>(k, _). k \<in> set RECORD_FIELDS) document
      in case (Option.bind (text_at d ''account'') account_of, text_at d ''cause'', text_at d ''run_id'',
               text_at d ''step_id'', text_at d ''process_version'',
               Option.bind (text_at d ''since'') read_iso, Option.bind (text_at d ''until'') read_iso,
               (case map_of d ''seconds'' of Some (JFloat f) \<Rightarrow> read_float f | Some (JInt i) \<Rightarrow> Some (of_int i) | _ \<Rightarrow> None),
               optional_at d ''on'', optional_at d ''role'', optional_at d ''lacking'') of
           (Some a, Some c, Some r, Some s, Some v, Some since, Some until, Some x, Some on, Some role, Some lacking) \<Rightarrow>
             if x < 0 \<or> \<not> cause_text c \<or> r = [] \<or> \<not> step_id_text s \<or> v = []
               \<or> \<not> (case on of None \<Rightarrow> True | Some i \<Rightarrow> step_id_text i) \<or> role = Some [] \<or> lacking = Some [] then None
             else Some \<lparr>bl_account = a, bl_cause = c, bl_run_id = r, bl_step_id = s, bl_process_version = v,
               bl_since = since, bl_until = until, bl_seconds = x, bl_on = on, bl_role = role, bl_lacking = lacking\<rparr>
         | _ \<Rightarrow> None)"

subsection \<open>Periods\<close>

datatype period = DAY | WEEK | MONTH

text \<open>The civil date of a day counted from 1970-01-01.\<close>

definition day_of :: "moment \<Rightarrow> int" where
  "day_of t = t div 86400000000"

definition civil :: "int \<Rightarrow> int \<times> int \<times> int" where
  "civil z0 =
     (let z = z0 + 719468;
          era = z div 146097;
          doe = z - era * 146097;
          yoe = (doe - doe div 1460 + doe div 36524 - doe div 146096) div 365;
          doy = doe - (365 * yoe + yoe div 4 - yoe div 100);
          mp = (5 * doy + 2) div 153;
          d = doy - (153 * mp + 2) div 5 + 1;
          m = (if mp < 10 then mp + 3 else mp - 9)
      in ((if m \<le> 2 then yoe + era * 400 + 1 else yoe + era * 400), m, d))"

definition days_to_year :: "int \<Rightarrow> int" where
  "days_to_year y = (let n = y - 1 in 365 * n + n div 4 - n div 100 + n div 400) - 719162"

definition iso_week :: "int \<Rightarrow> int \<times> int" where
  "iso_week day =
     (let thursday = day - (day + 3) mod 7 + 3;
          year = fst (civil thursday)
      in (year, (thursday - days_to_year year) div 7 + 1))"

definition padded :: "nat \<Rightarrow> int \<Rightarrow> string" where
  "padded width n = (let t = show_int n in replicate (width - length t) (CHR ''0'') @ t)"

definition period_of :: "moment \<Rightarrow> period \<Rightarrow> string" where
  "period_of t p =
     (case civil (day_of t) of (y, m, d) \<Rightarrow>
        (case p of
           DAY \<Rightarrow> padded 4 y @ ''-'' @ padded 2 m @ ''-'' @ padded 2 d
         | WEEK \<Rightarrow> (case iso_week (day_of t) of (year, week) \<Rightarrow> show_int year @ ''-W'' @ padded 2 week)
         | MONTH \<Rightarrow> padded 4 y @ ''-'' @ padded 2 m))"

subsection \<open>The sums\<close>

definition MINIMUM_PERSONS :: nat where "MINIMUM_PERSONS = 2"
definition PERSON_ACCOUNT :: account where "PERSON_ACCOUNT = WAIT_HUMAN"

definition WITHHELD :: string where
  "WITHHELD = ''fewer than 2 persons answered: the figure would be one person's (ADR-0015)''"

record blocked_sum =
  bs_account :: account
  bs_process :: string
  bs_period :: string
  bs_seconds :: "rat option"
  bs_blocks :: "nat option"
  bs_runs_held_up :: "nat option"
  bs_steps_held_up :: "nat option"
  bs_runs :: nat
  bs_share :: "rat option"
  bs_withheld :: "string option"

type_synonym sum_key = "account \<times> string \<times> string"

definition key_of :: "period \<Rightarrow> block \<times> string option \<Rightarrow> sum_key" where
  "key_of p x = (bl_account (fst x), block_process (fst x), period_of (bl_until (fst x)) p)"

text \<open>What the loop over the blocks has added up, per key.\<close>

record tally =
  ty_seconds :: rat
  ty_count :: nat
  ty_runs :: "string set"
  ty_steps :: "(string \<times> string) set"
  ty_persons :: "string set"

definition no_tally :: tally where
  "no_tally = \<lparr>ty_seconds = 0, ty_count = 0, ty_runs = {}, ty_steps = {}, ty_persons = {}\<rparr>"

definition tally_block :: "tally \<Rightarrow> block \<times> string option \<Rightarrow> tally" where
  "tally_block t x =
     \<lparr>ty_seconds = ty_seconds t + bl_seconds (fst x), ty_count = ty_count t + 1,
      ty_runs = insert (bl_run_id (fst x)) (ty_runs t),
      ty_steps = insert (bl_run_id (fst x), bl_step_id (fst x)) (ty_steps t),
      ty_persons = (case snd x of None \<Rightarrow> ty_persons t | Some p \<Rightarrow> insert p (ty_persons t))\<rparr>"

definition tally_step :: "period \<Rightarrow> (sum_key \<rightharpoonup> tally) \<Rightarrow> block \<times> string option \<Rightarrow> (sum_key \<rightharpoonup> tally)" where
  "tally_step p tallies x =
     (let k = key_of p x
      in tallies(k \<mapsto> tally_block (case tallies k of None \<Rightarrow> no_tally | Some t \<Rightarrow> t) x))"

definition sum_of :: "(string \<times> string \<Rightarrow> string list) \<Rightarrow> sum_key \<Rightarrow> tally \<Rightarrow> blocked_sum" where
  "sum_of active k t =
     (case k of (account, process, at_period) \<Rightarrow>
        let active_runs = card (set (active (process, at_period)) \<union> ty_runs t)
        in if account = PERSON_ACCOUNT \<and> card (ty_persons t) < MINIMUM_PERSONS
           then \<lparr>bs_account = account, bs_process = process, bs_period = at_period, bs_seconds = None,
                 bs_blocks = None, bs_runs_held_up = None, bs_steps_held_up = None, bs_runs = active_runs,
                 bs_share = None, bs_withheld = Some WITHHELD\<rparr>
           else \<lparr>bs_account = account, bs_process = process, bs_period = at_period,
                 bs_seconds = Some (ty_seconds t), bs_blocks = Some (ty_count t),
                 bs_runs_held_up = Some (card (ty_runs t)), bs_steps_held_up = Some (card (ty_steps t)),
                 bs_runs = active_runs, bs_share = Some (of_nat (card (ty_runs t)) / of_nat active_runs),
                 bs_withheld = None\<rparr>)"

definition sorted_keys :: "sum_key list \<Rightarrow> sum_key list" where
  "sorted_keys ks = sort_key (\<lambda>(a, process, p). (account_value a, process, p)) (remdups ks)"

definition blocked_sums ::
  "(block \<times> string option) list \<Rightarrow> (string \<times> string \<Rightarrow> string list) \<Rightarrow> period \<Rightarrow> blocked_sum list" where
  "blocked_sums blocks active p =
     (let tallies = foldl (tally_step p) Map.empty blocks
      in map (\<lambda>k. sum_of active k (the (tallies k))) (sorted_keys (map (key_of p) blocks)))"

text \<open>\<open>BlockedSum._figures_or_the_reason\<close>, with the fields' bounds.\<close>

definition blocked_sum_ok :: "blocked_sum \<Rightarrow> bool" where
  "blocked_sum_ok b \<longleftrightarrow> bs_runs b \<ge> 1 \<and>
     (case bs_withheld b of
        Some w \<Rightarrow> w \<noteq> [] \<and> bs_seconds b = None \<and> bs_blocks b = None \<and> bs_runs_held_up b = None
          \<and> bs_steps_held_up b = None \<and> bs_share b = None
      | None \<Rightarrow> (\<exists>s n r st sh. bs_seconds b = Some s \<and> s \<ge> 0 \<and> bs_blocks b = Some n \<and> n \<ge> 1
          \<and> bs_runs_held_up b = Some r \<and> r \<ge> 1 \<and> bs_steps_held_up b = Some st \<and> st \<ge> 1
          \<and> bs_share b = Some sh \<and> 0 \<le> sh \<and> sh \<le> 1))"

subsection \<open>What a record states\<close>

lemma account_of_value [simp]: "account_of (account_value a) = Some a"
  by (cases a) (simp_all add: account_of_def ACCOUNTS_def)

lemma map_of_set_items: "map_of (set_items kvs d) k = (case map_of (rev kvs) k of Some v \<Rightarrow> Some v | None \<Rightarrow> map_of d k)"
proof (induction kvs arbitrary: d)
  case (Cons kv kvs)
  have "set_items (kv # kvs) d = set_items kvs (AList.update (fst kv) (snd kv) d)" by (simp add: set_items_def)
  with Cons show ?case by (auto simp: update_conv' map_add_def split: option.split)
qed (simp add: set_items_def)

lemma map_of_filter_keys: "k \<in> K \<Longrightarrow> map_of (filter (\<lambda>(k, _). k \<in> K) d) k = map_of d k"
  by (induction d) auto

text \<open>a record states the block it was written for, whatever else it carries: its account, cause,
  run, step and version, when it began and ended and how long it lasted, and what it waited on.\<close>

theorem record_states_block:
  assumes "read_iso (iso_text (ob_since ob)) = Some (ob_since ob)" "read_iso (iso_text until) = Some until"
    and "read_float (float_text (block_seconds (ob_since ob) until)) = Some (block_seconds (ob_since ob) until)"
    and "run \<noteq> []" "version \<noteq> []" "ob_role ob \<noteq> Some []" "ob_lacking ob \<noteq> Some []"
    and "cause_text (ob_cause ob)" "step_id_text step" "case ob_on ob of None \<Rightarrow> True | Some i \<Rightarrow> step_id_text i"
    and "fst ` set extra \<inter> {''on'', ''role'', ''lacking''} = {}"
  shows "parse_block read_iso read_float (blocked_record iso_text float_text ob run step version until extra)
    = Some \<lparr>bl_account = ob_account ob, bl_cause = ob_cause ob, bl_run_id = run, bl_step_id = step,
        bl_process_version = version, bl_since = ob_since ob, bl_until = until,
        bl_seconds = block_seconds (ob_since ob) until, bl_on = ob_on ob, bl_role = ob_role ob,
        bl_lacking = ob_lacking ob\<rparr>"
proof -
  let ?d = "blocked_record iso_text float_text ob run step version until extra"
  have extra: "map_of extra k = None" if "k \<in> {''on'', ''role'', ''lacking''}" for k
    unfolding map_of_eq_None_iff using assms(11) that by blast
  have pos: "block_seconds (ob_since ob) until \<ge> 0" by (simp add: block_seconds_def)
  have at: "map_of ?d ''account'' = Some (JStr (account_value (ob_account ob)))" "map_of ?d ''cause'' = Some (JStr (ob_cause ob))"
    "map_of ?d ''run_id'' = Some (JStr run)" "map_of ?d ''step_id'' = Some (JStr step)"
    "map_of ?d ''process_version'' = Some (JStr version)" "map_of ?d ''since'' = Some (JStr (iso_text (ob_since ob)))"
    "map_of ?d ''until'' = Some (JStr (iso_text until))"
    "map_of ?d ''seconds'' = Some (JFloat (float_text (block_seconds (ob_since ob) until)))"
    "map_of ?d ''on'' = map_option JStr (ob_on ob)" "map_of ?d ''role'' = map_option JStr (ob_role ob)"
    "map_of ?d ''lacking'' = map_option JStr (ob_lacking ob)"
    by (cases "ob_on ob"; cases "ob_role ob"; cases "ob_lacking ob"; cases "ob_retry_after ob";
        simp add: blocked_record_def map_of_set_items field_of_def extra)+
  let ?f = "filter (\<lambda>(k, _). k \<in> set RECORD_FIELDS) ?d"
  have kept: "map_of ?f ''account'' = map_of ?d ''account''" "map_of ?f ''cause'' = map_of ?d ''cause''"
    "map_of ?f ''run_id'' = map_of ?d ''run_id''" "map_of ?f ''step_id'' = map_of ?d ''step_id''"
    "map_of ?f ''process_version'' = map_of ?d ''process_version''" "map_of ?f ''since'' = map_of ?d ''since''"
    "map_of ?f ''until'' = map_of ?d ''until''" "map_of ?f ''seconds'' = map_of ?d ''seconds''"
    "map_of ?f ''on'' = map_of ?d ''on''" "map_of ?f ''role'' = map_of ?d ''role''"
    "map_of ?f ''lacking'' = map_of ?d ''lacking''"
    by (rule map_of_filter_keys, simp add: RECORD_FIELDS_def)+
  show ?thesis
    unfolding parse_block_def Let_def text_at_def optional_at_def kept at
    using assms(4-10) pos by (cases "ob_on ob"; cases "ob_role ob"; cases "ob_lacking ob"; simp add: assms(1-3))
qed

subsection \<open>What a sum says\<close>

definition own_blocks :: "period \<Rightarrow> (block \<times> string option) list \<Rightarrow> sum_key \<Rightarrow> (block \<times> string option) list" where
  "own_blocks p blocks k = filter (\<lambda>x. key_of p x = k) blocks"

definition persons_of :: "(block \<times> string option) list \<Rightarrow> string set" where
  "persons_of xs = {person. Some person \<in> snd ` set xs}"

lemma foldl_tally_block:
  "foldl tally_block t xs =
     \<lparr>ty_seconds = ty_seconds t + sum_list (map (bl_seconds \<circ> fst) xs), ty_count = ty_count t + length xs,
      ty_runs = ty_runs t \<union> set (map (bl_run_id \<circ> fst) xs),
      ty_steps = ty_steps t \<union> set (map (\<lambda>x. (bl_run_id (fst x), bl_step_id (fst x))) xs),
      ty_persons = ty_persons t \<union> persons_of xs\<rparr>"
proof (induction xs arbitrary: t)
  case Nil
  then show ?case by (simp add: persons_of_def)
next
  case (Cons x xs)
  have "persons_of (x # xs) = (case snd x of None \<Rightarrow> {} | Some p \<Rightarrow> {p}) \<union> persons_of xs"
    by (auto simp: persons_of_def split: option.split)
  with Cons show ?case by (auto simp: tally_block_def add.assoc split: option.split)
qed

lemma foldl_tally_step:
  "foldl (tally_step p) tallies blocks k =
     (if own_blocks p blocks k = [] then tallies k
      else Some (foldl tally_block (case tallies k of None \<Rightarrow> no_tally | Some t \<Rightarrow> t) (own_blocks p blocks k)))"
proof (induction blocks arbitrary: tallies)
  case (Cons x blocks)
  show ?case
    by (simp only: foldl.simps Cons.IH) (auto simp: own_blocks_def tally_step_def Let_def split: option.split)
qed (simp add: own_blocks_def)

lemma keys_of_sums: "k \<in> set (sorted_keys (map (key_of p) blocks)) \<longleftrightarrow> own_blocks p blocks k \<noteq> []"
  by (auto simp: sorted_keys_def own_blocks_def filter_empty_conv)

lemma blocked_sums_mem:
  assumes "s \<in> set (blocked_sums blocks active p)"
  obtains k t where "s = sum_of active k t" "own_blocks p blocks k \<noteq> []"
    "t = foldl tally_block no_tally (own_blocks p blocks k)"
  using assms that keys_of_sums by (auto simp: blocked_sums_def Let_def foldl_tally_step)

text \<open>a sum of blocked time says what the blocks of its account, process and period add up to: their
  seconds, how many they are, the runs and steps they held up, and their share of the active runs,
  which is positive and at most one; only a wait on a person that fewer than two persons answered
  says none of it.\<close>

theorem blocked_sum_is_exact:
  assumes "s \<in> set (blocked_sums blocks active p)" "list_all (\<lambda>x. bl_seconds (fst x) \<ge> 0) blocks"
  shows "blocked_sum_ok s
    \<and> (let own = own_blocks p blocks (bs_account s, bs_process s, bs_period s)
       in own \<noteq> []
        \<and> (bs_withheld s \<noteq> None) = (bs_account s = WAIT_HUMAN \<and> card (persons_of own) < 2)
        \<and> (bs_withheld s = None \<longrightarrow> bs_seconds s = Some (sum_list (map (bl_seconds \<circ> fst) own))
             \<and> bs_blocks s = Some (length own)
             \<and> bs_runs_held_up s = Some (card (set (map (bl_run_id \<circ> fst) own)))))"
proof -
  from blocked_sums_mem [OF assms(1)] obtain k t where s: "s = sum_of active k t"
    and own: "own_blocks p blocks k \<noteq> []" and t: "t = foldl tally_block no_tally (own_blocks p blocks k)" .
  obtain a process at_p where k: "k = (a, process, at_p)" by (cases k)
  have key: "(bs_account s, bs_process s, bs_period s) = k" by (simp add: s sum_of_def k Let_def)
  let ?own = "own_blocks p blocks k" and ?active = "set (active (process, at_p)) \<union> ty_runs t"
  have runs: "ty_runs t = set (map (bl_run_id \<circ> fst) ?own)" "ty_count t = length ?own"
    "ty_seconds t = sum_list (map (bl_seconds \<circ> fst) ?own)" "ty_persons t = persons_of ?own"
    "ty_steps t = set (map (\<lambda>x. (bl_run_id (fst x), bl_step_id (fst x))) ?own)"
    by (simp_all add: t foldl_tally_block no_tally_def)
  have held: "card (ty_runs t) \<ge> 1" "card (ty_steps t) \<ge> 1"
    using own by (auto simp: runs Suc_le_eq card_gt_0_iff)
  have active: "card (ty_runs t) \<le> card ?active" by (intro card_mono) (auto simp: runs)
  have "0 \<le> sum_list (map (bl_seconds \<circ> fst) ?own)"
    using assms(2) by (intro sum_list_nonneg) (auto simp: own_blocks_def list_all_iff)
  then have pos: "ty_seconds t \<ge> 0" by (simp add: runs)
  have count: "ty_count t \<ge> 1" using own by (simp add: runs Suc_le_eq)
  have share: "(0::rat) \<le> of_nat (card (ty_runs t)) / of_nat (card ?active)"
    "of_nat (card (ty_runs t)) / of_nat (card ?active) \<le> (1::rat)"
    using active held(1) by (simp_all add: divide_le_eq)
  have "blocked_sum_ok s"
    using held active pos count share by (auto simp: s sum_of_def k Let_def blocked_sum_ok_def WITHHELD_def)
  moreover have "(bs_withheld s \<noteq> None) = (a = WAIT_HUMAN \<and> card (persons_of ?own) < 2)"
    unfolding runs(4) [symmetric] by (simp add: s sum_of_def k Let_def PERSON_ACCOUNT_def MINIMUM_PERSONS_def)
  moreover have "bs_withheld s = None \<longrightarrow> bs_seconds s = Some (sum_list (map (bl_seconds \<circ> fst) ?own))
      \<and> bs_blocks s = Some (length ?own) \<and> bs_runs_held_up s = Some (card (set (map (bl_run_id \<circ> fst) ?own)))"
    by (simp add: s sum_of_def k Let_def runs)
  moreover have "bs_account s = a" using key k by simp
  ultimately show ?thesis unfolding key Let_def using own by blast
qed

text \<open>the protective rule: a figure of a wait on a person is shown only where at least two different
  persons answered such a wait of that process in that period.\<close>

theorem figures_need_two_persons:
  assumes "s \<in> set (blocked_sums blocks active p)" "bs_account s = WAIT_HUMAN"
    and "bs_seconds s \<noteq> None \<or> bs_blocks s \<noteq> None \<or> bs_runs_held_up s \<noteq> None
      \<or> bs_steps_held_up s \<noteq> None \<or> bs_share s \<noteq> None"
  shows "\<exists>b1 b2 p1 p2. p1 \<noteq> p2 \<and> (b1, Some p1) \<in> set blocks \<and> (b2, Some p2) \<in> set blocks
    \<and> key_of p (b1, Some p1) = (WAIT_HUMAN, bs_process s, bs_period s)
    \<and> key_of p (b2, Some p2) = (WAIT_HUMAN, bs_process s, bs_period s)"
proof -
  from blocked_sums_mem [OF assms(1)] obtain k t where s: "s = sum_of active k t"
    and t: "t = foldl tally_block no_tally (own_blocks p blocks k)" .
  obtain a process at_p where k: "k = (a, process, at_p)" by (cases k)
  have key: "bs_account s = a" "bs_process s = process" "bs_period s = at_p" by (simp_all add: s sum_of_def k Let_def)
  let ?own = "own_blocks p blocks k"
  have persons: "ty_persons t = persons_of ?own" by (simp add: t foldl_tally_block no_tally_def)
  have "card (persons_of ?own) \<ge> 2"
    using assms(2,3) key(1) by (auto simp: s sum_of_def k Let_def persons PERSON_ACCOUNT_def MINIMUM_PERSONS_def
        split: if_splits)
  then obtain p1 p2 where two: "p1 \<in> persons_of ?own" "p2 \<in> persons_of ?own" "p1 \<noteq> p2"
    by (auto simp: numeral_2_eq_2 card_le_Suc_iff)
  from two obtain b1 b2 where "(b1, Some p1) \<in> set ?own" "(b2, Some p2) \<in> set ?own"
    by (auto simp: persons_of_def)
  with two(3) assms(2) key show ?thesis
    unfolding own_blocks_def set_filter mem_Collect_eq k by metis
qed

subsection \<open>Two waits on a person\<close>

definition wait_block :: block where
  "wait_block = \<lparr>bl_account = WAIT_HUMAN, bl_cause = ''awaiting_confirmation'', bl_run_id = ''run-1'',
     bl_step_id = ''check'', bl_process_version = ''release@1.0.0'', bl_since = 0, bl_until = 60000000,
     bl_seconds = 60, bl_on = None, bl_role = None, bl_lacking = None\<rparr>"

definition two_waits :: "(block \<times> string option) list" where
  "two_waits = [(wait_block, Some ''ada''), (wait_block\<lparr>bl_run_id := ''run-2''\<rparr>, Some ''eve'')]"

lemma two_waits_sums: "blocked_sums two_waits (\<lambda>_. []) MONTH =
   [sum_of (\<lambda>_. []) (WAIT_HUMAN, ''release'', ''1970-01'') (foldl tally_block no_tally two_waits)]"
proof -
  have period: "period_of 60000000 MONTH = ''1970-01''" by code_simp
  have process: "process_of ''release@1.0.0'' = ''release''" by code_simp
  have key: "map (key_of MONTH) two_waits = [(WAIT_HUMAN, ''release'', ''1970-01''), (WAIT_HUMAN, ''release'', ''1970-01'')]"
    by (simp add: two_waits_def key_of_def wait_block_def block_process_def period process)
  then have own: "own_blocks MONTH two_waits (WAIT_HUMAN, ''release'', ''1970-01'') = two_waits"
    by (simp add: own_blocks_def two_waits_def)
  have "two_waits \<noteq> []" by (simp add: two_waits_def)
  then show ?thesis by (simp add: blocked_sums_def key sorted_keys_def foldl_tally_step own)
qed

definition waits_sum :: blocked_sum where
  "waits_sum = sum_of (\<lambda>_. []) (WAIT_HUMAN, ''release'', ''1970-01'') (foldl tally_block no_tally two_waits)"

lemma waits_sum_shown:
  "waits_sum \<in> set (blocked_sums two_waits (\<lambda>_. []) MONTH)" "bs_account waits_sum = WAIT_HUMAN"
  "bs_seconds waits_sum = Some 120"
proof -
  show "waits_sum \<in> set (blocked_sums two_waits (\<lambda>_. []) MONTH)" by (simp add: two_waits_sums waits_sum_def)
  have persons: "persons_of two_waits = {''ada'', ''eve''}" by (auto simp: persons_of_def two_waits_def)
  show "bs_account waits_sum = WAIT_HUMAN" "bs_seconds waits_sum = Some 120"
    by (simp_all add: waits_sum_def sum_of_def Let_def foldl_tally_block no_tally_def persons PERSON_ACCOUNT_def
        MINIMUM_PERSONS_def) (simp add: two_waits_def wait_block_def)
qed

theorem blocked_sum_is_exact_witness: "blocked_sum_ok waits_sum"
proof -
  have "list_all (\<lambda>x. bl_seconds (fst x) \<ge> 0) two_waits" by (simp add: two_waits_def wait_block_def)
  from blocked_sum_is_exact [OF waits_sum_shown(1) this] show ?thesis by blast
qed

theorem figures_need_two_persons_witness:
  "\<exists>b1 b2 p1 p2. p1 \<noteq> p2 \<and> (b1, Some p1) \<in> set two_waits \<and> (b2, Some p2) \<in> set two_waits"
  using figures_need_two_persons [OF waits_sum_shown(1,2)] waits_sum_shown(3) by blast

definition sample_wait :: open_block where
  "sample_wait = \<lparr>ob_account = WAIT_EXTERNAL, ob_cause = ''waiting_on_state'', ob_since = 0, ob_on = None,
     ob_role = None, ob_lacking = None, ob_retry_after = Some 5, ob_next_check_at = None, ob_takeover = None,
     ob_awaited = None\<rparr>"

theorem record_states_block_witness:
  "\<exists>b. parse_block (\<lambda>t. Some (if t = ''0'' then 0 else 2000000)) (\<lambda>t. Some 2)
     (blocked_record (\<lambda>t. if t = 0 then ''0'' else ''1'') (\<lambda>x. ''2.0'') sample_wait ''run-1'' ''check'' ''release@1.0.0''
        2000000 [(''adapter'', JStr ''ci'')]) = Some b \<and> bl_seconds b = 2 \<and> bl_account b = WAIT_EXTERNAL"
proof -
  have texts: "cause_text ''waiting_on_state''" "step_id_text ''check''" by code_simp+
  show ?thesis
    using record_states_block [of "\<lambda>t. Some (if t = ''0'' then 0 else 2000000)" "\<lambda>t. if t = 0 then ''0'' else ''1''" sample_wait
      2000000 "\<lambda>t. Some 2" "\<lambda>x. ''2.0''" "''run-1''" "''release@1.0.0''" "''check''" "[(''adapter'', JStr ''ci'')]"] texts
    by (simp add: sample_wait_def block_seconds_def)
qed

end
