(* ===== verification/Run_Admit.thy ===== *)
theory Run_Admit
  imports Run_Commit Run_Gates Run_Blocked Run_Admission
begin

text \<open>
  Blocks and admission in the engine (\<open>execute_run.py\<close>): \<open>_open_block\<close>, \<open>_close_block\<close>,
  \<open>_lacking\<close>, \<open>_lack_ends\<close>, \<open>_hold_back\<close>, \<open>_admit\<close>, \<open>_platform_refuses\<close> and
  \<open>_failed_before\<close>. The sentence a refusal is said in is a function of what it names; the span a
  step is traced in is left out, it decides nothing.
\<close>

definition of_run :: "run_error + 'a \<Rightarrow> 'a action" where
  "of_run x st = (case x of Inl e \<Rightarrow> (Inl (Run_Refused e), st) | Inr v \<Rightarrow> (Inr v, st))"

definition step_entry :: "string \<Rightarrow> step_run \<Rightarrow> string option \<Rightarrow> entry_args" where
  "step_entry kind s outcome = (entry_of_kind kind)\<lparr>ea_step := Some s, ea_outcome := outcome\<rparr>"

subsection \<open>Blocks\<close>

definition AT_CAPACITY :: string where "AT_CAPACITY = ''at_capacity''"
definition REJECTED_BY_CAPACITY :: string where "REJECTED_BY_CAPACITY = ''rejected_by_capacity''"
definition REJECTED_BY_ADMISSION :: string where "REJECTED_BY_ADMISSION = ''rejected_by_admission''"
definition HELD_BACK :: string where "HELD_BACK = ''held_back''"
definition LACK_ACCOUNT :: account where "LACK_ACCOUNT = WAIT_DEPENDENCY"
definition CAPACITY_ACCOUNT :: account where "CAPACITY_ACCOUNT = LIMIT_COMPUTE"

definition block_from :: "account \<Rightarrow> string \<Rightarrow> moment \<Rightarrow> open_block" where
  "block_from a c since = \<lparr>ob_account = a, ob_cause = c, ob_since = since, ob_on = None, ob_role = None,
     ob_lacking = None, ob_retry_after = None, ob_next_check_at = None, ob_takeover = None, ob_awaited = None\<rparr>"

text \<open>The block a step is in: a wait at capacity begun before a step run carried its block included.\<close>

definition block_in :: "step_run \<Rightarrow> open_block option" where
  "block_in s =
     (case sr_block s of
        Some b \<Rightarrow> Some b
      | None \<Rightarrow> map_option (block_from CAPACITY_ACCOUNT AT_CAPACITY) (sr_waiting_since s))"

definition unblocked :: "step_run \<Rightarrow> step_run" where
  "unblocked s = s\<lparr>sr_block := None, sr_waiting_since := None, sr_waits := 0\<rparr>"

definition close_block ::
  "engine_env \<Rightarrow> moment \<Rightarrow> (string \<times> json) list \<Rightarrow> run \<Rightarrow> step_run \<Rightarrow> (run \<times> step_run) action" where
  "close_block env now extra r s =
     (case block_in s of
        None \<Rightarrow> done_with (r, s)
      | Some b \<Rightarrow> (\<lambda>st.
          let document = blocked_record (ev_iso env) (ev_float env) b (run_id r) (sr_step_id s) (run_process_version r) now extra;
              (d, st1) = put_object (ev_codec env) (dumps_spaced (JObj document)) st
          in andThen
               (commit_run env now (with_step_run r (unblocked s))
                  (commit_of (Some ((step_entry WAITED (unblocked s) (Some (ob_cause b)))\<lparr>ea_digest := Some d\<rparr>))))
               (\<lambda>r'. done_with (r', unblocked s)) st1))"

definition open_block_step ::
  "engine_env \<Rightarrow> moment \<Rightarrow> open_block \<Rightarrow> run \<Rightarrow> step_run \<Rightarrow> (run \<times> step_run) action" where
  "open_block_step env now b r s =
     (case sr_block s of
        None \<Rightarrow> done_with (r, s\<lparr>sr_block := Some b\<rparr>)
      | Some x \<Rightarrow>
          if ob_cause x = ob_cause b \<and> ob_lacking x = ob_lacking b then done_with (r, s)
          else andThen (close_block env now [] r s) (\<lambda>(r', s'). done_with (r', s'\<lparr>sr_block := Some b\<rparr>)))"

definition lacking_step ::
  "engine_env \<Rightarrow> moment \<Rightarrow> (string \<times> string) option \<Rightarrow> run \<Rightarrow> step_run \<Rightarrow> (run \<times> step_run) action" where
  "lacking_step env now lack r s =
     (case lack of
        None \<Rightarrow> done_with (r, s)
      | Some (cause, lacking) \<Rightarrow>
          open_block_step env now ((block_from LACK_ACCOUNT cause now)\<lparr>ob_lacking := Some lacking\<rparr>) r s)"

definition lack_ends :: "engine_env \<Rightarrow> moment \<Rightarrow> run \<Rightarrow> step_run \<Rightarrow> (run \<times> step_run) action" where
  "lack_ends env now r s =
     (case sr_block s of
        Some b \<Rightarrow> if ob_cause b \<in> set LACKS then close_block env now [] r s else done_with (r, s)
      | None \<Rightarrow> done_with (r, s))"

text \<open>\<open>_hold_back\<close>: the steps behind one that waits, in execution order.\<close>

fun hold_from :: "moment \<Rightarrow> string \<Rightarrow> string set \<Rightarrow> step list \<Rightarrow> run \<Rightarrow> run_error + run" where
  "hold_from now waiting_on behind [] r = Inr r"
| "hold_from now waiting_on behind (st # sts) r =
     (if set (dependencies st) \<inter> behind = {} then hold_from now waiting_on behind sts r
      else case step_run_of r (s_id st) of
             Inl e \<Rightarrow> Inl e
           | Inr s \<Rightarrow> hold_from now waiting_on (insert (s_id st) behind) sts
               (if sr_state s = S_PLANNED \<and> sr_block s = None
                then with_step_run r (s\<lparr>sr_block := Some ((block_from WAIT_DEPENDENCY HELD_BACK now)\<lparr>ob_on := Some waiting_on\<rparr>)\<rparr>)
                else r))"

definition hold_back :: "moment \<Rightarrow> string \<Rightarrow> run \<Rightarrow> run_error + run" where
  "hold_back now waiting_on r = hold_from now waiting_on {waiting_on} (run_steps r) r"

subsection \<open>Admission\<close>

record step_demand =
  dm_quantities :: "quantities option"
  dm_why_not :: "no_estimate option"
  dm_adapter :: "string option"
  dm_capabilities :: "string list"

datatype refusal =
    Not_Estimated "no_estimate option"
  | Over_Platform "capacity_finding list"
  | Over_Budget "admission_finding list"

text \<open>What the engine is configured to admit by, and what it observed: the pairs the calibration reads
  and the platform.\<close>

record admission_options =
  op_prices :: "price_table option"
  op_seeds :: "seed list"
  op_uncalibrated_margin :: rat
  op_capacity :: capacity_rules
  op_unit_memory :: "int option"
  op_observed :: "observation list"
  op_platform :: "observation_of_platform option"
  op_words :: "refusal \<Rightarrow> string"

definition or_else :: "string option \<Rightarrow> string option \<Rightarrow> string option" where
  "or_else a b = (case a of None \<Rightarrow> b | Some x \<Rightarrow> if x = [] then b else Some x)"

definition step_key :: "string \<Rightarrow> string \<Rightarrow> string" where
  "step_key version sid = process_of version @ ''/'' @ sid"

definition platform_refuses :: "admission_options \<Rightarrow> capacity_finding list option" where
  "platform_refuses op =
     (case op_platform op of
        None \<Rightarrow> None
      | Some observed \<Rightarrow>
          let v = admit_capacity observed \<lparr>cd_memory_bytes = op_unit_memory op\<rparr> (op_capacity op)
          in if cy_fits v then None else Some (cy_findings v))"

definition step_scale :: "admission_options \<Rightarrow> run \<Rightarrow> step \<Rightarrow> step_demand \<Rightarrow> string option \<Rightarrow> quantities \<Rightarrow> scale" where
  "step_scale op r st d adapter q =
     (case adapter of
        None \<Rightarrow> Map.empty
      | Some a \<Rightarrow> fst (scale_for a (s_method st) (set (dm_capabilities d)) (op_observed op) (op_seeds op)
          (op_uncalibrated_margin op) (models_of q) MARGIN_FLOOR (Some (step_key (run_process_version r) (s_id st)))))"

text \<open>What is reserved for a demand, whether it was capped, and the verdict on it.\<close>

record step_reserving =
  rv_reservation :: quantities
  rv_capped :: bool
  rv_verdict :: admission

definition reserve_step ::
  "admission_options \<Rightarrow> run \<Rightarrow> step \<Rightarrow> step_run \<Rightarrow> step_demand \<Rightarrow> string option \<Rightarrow> quantities \<Rightarrow> step_reserving" where
  "reserve_step op r st s d adapter q =
     (let scaled = reserve q (step_scale op r st d adapter q);
          line = held_line (run_budget r) (run_margin r);
          left = remaining line (spent (op_prices op) (released r (sr_step_id s)));
          verdict = admit (priced_quantities (op_prices op) r scaled) left line;
          cap = (\<not> ad_fits verdict \<and> s_method st = WORKER
                   \<and> ad_fits (admit (priced_quantities (op_prices op) r q) left line));
          reservation = (if cap then capped scaled left else scaled)
      in \<lparr>rv_reservation = reservation, rv_capped = cap,
          rv_verdict = (if cap then admit (priced_quantities (op_prices op) r reservation) left line else verdict)\<rparr>)"

definition reject_step ::
  "engine_env \<Rightarrow> moment \<Rightarrow> (step_run \<Rightarrow> step_run) \<Rightarrow> string \<Rightarrow> run \<Rightarrow> step_run \<Rightarrow> (run \<times> step_run \<times> bool) action" where
  "reject_step env now f outcome r s =
     andThen (of_run (step_to s S_REJECTED f)) (\<lambda>s'.
     andThen (commit_run env now (with_step_run r s') (commit_of (Some (step_entry ''step.rejected'' s' (Some outcome)))))
       (\<lambda>r'. done_with (r', s', False)))"

definition take_step ::
  "engine_env \<Rightarrow> moment \<Rightarrow> (step_run \<Rightarrow> step_run) \<Rightarrow> bool \<Rightarrow> quantities \<Rightarrow> step_reserving \<Rightarrow> run \<Rightarrow> step_run \<Rightarrow>
   (run \<times> step_run \<times> bool) action" where
  "take_step env now f retried q rv r s =
     andThen (of_run (step_to s S_ADMITTED f)) (\<lambda>s'.
     andThen (commit_run env now (with_step_run r s')
                ((commit_of (Some (step_entry ''step.admitted'' s' None)))
                   \<lparr>ca_before := (if retried then [step_entry RETRIED s' (Some ''after_failure'')] else [])\<rparr>)) (\<lambda>r'.
     andThen (if rv_reservation rv \<noteq> q
              then commit_run env now r' (commit_of (Some (step_entry ''step.reserved'' s'
                     (Some (if rv_capped rv then ''capped'' else ''calibrated'')))))
              else done_with r')
       (\<lambda>r''. done_with (r'', s', True))))"

definition admit_step ::
  "engine_env \<Rightarrow> admission_options \<Rightarrow> moment \<Rightarrow> run \<Rightarrow> step \<Rightarrow> step_run \<Rightarrow> step_demand \<Rightarrow> (step_run \<Rightarrow> step_run) \<Rightarrow>
   (run \<times> step_run \<times> bool) action" where
  "admit_step env op now r st s demand changes =
     (let retried = (sr_state s = S_FAILED);
          adapter = or_else (dm_adapter demand) (sr_adapter s);
          d = (case Option.bind (dm_quantities demand) (unpriced_step (op_prices op) r) of
                 None \<Rightarrow> demand
               | Some w \<Rightarrow> demand\<lparr>dm_quantities := None, dm_why_not := Some (No_Money w)\<rparr>)
      in case dm_quantities d of
           None \<Rightarrow>
             reject_step env now
               (\<lambda>x. changes (x\<lparr>sr_adapter := adapter, sr_estimate := None, sr_reservation := None,
                  sr_reason := Some (op_words op (Not_Estimated (dm_why_not d)))\<rparr>)) ''no_estimate'' r s
         | Some q \<Rightarrow>
             let rv = reserve_step op r st s d adapter q;
                 refused = (if s_method st = WORKER \<and> ad_fits (rv_verdict rv) then platform_refuses op else None);
                 carry = (\<lambda>reason x. changes (x\<lparr>sr_adapter := adapter, sr_estimate := Some q,
                    sr_reservation := Some (rv_reservation rv), sr_reason := reason\<rparr>))
             in case refused of
                  Some short \<Rightarrow>
                    andThen (open_block_step env now (block_from LIMIT_COMPUTE REJECTED_BY_CAPACITY now) r s) (\<lambda>(r', s').
                      reject_step env now (carry (Some (op_words op (Over_Platform short)))) REJECTED_BY_CAPACITY r' s')
                | None \<Rightarrow>
                    if \<not> ad_fits (rv_verdict rv) then
                      andThen (open_block_step env now
                                 (block_from (limit_account (ad_kinds (rv_verdict rv))) REJECTED_BY_ADMISSION now) r s) (\<lambda>(r', s').
                        reject_step env now (carry (Some (op_words op (Over_Budget (ad_findings (rv_verdict rv))))))
                          REJECTED_BY_ADMISSION r' s')
                    else
                      andThen (case sr_block s of
                                 Some b \<Rightarrow> if ob_cause b \<in> set CLOSED_BY_ADMISSION then close_block env now [] r s
                                           else done_with (r, s)
                               | None \<Rightarrow> done_with (r, s)) (\<lambda>(r', s').
                        take_step env now (carry None) retried q rv r' s'))"

text \<open>\<open>_failed_before\<close>: a step that failed while it was being estimated.\<close>

definition failed_before ::
  "engine_env \<Rightarrow> moment \<Rightarrow> string \<Rightarrow> string option \<Rightarrow> bool option \<Rightarrow> (string \<times> string) option \<Rightarrow> run \<Rightarrow> step_run \<Rightarrow>
   (run \<times> step_run) action" where
  "failed_before env now reason adapter retryable lack r s =
     andThen (lacking_step env now lack r s) (\<lambda>(r', s').
     andThen (of_run (step_to s' S_FAILED (\<lambda>x. x\<lparr>sr_adapter := adapter, sr_reason := Some reason,
                sr_retryable := retryable, sr_finished_at := Some now\<rparr>))) (\<lambda>s''.
     andThen (commit_run env now (with_step_run r' s'') (commit_of (Some (step_entry FINISHED s'' (Some ''failed'')))))
       (\<lambda>r''. done_with (r'', s''))))"

end
