(* ===== verification/Run_Admit_Rules.thy ===== *)
theory Run_Admit_Rules
  imports Run_Admit Run_Commit_Rules Run_Money
begin

text \<open>
  What the engine's admission promises: an admitted step carries a reservation that the line of its
  run holds beside everything counted already, a refused step is rejected and blocked with its
  account, and the ledger says which of the two it was, for which step, in which order. A step that
  waits holds back exactly the steps that depend on it.
\<close>

subsection \<open>What a commit of one step entry writes\<close>

type_synonym signature = "string \<times> string option \<times> string option"

definition entry_signature :: "ledger_entry \<Rightarrow> signature" where
  "entry_signature e = (f_kind e, r_step_id (f_refs e), f_outcome e)"

definition wrote :: "codec \<Rightarrow> engine \<Rightarrow> engine \<Rightarrow> signature list \<Rightarrow> bool" where
  "wrote cd st st' sigs \<longleftrightarrow> engine_ok cd st'
     \<and> (\<exists>new. ls_entries (en_ledger st') = ls_entries (en_ledger st) @ new \<and> map entry_signature new = sigs)"

lemma wrote_none: "engine_ok cd st \<Longrightarrow> wrote cd st st []"
  by (simp add: wrote_def)

lemma wrote_trans: "wrote cd a b xs \<Longrightarrow> wrote cd b c ys \<Longrightarrow> wrote cd a c (xs @ ys)"
  unfolding wrote_def by (elim conjE exE) (intro conjI exI, auto)

lemma wrote_ok: "wrote cd a b xs \<Longrightarrow> engine_ok cd b"
  by (simp add: wrote_def)

lemma signature_of_fact: "fact.truncate e = f \<Longrightarrow> entry_signature e = (f_kind f, r_step_id (f_refs f), f_outcome f)"
  by (auto simp: entry_signature_def fact.defs)

lemma signature_step_entry:
  "fact.truncate e = entry_fact env r (step_entry k s out) \<Longrightarrow> entry_signature e = (k, Some (sr_step_id s), out)"
  by (drule signature_of_fact) (simp add: step_entry_def entry_of_kind_def entry_fact_def entry_refs_def)

text \<open>A commit of one entry of a step, after the entries it is given to write first.\<close>

lemma commit_step_writes:
  assumes "commit_run env now r ((commit_of (Some a))\<lparr>ca_before := before\<rparr>) st = (Inr r', st')"
    and "engine_ok (ev_codec env) st" "list_all (\<lambda>a. ea_kind a \<noteq> ANCHORED) (before @ [a])"
    and "\<And>e r. fact.truncate e = entry_fact env r (own_entry a) \<Longrightarrow> entry_signature e = sig"
    and "\<And>e r. map fact.truncate e = map (entry_fact env r) before \<Longrightarrow> map entry_signature e = sigs"
  shows "r' = r\<lparr>run_updated_at := now\<rparr> \<and> en_runs st' (run_id r) = Some r' \<and> wrote (ev_codec env) st st' (sigs @ [sig])"
proof -
  let ?ca = "(commit_of (Some a))\<lparr>ca_before := before\<rparr>"
  have na: "not_anchors ?ca" using assms(3) by (simp add: not_anchors_def commit_of_def)
  note facts = commit_run_Inr [OF assms(1,2) na]
  have all: "commit_entries env now r' ?ca = before @ [own_entry a]"
    by (simp add: commit_entries_def commit_of_def beside_def trace_entries_def split: option.split)
  from facts(6) obtain new where new: "ls_entries (en_ledger st') = ls_entries (en_ledger st) @ new"
    "map fact.truncate new = map (entry_fact env r') (before @ [own_entry a])" unfolding all by blast
  from new(2) obtain es e where split: "new = es @ [e]" "map fact.truncate es = map (entry_fact env r') before"
    "fact.truncate e = entry_fact env r' (own_entry a)"
    by (auto simp: map_eq_append_conv append_eq_map_conv map_eq_Cons_conv)
  then have "map entry_signature new = sigs @ [sig]" using assms(4,5) by simp
  with new(1) facts(1) facts(2) facts(5) show ?thesis by (auto simp: wrote_def)
qed

lemma own_step_entry: "own_entry (step_entry k s out) = step_entry k s out"
  "own_entry ((step_entry k s out)\<lparr>ea_digest := d\<rparr>) = (step_entry k s out)\<lparr>ea_digest := d\<rparr>"
  by (simp_all add: own_entry_def step_entry_def entry_of_kind_def)

lemma signature_step_entry_digest:
  "fact.truncate e = entry_fact env r ((step_entry k s out)\<lparr>ea_digest := d\<rparr>) \<Longrightarrow>
     entry_signature e = (k, Some (sr_step_id s), out)"
  by (drule signature_of_fact) (simp add: step_entry_def entry_of_kind_def entry_fact_def entry_refs_def)

lemma step_entry_kind [simp]: "ea_kind (step_entry k s out) = k"
  by (simp add: step_entry_def entry_of_kind_def)

lemma commit_one_step:
  assumes "commit_run env now r (commit_of (Some (step_entry k s out))) st = (Inr r', st')"
    and "engine_ok (ev_codec env) st" "k \<noteq> ANCHORED"
  shows "r' = r\<lparr>run_updated_at := now\<rparr> \<and> en_runs st' (run_id r) = Some r'
    \<and> wrote (ev_codec env) st st' [(k, Some (sr_step_id s), out)]"
proof -
  have run: "commit_run env now r ((commit_of (Some (step_entry k s out)))\<lparr>ca_before := []\<rparr>) st = (Inr r', st')"
    using assms(1) by (simp add: commit_of_def)
  have sig: "entry_signature e = (k, Some (sr_step_id s), out)"
    if "fact.truncate e = entry_fact env r0 (own_entry (step_entry k s out))" for e r0
    using that unfolding own_step_entry by (rule signature_step_entry)
  have "r' = r\<lparr>run_updated_at := now\<rparr> \<and> en_runs st' (run_id r) = Some r'
    \<and> wrote (ev_codec env) st st' ([] @ [(k, Some (sr_step_id s), out)])"
    by (rule commit_step_writes [OF run assms(2) _ sig]) (use assms(3) in simp_all)
  then show ?thesis by simp
qed

subsection \<open>Blocks\<close>

text \<open>What of a step run no block changes.\<close>

definition same_step :: "step_run \<Rightarrow> step_run \<Rightarrow> bool" where
  "same_step s s' \<longleftrightarrow> sr_step_id s' = sr_step_id s \<and> sr_state s' = sr_state s \<and> sr_method s' = sr_method s
     \<and> sr_adapter s' = sr_adapter s"

definition same_run :: "run \<Rightarrow> run \<Rightarrow> bool" where
  "same_run r r' \<longleftrightarrow> run_id r' = run_id r \<and> map sr_step_id (run_step_runs r') = map sr_step_id (run_step_runs r)"

lemma same_run_with [simp]: "same_run r (with_step_run r s)"
  by (simp add: same_run_def with_step_run_def)

lemma same_run_updated [simp]: "same_run r (r'\<lparr>run_updated_at := now\<rparr>) = same_run r r'"
  by (simp add: same_run_def)

lemma same_run_refl [simp]: "same_run r r"
  by (simp add: same_run_def)

lemma same_run_trans: "same_run a b \<Longrightarrow> same_run b c \<Longrightarrow> same_run a c"
  by (simp add: same_run_def)

lemma put_object_ok: "put_object cd b st = (d, st1) \<Longrightarrow> engine_ok cd st1 = engine_ok cd st \<and> en_ledger st1 = en_ledger st"
  by (auto simp: put_object_def Let_def engine_ok_def)

lemma WAITED_not_anchored [simp]: "WAITED \<noteq> ANCHORED"
  by (simp add: WAITED_def ANCHORED_def)

lemma close_block_writes:
  assumes "close_block env now extra r s st = (Inr (r', s'), st')" "engine_ok (ev_codec env) st"
  shows "same_step s s' \<and> same_run r r' \<and> (\<exists>es. wrote (ev_codec env) st st' es
    \<and> es = (case block_in s of None \<Rightarrow> [] | Some b \<Rightarrow> [(WAITED, Some (sr_step_id s), Some (ob_cause b))]))"
proof (cases "block_in s")
  case None
  then show ?thesis using assms by (auto simp: close_block_def done_with_def same_step_def wrote_none)
next
  case (Some b)
  obtain d st1 where put: "put_object (ev_codec env)
      (dumps_spaced (JObj (blocked_record (ev_iso env) (ev_float env) b (run_id r) (sr_step_id s) (run_process_version r) now extra)))
      st = (d, st1)" by (rule prod.exhaust)
  let ?a = "(step_entry WAITED (unblocked s) (Some (ob_cause b)))\<lparr>ea_digest := Some d\<rparr>"
  have ok1: "engine_ok (ev_codec env) st1" "en_ledger st1 = en_ledger st" using put_object_ok [OF put] assms(2) by simp_all
  from assms(1) put Some obtain run: "commit_run env now (with_step_run r (unblocked s)) (commit_of (Some ?a)) st1 = (Inr r', st')"
      and s': "s' = unblocked s"
    by (auto simp: close_block_def Let_def andThen_def done_with_def split: prod.splits sum.splits)
  have run: "commit_run env now (with_step_run r (unblocked s)) ((commit_of (Some ?a))\<lparr>ca_before := []\<rparr>) st1 = (Inr r', st')"
    using run by (simp add: commit_of_def)
  have sig: "entry_signature e = (WAITED, Some (sr_step_id s), Some (ob_cause b))"
    if "fact.truncate e = entry_fact env r0 (own_entry ?a)" for e r0
    using signature_step_entry_digest [OF that [unfolded own_step_entry]] by (simp add: unblocked_def)
  have wrote: "r' = (with_step_run r (unblocked s))\<lparr>run_updated_at := now\<rparr>
      \<and> en_runs st' (run_id (with_step_run r (unblocked s))) = Some r'
      \<and> wrote (ev_codec env) st1 st' ([] @ [(WAITED, Some (sr_step_id s), Some (ob_cause b))])"
    by (rule commit_step_writes [OF run ok1(1) _ sig]) simp_all
  then have "same_run r r'" by simp
  moreover from wrote have "wrote (ev_codec env) st st' [(WAITED, Some (sr_step_id s), Some (ob_cause b))]"
    by (simp add: wrote_def ok1(2))
  moreover have "same_step s s'" by (simp add: s' same_step_def unblocked_def)
  ultimately show ?thesis using Some by simp
qed

definition waited_of :: "step_run \<Rightarrow> signature list" where
  "waited_of s = (case sr_block s of None \<Rightarrow> [] | Some b \<Rightarrow> [(WAITED, Some (sr_step_id s), Some (ob_cause b))])"

lemma open_block_writes:
  assumes "open_block_step env now b r s st = (Inr (r', s'), st')" "engine_ok (ev_codec env) st"
  shows "same_step s s' \<and> same_run r r' \<and> (\<exists>b'. sr_block s' = Some b' \<and> ob_cause b' = ob_cause b \<and> ob_lacking b' = ob_lacking b)
    \<and> (\<exists>es. wrote (ev_codec env) st st' es \<and> (es = [] \<or> es = waited_of s))"
proof (cases "sr_block s")
  case None
  with assms have "r' = r" "st' = st" "s' = s\<lparr>sr_block := Some b\<rparr>" by (simp_all add: open_block_step_def done_with_def)
  moreover have "wrote (ev_codec env) st st []" by (rule wrote_none [OF assms(2)])
  ultimately show ?thesis by (auto simp: same_step_def)
next
  case (Some x)
  show ?thesis
  proof (cases "ob_cause x = ob_cause b \<and> ob_lacking x = ob_lacking b")
    case True
    with assms Some have "r' = r" "st' = st" "s' = s" by (simp_all add: open_block_step_def done_with_def)
    moreover have "wrote (ev_codec env) st st []" by (rule wrote_none [OF assms(2)])
    ultimately show ?thesis using Some True by (auto simp: same_step_def)
  next
    case False
    obtain y st1 where close: "close_block env now [] r s st = (y, st1)" by (rule prod.exhaust)
    with assms(1) Some False obtain s1 where y: "y = Inr (r', s1)" "s' = s1\<lparr>sr_block := Some b\<rparr>" "st' = st1"
      by (cases y) (auto simp: open_block_step_def andThen_def done_with_def)
    from close_block_writes [OF close [unfolded y(1)] assms(2)] Some y(2,3) show ?thesis
      by (auto simp: same_step_def waited_of_def block_in_def)
  qed
qed

subsection \<open>Taken and refused\<close>

text \<open>What the caller changes beside: never what admission itself sets.\<close>

definition keeps_admission :: "(step_run \<Rightarrow> step_run) \<Rightarrow> bool" where
  "keeps_admission f \<longleftrightarrow> (\<forall>x. sr_state (f x) = sr_state x \<and> sr_step_id (f x) = sr_step_id x
     \<and> sr_reservation (f x) = sr_reservation x \<and> sr_estimate (f x) = sr_estimate x \<and> sr_block (f x) = sr_block x)"

definition stored_with :: "engine \<Rightarrow> run \<Rightarrow> run \<Rightarrow> step_run \<Rightarrow> bool" where
  "stored_with st r r' s \<longleftrightarrow> en_runs st (run_id r) = Some r'
     \<and> (sr_step_id s \<in> sr_step_id ` set (run_step_runs r) \<longrightarrow> s \<in> set (run_step_runs r'))"

lemma stored_with_step:
  "en_runs st (run_id r) = Some r' \<Longrightarrow> run_step_runs r' = run_step_runs (with_step_run r s) \<Longrightarrow> stored_with st r r' s"
  by (auto simp: stored_with_def with_step_run_def image_iff)

lemma stored_with_same: "same_run r0 r \<Longrightarrow> stored_with st r r' s \<Longrightarrow> stored_with st r0 r' s"
  by (simp add: stored_with_def same_run_def flip: set_map)

lemma run_id_with [simp]: "run_id (with_step_run r s) = run_id r"
  by (simp add: with_step_run_def)

definition retried_of :: "bool \<Rightarrow> step_run \<Rightarrow> signature list" where
  "retried_of retried s = (if retried then [(RETRIED, Some (sr_step_id s), Some ''after_failure'')] else [])"

definition reserved_of :: "bool \<Rightarrow> bool \<Rightarrow> step_run \<Rightarrow> signature list" where
  "reserved_of other cap s =
     (if other then [(''step.reserved'', Some (sr_step_id s), Some (if cap then ''capped'' else ''calibrated''))] else [])"

lemma kinds_not_anchored [simp]: "''step.admitted'' \<noteq> ANCHORED" "''step.reserved'' \<noteq> ANCHORED"
  "''step.rejected'' \<noteq> ANCHORED" "''step.finished'' \<noteq> ANCHORED" "RETRIED \<noteq> ANCHORED" "FINISHED \<noteq> ANCHORED"
  by (simp_all add: ANCHORED_def RETRIED_def FINISHED_def)

lemma reject_step_writes:
  assumes "reject_step env now f out r s st = (Inr (r', s', ok), st')" "engine_ok (ev_codec env) st"
  shows "\<not> ok \<and> s' = f (s\<lparr>sr_state := S_REJECTED\<rparr>) \<and> stored_with st' r r' s'
    \<and> wrote (ev_codec env) st st' [(''step.rejected'', Some (sr_step_id s'), Some out)]"
proof -
  obtain s1 where to: "step_to s S_REJECTED f = Inr s1"
    using assms(1) by (cases "step_to s S_REJECTED f") (simp_all add: reject_step_def andThen_def of_run_def)
  obtain x st1 where run: "commit_run env now (with_step_run r s1) (commit_of (Some (step_entry ''step.rejected'' s1 (Some out)))) st
      = (x, st1)" by (rule prod.exhaust)
  with assms(1) to obtain r1 where x: "x = Inr r1" and eqs: "r' = r1" "s' = s1" "\<not> ok" "st' = st1"
    by (cases x) (simp_all add: reject_step_def andThen_def of_run_def done_with_def)
  from commit_one_step [OF run [unfolded x] assms(2)] have facts: "r1 = (with_step_run r s1)\<lparr>run_updated_at := now\<rparr>"
    "en_runs st1 (run_id r) = Some r1"
    "wrote (ev_codec env) st st1 [(''step.rejected'', Some (sr_step_id s1), Some out)]" by simp_all
  have "stored_with st1 r r1 s1" by (rule stored_with_step [OF facts(2)]) (simp add: facts(1))
  moreover have "s1 = f (s\<lparr>sr_state := S_REJECTED\<rparr>)" using to by (simp add: step_to_def split: if_splits)
  ultimately show ?thesis using facts(3) eqs by simp
qed

lemma take_step_writes:
  assumes "take_step env now f retried q rv r s st = (Inr (r', s', ok), st')" "engine_ok (ev_codec env) st"
  shows "ok \<and> s' = f (s\<lparr>sr_state := S_ADMITTED\<rparr>) \<and> stored_with st' r r' s'
    \<and> wrote (ev_codec env) st st' (retried_of retried s' @ [(''step.admitted'', Some (sr_step_id s'), None)]
         @ reserved_of (rv_reservation rv \<noteq> q) (rv_capped rv) s')"
proof -
  obtain s1 where to: "step_to s S_ADMITTED f = Inr s1"
    using assms(1) by (cases "step_to s S_ADMITTED f") (simp_all add: take_step_def andThen_def of_run_def)
  let ?before = "if retried then [step_entry RETRIED s1 (Some ''after_failure'')] else []"
  let ?a = "step_entry ''step.admitted'' s1 None"
  obtain x st1 where run: "commit_run env now (with_step_run r s1) ((commit_of (Some ?a))\<lparr>ca_before := ?before\<rparr>) st = (x, st1)"
    by (rule prod.exhaust)
  with assms(1) to obtain r1 where x: "x = Inr r1" by (cases x) (simp_all add: take_step_def andThen_def of_run_def)
  have sig: "entry_signature e = (''step.admitted'', Some (sr_step_id s1), None)"
    if "fact.truncate e = entry_fact env r0 (own_entry ?a)" for e r0
    using that unfolding own_step_entry by (rule signature_step_entry)
  have sigs: "map entry_signature es = retried_of retried s1" if "map fact.truncate es = map (entry_fact env r0) ?before" for es r0
    using that by (cases retried) (auto simp: retried_of_def map_eq_Cons_conv intro: signature_step_entry)
  have first: "r1 = (with_step_run r s1)\<lparr>run_updated_at := now\<rparr> \<and> en_runs st1 (run_id (with_step_run r s1)) = Some r1
      \<and> wrote (ev_codec env) st st1 (retried_of retried s1 @ [(''step.admitted'', Some (sr_step_id s1), None)])"
    by (rule commit_step_writes [OF run [unfolded x] assms(2)]) (simp, erule sig, erule sigs)
  have s1: "s1 = f (s\<lparr>sr_state := S_ADMITTED\<rparr>)" using to by (simp add: step_to_def split: if_splits)
  show ?thesis
  proof (cases "rv_reservation rv = q")
    case True
    with assms(1) to run x have eqs: "r' = r1" "s' = s1" "ok" "st' = st1"
      by (simp_all add: take_step_def andThen_def of_run_def done_with_def)
    have "stored_with st1 r r1 s1" by (rule stored_with_step) (use first in simp_all)
    with first s1 eqs True show ?thesis by (simp add: reserved_of_def)
  next
    case False
    let ?o = "Some (if rv_capped rv then ''capped'' else ''calibrated'')"
    obtain y st2 where two: "commit_run env now r1 (commit_of (Some (step_entry ''step.reserved'' s1 ?o))) st1 = (y, st2)"
      by (rule prod.exhaust)
    with assms(1) to run x False obtain r2 where y: "y = Inr r2" and eqs: "r' = r2" "s' = s1" "ok" "st' = st2"
      by (cases y) (simp_all add: take_step_def andThen_def of_run_def done_with_def)
    have ok1: "engine_ok (ev_codec env) st1" using first wrote_ok by blast
    from commit_one_step [OF two [unfolded y] ok1] have second: "r2 = r1\<lparr>run_updated_at := now\<rparr>"
      "en_runs st2 (run_id r1) = Some r2" "wrote (ev_codec env) st1 st2 [(''step.reserved'', Some (sr_step_id s1), ?o)]" by simp_all
    have "stored_with st2 r r2 s1" by (rule stored_with_step) (use first second in simp_all)
    moreover from first have "wrote (ev_codec env) st st1 (retried_of retried s1 @ [(''step.admitted'', Some (sr_step_id s1), None)])" by simp
    from wrote_trans [OF this second(3)] have "wrote (ev_codec env) st st2 (retried_of retried s1
        @ [(''step.admitted'', Some (sr_step_id s1), None)] @ reserved_of True (rv_capped rv) s1)"
      by (simp add: reserved_of_def)
    ultimately show ?thesis using s1 eqs False by simp
  qed
qed

subsection \<open>Admission\<close>

text \<open>What is reserved fits the line when the verdict says so, with the capped reservation in its place.\<close>

lemma reserve_step_fits:
  "ad_fits (rv_verdict (reserve_step op r st s d adapter q)) \<longleftrightarrow>
     fits_line (priced_quantities (op_prices op) r (rv_reservation (reserve_step op r st s d adapter q)))
       (spent (op_prices op) (released r (sr_step_id s))) (held_line (run_budget r) (run_margin r))"
  by (simp add: reserve_step_def Let_def admit_exact)

definition adapter_for :: "step_demand \<Rightarrow> step_run \<Rightarrow> string option" where
  "adapter_for d s = or_else (dm_adapter d) (sr_adapter s)"

definition reserved_for :: "admission_options \<Rightarrow> run \<Rightarrow> step \<Rightarrow> step_run \<Rightarrow> step_demand \<Rightarrow> quantities \<Rightarrow> step_reserving" where
  "reserved_for op r st s d q = reserve_step op r st s d (adapter_for d s) q"

definition carried ::
  "(step_run \<Rightarrow> step_run) \<Rightarrow> string option \<Rightarrow> quantities option \<Rightarrow> quantities option \<Rightarrow> string option \<Rightarrow> step_run \<Rightarrow> step_run" where
  "carried changes adapter estimate reservation reason x =
     changes (x\<lparr>sr_adapter := adapter, sr_estimate := estimate, sr_reservation := reservation, sr_reason := reason\<rparr>)"

lemma carried_sel:
  assumes "keeps_admission changes"
  shows "sr_state (carried changes a e v w x) = sr_state x" "sr_step_id (carried changes a e v w x) = sr_step_id x"
    "sr_estimate (carried changes a e v w x) = e" "sr_reservation (carried changes a e v w x) = v"
    "sr_block (carried changes a e v w x) = sr_block x"
  using assms by (simp_all add: keeps_admission_def carried_def)

text \<open>The three ways a demand ends.\<close>

definition known_demand :: "admission_options \<Rightarrow> run \<Rightarrow> step_demand \<Rightarrow> quantities option" where
  "known_demand op r d =
     (case dm_quantities d of None \<Rightarrow> None | Some q \<Rightarrow> if unpriced_step (op_prices op) r q = None then Some q else None)"

definition held_by_platform :: "admission_options \<Rightarrow> step \<Rightarrow> step_reserving \<Rightarrow> capacity_finding list option" where
  "held_by_platform op st rv = (if s_method st = WORKER \<and> ad_fits (rv_verdict rv) then platform_refuses op else None)"

lemma admit_step_unknown:
  assumes "known_demand op r d = None"
  shows "\<exists>w. admit_step env op now r st s d changes
    = reject_step env now (carried changes (adapter_for d s) None None (Some w)) ''no_estimate'' r s"
proof (cases "dm_quantities d")
  case None
  then show ?thesis by (auto simp: admit_step_def Let_def carried_def [abs_def] adapter_for_def)
next
  case (Some q)
  with assms obtain w where "unpriced_step (op_prices op) r q = Some w" by (auto simp: known_demand_def split: if_splits)
  with Some show ?thesis by (auto simp: admit_step_def Let_def carried_def [abs_def] adapter_for_def)
qed

lemma admit_step_known:
  assumes "known_demand op r d = Some q"
  shows "admit_step env op now r st s d changes =
    (let rv = reserved_for op r st s d q;
         carry = carried changes (adapter_for d s) (Some q) (Some (rv_reservation rv))
     in case held_by_platform op st rv of
          Some short \<Rightarrow>
            andThen (open_block_step env now (block_from LIMIT_COMPUTE REJECTED_BY_CAPACITY now) r s) (\<lambda>(r', s').
              reject_step env now (carry (Some (op_words op (Over_Platform short)))) REJECTED_BY_CAPACITY r' s')
        | None \<Rightarrow>
            if \<not> ad_fits (rv_verdict rv) then
              andThen (open_block_step env now
                         (block_from (limit_account (ad_kinds (rv_verdict rv))) REJECTED_BY_ADMISSION now) r s) (\<lambda>(r', s').
                reject_step env now (carry (Some (op_words op (Over_Budget (ad_findings (rv_verdict rv))))))
                  REJECTED_BY_ADMISSION r' s')
            else
              andThen (case sr_block s of
                         Some b \<Rightarrow> if ob_cause b \<in> set CLOSED_BY_ADMISSION then close_block env now [] r s
                                   else done_with (r, s)
                       | None \<Rightarrow> done_with (r, s)) (\<lambda>(r', s').
                take_step env now (carry None) (sr_state s = S_FAILED) q rv r' s'))"
proof -
  from assms have q: "dm_quantities d = Some q" "unpriced_step (op_prices op) r q = None"
    by (auto simp: known_demand_def split: option.splits if_splits)
  then show ?thesis
    by (simp add: admit_step_def Let_def q reserved_for_def adapter_for_def held_by_platform_def carried_def [abs_def]
        split: option.split)
qed

lemma andThen_Inr:
  "andThen a f st = (Inr y, st') \<longleftrightarrow> (\<exists>x st1. a st = (Inr x, st1) \<and> f x st1 = (Inr y, st'))"
  by (auto simp: andThen_def split: prod.splits sum.splits)

text \<open>The step's block, when it is one that admission closes, ends before the step is taken.\<close>

lemma closed_by_admission:
  assumes "(case sr_block s of Some b \<Rightarrow> if ob_cause b \<in> set CLOSED_BY_ADMISSION then close_block env now [] r s else done_with (r, s)
      | None \<Rightarrow> done_with (r, s)) st = (Inr (r', s'), st')" and "engine_ok (ev_codec env) st"
  shows "same_step s s' \<and> same_run r r' \<and> (\<exists>es. wrote (ev_codec env) st st' es \<and> (es = [] \<or> es = waited_of s))"
proof (cases "\<exists>b. sr_block s = Some b \<and> ob_cause b \<in> set CLOSED_BY_ADMISSION")
  case True
  then obtain b where b: "sr_block s = Some b" "ob_cause b \<in> set CLOSED_BY_ADMISSION" by blast
  with assms(1) have "close_block env now [] r s st = (Inr (r', s'), st')" by simp
  from close_block_writes [OF this assms(2)] b show ?thesis by (auto simp: block_in_def waited_of_def)
next
  case False
  then have "r' = r" "s' = s" "st' = st" using assms(1) by (auto simp: done_with_def split: option.splits if_splits)
  moreover have "wrote (ev_codec env) st st []" by (rule wrote_none [OF assms(2)])
  ultimately show ?thesis by (auto simp: same_step_def)
qed

definition taken :: "admission_options \<Rightarrow> run \<Rightarrow> step \<Rightarrow> step_run \<Rightarrow> quantities \<Rightarrow> step_reserving \<Rightarrow> run \<Rightarrow> step_run \<Rightarrow> engine \<Rightarrow> bool" where
  "taken op r st s q rv r' s' acts' \<longleftrightarrow> ad_fits (rv_verdict rv) \<and> held_by_platform op st rv = None
     \<and> sr_state s' = S_ADMITTED \<and> sr_step_id s' = sr_step_id s \<and> sr_estimate s' = Some q
     \<and> sr_reservation s' = Some (rv_reservation rv) \<and> stored_with acts' r r' s'"

definition taken_entries :: "quantities \<Rightarrow> step_reserving \<Rightarrow> step_run \<Rightarrow> signature list" where
  "taken_entries q rv s = retried_of (sr_state s = S_FAILED) s @ [(''step.admitted'', Some (sr_step_id s), None)]
     @ reserved_of (rv_reservation rv \<noteq> q) (rv_capped rv) s"

definition turned_away :: "admission_options \<Rightarrow> step \<Rightarrow> step_reserving \<Rightarrow> account \<Rightarrow> string \<Rightarrow> bool" where
  "turned_away op st rv a out \<longleftrightarrow>
     (if ad_fits (rv_verdict rv)
      then s_method st = WORKER \<and> platform_refuses op \<noteq> None \<and> a = LIMIT_COMPUTE \<and> out = REJECTED_BY_CAPACITY
      else a = limit_account (ad_kinds (rv_verdict rv)) \<and> out = REJECTED_BY_ADMISSION)"

lemma refused_effect:
  assumes "andThen (open_block_step env now (block_from a out now) r s)
      (\<lambda>(r', s'). reject_step env now (carried changes ad e v w) out r' s') st = (Inr (r', s', ok), st')"
    and "engine_ok (ev_codec env) st" "keeps_admission changes"
  shows "\<not> ok \<and> sr_state s' = S_REJECTED \<and> sr_step_id s' = sr_step_id s \<and> sr_estimate s' = e \<and> sr_reservation s' = v
    \<and> (\<exists>b. sr_block s' = Some b \<and> ob_cause b = out) \<and> stored_with st' r r' s'
    \<and> (\<exists>es. (es = [] \<or> es = waited_of s) \<and> wrote (ev_codec env) st st' (es @ [(''step.rejected'', Some (sr_step_id s), Some out)]))"
proof -
  from assms(1) obtain r1 s1 st1 where opened: "open_block_step env now (block_from a out now) r s st = (Inr (r1, s1), st1)"
    and reject: "reject_step env now (carried changes ad e v w) out r1 s1 st1 = (Inr (r', s', ok), st')"
    by (auto simp: andThen_Inr)
  from open_block_writes [OF opened assms(2)] obtain es where
    1: "same_step s s1" "same_run r r1" "\<exists>b'. sr_block s1 = Some b' \<and> ob_cause b' = ob_cause (block_from a out now)"
      "wrote (ev_codec env) st st1 es" "es = [] \<or> es = waited_of s" by blast
  from reject_step_writes [OF reject wrote_ok [OF 1(4)]]
  have 2: "\<not> ok" "s' = carried changes ad e v w (s1\<lparr>sr_state := S_REJECTED\<rparr>)" "stored_with st' r1 r' s'"
    "wrote (ev_codec env) st1 st' [(''step.rejected'', Some (sr_step_id s'), Some out)]" by blast+
  have s': "sr_state s' = S_REJECTED" "sr_step_id s' = sr_step_id s" "sr_estimate s' = e" "sr_reservation s' = v"
    "sr_block s' = sr_block s1" using 1(1) carried_sel [OF assms(3)] by (simp_all add: 2(2) same_step_def)
  from 1(3) have "\<exists>b. sr_block s' = Some b \<and> ob_cause b = out" by (simp add: s' block_from_def)
  with 2(1,3) s' stored_with_same [OF 1(2) 2(3)] wrote_trans [OF 1(4) 2(4)] 1(5) show ?thesis by auto
qed

lemma taken_effect:
  assumes "andThen (case sr_block s of
             Some b \<Rightarrow> if ob_cause b \<in> set CLOSED_BY_ADMISSION then close_block env now [] r s else done_with (r, s)
           | None \<Rightarrow> done_with (r, s))
      (\<lambda>(r', s'). take_step env now (carried changes ad (Some q) (Some (rv_reservation rv)) None) (sr_state s = S_FAILED) q rv r' s') st
    = (Inr (r', s', ok), st')"
    and "engine_ok (ev_codec env) st" "keeps_admission changes" "ad_fits (rv_verdict rv)" "held_by_platform op step rv = None"
  shows "ok \<and> taken op r step s q rv r' s' st'
    \<and> (\<exists>es. (es = [] \<or> es = waited_of s) \<and> wrote (ev_codec env) st st' (es @ taken_entries q rv s))"
proof -
  from assms(1) obtain r1 s1 st1 where close: "(case sr_block s of
             Some b \<Rightarrow> if ob_cause b \<in> set CLOSED_BY_ADMISSION then close_block env now [] r s else done_with (r, s)
           | None \<Rightarrow> done_with (r, s)) st = (Inr (r1, s1), st1)"
    and take: "take_step env now (carried changes ad (Some q) (Some (rv_reservation rv)) None) (sr_state s = S_FAILED) q rv r1 s1 st1
      = (Inr (r', s', ok), st')" by (auto simp: andThen_Inr)
  from closed_by_admission [OF close assms(2)] obtain es where
    1: "same_step s s1" "same_run r r1" "wrote (ev_codec env) st st1 es" "es = [] \<or> es = waited_of s" by blast
  from take_step_writes [OF take wrote_ok [OF 1(3)]]
  have 2: "ok" "s' = carried changes ad (Some q) (Some (rv_reservation rv)) None (s1\<lparr>sr_state := S_ADMITTED\<rparr>)"
    "stored_with st' r1 r' s'"
    "wrote (ev_codec env) st1 st' (retried_of (sr_state s = S_FAILED) s' @ [(''step.admitted'', Some (sr_step_id s'), None)]
       @ reserved_of (rv_reservation rv \<noteq> q) (rv_capped rv) s')" by blast+
  have s': "sr_state s' = S_ADMITTED" "sr_step_id s' = sr_step_id s" "sr_estimate s' = Some q"
    "sr_reservation s' = Some (rv_reservation rv)"
    using 1(1) carried_sel [OF assms(3)] by (simp_all add: 2(2) same_step_def)
  have same: "retried_of (sr_state s = S_FAILED) s' = retried_of (sr_state s = S_FAILED) s" "reserved_of b c s' = reserved_of b c s" for b c
    by (simp_all add: retried_of_def reserved_of_def s')
  have "wrote (ev_codec env) st st' (es @ taken_entries q rv s)"
    using wrote_trans [OF 1(3) 2(4)] by (simp add: taken_entries_def same s')
  with 2(1) s' stored_with_same [OF 1(2) 2(3)] 1(4) assms(4,5) show ?thesis by (auto simp: taken_def)
qed

lemma admit_step_taken:
  assumes "known_demand op r d = Some q" "rv = reserved_for op r st s d q"
    and "held_by_platform op st rv = None" "ad_fits (rv_verdict rv)"
    and "admit_step env op now r st s d changes acts = (Inr (r', s', ok), acts')"
    and "engine_ok (ev_codec env) acts" "keeps_admission changes"
  shows "ok \<and> taken op r st s q rv r' s' acts'
    \<and> (\<exists>es. (es = [] \<or> es = waited_of s) \<and> wrote (ev_codec env) acts acts' (es @ taken_entries q rv s))"
  by (rule taken_effect [OF _ assms(6,7,4,3)])
    (use assms(5) admit_step_known [OF assms(1)] assms(2-4) in \<open>simp add: Let_def\<close>)

lemma admit_step_refused:
  assumes "known_demand op r d = Some q" "rv = reserved_for op r st s d q"
    and "\<not> (held_by_platform op st rv = None \<and> ad_fits (rv_verdict rv))"
    and "admit_step env op now r st s d changes acts = (Inr (r', s', ok), acts')"
    and "engine_ok (ev_codec env) acts" "keeps_admission changes"
  shows "\<exists>a out. turned_away op st rv a out \<and> \<not> ok \<and> sr_state s' = S_REJECTED \<and> sr_step_id s' = sr_step_id s
    \<and> sr_estimate s' = Some q \<and> sr_reservation s' = Some (rv_reservation rv)
    \<and> (\<exists>b. sr_block s' = Some b \<and> ob_cause b = out) \<and> stored_with acts' r r' s'
    \<and> (\<exists>es. (es = [] \<or> es = waited_of s) \<and> wrote (ev_codec env) acts acts' (es @ [(''step.rejected'', Some (sr_step_id s), Some out)]))"
proof (cases "ad_fits (rv_verdict rv)")
  case True
  with assms(3) obtain short where held: "held_by_platform op st rv = Some short" by auto
  with True have away: "turned_away op st rv LIMIT_COMPUTE REJECTED_BY_CAPACITY"
    by (auto simp: turned_away_def held_by_platform_def split: if_splits)
  have "andThen (open_block_step env now (block_from LIMIT_COMPUTE REJECTED_BY_CAPACITY now) r s)
      (\<lambda>(r', s'). reject_step env now (carried changes (adapter_for d s) (Some q) (Some (rv_reservation rv))
         (Some (op_words op (Over_Platform short)))) REJECTED_BY_CAPACITY r' s') acts = (Inr (r', s', ok), acts')"
    using assms(4) admit_step_known [OF assms(1)] assms(2) held by (simp add: Let_def)
  from refused_effect [OF this assms(5,6)] away show ?thesis by blast
next
  case False
  then have held: "held_by_platform op st rv = None" by (simp add: held_by_platform_def)
  from False have away: "turned_away op st rv (limit_account (ad_kinds (rv_verdict rv))) REJECTED_BY_ADMISSION"
    by (simp add: turned_away_def)
  have "andThen (open_block_step env now (block_from (limit_account (ad_kinds (rv_verdict rv))) REJECTED_BY_ADMISSION now) r s)
      (\<lambda>(r', s'). reject_step env now (carried changes (adapter_for d s) (Some q) (Some (rv_reservation rv))
         (Some (op_words op (Over_Budget (ad_findings (rv_verdict rv)))))) REJECTED_BY_ADMISSION r' s') acts = (Inr (r', s', ok), acts')"
    using assms(4) admit_step_known [OF assms(1)] assms(2) held False by (simp add: Let_def)
  from refused_effect [OF this assms(5,6)] away show ?thesis by blast
qed

lemma admit_step_without_estimate:
  assumes "known_demand op r d = None"
    and "admit_step env op now r st s d changes acts = (Inr (r', s', ok), acts')"
    and "engine_ok (ev_codec env) acts" "keeps_admission changes"
  shows "\<not> ok \<and> sr_state s' = S_REJECTED \<and> sr_step_id s' = sr_step_id s \<and> sr_estimate s' = None \<and> sr_reservation s' = None
    \<and> stored_with acts' r r' s'
    \<and> wrote (ev_codec env) acts acts' [(''step.rejected'', Some (sr_step_id s), Some ''no_estimate'')]"
proof -
  from admit_step_unknown [OF assms(1)] assms(2) obtain w where
    "reject_step env now (carried changes (adapter_for d s) None None (Some w)) ''no_estimate'' r s acts = (Inr (r', s', ok), acts')"
    by metis
  from reject_step_writes [OF this assms(3)] have facts: "\<not> ok" "stored_with acts' r r' s'"
    "s' = carried changes (adapter_for d s) None None (Some w) (s\<lparr>sr_state := S_REJECTED\<rparr>)"
    "wrote (ev_codec env) acts acts' [(''step.rejected'', Some (sr_step_id s'), Some ''no_estimate'')]" by blast+
  have "sr_state s' = S_REJECTED" "sr_step_id s' = sr_step_id s" "sr_estimate s' = None" "sr_reservation s' = None"
    using carried_sel [OF assms(4)] by (simp_all add: facts(3))
  with facts show ?thesis by simp
qed

text \<open>C21: admission holds the line. A step that is admitted, retried ones included, carries a reservation whose money,
  quota, tokens and compute the line of its run holds beside everything the run counted already; its
  estimate was known and priced, a worker fits what the platform has; it is stored admitted, and the
  ledger grew by the end of its wait, its retry, its admission and its reservation, in this order.\<close>

theorem admitted_step_holds_the_line:
  assumes "admit_step env op now r st s d changes acts = (Inr (r', s', True), acts')"
    and "engine_ok (ev_codec env) acts" "keeps_admission changes"
  shows "\<exists>q res es capped. known_demand op r d = Some q \<and> sr_estimate s' = Some q \<and> sr_reservation s' = Some res
    \<and> fits_line (priced_quantities (op_prices op) r res) (spent (op_prices op) (released r (sr_step_id s)))
        (held_line (run_budget r) (run_margin r))
    \<and> (s_method st = WORKER \<longrightarrow> platform_refuses op = None)
    \<and> sr_state s' = S_ADMITTED \<and> stored_with acts' r r' s' \<and> (es = [] \<or> es = waited_of s)
    \<and> wrote (ev_codec env) acts acts' (es @ retried_of (sr_state s = S_FAILED) s
         @ [(''step.admitted'', Some (sr_step_id s), None)] @ reserved_of (res \<noteq> q) capped s)"
proof -
  obtain q where q: "known_demand op r d = Some q"
    using admit_step_without_estimate [OF _ assms] by fastforce
  define rv where "rv = reserved_for op r st s d q"
  have "held_by_platform op st rv = None \<and> ad_fits (rv_verdict rv)"
    by (rule ccontr) (use admit_step_refused [OF q rv_def _ assms] in blast)
  then have fits: "held_by_platform op st rv = None" "ad_fits (rv_verdict rv)" by simp_all
  from admit_step_taken [OF q rv_def fits assms] obtain es where
    t: "taken op r st s q rv r' s' acts'" "es = [] \<or> es = waited_of s" "wrote (ev_codec env) acts acts' (es @ taken_entries q rv s)"
    by blast
  have "fits_line (priced_quantities (op_prices op) r (rv_reservation rv)) (spent (op_prices op) (released r (sr_step_id s)))
        (held_line (run_budget r) (run_margin r))"
    using fits(2) reserve_step_fits by (simp add: rv_def reserved_for_def)
  moreover have "s_method st = WORKER \<longrightarrow> platform_refuses op = None"
    using fits by (simp add: held_by_platform_def split: if_splits)
  ultimately show ?thesis using t q unfolding taken_def taken_entries_def by blast
qed


subsection \<open>Admission on a run of two steps\<close>

definition plain_options :: admission_options where
  "plain_options = \<lparr>op_prices = None, op_seeds = [], op_uncalibrated_margin = UNCALIBRATED_MARGIN,
     op_capacity = default_capacity_rules, op_unit_memory = None, op_observed = [], op_platform = None, op_words = (\<lambda>_. ''no'')\<rparr>"

definition needing :: "int \<Rightarrow> step_demand" where
  "needing n = \<lparr>dm_quantities = Some (no_quantities\<lparr>u_in := Some n\<rparr>), dm_why_not = None, dm_adapter = None, dm_capabilities = []\<rparr>"

definition planned_step :: step_run where "planned_step = new_step_run sample_step 0"

lemma planned_step_sel: "sr_state planned_step = S_PLANNED" "sr_adapter planned_step = None" "sr_block planned_step = None"
  "sr_step_id planned_step = ''check''" "s_method sample_step = RULE"
  by (simp_all add: planned_step_def new_step_run_def sample_step_def)

lemma sample_table: "compute_table None sample_run = None" "token_table None sample_run = None"
  by (simp_all add: compute_table_def compute_money_def token_table_def sample_run_def tokens_limit_def Let_def)

lemma sample_spent: "spent None (released sample_run ''check'') = no_quantities"
proof -
  have "released sample_run ''check'' = sample_run"
    by (simp add: released_def sample_step_runs new_step_run_def)
  moreover have "consumed sample_run = no_quantities"
  proof -
    have "Run_Model.counted s = None" if "s \<in> set (run_step_runs sample_run)" for s
      using that by (auto simp: sample_step_runs Run_Model.counted_def new_step_run_def)
    then have "counted_steps sample_run = []" by (auto simp: counted_steps_def map_filter_simps sample_step_runs)
    then show ?thesis by (simp add: consumed_def Let_def no_quantities_def items_def)
  qed
  ultimately show ?thesis by (simp add: spent_def sample_table)
qed

lemma sample_line: "held_line (run_budget sample_run) (run_margin sample_run) = tokens_limit"
  by (simp add: sample_run_def held_line_def tokens_limit_def floor_limit_def)

lemma needing_known: "known_demand plain_options sample_run (needing n) = Some (no_quantities\<lparr>u_in := Some n\<rparr>)"
  by (simp add: known_demand_def needing_def unpriced_step_def plain_options_def sample_run_def tokens_limit_def no_quantities_def items_def)

lemma needing_reserved:
  "reserved_for plain_options sample_run sample_step planned_step (needing n) (no_quantities\<lparr>u_in := Some n\<rparr>)
    = \<lparr>rv_reservation = no_quantities\<lparr>u_in := Some n\<rparr>, rv_capped = False,
       rv_verdict = admit (no_quantities\<lparr>u_in := Some n\<rparr>) (remaining tokens_limit no_quantities) tokens_limit\<rparr>"
proof -
  have keep: "reserve (no_quantities\<lparr>u_in := Some n\<rparr>) Map.empty = no_quantities\<lparr>u_in := Some n\<rparr>"
    by (simp add: reserve_def no_quantities_def scale_int_def scale_rat_def factor_def items_def)
  show ?thesis
    by (simp add: reserved_for_def reserve_step_def adapter_for_def needing_def planned_step_sel or_else_def
        step_scale_def Let_def sample_line plain_options_def sample_spent priced_quantities_def sample_table keep)
qed

lemma commit_entry_succeeds:
  assumes "k \<noteq> ANCHORED"
  shows "\<exists>st'. commit_run sample_env 7 r ((commit_of (Some (step_entry k s out)))\<lparr>ca_before := []\<rparr>) (empty_engine None None)
    = (Inr (r\<lparr>run_updated_at := 7\<rparr>), st')"
  by (rule commit_succeeds)
    (use assms in \<open>simp_all add: sample_env_def empty_engine_ok not_anchors_def commit_of_def trace_recordable_def\<close>,
     simp add: empty_engine_def)

lemma needing_admitted:
  "\<exists>r' s' acts'. admit_step sample_env plain_options 7 sample_run sample_step planned_step (needing 30) id (empty_engine None None)
     = (Inr (r', s', True), acts')"
proof -
  have quantities: "no_quantities\<lparr>u_in := Some 30\<rparr> = estimate_30" by (simp add: estimate_30_def)
  note known = admit_step_known [OF needing_known [of 30]]
  have held: "held_by_platform plain_options sample_step rv = None" for rv
    by (simp add: held_by_platform_def planned_step_sel)
  obtain s1 where s1: "step_to planned_step S_ADMITTED (carried id (adapter_for (needing 30) planned_step)
      (Some estimate_30) (Some estimate_30) None) = Inr s1" by (simp add: step_to_def planned_step_sel STEP_TRANSITIONS_def)
  obtain st' where run: "commit_run sample_env 7 (with_step_run sample_run s1)
      ((commit_of (Some (step_entry ''step.admitted'' s1 None)))\<lparr>ca_before := []\<rparr>) (empty_engine None None)
      = (Inr ((with_step_run sample_run s1)\<lparr>run_updated_at := 7\<rparr>), st')" using commit_entry_succeeds by fastforce
  show ?thesis
    unfolding known unfolding needing_reserved unfolding quantities
    by (simp add: Let_def held estimate_30_fits planned_step_sel done_with_def andThen_def take_step_def of_run_def s1 run)
qed

theorem admitted_step_holds_the_line_witness:
  "\<exists>r' s' acts' q res. admit_step sample_env plain_options 7 sample_run sample_step planned_step (needing 30) id (empty_engine None None)
     = (Inr (r', s', True), acts') \<and> known_demand plain_options sample_run (needing 30) = Some q \<and> sr_reservation s' = Some res
   \<and> fits_line (priced_quantities None sample_run res) (spent None (released sample_run ''check'')) tokens_limit
   \<and> sr_state s' = S_ADMITTED"
proof -
  obtain r' s' acts' where run: "admit_step sample_env plain_options 7 sample_run sample_step planned_step (needing 30) id
      (empty_engine None None) = (Inr (r', s', True), acts')" using needing_admitted by blast
  have ok: "engine_ok (ev_codec sample_env) (empty_engine None None)" by (simp add: sample_env_def empty_engine_ok)
  have keeps: "keeps_admission id" by (simp add: keeps_admission_def)
  have prices: "op_prices plain_options = None" by (simp add: plain_options_def)
  from admitted_step_holds_the_line [OF run ok keeps] run show ?thesis
    unfolding planned_step_sel sample_line prices by blast
qed

lemma over_the_line: "\<not> ad_fits (admit (no_quantities\<lparr>u_in := Some 3000\<rparr>) (remaining tokens_limit no_quantities) tokens_limit)"
  by code_simp

lemma reject_step_succeeds:
  assumes "sr_state s = S_PLANNED"
  shows "\<exists>r' s' st'. reject_step sample_env 7 f out r s (empty_engine None None) = (Inr (r', s', False), st')"
proof -
  obtain s1 where s1: "step_to s S_REJECTED f = Inr s1" by (simp add: step_to_def assms STEP_TRANSITIONS_def)
  from commit_entry_succeeds [of "''step.rejected''" "with_step_run r s1" s1 "Some out"] obtain st' where
    "commit_run sample_env 7 (with_step_run r s1) (commit_of (Some (step_entry ''step.rejected'' s1 (Some out)))) (empty_engine None None)
      = (Inr ((with_step_run r s1)\<lparr>run_updated_at := 7\<rparr>), st')" by (auto simp: commit_of_def)
  then show ?thesis by (simp add: reject_step_def andThen_def of_run_def s1 done_with_def)
qed

lemma needing_refused:
  "\<exists>r' s' acts'. admit_step sample_env plain_options 7 sample_run sample_step planned_step (needing 3000) id (empty_engine None None)
     = (Inr (r', s', False), acts')"
proof -
  note known = admit_step_known [OF needing_known [of 3000]]
  have held: "held_by_platform plain_options sample_step rv = None" for rv
    by (simp add: held_by_platform_def planned_step_sel)
  let ?b = "block_from (limit_account (ad_kinds (admit (no_quantities\<lparr>u_in := Some 3000\<rparr>) (remaining tokens_limit no_quantities) tokens_limit)))
     REJECTED_BY_ADMISSION 7"
  have opened: "open_block_step sample_env 7 ?b sample_run planned_step (empty_engine None None)
      = (Inr (sample_run, planned_step\<lparr>sr_block := Some ?b\<rparr>), empty_engine None None)"
    by (simp add: open_block_step_def planned_step_sel done_with_def)
  have planned: "sr_state (planned_step\<lparr>sr_block := Some ?b\<rparr>) = S_PLANNED" by (simp add: planned_step_sel)
  show ?thesis
    unfolding known needing_reserved
    by (simp add: Let_def held over_the_line andThen_Inr opened) (rule reject_step_succeeds [OF planned])
qed


subsection \<open>The steps behind one that waits\<close>

definition depends :: "run \<Rightarrow> (string \<times> string) set" where
  "depends r = {(d, s_id st) | d st. st \<in> set (run_steps r) \<and> d \<in> set (dependencies st)}"

lemma depends_edges: "depends r = set (concat (map (\<lambda>st. map (\<lambda>d. (d, s_id st)) (dependencies st)) (run_steps r)))"
  by (auto simp: depends_def)

fun held :: "string set \<Rightarrow> step list \<Rightarrow> string set" where
  "held behind [] = {}"
| "held behind (st # sts) =
     (if set (dependencies st) \<inter> behind = {} then held behind sts
      else insert (s_id st) (held (insert (s_id st) behind) sts))"

definition held_block :: "moment \<Rightarrow> string \<Rightarrow> string set \<Rightarrow> step_run \<Rightarrow> step_run" where
  "held_block now w B s =
     (if sr_step_id s \<in> B \<and> sr_state s = S_PLANNED \<and> sr_block s = None
      then s\<lparr>sr_block := Some ((block_from WAIT_DEPENDENCY HELD_BACK now)\<lparr>ob_on := Some w\<rparr>)\<rparr> else s)"

lemma held_block_id [simp]: "sr_step_id (held_block now w B s) = sr_step_id s"
  by (simp add: held_block_def)

lemma held_block_insert:
  "x \<notin> H \<Longrightarrow> held_block now w H (held_block now w {x} s) = held_block now w (insert x H) s"
  by (simp add: held_block_def)

lemma held_ids: "held B sts \<subseteq> s_id ` set sts"
proof (induction sts arbitrary: B)
  case (Cons st sts)
  have "held B sts \<subseteq> s_id ` set sts" "held (insert (s_id st) B) sts \<subseteq> s_id ` set sts" by (rule Cons.IH)+
  then show ?case by auto
qed simp

lemma held_append: "held B (xs @ ys) = held B xs \<union> held (B \<union> held B xs) ys"
  by (induction xs arbitrary: B) (auto simp: insert_commute Un_insert_left [symmetric] simp del: Un_insert_left)

lemma step_run_of_in:
  "distinct (map sr_step_id (run_step_runs r)) \<Longrightarrow> s \<in> set (run_step_runs r) \<Longrightarrow> step_run_of r (sr_step_id s) = Inr s"
proof -
  assume distinct: "distinct (map sr_step_id (run_step_runs r))" and s: "s \<in> set (run_step_runs r)"
  then obtain x where x: "List.find (\<lambda>x. sr_step_id x = sr_step_id s) (run_step_runs r) = Some x"
    by (cases "List.find (\<lambda>x. sr_step_id x = sr_step_id s) (run_step_runs r)") (auto simp: find_None_iff)
  then have "x \<in> set (run_step_runs r)" "sr_step_id x = sr_step_id s" by (auto dest: find_SomeD)
  with distinct s have "x = s" by (metis distinct_map inj_onD)
  with x show ?thesis by (simp add: step_run_of_def)
qed

lemma hold_from_eq:
  assumes "distinct (map sr_step_id (run_step_runs r))" "distinct (map s_id sts)"
    and "s_id ` set sts \<subseteq> sr_step_id ` set (run_step_runs r)"
  shows "hold_from now w B sts r = Inr (r\<lparr>run_step_runs := map (held_block now w (held B sts)) (run_step_runs r)\<rparr>)"
  using assms
proof (induction sts arbitrary: B r)
  case Nil
  have "map (held_block now w {}) (run_step_runs r) = run_step_runs r" by (rule map_idI) (simp add: held_block_def)
  then show ?case by simp
next
  case (Cons st sts)
  show ?case
  proof (cases "set (dependencies st) \<inter> B = {}")
    case True
    with Cons show ?thesis by simp
  next
    case False
    let ?x = "s_id st"
    from Cons.prems(3) obtain s where s: "s \<in> set (run_step_runs r)" "sr_step_id s = ?x" by auto
    then have "step_run_of r ?x = Inr s" using step_run_of_in Cons.prems(1) by metis
    define r1 where "r1 = r\<lparr>run_step_runs := map (held_block now w {?x}) (run_step_runs r)\<rparr>"
    have only: "y = s" if "y \<in> set (run_step_runs r)" "sr_step_id y = ?x" for y
      using Cons.prems(1) s that by (metis distinct_map inj_onD)
    have "(if sr_state s = S_PLANNED \<and> sr_block s = None
        then with_step_run r (s\<lparr>sr_block := Some ((block_from WAIT_DEPENDENCY HELD_BACK now)\<lparr>ob_on := Some w\<rparr>)\<rparr>) else r) = r1"
    proof (cases "sr_state s = S_PLANNED \<and> sr_block s = None")
      case True
      let ?s = "s\<lparr>sr_block := Some ((block_from WAIT_DEPENDENCY HELD_BACK now)\<lparr>ob_on := Some w\<rparr>)\<rparr>"
      have "map (\<lambda>y. if sr_step_id y = sr_step_id ?s then ?s else y) (run_step_runs r) = map (held_block now w {?x}) (run_step_runs r)"
      proof (rule map_cong [OF refl])
        fix y assume "y \<in> set (run_step_runs r)"
        then show "(if sr_step_id y = sr_step_id ?s then ?s else y) = held_block now w {?x} y"
          using only [of y] s(2) True by (cases "sr_step_id y = ?x") (simp_all add: held_block_def)
      qed
      with True show ?thesis by (simp add: r1_def with_step_run_def)
    next
      case False
      have "map (held_block now w {?x}) (run_step_runs r) = run_step_runs r"
      proof (rule map_idI)
        fix y assume "y \<in> set (run_step_runs r)"
        then show "held_block now w {?x} y = y"
          using only [of y] False by (cases "sr_step_id y = ?x") (auto simp: held_block_def)
      qed
      with False show ?thesis by (auto simp: r1_def)
    qed
    moreover have "?x \<notin> held (insert ?x B) sts" using held_ids [of "insert ?x B" sts] Cons.prems(2) by auto
    moreover have "hold_from now w (insert ?x B) sts r1 =
        Inr (r1\<lparr>run_step_runs := map (held_block now w (held (insert ?x B) sts)) (run_step_runs r1)\<rparr>)"
      by (rule Cons.IH) (use Cons.prems in \<open>auto simp: r1_def comp_def image_image\<close>)
    ultimately show ?thesis
      using False \<open>step_run_of r ?x = Inr s\<close> by (simp add: r1_def held_block_insert comp_def)
  qed
qed

lemma held_behind:
  assumes "\<And>st. st \<in> set sts \<Longrightarrow> st \<in> set (run_steps r)" "\<And>b. b \<in> B \<Longrightarrow> (w, b) \<in> (depends r)\<^sup>*"
  shows "x \<in> held B sts \<Longrightarrow> (w, x) \<in> (depends r)\<^sup>+"
  using assms
proof (induction sts arbitrary: B)
  case (Cons st sts)
  show ?case
  proof (cases "set (dependencies st) \<inter> B = {}")
    case True
    with Cons show ?thesis by simp
  next
    case False
    then obtain d where "d \<in> set (dependencies st)" "d \<in> B" by blast
    then have st: "(w, s_id st) \<in> (depends r)\<^sup>+"
      using Cons.prems(2,3) by (auto simp: depends_def intro: rtrancl_into_trancl1)
    show ?thesis
    proof (cases "x = s_id st")
      case True
      with st show ?thesis by simp
    next
      case other: False
      then have "x \<in> held (insert (s_id st) B) sts" using Cons.prems(1) False by simp
      then show ?thesis by (rule Cons.IH) (use Cons.prems st in auto)
    qed
  qed
qed simp

lemma behind_held:
  assumes "distinct (map s_id (run_steps r))" "order_error {} (run_steps r) = None" "(w, x) \<in> (depends r)\<^sup>+"
  shows "x \<in> held {w} (run_steps r)"
proof -
  have next_one: "x \<in> held {w} (run_steps r)" if "(d, x) \<in> depends r" "d = w \<or> d \<in> held {w} (run_steps r)" for d x
  proof -
    from that(1) obtain st where st: "st \<in> set (run_steps r)" "x = s_id st" "d \<in> set (dependencies st)"
      by (auto simp: depends_def)
    from st(1) obtain xs ys where split: "run_steps r = xs @ st # ys" by (meson split_list)
    have "d \<in> s_id ` set xs" using order_error_dependency [of "{}" xs st ys d] assms(2) split st(3) by simp
    moreover have "s_id ` set xs \<inter> s_id ` set (st # ys) = {}" using assms(1) unfolding split by auto
    ultimately have "d \<notin> s_id ` set (st # ys)" by blast
    then have "d \<in> {w} \<union> held {w} xs"
      using that(2) held_ids [of "{w} \<union> held {w} xs" "st # ys"] unfolding split held_append by auto
    with st(3) have "s_id st \<in> held ({w} \<union> held {w} xs) (st # ys)" by auto
    with st(2) show ?thesis unfolding split held_append by blast
  qed
  from assms(3) show ?thesis by (induction rule: trancl_induct) (use next_one in blast)+
qed

text \<open>a step that waits holds back exactly the steps that depend on it, directly or through others:
  each of them that is planned and not blocked yet is blocked from now, booked to the wait for a
  dependency and naming the step it waits on; every other step run stays as it is.\<close>

theorem hold_back_blocks_dependents:
  assumes "distinct (map s_id (run_steps r))" "order_error {} (run_steps r) = None"
    and "distinct (map sr_step_id (run_step_runs r))" "s_id ` set (run_steps r) \<subseteq> sr_step_id ` set (run_step_runs r)"
  shows "hold_back now w r = Inr (r\<lparr>run_step_runs := map (\<lambda>s.
      if (w, sr_step_id s) \<in> (depends r)\<^sup>+ \<and> sr_state s = S_PLANNED \<and> sr_block s = None
      then s\<lparr>sr_block := Some ((block_from WAIT_DEPENDENCY HELD_BACK now)\<lparr>ob_on := Some w\<rparr>)\<rparr> else s) (run_step_runs r)\<rparr>)"
proof -
  have "x \<in> held {w} (run_steps r) \<longleftrightarrow> (w, x) \<in> (depends r)\<^sup>+" for x
    using held_behind [of "run_steps r" r "{w}" w x] behind_held [OF assms(1,2), of w x] by auto
  then show ?thesis
    using hold_from_eq [OF assms(3,1,4), of now w "{w}"] by (simp add: hold_back_def held_block_def [abs_def])
qed

theorem hold_back_blocks_dependents_witness:
  "\<exists>r'. hold_back 9 ''check'' sample_run = Inr r'
     \<and> map (\<lambda>s. (sr_step_id s, map_option ob_cause (sr_block s))) (run_step_runs r') = [(''check'', None), (''release'', Some HELD_BACK)]"
proof -
  have steps: "distinct (map s_id (run_steps sample_run))" "order_error {} (run_steps sample_run) = None"
    by (simp_all add: sample_run_def two_steps_def sample_step_def dependencies_def)
  have runs: "distinct (map sr_step_id (run_step_runs sample_run))"
    "s_id ` set (run_steps sample_run) \<subseteq> sr_step_id ` set (run_step_runs sample_run)"
    by (simp_all add: sample_step_runs sample_step_def new_step_run_def) (simp add: sample_run_def two_steps_def sample_step_def)
  have edges: "depends sample_run = {(''check'', ''release'')}"
    by (simp add: depends_edges sample_run_def two_steps_def sample_step_def dependencies_def)
  have "(''check'', ''check'') \<notin> {(''check'', ''release'')}\<^sup>+"
    by (auto dest: tranclD2)
  moreover have "s_id sample_step = ''check''" by (simp add: sample_step_def)
  moreover have "(''check'', ''release'') \<in> {(''check'', ''release'')}\<^sup>+" by auto
  ultimately show ?thesis
    using hold_back_blocks_dependents [OF steps runs, of 9 "''check''"]
    by (simp add: edges sample_step_runs new_step_run_def block_from_def)
qed

end
