(* ===== verification/Run_Moves.thy ===== *)
theory Run_Moves
  imports Run_Gates_Rules Run_Pricing Run_Provenance
begin

text \<open>
  A step that moves along its purpose's chain (\<open>execute_run.py\<close>, \<open>_cool\<close> and the route \<open>_llm_step\<close>
  takes; \<open>routing.py\<close>, the record of a route and why none was found): a model that fails or answers at
  its limit cools down, and the step goes to the next model that fits.
\<close>

subsection \<open>What a route is recorded as\<close>

fun permitted_text :: "permitted \<Rightarrow> string" where
  "permitted_text MAY_OWN = ''own''"
| "permitted_text MAY_EU = ''eu''"
| "permitted_text MAY_ANYWHERE = ''anywhere''"

fun skip_of :: "skipped_for \<Rightarrow> skip_reason" where
  "skip_of FOR_RESIDENCY = SKIP_RESIDENCY"
| "skip_of FOR_EXACTNESS = SKIP_EXACTNESS"
| "skip_of FOR_COOLING_DOWN = SKIP_COOLING_DOWN"

definition route_record :: "model_route \<Rightarrow> provenance_route option" where
  "route_record r =
     (case mr_chosen r of
        None \<Rightarrow> None
      | Some m \<Rightarrow> Some \<lparr>pr_purpose = rn_purpose (mr_needs r), pr_adapter = rm_adapter m,
          pr_permitted = permitted_text (rn_permitted (mr_needs r)), pr_data_class = rn_data_class (mr_needs r),
          pr_skipped = map (\<lambda>(a, why). \<lparr>rs_adapter = a, rs_reason = skip_of why\<rparr>) (mr_skipped r)\<rparr>)"

text \<open>\<open>repr\<close> of a name.\<close>

definition repr_text :: "string \<Rightarrow> string" where
  "repr_text s = CHR 0x27 # s @ [CHR 0x27]"

definition skip_said :: "route_needs \<Rightarrow> skipped_for \<Rightarrow> string" where
  "skip_said n reason =
     (case reason of
        FOR_RESIDENCY \<Rightarrow> ''processes outside what the residency rule permits for ''
          @ (case rn_data_class n of
               Some d \<Rightarrow> if d = [] then ''the tenant'' else ''data class '' @ repr_text d
             | None \<Rightarrow> ''the tenant'')
          @ '' ('' @ permitted_text (rn_permitted n) @ '')''
      | FOR_EXACTNESS \<Rightarrow> ''may not produce a ''
          @ (case rn_exactness n of None \<Rightarrow> ''None'' | Some e \<Rightarrow> exactness_value e) @ '' result''
      | FOR_COOLING_DOWN \<Rightarrow> ''cooling down after a rate limit or a failure'')"

definition why_none :: "model_route \<Rightarrow> string" where
  "why_none r =
     (if mr_skipped r = [] then ''no model is configured for the purpose '' @ repr_text (rn_purpose (mr_needs r))
      else ''no model configured for the purpose '' @ repr_text (rn_purpose (mr_needs r)) @ '' fits the step: ''
        @ join ''; '' (map (\<lambda>(a, why). a @ '': '' @ skip_said (mr_needs r) why) (mr_skipped r)))"

subsection \<open>Cooling down\<close>

text \<open>\<open>timedelta(seconds=x)\<close> added to a moment.\<close>

definition after_seconds :: "moment \<Rightarrow> rat \<Rightarrow> moment" where
  "after_seconds now x = now + half_even (x * 1000000)"

text \<open>\<open>_cool\<close>: the clock is read when the cool-down begins and again for the route after it. What it
  answers is whether the step moves to another model of the chain.\<close>

definition cool ::
  "rat \<Rightarrow> resolved_model list \<Rightarrow> route_needs \<Rightarrow> string \<Rightarrow> rat option \<Rightarrow> moment \<Rightarrow> moment \<Rightarrow> (string \<rightharpoonup> moment) \<Rightarrow>
   bool \<times> (string \<rightharpoonup> moment)" where
  "cool cool_down chain n adapter delay now now' cooling =
     (let cooling' = cooling(adapter \<mapsto> after_seconds now (case delay of None \<Rightarrow> cool_down | Some d \<Rightarrow> d))
      in (mr_chosen (route_chain chain n cooling' now') \<noteq> None, cooling'))"

text \<open>How long a step waits when every model that fits is cooling down: until the first of them ends.\<close>

definition cooling_ends :: "model_route \<Rightarrow> (string \<rightharpoonup> moment) \<Rightarrow> moment list" where
  "cooling_ends r cooling =
     List.map_filter (\<lambda>(a, why). if why = FOR_COOLING_DOWN then cooling a else None) (mr_skipped r)"

definition cooling_wait :: "model_route \<Rightarrow> (string \<rightharpoonup> moment) \<Rightarrow> moment \<Rightarrow> rat option" where
  "cooling_wait r cooling now =
     (case cooling_ends r cooling of
        [] \<Rightarrow> None
      | e # es \<Rightarrow> Some (max (of_int (foldl min e es - now) / 1000000) 0))"

abbreviation serves :: "route_needs \<Rightarrow> (string \<rightharpoonup> moment) \<Rightarrow> moment \<Rightarrow> resolved_model \<Rightarrow> bool" where
  "serves n cooling now m \<equiv> fits_step n m \<and> \<not> cools cooling now m"

lemma chosen_eq: "mr_chosen (route_chain chain n cooling now) = List.find (serves n cooling now) chain"
  by (simp add: route_chain_def route_from_eq)

lemma chosen_serves: "mr_chosen (route_chain chain n cooling now) = Some m \<Longrightarrow> m \<in> set chain \<and> serves n cooling now m"
  by (auto simp: chosen_eq dest: find_SomeD)

subsection \<open>Moves along a chain\<close>

text \<open>The adapters of a chain whose cool-down does not outlast a moment: what a step can still be
  moved to before it.\<close>

definition still_open :: "string list \<Rightarrow> (string \<rightharpoonup> moment) \<Rightarrow> moment \<Rightarrow> string set" where
  "still_open adapters cooling horizon =
     {a \<in> set adapters. case cooling a of None \<Rightarrow> True | Some until \<Rightarrow> until \<le> horizon}"

lemma finite_still_open [simp]: "finite (still_open adapters cooling horizon)"
  by (simp add: still_open_def)

lemma still_open_cool:
  assumes "after_seconds now (case delay of None \<Rightarrow> cd | Some d \<Rightarrow> d) > horizon"
  shows "still_open adapters (snd (cool cd chain n a delay now now' cooling)) horizon = still_open adapters cooling horizon - {a}"
  using assms by (auto simp: still_open_def cool_def Let_def split: option.splits if_splits)

lemma serving_still_open:
  "mr_chosen (route_chain chain n cooling now) = Some m \<Longrightarrow> now \<le> horizon \<Longrightarrow> rm_adapter m \<in> still_open (map rm_adapter chain) cooling horizon"
  using chosen_serves [of chain n cooling now m]
  by (auto simp: still_open_def cools_def split: option.splits)

text \<open>a model that answers at its limit, or fails, is not asked again before its cool-down ended: as
  long as the cool-downs outlast a moment, every answer of that kind before it takes one adapter from
  those a step can move to, so that a step moves fewer times than its chain has adapters.\<close>

theorem every_move_uses_a_model_up:
  assumes "mr_chosen (route_chain chain n cooling now) = Some m" "now \<le> horizon"
    and "after_seconds now (case delay of None \<Rightarrow> cd | Some d \<Rightarrow> d) > horizon"
  shows "card (still_open (map rm_adapter chain) (snd (cool cd chain n (rm_adapter m) delay now now' cooling)) horizon)
           < card (still_open (map rm_adapter chain) cooling horizon)
    \<and> (now' \<le> horizon \<longrightarrow>
         mr_chosen (route_chain chain n (snd (cool cd chain n (rm_adapter m) delay now now' cooling)) now') \<noteq> Some m)"
proof
  show "card (still_open (map rm_adapter chain) (snd (cool cd chain n (rm_adapter m) delay now now' cooling)) horizon)
          < card (still_open (map rm_adapter chain) cooling horizon)"
    unfolding still_open_cool [OF assms(3)]
    by (rule card_Diff1_less [OF finite_still_open serving_still_open [OF assms(1,2)]])
next
  let ?c = "snd (cool cd chain n (rm_adapter m) delay now now' cooling)"
  show "now' \<le> horizon \<longrightarrow> mr_chosen (route_chain chain n ?c now') \<noteq> Some m"
  proof (intro impI notI)
    assume "now' \<le> horizon" "mr_chosen (route_chain chain n ?c now') = Some m"
    then have "rm_adapter m \<in> still_open (map rm_adapter chain) ?c horizon" by (intro serving_still_open)
    then show False by (simp add: still_open_cool [OF assms(3)])
  qed
qed

lemma cools_upd_past:
  "until \<le> now \<Longrightarrow> cools (cooling(a \<mapsto> until)) now x \<longleftrightarrow> rm_adapter x \<noteq> a \<and> cools cooling now x"
  by (auto simp: cools_def)


subsection \<open>Concrete chains\<close>

definition local_model :: resolved_model where
  "local_model = \<lparr>rm_adapter = ''model-a'', rm_version = None, rm_location = AT_OWN,
     rm_classes = [''sourced'', ''tolerant'', ''free'']\<rparr>"

definition sample_needs :: route_needs where
  "sample_needs = \<lparr>rn_purpose = ''draft'', rn_exactness = Some TOLERANT, rn_permitted = MAY_EU, rn_data_class = None\<rparr>"

definition sample_chain :: "resolved_model list" where
  "sample_chain = [local_model\<lparr>rm_adapter := ''far'', rm_location := AT_ELSEWHERE\<rparr>, local_model,
     local_model\<lparr>rm_adapter := ''model-b'', rm_location := AT_EU\<rparr>]"

lemma sample_chain_chosen: "mr_chosen (route_chain sample_chain sample_needs Map.empty 0) = Some local_model"
  by code_simp

theorem every_move_uses_a_model_up_witness:
  "card (still_open (map rm_adapter sample_chain) (snd (cool 60 sample_chain sample_needs ''model-a'' None 0 5 Map.empty)) 30) < 3"
proof -
  have a: "rm_adapter local_model = ''model-a''" by (simp add: local_model_def)
  have "after_seconds 0 (case None of None \<Rightarrow> 60 | Some d \<Rightarrow> d) > 30" by (simp add: after_seconds_def half_even_def)
  note up = every_move_uses_a_model_up [OF sample_chain_chosen _ this, of 5, simplified a]
  have "still_open (map rm_adapter sample_chain) Map.empty 30 = {''far'', ''model-a'', ''model-b''}"
    by (auto simp: still_open_def sample_chain_def local_model_def)
  then have "card (still_open (map rm_adapter sample_chain) Map.empty 30) = 3" by simp
  with up show ?thesis by simp
qed


end
