(* ===== verification/Run_Waiting.thy ===== *)
theory Run_Waiting
  imports Run_Moves Run_Blocked
begin

text \<open>
  A wait step (\<open>execute_run.py\<close>, \<open>_wait_for\<close> and \<open>_wait_until\<close>): a wait on the clock, and a wait on
  an outside state that is read until it is one of the expected values. What a check answers is a
  function of how many were made before it, the clock a function of the same number; Python's \<open>==\<close>
  on documents and the sentence of a timeout are arguments. The loop is a partial function: not
  returning is \<open>None\<close>.
\<close>

subsection \<open>What the checks used\<close>

definition plus_numbers :: "'a::monoid_add option \<Rightarrow> 'a option \<Rightarrow> 'a option" where
  "plus_numbers used event = (case event of None \<Rightarrow> used | Some v \<Rightarrow> Some (or0 used + v))"

definition accumulate :: "quantities \<Rightarrow> quantities \<Rightarrow> quantities" where
  "accumulate used event =
     used\<lparr>u_in := plus_numbers (u_in used) (u_in event),
          u_out := plus_numbers (u_out used) (u_out event),
          u_by_model := (case u_by_model event of None \<Rightarrow> u_by_model used
             | Some m \<Rightarrow> add_tokens_by_model (u_by_model used) (Some m)),
          u_currency := (case u_currency event of None \<Rightarrow> u_currency used
             | Some m \<Rightarrow> Some (foldl add_currency (items (u_currency used)) m)),
          u_quota := plus_numbers (u_quota used) (u_quota event),
          u_compute := plus_numbers (u_compute used) (u_compute event),
          u_storage := plus_numbers (u_storage used) (u_storage event),
          u_class := (case u_class event of None \<Rightarrow> u_class used | Some c \<Rightarrow> Some c),
          u_turns := plus_numbers (u_turns used) (u_turns event),
          u_compression := (case u_compression event of None \<Rightarrow> u_compression used
             | Some z \<Rightarrow> (case u_compression used of None \<Rightarrow> Some z | Some h \<Rightarrow> Some (compression_plus h z)))\<rparr>"

definition consumption_of :: "quantities \<Rightarrow> quantities option" where
  "consumption_of used = (if present_quantities used = [] then None else Some used)"

definition used_before :: "quantities option \<Rightarrow> quantities" where
  "used_before before = (case before of None \<Rightarrow> no_quantities | Some q \<Rightarrow> accumulate no_quantities q)"

subsection \<open>Ends of a wait\<close>

text \<open>\<open>_StepFailed\<close>.\<close>

record step_failure =
  sf_reason :: string
  sf_retryable :: "bool option"
  sf_consumption :: "quantities option"
  sf_adapter :: "string option"
  sf_outcome :: string
  sf_lack :: "(string \<times> string) option"
  sf_interface :: "string option"
  sf_not_found :: bool
  sf_moves :: bool
  sf_frame :: "string option"
  sf_held :: "string option"

definition failed_with :: "string \<Rightarrow> bool option \<Rightarrow> quantities option \<Rightarrow> string option \<Rightarrow> string \<Rightarrow> step_failure" where
  "failed_with reason retryable used adapter out =
     \<lparr>sf_reason = reason, sf_retryable = retryable, sf_consumption = used, sf_adapter = adapter, sf_outcome = out,
      sf_lack = None, sf_interface = None, sf_not_found = False, sf_moves = False, sf_frame = None, sf_held = None\<rparr>"

datatype wait_end =
    Wait_Over "quantities option"
  | Wait_Parked moment "quantities option"
  | Wait_Stopped string "quantities option"
  | Wait_Failed step_failure

subsection \<open>A wait on the clock\<close>

definition waited_so_far :: "moment \<Rightarrow> step_run \<Rightarrow> bool \<Rightarrow> rat" where
  "waited_so_far now s resumed =
     (case sr_block s of
        None \<Rightarrow> 0
      | Some b \<Rightarrow> if resumed then max 0 (of_int (now - ob_since b) / 1000000) else 0)"

definition wait_for :: "rat option \<Rightarrow> moment \<Rightarrow> step_run \<Rightarrow> rat \<Rightarrow> bool \<Rightarrow> wait_end" where
  "wait_for park now s seconds resumed =
     (let left = seconds - waited_so_far now s resumed
      in if left \<le> 0 then Wait_Over None
         else case park of
                None \<Rightarrow> Wait_Over None
              | Some limit \<Rightarrow>
                  if left > limit
                  then Wait_Parked (after_seconds (case sr_block s of Some b \<Rightarrow> ob_since b | None \<Rightarrow> now) seconds) None
                  else Wait_Over None)"

subsection \<open>A wait on an outside state\<close>

record wait_until =
  wu_select :: string
  wu_expect :: "json list"
  wu_poll :: rat
  wu_timeout :: rat

definition wait_until_ok :: "wait_until \<Rightarrow> bool" where
  "wait_until_ok u \<longleftrightarrow> wu_select u \<noteq> [] \<and> wu_expect u \<noteq> [] \<and> wu_poll u > 0 \<and> wu_timeout u > 0"

text \<open>What one check answers: the selected part of the output (\<open>None\<close> of Python where it is not there)
  and what the check used, a refusal, or that the connector is stopped.\<close>

datatype check =
    Check_Read json quantities
  | Check_Refused step_failure
  | Check_Stopped string

record wait_world =
  ww_check :: "nat \<Rightarrow> check"
  ww_now :: "nat \<Rightarrow> moment"
  ww_same :: "json \<Rightarrow> json \<Rightarrow> bool"
  ww_said :: "rat \<Rightarrow> json option \<Rightarrow> string"

text \<open>How one check is read: an end, or what was observed with what was used.\<close>

definition read_check :: "check \<Rightarrow> quantities \<Rightarrow> wait_end + json option \<times> quantities" where
  "read_check c used =
     (case c of
        Check_Stopped a \<Rightarrow> Inl (Wait_Stopped a (consumption_of used))
      | Check_Refused f \<Rightarrow>
          if \<not> sf_not_found f then Inl (Wait_Failed f)
          else Inr (None, case sf_consumption f of None \<Rightarrow> used | Some q \<Rightarrow> accumulate used q)
      | Check_Read v q \<Rightarrow> Inr (Some v, accumulate used q))"

definition expected :: "wait_world \<Rightarrow> wait_until \<Rightarrow> json option \<Rightarrow> bool" where
  "expected w u observed \<longleftrightarrow>
     (case observed of None \<Rightarrow> False | Some v \<Rightarrow> list_ex (ww_same w v) (wu_expect u))"

text \<open>What follows one reading, before the sleep: an end, or what was used so far.\<close>

definition after_check ::
  "wait_world \<Rightarrow> wait_until \<Rightarrow> rat option \<Rightarrow> string \<Rightarrow> nat \<Rightarrow> rat \<Rightarrow> quantities \<Rightarrow> wait_end + quantities" where
  "after_check w u park adapter k waited used =
     (case read_check (ww_check w k) used of
        Inl e \<Rightarrow> Inl e
      | Inr (observed, used') \<Rightarrow>
          if expected w u observed then Inl (Wait_Over (consumption_of used'))
          else if waited \<ge> wu_timeout u then
            Inl (Wait_Failed (failed_with (ww_said w waited observed) (Some True) (consumption_of used') (Some adapter)
                   ''wait timed out''))
          else if (case park of None \<Rightarrow> False | Some limit \<Rightarrow> wu_poll u > limit) then
            Inl (Wait_Parked (after_seconds (ww_now w k) (wu_poll u)) (consumption_of used'))
          else Inr used')"

partial_function (option) wait_loop ::
  "wait_world \<Rightarrow> wait_until \<Rightarrow> rat option \<Rightarrow> string \<Rightarrow> nat \<Rightarrow> rat \<Rightarrow> quantities \<Rightarrow> wait_end option" where
  "wait_loop w u park adapter k waited used =
     (case after_check w u park adapter k waited used of
        Inl e \<Rightarrow> Some e
      | Inr used' \<Rightarrow> wait_loop w u park adapter (Suc k) (waited + wu_poll u) used')"

definition wait_on_state ::
  "wait_world \<Rightarrow> wait_until \<Rightarrow> rat option \<Rightarrow> string \<Rightarrow> moment \<Rightarrow> step_run \<Rightarrow> bool \<Rightarrow> quantities option \<Rightarrow> wait_end option" where
  "wait_on_state w u park adapter now s resumed before =
     wait_loop w u park adapter 0 (waited_so_far now s resumed) (used_before before)"

subsection \<open>The loop ends\<close>

lemma after_check_cong: "ww_check w k = ww_check w' k \<Longrightarrow> ww_now w k = ww_now w' k \<Longrightarrow> ww_same w = ww_same w' \<Longrightarrow>
    ww_said w = ww_said w' \<Longrightarrow> after_check w u park a k t q = after_check w' u park a k t q"
  by (simp add: after_check_def expected_def split: sum.split prod.split option.split)

lemma after_check_timeout: "waited \<ge> wu_timeout u \<Longrightarrow> \<exists>e. after_check w u park a k waited used = Inl e"
  by (auto simp: after_check_def split: sum.split prod.split)

text \<open>Two outside worlds that answer the same up to some check.\<close>

definition same_until :: "nat \<Rightarrow> wait_world \<Rightarrow> wait_world \<Rightarrow> bool" where
  "same_until n w w' \<longleftrightarrow> ww_same w = ww_same w' \<and> ww_said w = ww_said w'
     \<and> (\<forall>k \<le> n. ww_check w k = ww_check w' k \<and> ww_now w k = ww_now w' k)"

lemma wait_loop_stop: "after_check w u park a k t q = Inl e \<Longrightarrow> wait_loop w u park a k t q = Some e"
  by (simp add: wait_loop.simps)

lemma wait_loop_go: "after_check w u park a k t q = Inr q' \<Longrightarrow>
    wait_loop w u park a k t q = wait_loop w u park a (Suc k) (t + wu_poll u) q'"
  by (simp add: wait_loop.simps [of w u park a k])

lemma wait_loop_ends:
  assumes "wu_poll u > 0" "waited + of_nat n * wu_poll u \<ge> wu_timeout u"
  shows "\<exists>e. \<forall>w'. same_until (k + n) w w' \<longrightarrow> wait_loop w' u park a k waited used = Some e"
  using assms(2)
proof (induction n arbitrary: k waited used)
  case 0
  then obtain e where e: "after_check w u park a k waited used = Inl e" using after_check_timeout by fastforce
  have "wait_loop w' u park a k waited used = Some e" if "same_until (k + 0) w w'" for w'
  proof (rule wait_loop_stop)
    show "after_check w' u park a k waited used = Inl e"
      using that after_check_cong [of w k w' u park a waited used] e by (simp add: same_until_def)
  qed
  then show ?case by blast
next
  case (Suc n)
  have at_k: "after_check w' u park a k waited used = after_check w u park a k waited used"
    if "same_until (k + Suc n) w w'" for w'
    using that after_check_cong [of w k w' u park a waited used] by (simp add: same_until_def)
  show ?case
  proof (cases "after_check w u park a k waited used")
    case (Inl e)
    then have "wait_loop w' u park a k waited used = Some e" if "same_until (k + Suc n) w w'" for w'
      using at_k [OF that] by (intro wait_loop_stop) simp
    then show ?thesis by blast
  next
    case (Inr q)
    have "waited + wu_poll u + of_nat n * wu_poll u \<ge> wu_timeout u"
      using Suc.prems by (simp add: algebra_simps)
    from Suc.IH [OF this, of "Suc k" q] obtain e where
      e: "\<forall>w'. same_until (Suc k + n) w w' \<longrightarrow> wait_loop w' u park a (Suc k) (waited + wu_poll u) q = Some e" by blast
    have "wait_loop w' u park a k waited used = Some e" if "same_until (k + Suc n) w w'" for w'
      using e that at_k [OF that] Inr by (simp add: wait_loop_go)
    then show ?thesis by blast
  qed
qed

text \<open>C9: a wait on an outside state ends, whatever its checks answer, and it makes no more checks than
  its timeout holds poll intervals, and one: how it ends is decided by those answers alone.\<close>

theorem wait_ends_within_its_timeout:
  assumes "wait_until_ok u" "of_nat n * wu_poll u \<ge> wu_timeout u"
  shows "\<exists>e. \<forall>w'. same_until n w w' \<longrightarrow> wait_on_state w' u park adapter now s resumed before = Some e"
proof -
  have "0 \<le> waited_so_far now s resumed" by (simp add: waited_so_far_def split: option.split)
  then have "waited_so_far now s resumed + of_nat n * wu_poll u \<ge> wu_timeout u" using assms(2) by linarith
  from wait_loop_ends [OF _ this, of 0 w park adapter "used_before before"] assms(1) show ?thesis
    by (simp add: wait_on_state_def wait_until_ok_def)
qed

subsection \<open>What a wait counts\<close>

definition use_of_check :: "check \<Rightarrow> quantities list" where
  "use_of_check c =
     (case c of
        Check_Read v q \<Rightarrow> [q]
      | Check_Refused f \<Rightarrow> (case sf_consumption f of None \<Rightarrow> [] | Some q \<Rightarrow> [q])
      | Check_Stopped a \<Rightarrow> [])"

definition use_of_checks :: "wait_world \<Rightarrow> nat \<Rightarrow> nat \<Rightarrow> quantities list" where
  "use_of_checks w k n = concat (map (\<lambda>i. use_of_check (ww_check w i)) [k..<k + n])"

lemma use_of_checks_Suc: "use_of_checks w k (Suc n) = use_of_check (ww_check w k) @ use_of_checks w (Suc k) n"
  by (simp add: use_of_checks_def upt_conv_Cons del: upt_Suc)

lemma after_check_Inr: "after_check w u park a k t q = Inr q' \<Longrightarrow> q' = foldl accumulate q (use_of_check (ww_check w k))"
  by (auto simp: after_check_def read_check_def use_of_check_def split: check.splits option.splits if_splits)

definition counts_use :: "wait_end \<Rightarrow> quantities \<Rightarrow> bool" where
  "counts_use e used \<longleftrightarrow>
     (case e of
        Wait_Over c \<Rightarrow> c = consumption_of used
      | Wait_Parked t c \<Rightarrow> c = consumption_of used
      | Wait_Stopped a c \<Rightarrow> c = consumption_of used
      | Wait_Failed f \<Rightarrow> sf_outcome f = ''wait timed out'' \<and> sf_consumption f = consumption_of used)"

lemma after_check_Inl: "after_check w u park a k t q = Inl e \<Longrightarrow>
    counts_use e (foldl accumulate q (use_of_check (ww_check w k)))
    \<or> (\<exists>f. ww_check w k = Check_Refused f \<and> \<not> sf_not_found f \<and> e = Wait_Failed f)"
  by (auto simp: after_check_def read_check_def use_of_check_def counts_use_def failed_with_def
      split: check.splits option.splits if_splits)

definition how_it_counts :: "wait_world \<Rightarrow> nat \<Rightarrow> quantities \<Rightarrow> wait_end \<Rightarrow> nat \<Rightarrow> bool" where
  "how_it_counts w k used e n \<longleftrightarrow> counts_use e (foldl accumulate used (use_of_checks w k n))
    \<or> (\<exists>f. ww_check w (k + n) = Check_Refused f \<and> \<not> sf_not_found f \<and> e = Wait_Failed f)"

lemma stop_counts: "after_check w u park a k t q = Inl e \<Longrightarrow> \<exists>n. how_it_counts w k q e n"
proof -
  assume "after_check w u park a k t q = Inl e"
  from after_check_Inl [OF this] have "how_it_counts w k q e (Suc 0) \<or> how_it_counts w k q e 0"
    by (auto simp: how_it_counts_def use_of_checks_def)
  then show ?thesis by blast
qed

lemma wait_loop_counts:
  assumes "wait_loop w u park a k waited used = Some e" "waited + of_nat m * wu_poll u \<ge> wu_timeout u"
  shows "\<exists>n. how_it_counts w k used e n"
  using assms
proof (induction m arbitrary: k waited used)
  case 0
  then obtain e' where e': "after_check w u park a k waited used = Inl e'" using after_check_timeout by fastforce
  with wait_loop_stop [OF e'] 0 have "e' = e" by simp
  with stop_counts [OF e'] show ?case by simp
next
  case (Suc m)
  show ?case
  proof (cases "after_check w u park a k waited used")
    case (Inl e')
    with wait_loop_stop [OF Inl] Suc.prems have "e' = e" by simp
    with stop_counts [OF Inl] show ?thesis by simp
  next
    case (Inr q)
    have "wait_loop w u park a (Suc k) (waited + wu_poll u) q = Some e"
      using Suc.prems(1) wait_loop_go [OF Inr] by simp
    moreover have "wu_timeout u \<le> waited + wu_poll u + of_nat m * wu_poll u"
      using Suc.prems(2) by (simp add: algebra_simps)
    ultimately obtain n where "how_it_counts w (Suc k) q e n" using Suc.IH by blast
    then have "how_it_counts w k used e (Suc n)"
      by (simp add: how_it_counts_def use_of_checks_Suc after_check_Inr [OF Inr])
    then show ?thesis by blast
  qed
qed

text \<open>what a wait's checks used is counted, the parks before it included: a wait that reached its
  state, ran out, parked or was stopped carries the sum of what every check used. The one end that
  does not is a check that is refused: the step carries what the refusal says, and nothing else.\<close>

theorem wait_counts_what_its_checks_used:
  assumes "wait_until_ok u" "wait_on_state w u park adapter now s resumed before = Some e"
  shows "\<exists>n. counts_use e (foldl accumulate (used_before before) (use_of_checks w 0 n))
    \<or> (\<exists>f. ww_check w n = Check_Refused f \<and> \<not> sf_not_found f \<and> e = Wait_Failed f)"
proof -
  have pos: "wu_poll u > 0" using assms(1) by (simp add: wait_until_ok_def)
  obtain m :: nat where "(wu_timeout u - waited_so_far now s resumed) / wu_poll u \<le> of_nat m"
    using real_arch_simple [of "(wu_timeout u - waited_so_far now s resumed) / wu_poll u"] by blast
  then have "waited_so_far now s resumed + of_nat m * wu_poll u \<ge> wu_timeout u"
    using pos by (simp add: divide_le_eq)
  from wait_loop_counts [OF assms(2) [unfolded wait_on_state_def] this] show ?thesis
    by (simp add: how_it_counts_def)
qed

text \<open>C26: a check that is refused for anything but \<open>not_found\<close> ends the wait with what that one call used:
  what the checks before it used, and what an earlier park carried, is counted nowhere.\<close>

theorem refused_check_forgets_what_was_used:
  assumes "wait_until_ok u" "\<And>i. i < n \<Longrightarrow> \<exists>v q. ww_check w i = Check_Read v q \<and> \<not> expected w u (Some v)"
    and "of_nat n * wu_poll u \<le> wu_timeout u" "case park of None \<Rightarrow> True | Some limit \<Rightarrow> wu_poll u \<le> limit"
    and "ww_check w n = Check_Refused f" "\<not> sf_not_found f"
  shows "wait_on_state w u park adapter now s False before = Some (Wait_Failed f)"
proof -
  have pos: "wu_poll u > 0" using assms(1) by (simp add: wait_until_ok_def)
  have "wait_loop w u park adapter k (of_nat k * wu_poll u) used = Some (Wait_Failed f)" if "k + m = n" for k m used
    using that
  proof (induction m arbitrary: k used)
    case 0
    then show ?case using assms(5,6) by (intro wait_loop_stop) (simp add: after_check_def read_check_def)
  next
    case (Suc m)
    then obtain v q where v: "ww_check w k = Check_Read v q" "\<not> expected w u (Some v)" using assms(2) [of k] by auto
    have "of_nat k * wu_poll u < of_nat n * wu_poll u" using Suc.prems pos by (intro mult_strict_right_mono) simp_all
    then have "\<not> wu_timeout u \<le> of_nat k * wu_poll u" using assms(3) by linarith
    then have "after_check w u park adapter k (of_nat k * wu_poll u) used = Inr (accumulate used q)"
      using v assms(4) by (auto simp: after_check_def read_check_def split: option.splits)
    from wait_loop_go [OF this] Suc.IH [of "Suc k" "accumulate used q"] Suc.prems show ?case
      by (simp add: algebra_simps)
  qed
  from this [of 0 n] show ?thesis by (simp add: wait_on_state_def waited_so_far_def split: option.split)
qed

subsection \<open>A concrete wait\<close>

definition sample_until :: wait_until where
  "sample_until = \<lparr>wu_select = ''state'', wu_expect = [JStr ''closed''], wu_poll = 30, wu_timeout = 60\<rparr>"

definition unreachable :: step_failure where
  "unreachable = failed_with ''unreachable'' (Some True) None (Some ''tracker'') ''connector unreachable''"

definition sample_world :: wait_world where
  "sample_world = \<lparr>ww_check = (\<lambda>k. if k = 0 then Check_Read (JStr ''open'') (no_quantities\<lparr>u_in := Some 5\<rparr>) else Check_Refused unreachable),
     ww_now = (\<lambda>k. int k * 30000000), ww_same = (=), ww_said = (\<lambda>t v. ''waited'')\<rparr>"

definition patient_world :: wait_world where
  "patient_world = sample_world\<lparr>ww_check := (\<lambda>k. Check_Read (JStr (if k = 0 then ''open'' else ''closed'')) (no_quantities\<lparr>u_in := Some 5\<rparr>))\<rparr>"

lemma sample_until_ok: "wait_until_ok sample_until"
  by (simp add: sample_until_def wait_until_ok_def)

theorem wait_ends_within_its_timeout_witness:
  "\<exists>e. wait_on_state sample_world sample_until None ''tracker'' 0 (new_step_run sample_step 0) False None = Some e"
  using wait_ends_within_its_timeout [OF sample_until_ok, of 2 sample_world None "''tracker''" 0 "new_step_run sample_step 0" False None]
  by (auto simp: sample_until_def same_until_def)

lemma patient_wait: "wait_on_state patient_world sample_until None ''tracker'' 0 (new_step_run sample_step 0) False None
    = Some (Wait_Over (Some (no_quantities\<lparr>u_in := Some 10\<rparr>)))"
proof -
  have one: "after_check patient_world sample_until None ''tracker'' 0 0 no_quantities = Inr (no_quantities\<lparr>u_in := Some 5\<rparr>)"
    by (simp add: after_check_def read_check_def expected_def patient_world_def sample_world_def sample_until_def
        accumulate_def plus_numbers_def no_quantities_def)
  have two: "after_check patient_world sample_until None ''tracker'' 1 30 (no_quantities\<lparr>u_in := Some 5\<rparr>)
      = Inl (Wait_Over (Some (no_quantities\<lparr>u_in := Some 10\<rparr>)))"
    by (simp add: after_check_def read_check_def expected_def patient_world_def sample_world_def sample_until_def
        accumulate_def plus_numbers_def no_quantities_def consumption_of_def present_quantities_def)
  have start: "waited_so_far 0 (new_step_run sample_step 0) False = 0" "used_before None = no_quantities"
    by (simp_all add: waited_so_far_def used_before_def new_step_run_def)
  have poll: "wu_poll sample_until = 30" by (simp add: sample_until_def)
  show ?thesis using wait_loop_go [OF one] wait_loop_stop [OF two] by (simp add: wait_on_state_def start poll)
qed

theorem wait_counts_what_its_checks_used_witness:
  "\<exists>n. Some (no_quantities\<lparr>u_in := Some 10\<rparr>) = consumption_of (foldl accumulate (used_before None) (use_of_checks patient_world 0 n))"
  using wait_counts_what_its_checks_used [OF sample_until_ok patient_wait] by (simp add: counts_use_def)

theorem refused_check_forgets_what_was_used_witness:
  "wait_on_state sample_world sample_until None ''tracker'' 0 (new_step_run sample_step 0) False (Some (no_quantities\<lparr>u_in := Some 7\<rparr>))
    = Some (Wait_Failed unreachable)"
  by (rule refused_check_forgets_what_was_used [OF sample_until_ok, where n = 1])
    (simp_all add: sample_world_def sample_until_def unreachable_def failed_with_def expected_def)

end
