(* ===== verification/Run_Asking.thy ===== *)
theory Run_Asking
  imports Run_Waiting Run_Commit
begin

text \<open>
  One question to a model (\<open>execute_run.py\<close>, \<open>_llm_step\<close>): the route, the answer and what leaves the
  step. What the model answers is an argument; so are the search of the step's pattern, whether a text
  is a model's name, and the adapters that are stopped. The prompt that is sent is left out.
\<close>

subsection \<open>How evaluating a step ends\<close>

text \<open>\<open>_AtLimit\<close>.\<close>

record limited =
  lm_adapter :: string
  lm_reason :: string
  lm_retry_after :: "rat option"
  lm_moves :: bool

text \<open>A value with what was read for it, or one of the exceptions \<open>_local_step\<close> takes.\<close>

datatype evaluation =
    Ev_Value json step_trace "quantities option" "string option"
  | Ev_Waited "quantities option" "string option"
  | Ev_At_Limit limited
  | Ev_Parked moment "quantities option"
  | Ev_Stopped string "quantities option"
  | Ev_Rule_Failed string
  | Ev_Checks_Failed string "quantities option"
  | Ev_To_Approve "quantities option"
  | Ev_Failed step_failure

definition evaluation_of_wait :: "string option \<Rightarrow> wait_end \<Rightarrow> evaluation" where
  "evaluation_of_wait adapter e =
     (case e of
        Wait_Over q \<Rightarrow> Ev_Waited q adapter
      | Wait_Parked t q \<Rightarrow> Ev_Parked t q
      | Wait_Stopped a q \<Rightarrow> Ev_Stopped a q
      | Wait_Failed f \<Rightarrow> Ev_Failed f)"

subsection \<open>The question\<close>

record llm_work =
  lw_purpose :: string
  lw_max_output :: int
  lw_pattern :: "string option"

datatype finish = FINISH_STOP | FINISH_LENGTH | FINISH_OTHER

record completion =
  cn_text :: string
  cn_model :: string
  cn_tokens_in :: int
  cn_tokens_out :: int
  cn_by_kind :: "price_kinds option"
  cn_finish :: finish

text \<open>\<open>ModelAtLimit\<close> carries the provider's delay; every other \<open>ModelError\<close> only its message.\<close>

datatype model_answer =
    Completed completion
  | At_Provider_Limit string "rat option"
  | Model_Failed string

record model_world =
  mw_answer :: "string \<Rightarrow> model_answer"
  mw_search :: "string \<Rightarrow> string \<Rightarrow> bool"
  mw_is_name :: "string \<Rightarrow> bool"
  mw_stopped :: "string list"
  mw_cool_down :: rat

definition no_trace :: step_trace where
  "no_trace = \<lparr>tr_inputs = [], tr_adapter_version = None, tr_egress = None, tr_rehearsed = False, tr_route = None,
     tr_message = None\<rparr>"

definition completion_used :: "(string \<Rightarrow> bool) \<Rightarrow> completion \<Rightarrow> quantities" where
  "completion_used is_name c = no_quantities\<lparr>u_in := Some (cn_tokens_in c), u_out := Some (cn_tokens_out c),
     u_by_model := (case cn_by_kind c of None \<Rightarrow> None | Some k \<Rightarrow> if is_name (cn_model c) then Some [(cn_model c, k)] else None)\<rparr>"

definition NO_MODEL :: string where "NO_MODEL = '' (TAKTUS_MODELS, TAKTUS_MODEL_ENDPOINT, TAKTUS_MODEL_NAME)''"

definition cut_off :: "int \<Rightarrow> string" where
  "cut_off n = ''the model stopped at the output limit of '' @ show_int n
     @ '' tokens; the answer is cut off and does not leave the step''"

definition unmatched :: "string \<Rightarrow> string" where
  "unmatched p = ''the model'' @ [CHR 0x27] @ ''s answer does not match '' @ repr_text p
     @ ''; nothing leaves the step (a variable method proposes, the check decides)''"

definition all_cooling :: "string \<Rightarrow> string" where
  "all_cooling purpose = ''every model of the purpose '' @ repr_text purpose
     @ '' that fits the step is cooling down after a rate limit or a failure''"

text \<open>What leaves the step of an answer.\<close>

definition take_answer ::
  "model_world \<Rightarrow> llm_work \<Rightarrow> provenance_input list \<Rightarrow> model_route \<Rightarrow> string \<Rightarrow> completion \<Rightarrow> evaluation" where
  "take_answer w work read routed adapter c =
     (let used = Some (completion_used (mw_is_name w) c)
      in if cn_finish c = FINISH_LENGTH then
           Ev_Failed (failed_with (cut_off (lw_max_output work)) (Some True) used (Some adapter) ''answer cut off'')
         else if (case lw_pattern work of None \<Rightarrow> False | Some p \<Rightarrow> \<not> mw_search w p (cn_text c)) then
           Ev_Failed (failed_with (unmatched (the (lw_pattern work))) (Some True) used (Some adapter) ''answer failed the check'')
         else Ev_Value (JObj [(''text'', JStr (cn_text c)), (''model'', JStr (cn_model c))])
                (no_trace\<lparr>tr_inputs := read, tr_adapter_version := Some (cn_model c), tr_route := route_record routed\<rparr>)
                used (Some adapter))"

text \<open>\<open>_llm_step\<close>: how it ends, the cool-downs after it, and whether the model answered. The clock is read
  when it starts and when its answer is there.\<close>

definition llm_step ::
  "model_world \<Rightarrow> resolved_model list \<Rightarrow> route_needs \<Rightarrow> llm_work \<Rightarrow> (provenance_input list) \<Rightarrow> moment \<Rightarrow> moment \<Rightarrow>
   (string \<rightharpoonup> moment) \<Rightarrow> evaluation \<times> (string \<rightharpoonup> moment) \<times> bool" where
  "llm_step w chain n work read now now' cooling =
     (let routed = route_chain chain n cooling now
      in case mr_chosen routed of
           None \<Rightarrow>
             (case mr_fitting routed of
                Some m \<Rightarrow> (Ev_At_Limit \<lparr>lm_adapter = rm_adapter m, lm_reason = all_cooling (lw_purpose work),
                    lm_retry_after = cooling_wait routed cooling now, lm_moves = False\<rparr>, cooling, False)
              | None \<Rightarrow> (Ev_Failed (failed_with (why_none routed @ NO_MODEL) (Some True) None None ''no model''), cooling, False))
         | Some m \<Rightarrow>
             if rm_adapter m \<in> set (mw_stopped w) then (Ev_Stopped (rm_adapter m) None, cooling, False)
             else (case mw_answer w (rm_adapter m) of
                 Completed c \<Rightarrow> (take_answer w work read routed (rm_adapter m) c, cooling, True)
               | At_Provider_Limit reason delay \<Rightarrow>
                   (case cool (mw_cool_down w) chain n (rm_adapter m) delay now' now' cooling of (goes, cooling') \<Rightarrow>
                      (Ev_At_Limit \<lparr>lm_adapter = rm_adapter m, lm_reason = reason, lm_retry_after = delay, lm_moves = goes\<rparr>,
                       cooling', False))
               | Model_Failed reason \<Rightarrow>
                   (case cool (mw_cool_down w) chain n (rm_adapter m) None now' now' cooling of (goes, cooling') \<Rightarrow>
                      (Ev_Failed ((failed_with reason (Some True) None (Some (rm_adapter m)) ''model unavailable'')\<lparr>sf_moves := goes\<rparr>),
                       cooling', False))))"

text \<open>Whether an evaluation sends the step back to its boundary to move along the chain.\<close>

definition ev_moves :: "evaluation \<Rightarrow> bool" where
  "ev_moves e = (case e of Ev_At_Limit l \<Rightarrow> lm_moves l | Ev_Failed f \<Rightarrow> sf_moves f | _ \<Rightarrow> False)"

subsection \<open>What a question promises\<close>

text \<open>How a question that cools a model down ends.\<close>

lemma llm_step_cases:
  assumes "llm_step w chain n work read now now' cooling = (e, cooling', answered)"
  obtains (quiet) "cooling' = cooling" "\<not> ev_moves e"
  | (cooled) m delay goes where "mr_chosen (route_chain chain n cooling now) = Some m"
      "cool (mw_cool_down w) chain n (rm_adapter m) delay now' now' cooling = (goes, cooling')"
      "ev_moves e = goes" "\<not> answered"
      
      "delay = None \<or> (\<exists>reason. mw_answer w (rm_adapter m) = At_Provider_Limit reason delay)"
proof (cases "mr_chosen (route_chain chain n cooling now)")
  case None
  then show ?thesis using assms
    by (intro quiet) (auto simp: llm_step_def Let_def ev_moves_def failed_with_def split: option.splits)
next
  case (Some m)
  show ?thesis
  proof (cases "rm_adapter m \<in> set (mw_stopped w)")
    case True
    with Some assms show ?thesis by (intro quiet) (auto simp: llm_step_def ev_moves_def)
  next
    case False
    show ?thesis
    proof (cases "mw_answer w (rm_adapter m)")
      case (Completed c)
      with Some False assms show ?thesis
        by (intro quiet) (auto simp: llm_step_def ev_moves_def take_answer_def Let_def failed_with_def split: if_splits)
    next
      case (At_Provider_Limit reason delay)
      obtain goes c' where c: "cool (mw_cool_down w) chain n (rm_adapter m) delay now' now' cooling = (goes, c')"
        by (rule prod.exhaust)
      with Some False assms At_Provider_Limit have "cooling' = c'" "ev_moves e = goes" "\<not> answered"
        by (auto simp: llm_step_def ev_moves_def)
      with Some c At_Provider_Limit show ?thesis by (intro cooled) auto
    next
      case (Model_Failed reason)
      obtain goes c' where c: "cool (mw_cool_down w) chain n (rm_adapter m) None now' now' cooling = (goes, c')"
        by (rule prod.exhaust)
      with Some False assms Model_Failed have "cooling' = c'" "ev_moves e = goes" "\<not> answered"
        by (auto simp: llm_step_def ev_moves_def failed_with_def)
      with Some c Model_Failed show ?thesis by (intro cooled) auto
    qed
  qed
qed

text \<open>what leaves a step that asked a model came from the first model of its purpose's chain that
  fits, was not cut off at the output limit and holds the step's pattern; the tokens are counted whether
  the text leaves the step or not.\<close>

theorem answer_passes_its_check:
  assumes "llm_step w chain n work read now now' cooling = (Ev_Value v t used adapter, cooling', answered)"
  shows "\<exists>m c. mr_chosen (route_chain chain n cooling now) = Some m \<and> adapter = Some (rm_adapter m)
    \<and> mw_answer w (rm_adapter m) = Completed c \<and> rm_adapter m \<notin> set (mw_stopped w)
    \<and> cn_finish c \<noteq> FINISH_LENGTH \<and> (\<forall>p. lw_pattern work = Some p \<longrightarrow> mw_search w p (cn_text c))
    \<and> v = JObj [(''text'', JStr (cn_text c)), (''model'', JStr (cn_model c))]
    \<and> used = Some (completion_used (mw_is_name w) c) \<and> tr_adapter_version t = Some (cn_model c)
    \<and> tr_route t = route_record (route_chain chain n cooling now) \<and> tr_inputs t = read \<and> answered"
  using assms
  by (auto simp: llm_step_def take_answer_def Let_def no_trace_def split: option.splits if_splits model_answer.splits prod.splits)


definition answering_world :: model_world where
  "answering_world = \<lparr>mw_answer = (\<lambda>a. Completed \<lparr>cn_text = ''ok'', cn_model = ''model-a@1'', cn_tokens_in = 3, cn_tokens_out = 1,
       cn_by_kind = None, cn_finish = FINISH_STOP\<rparr>), mw_search = (\<lambda>p t. p = t), mw_is_name = (\<lambda>_. True), mw_stopped = [], mw_cool_down = 60\<rparr>"

definition asking_work :: llm_work where
  "asking_work = \<lparr>lw_purpose = ''draft'', lw_max_output = 100, lw_pattern = Some ''ok''\<rparr>"

lemma sample_answer:
  "\<exists>t used. llm_step answering_world sample_chain sample_needs asking_work [] 0 5 Map.empty
     = (Ev_Value (JObj [(''text'', JStr ''ok''), (''model'', JStr ''model-a@1'')]) t used (Some ''model-a''), Map.empty, True)"
proof -
  have "rm_adapter local_model = ''model-a''" by (simp add: local_model_def)
  then show ?thesis
    by (simp add: llm_step_def Let_def sample_chain_chosen answering_world_def take_answer_def asking_work_def)
qed

theorem answer_passes_its_check_witness:
  "\<exists>m. mr_chosen (route_chain sample_chain sample_needs Map.empty 0) = Some m \<and> Some ''model-a'' = Some (rm_adapter m)
     \<and> mw_search answering_world ''ok'' ''ok''"
proof -
  obtain t used where "llm_step answering_world sample_chain sample_needs asking_work [] 0 5 Map.empty
     = (Ev_Value (JObj [(''text'', JStr ''ok''), (''model'', JStr ''model-a@1'')]) t used (Some ''model-a''), Map.empty, True)"
    using sample_answer by blast
  from answer_passes_its_check [OF this] show ?thesis by (auto simp: asking_work_def)
qed

end
