(* ===== verification/Run_Local.thy ===== *)
theory Run_Local
  imports Run_Admit Run_Asking
begin

text \<open>
  A local step in the engine (\<open>execute_run.py\<close>, \<open>_local_step\<close>): a rule, a wait, a connector call or a
  question to a model, from its estimate to its end. What its adapters answer is an argument
  (\<open>local_answers\<close>): the demand, the standing of the adapter, the rule over repetition, the calls
  booked while it was evaluated and how the evaluation ended; everything the engine does with the
  answers is modelled. Spans are left out, and the clock is read once.
\<close>

subsection \<open>A pass over one run\<close>

text \<open>The engine's stores with what it remembers of the run it executes: the sets of run identifiers
  (\<open>_stop_requested\<close>, \<open>_at_capacity\<close> and so on) as whether they hold this run.\<close>

record session =
  ss_engine :: engine
  ss_stop_requested :: bool
  ss_at_capacity :: bool
  ss_parked :: bool
  ss_limit_halts :: bool
  ss_moving :: bool
  ss_immature :: bool
  ss_administering :: bool
  ss_repeating :: bool
  ss_declining :: bool
  ss_continued :: "string \<Rightarrow> nat"
  ss_taking_over :: "takeover_asked option"
  ss_answered :: "string list"
  ss_settled :: "string list"
  ss_stopped :: "repetition_stop list"
  ss_cooling :: "string \<rightharpoonup> moment"

type_synonym 'a doing = "session \<Rightarrow> (engine_error + 'a) \<times> session"

definition returns :: "'a \<Rightarrow> 'a doing" where
  "returns x ss = (Inr x, ss)"

definition bind_do :: "'a doing \<Rightarrow> ('a \<Rightarrow> 'b doing) \<Rightarrow> 'b doing" where
  "bind_do a f ss = (case a ss of (Inl e, ss') \<Rightarrow> (Inl e, ss') | (Inr x, ss') \<Rightarrow> f x ss')"

definition engine_do :: "'a action \<Rightarrow> 'a doing" where
  "engine_do a ss = (case a (ss_engine ss) of (x, st) \<Rightarrow> (x, ss\<lparr>ss_engine := st\<rparr>))"

definition note_do :: "(session \<Rightarrow> session) \<Rightarrow> 'a doing \<Rightarrow> 'a doing" where
  "note_do f a ss = a (f ss)"

text \<open>The step run is stored in its run with one entry that says its outcome.\<close>

definition commit_step ::
  "engine_env \<Rightarrow> moment \<Rightarrow> string \<Rightarrow> string \<Rightarrow> run \<Rightarrow> step_run \<Rightarrow> (run \<times> step_run) action" where
  "commit_step env now kind out r s =
     andThen (commit_run env now (with_step_run r s) (commit_of (Some (step_entry kind s (Some out)))))
       (\<lambda>r'. done_with (r', s))"

text \<open>A step moved to a state and committed.\<close>

definition move_step ::
  "engine_env \<Rightarrow> moment \<Rightarrow> step_state \<Rightarrow> (step_run \<Rightarrow> step_run) \<Rightarrow> string \<Rightarrow> string \<Rightarrow> run \<Rightarrow> step_run \<Rightarrow>
   (run \<times> step_run) action" where
  "move_step env now state f kind out r s =
     andThen (of_run (step_to s state f)) (\<lambda>s'. commit_step env now kind out r s')"

subsection \<open>Ends before the call\<close>

definition at_stopped_adapter ::
  "engine_env \<Rightarrow> moment \<Rightarrow> string \<Rightarrow> quantities option \<Rightarrow> bool \<Rightarrow> run \<Rightarrow> step_run \<Rightarrow> (run \<times> step_run) doing" where
  "at_stopped_adapter env now adapter used handed r s =
     note_do (\<lambda>ss. ss\<lparr>ss_stop_requested := True\<rparr>)
       (let s1 = (case sr_block s of
                    Some b \<Rightarrow> if sr_state s = S_RUNNING then s\<lparr>sr_block := Some (b\<lparr>ob_next_check_at := Some now\<rparr>)\<rparr> else s
                  | None \<Rightarrow> s)
        in engine_do (move_step env now S_STOPPED
             (\<lambda>x. x\<lparr>sr_adapter := Some adapter,
                sr_consumption := (case used of None \<Rightarrow> sr_consumption s1 | Some q \<Rightarrow> Some q),
                sr_reason := Some (''the adapter '' @ adapter @ (if handed then '' is stopped: the step was not handed to it''
                   else '' is stopped: the step stopped before calling it'')),
                sr_finished_at := Some now\<rparr>) FINISHED ''stopped'' r s1))"

definition refuse_unverified ::
  "engine_env \<Rightarrow> moment \<Rightarrow> string \<Rightarrow> string \<Rightarrow> run \<Rightarrow> step_run \<Rightarrow> (run \<times> step_run) doing" where
  "refuse_unverified env now adapter reason r s =
     note_do (\<lambda>ss. ss\<lparr>ss_immature := True\<rparr>)
       (engine_do (move_step env now S_REJECTED (\<lambda>x. x\<lparr>sr_adapter := Some adapter, sr_reason := Some reason\<rparr>)
          ''step.rejected'' ''rejected_by_maturity'' r s))"

definition refuse_administering ::
  "engine_env \<Rightarrow> moment \<Rightarrow> string \<Rightarrow> run \<Rightarrow> step_run \<Rightarrow> (run \<times> step_run) doing" where
  "refuse_administering env now reason r s =
     note_do (\<lambda>ss. ss\<lparr>ss_administering := True\<rparr>)
       (engine_do (move_step env now S_REJECTED (\<lambda>x. x\<lparr>sr_reason := Some reason\<rparr>)
          ''step.rejected'' ''rejected_by_administration'' r s))"

text \<open>\<open>Stop.document\<close> and \<open>Stop.rule\<close>.\<close>

definition rule_text :: "limit_rule \<Rightarrow> string" where
  "rule_text l = (case l of CALLS \<Rightarrow> ''calls'' | MODEL_CALLS \<Rightarrow> ''model_calls'')"

definition stop_document :: "repetition_stop \<Rightarrow> run \<Rightarrow> string \<Rightarrow> (string \<times> json) list" where
  "stop_document p r sid =
     [(''rule'', JStr (''repetition.'' @ rule_text (rp_rule p))), (''run_id'', JStr (run_id r)), (''step_id'', JStr sid),
      (''process_version'', JStr (run_process_version r)), (''action'', JStr (rp_action p)),
      (''count'', JInt (int (rp_count p))), (''limit'', JInt (int (rp_limit p)))]"

definition REPETITION_STOPPED :: string where "REPETITION_STOPPED = ''repetition.stopped''"
definition REPETITION_REJECTED :: string where "REPETITION_REJECTED = ''rejected_by_repetition''"

definition stop_reason :: "repetition_stop \<Rightarrow> string \<Rightarrow> string" where
  "stop_reason p sid =
     ''step '' @ repr_text sid @ (case rp_rule p of
         CALLS \<Rightarrow> '' called '' @ rp_action p @ '' with the same arguments ''
       | MODEL_CALLS \<Rightarrow> '' asked its model ('' @ rp_action p @ '') without a new tool result '')
     @ show_int (int (rp_count p)) @ '' time(s) in this run, and the tenant'' @ [CHR 0x27] @ ''s limit is ''
     @ show_int (int (rp_limit p)) @ '': ''
     @ (if rp_worker p then ''its worker is stopped at its next boundary by rule'' else ''stopped at its boundary by rule'')
     @ '', and an incident is raised (ADR-0132)''"

definition stop_repeating ::
  "engine_env \<Rightarrow> moment \<Rightarrow> repetition_stop \<Rightarrow> run \<Rightarrow> step_run \<Rightarrow> (run \<times> step_run) doing" where
  "stop_repeating env now p r s =
     note_do (\<lambda>ss. ss\<lparr>ss_repeating := True\<rparr>)
       (bind_do (engine_do (\<lambda>st.
          case put_object (ev_codec env) (dumps_spaced (JObj (stop_document p r (sr_step_id s)))) st of
            (d, st1) \<Rightarrow>
              andThen (of_run (step_to s S_REJECTED (\<lambda>x. x\<lparr>sr_reason := Some (stop_reason p (sr_step_id s))\<rparr>))) (\<lambda>s'.
              andThen (commit_run env now (with_step_run r s')
                         ((commit_of (Some (step_entry ''step.rejected'' s' (Some REPETITION_REJECTED))))
                            \<lparr>ca_after := [(step_entry REPETITION_STOPPED s' (Some (rule_text (rp_rule p))))\<lparr>ea_digest := Some d\<rparr>]\<rparr>))
                (\<lambda>r'. done_with (r', s'))) st1))
        (\<lambda>rs. note_do (\<lambda>ss. ss\<lparr>ss_stopped := ss_stopped ss @ [p]\<rparr>) (returns rs)))"

subsection \<open>Waiting at a limit and parking\<close>

definition AT_PROVIDER_LIMIT :: string where "AT_PROVIDER_LIMIT = ''at_provider_limit''"
definition WAITING_ON_CLOCK :: string where "WAITING_ON_CLOCK = ''waiting_on_clock''"
definition WAITING_ON_STATE :: string where "WAITING_ON_STATE = ''waiting_on_state''"

text \<open>\<open>waiting.details\<close>.\<close>

definition wait_details :: "string option \<Rightarrow> int \<Rightarrow> string \<Rightarrow> int \<Rightarrow> (string \<times> json) list" where
  "wait_details adapter waits how limit_s =
     [(''adapter'', (case adapter of None \<Rightarrow> JNull | Some a \<Rightarrow> JStr a)), (''waits'', JInt waits), (''ended'', JStr how),
      (''ceiling_seconds'', JInt limit_s)]"

text \<open>\<open>_ended\<close>: what the end of a local step's block adds to its record.\<close>

definition ended_details :: "int \<Rightarrow> step_run \<Rightarrow> string option \<Rightarrow> (string \<times> json) list" where
  "ended_details limit_s s answered_by =
     (case sr_block s of
        None \<Rightarrow> []
      | Some b \<Rightarrow>
          if ob_cause b \<noteq> AT_PROVIDER_LIMIT then []
          else wait_details (sr_adapter s) (sr_waits s) ''answered'' limit_s
             @ (case answered_by of
                  None \<Rightarrow> []
                | Some a \<Rightarrow> if Some a = sr_adapter s then [] else [(''answered_by'', JStr a)]))"

text \<open>Seconds as a float with no digit after the point.\<close>

definition seconds_text :: "rat \<Rightarrow> string" where
  "seconds_text x = show_int (half_even x)"

definition seconds_between :: "moment \<Rightarrow> moment \<Rightarrow> rat" where
  "seconds_between since now = of_int (now - since) / 1000000"

definition limit_failed :: "limited \<Rightarrow> moment \<Rightarrow> moment \<Rightarrow> int \<Rightarrow> int \<Rightarrow> bool \<Rightarrow> string" where
  "limit_failed l since now waits limit_s past =
     ''the provider of '' @ lm_adapter l @ '' ''
     @ (if past then ''stayed at its rate limit for '' @ seconds_text (seconds_between since now) @ ''s''
        else ''asks to be asked again in '' @ seconds_text (or0 (lm_retry_after l)) @ ''s, past the ceiling'')
     @ '', '' @ show_int waits @ '' times asked; the ceiling is '' @ show_int limit_s @ ''s: '' @ lm_reason l"

definition MOVING_ON :: string where
  "MOVING_ON = '' '' @ map char_of [226::nat, 128, 148] @ '' moving to the next model of the purpose'' @ [CHR 0x27] @ ''s chain''"

definition limit_waiting :: "(moment \<Rightarrow> string) \<Rightarrow> limited \<Rightarrow> moment \<Rightarrow> int \<Rightarrow> int \<Rightarrow> string" where
  "limit_waiting iso_text l since waits limit_s =
     ''waiting for the provider of '' @ lm_adapter l @ '' since '' @ iso_text since @ '' ('' @ show_int waits
     @ '' times asked; ceiling '' @ show_int limit_s @ ''s)'' @ (if lm_moves l then MOVING_ON else []) @ '': '' @ lm_reason l"

definition at_limit ::
  "engine_env \<Rightarrow> int \<Rightarrow> moment \<Rightarrow> limited \<Rightarrow> run \<Rightarrow> step_run \<Rightarrow> (run \<times> step_run) doing" where
  "at_limit env limit_s now l r s =
     note_do (\<lambda>ss. if lm_moves l then ss\<lparr>ss_moving := True\<rparr> else ss\<lparr>ss_at_capacity := True\<rparr>)
       (let since = (case sr_waiting_since s of None \<Rightarrow> now | Some t \<Rightarrow> t);
            waits = sr_waits s + 1;
            past = wait_over since now (of_int limit_s);
            named_past = (case lm_retry_after l of None \<Rightarrow> False
              | Some x \<Rightarrow> wait_over since (after_seconds now x) (of_int limit_s))
        in engine_do (andThen (open_block_step env now (block_from LIMIT_PROVIDER AT_PROVIDER_LIMIT since) r s) (\<lambda>(r1, s1).
             let s2 = s1\<lparr>sr_block := map_option (\<lambda>b. b\<lparr>ob_retry_after := lm_retry_after l\<rparr>) (sr_block s1),
                         sr_adapter := Some (lm_adapter l), sr_waiting_since := Some since, sr_waits := waits\<rparr>
             in if (past \<or> named_past) \<and> \<not> lm_moves l
                then andThen (close_block env now (wait_details (Some (lm_adapter l)) waits ''ceiling'' limit_s) r1 s2) (\<lambda>(r2, s3).
                       move_step env now S_FAILED
                         (\<lambda>x. x\<lparr>sr_reason := Some (limit_failed l since now waits limit_s past), sr_retryable := Some True,
                            sr_finished_at := Some now\<rparr>) FINISHED AT_PROVIDER_LIMIT r2 s3)
                else move_step env now S_STOPPED
                       (\<lambda>x. x\<lparr>sr_reason := Some (limit_waiting (ev_iso env) l since waits limit_s), sr_finished_at := Some now\<rparr>)
                       ''step.waiting'' AT_PROVIDER_LIMIT r1 s2)))"

definition park_step ::
  "engine_env \<Rightarrow> moment \<Rightarrow> moment \<Rightarrow> quantities option \<Rightarrow> run \<Rightarrow> step_run \<Rightarrow> (run \<times> step_run) doing" where
  "park_step env now check_at used r s =
     note_do (\<lambda>ss. ss\<lparr>ss_parked := True\<rparr>)
       (let s1 = s\<lparr>sr_block := map_option (\<lambda>b. b\<lparr>ob_next_check_at := Some check_at\<rparr>) (sr_block s)\<rparr>
        in engine_do (move_step env now S_STOPPED
             (\<lambda>x. x\<lparr>sr_consumption := used, sr_reason := Some (''waiting, parked until '' @ ev_iso env check_at),
                sr_finished_at := Some now\<rparr>)
             ''step.waiting'' (case sr_block s1 of None \<Rightarrow> ''parked'' | Some b \<Rightarrow> ob_cause b) r s1))"

subsection \<open>The act of a local step\<close>

text \<open>The work of a local step: a wait on the clock, a wait on an outside state with how its loop ended, a
  question to a model, or anything else with what evaluating it answered.\<close>

datatype local_work =
    LW_Clock rat
  | LW_State string wait_end
  | LW_Ask model_world "resolved_model list" route_needs llm_work "provenance_input list"
  | LW_Value evaluation

definition is_wait :: "local_work \<Rightarrow> bool" where
  "is_wait w = (case w of LW_Clock x \<Rightarrow> True | LW_State a e \<Rightarrow> True | _ \<Rightarrow> False)"

text \<open>How estimating the step ended: \<open>_demand\<close> and its exceptions.\<close>

datatype demand_answer =
    Demanded step_demand
  | Demand_Stopped string
  | Demand_Rule_Failed string
  | Demand_Failed step_failure

record draft =
  dr_id :: string
  dr_decider :: string
  dr_class :: string

text \<open>What the collaborators of one execution of a local step answer: its work with its outcome, the
  demand, the standing of its adapter, the rule over repetition, the entries the outward calls booked,
  the checks after the evaluation (\<open>_checked\<close>), the requests an approval raises or why it could not,
  and the samples that were put to a person.\<close>

record local_answers =
  la_now :: moment
  la_later :: moment
  la_work :: local_work
  la_demand :: demand_answer
  la_unverified :: "string option"
  la_repeated :: "repetition_stop option"
  la_counts_calls :: bool
  la_booked :: "(string \<times> string) list"
  la_checked :: "json \<Rightarrow> step_trace \<Rightarrow> quantities option \<Rightarrow> string option \<Rightarrow> evaluation"
  la_drafts :: "draft list"
  la_not_raised :: "string option"
  la_due :: string
  la_sampled :: "(nat \<times> string) list"

record local_options =
  lo_admission :: admission_options
  lo_ceiling :: int
  lo_park :: "rat option"

subsection \<open>Booking calls\<close>

text \<open>\<open>_record_fenced\<close>: one entry in a transaction of its own.\<close>

definition record_fenced :: "engine_env \<Rightarrow> moment \<Rightarrow> run \<Rightarrow> entry_args \<Rightarrow> unit action" where
  "record_fenced env now r a =
     transaction (next_do (fence_run r) (andThen (record_entry env now r a) (\<lambda>_. done_with ())))"

text \<open>\<open>_book_call\<close>: an outward call, by the digest of what it names.\<close>

fun book_calls :: "engine_env \<Rightarrow> moment \<Rightarrow> run \<Rightarrow> step_run \<Rightarrow> (string \<times> string) list \<Rightarrow> unit action" where
  "book_calls env now r s [] = done_with ()"
| "book_calls env now r s ((kind, d) # cs) =
     next_do (record_fenced env now r ((step_entry kind s (Some ''called''))\<lparr>ea_digest := Some d\<rparr>))
       (book_calls env now r s cs)"

definition book_answer :: "engine_env \<Rightarrow> moment \<Rightarrow> run \<Rightarrow> step_run \<Rightarrow> unit action" where
  "book_answer env now r s = record_fenced env now r (step_entry MODEL_CALLED s (Some ''answered''))"

text \<open>The work evaluated, with what it books, and the adapter the step then carries: a value is checked
  once the step carries the adapter that gave it.\<close>

definition has_checks :: "step \<Rightarrow> bool" where
  "has_checks st \<longleftrightarrow> (case s_checks st of None \<Rightarrow> False | Some cs \<Rightarrow> cs \<noteq> [])"

definition checked_value :: "local_answers \<Rightarrow> step \<Rightarrow> evaluation \<Rightarrow> evaluation \<times> string option" where
  "checked_value a st e =
     (case e of
        Ev_Value v t q ad \<Rightarrow> (if has_checks st then la_checked a v t q ad else e, ad)
      | Ev_Waited q ad \<Rightarrow> (e, ad)
      | _ \<Rightarrow> (e, None))"

definition evaluate_local ::
  "engine_env \<Rightarrow> local_options \<Rightarrow> local_answers \<Rightarrow> step \<Rightarrow> bool \<Rightarrow> run \<Rightarrow> step_run \<Rightarrow>
   (evaluation \<times> string option) doing" where
  "evaluate_local env op a st resumed r s ss =
     (let booked = engine_do (book_calls env (la_now a) r s (if la_counts_calls a then la_booked a else []))
      in case la_work a of
        LW_Clock seconds \<Rightarrow>
          returns (evaluation_of_wait None (wait_for (lo_park op) (la_now a) s seconds resumed), None) ss
      | LW_State adapter e \<Rightarrow>
          bind_do booked (\<lambda>_. returns (checked_value a st (evaluation_of_wait (Some adapter) e))) ss
      | LW_Value e \<Rightarrow> bind_do booked (\<lambda>_. returns (checked_value a st e)) ss
      | LW_Ask w chain n work read \<Rightarrow>
          (case llm_step w chain n work read (la_now a) (la_later a) (ss_cooling ss) of
             (e, cooling, answered) \<Rightarrow>
               bind_do (engine_do (if answered \<and> la_counts_calls a then book_answer env (la_now a) r s else done_with ()))
                 (\<lambda>_. returns (checked_value a st e)) (ss\<lparr>ss_cooling := cooling\<rparr>)))"

subsection \<open>Ends of a local step\<close>

definition CHECK_FAILED :: string where "CHECK_FAILED = ''check_failed''"
definition FRAME_REFUSED :: string where "FRAME_REFUSED = ''frame.refused''"
definition MESSAGE_HELD :: string where "MESSAGE_HELD = ''message.held''"
definition SAMPLED :: string where "SAMPLED = ''check.sampled''"
definition AWAITING_DECISION :: string where "AWAITING_DECISION = ''awaiting_decision''"

definition end_failed ::
  "engine_env \<Rightarrow> moment \<Rightarrow> int \<Rightarrow> string \<Rightarrow> (step_run \<Rightarrow> step_run) \<Rightarrow> run \<Rightarrow> step_run \<Rightarrow> (run \<times> step_run) action" where
  "end_failed env now ceil out f r s =
     andThen (close_block env now (ended_details ceil s None) r s) (\<lambda>(r1, s1).
       move_step env now S_FAILED (\<lambda>x. f (x\<lparr>sr_finished_at := Some now\<rparr>)) FINISHED out r1 s1)"

definition failure_after :: "step_failure \<Rightarrow> step_run \<Rightarrow> entry_args list" where
  "failure_after f s =
     (case sf_frame f of None \<Rightarrow> [] | Some x \<Rightarrow> [step_entry FRAME_REFUSED s (Some x)])
   @ (case sf_held f of None \<Rightarrow> [] | Some x \<Rightarrow> [step_entry MESSAGE_HELD s (Some x)])"

definition end_refused ::
  "engine_env \<Rightarrow> moment \<Rightarrow> int \<Rightarrow> step_failure \<Rightarrow> run \<Rightarrow> step_run \<Rightarrow> (run \<times> step_run) action" where
  "end_refused env now ceil f r s =
     andThen (close_block env now (ended_details ceil s None) r s) (\<lambda>(r1, s1).
     andThen (lacking_step env now (sf_lack f) r1 s1) (\<lambda>(r2, s2).
     andThen (of_run (step_to s2 S_FAILED (\<lambda>x. x\<lparr>sr_adapter := sf_adapter f, sr_consumption := sf_consumption f,
        sr_reason := Some (sf_reason f), sr_retryable := sf_retryable f, sr_finished_at := Some now\<rparr>))) (\<lambda>s3.
     andThen (commit_run env now (with_step_run r2 s3)
        ((commit_of (Some (step_entry FINISHED s3 (Some ''failed''))))\<lparr>ca_interface := sf_interface f, ca_after := failure_after f s3\<rparr>))
       (\<lambda>r4. done_with (r4, s3)))))"

definition checkpoint_of :: "moment \<Rightarrow> run \<Rightarrow> step_run \<Rightarrow> artifact list \<Rightarrow> string option \<Rightarrow> checkpoint" where
  "checkpoint_of now r s arts d = \<lparr>cp_ref = ''ckpt/'' @ run_id r @ ''/'' @ sr_step_id s, cp_step_id = sr_step_id s,
     cp_taken_at = now, cp_artifact_ids = map af_id arts, cp_result_digest = d\<rparr>"

definition result_artifact :: "string \<Rightarrow> artifact" where
  "result_artifact d = \<lparr>af_id = ''result'', af_kind = ''result'', af_digest = d\<rparr>"

text \<open>\<open>_sample\<close>: one entry per sample that was put to a person.\<close>

fun commit_samples :: "engine_env \<Rightarrow> moment \<Rightarrow> (nat \<times> string) list \<Rightarrow> run \<Rightarrow> step_run \<Rightarrow> run action" where
  "commit_samples env now [] r s = done_with r"
| "commit_samples env now ((place, request) # ps) r s =
     andThen (commit_run env now r (commit_of (Some ((step_entry SAMPLED s (Some (''check_'' @ show_nat place)))
         \<lparr>ea_decision := Some request\<rparr>)))) (\<lambda>r'. commit_samples env now ps r' s)"

definition end_succeeded ::
  "engine_env \<Rightarrow> local_options \<Rightarrow> local_answers \<Rightarrow> step \<Rightarrow> string option \<Rightarrow> string option \<Rightarrow> (string \<times> step_trace) option \<Rightarrow>
   quantities option \<Rightarrow> run \<Rightarrow> step_run \<Rightarrow> (run \<times> step_run) action" where
  "end_succeeded env op a st waited_on answered_by result used r s st0 =
     (let now = la_now a;
          (d, st1) = (case result of None \<Rightarrow> (None, st0)
             | Some (content, t) \<Rightarrow> (case put_object (ev_codec env) content st0 of (d, st1) \<Rightarrow> (Some d, st1)));
          arts = (case d of None \<Rightarrow> [] | Some x \<Rightarrow> [result_artifact x]);
          t = (case result of None \<Rightarrow> no_trace | Some (content, t) \<Rightarrow> t)
      in andThen (close_block env now (ended_details (lo_ceiling op) (s\<lparr>sr_adapter := waited_on\<rparr>) answered_by) r s) (\<lambda>(r1, s1).
         andThen (of_run (step_to s1 S_SUCCEEDED (\<lambda>x. x\<lparr>sr_artifacts := arts,
            sr_checkpoint := Some (checkpoint_of now r s arts d), sr_consumption := used, sr_finished_at := Some now\<rparr>))) (\<lambda>s2.
         andThen (commit_run env now (with_step_run r1 s2)
            ((commit_of (Some (step_entry FINISHED s2 (Some (if tr_rehearsed t then REHEARSED else ''succeeded'')))))
               \<lparr>ca_trace := Some t\<rparr>)) (\<lambda>r2.
         andThen (commit_samples env now (if has_checks st \<and> \<not> run_rehearsal r2 then la_sampled a else []) r2 s2)
           (\<lambda>r3. done_with (r3, s2))))) st1)"

text \<open>\<open>_anchor\<close> for an approval: the step waits for the requests its value raised. Requests that a rule
  from precedent answers as they are raised (\<open>_answered_at_once\<close>) are left out.\<close>

definition approval_named :: "draft list \<Rightarrow> string" where
  "approval_named ds = join ''; '' (map (\<lambda>d. ''approval by the role '' @ dr_decider d) ds)"

fun commit_anchored :: "engine_env \<Rightarrow> moment \<Rightarrow> draft list \<Rightarrow> run \<Rightarrow> step_run \<Rightarrow> run action" where
  "commit_anchored env now [] r s = done_with r"
| "commit_anchored env now (d # ds) r s =
     andThen (commit_run env now r (commit_of (Some ((step_entry ''step.anchored'' s (Some (dr_class d)))
         \<lparr>ea_decision := Some (dr_id d)\<rparr>)))) (\<lambda>r'. commit_anchored env now ds r' s)"

definition anchor_round :: "step_run \<Rightarrow> int" where
  "anchor_round s = (case sr_anchoring s of None \<Rightarrow> 1 | Some a \<Rightarrow> an_round a + 1)"

definition anchor_step ::
  "engine_env \<Rightarrow> moment \<Rightarrow> string \<Rightarrow> draft list \<Rightarrow> string option \<Rightarrow> run \<Rightarrow> step_run \<Rightarrow> (run \<times> step_run) action" where
  "anchor_step env now until ds not_raised r s =
     (case not_raised of
        Some error \<Rightarrow>
          move_step env now S_FAILED (\<lambda>x. x\<lparr>sr_reason := Some (''anchored ('' @ approval_named ds
              @ ''), and its decision request was not raised: '' @ error @ ''. The act was not performed''),
              sr_finished_at := Some now\<rparr>) ''step.failed'' ''not_raised'' r s
      | None \<Rightarrow>
          let roles = sort (remdups (map dr_decider ds));
              waiting_on = \<lparr>an_requests = map dr_id ds, an_round = anchor_round s, an_verdict = None, an_decided_by = None\<rparr>
          in andThen (open_block_step env now ((block_from WAIT_HUMAN AWAITING_DECISION now)
                        \<lparr>ob_role := (case roles of [x] \<Rightarrow> Some x | _ \<Rightarrow> None)\<rparr>) r s) (\<lambda>(r1, s1).
             andThen (of_run (step_to s1 S_WAITING_HUMAN (\<lambda>x. x\<lparr>sr_anchoring := Some waiting_on,
                sr_reason := Some (''anchored ('' @ approval_named ds @ ''): waits for the decision request(s) ''
                  @ join '', '' (map dr_id ds) @ '', addressed to '' @ join '', '' (map (\<lambda>x. ''the role '' @ x) roles)
                  @ '', due '' @ until)\<rparr>))) (\<lambda>s2.
             andThen (of_run (hold_back now (sr_step_id s) (with_step_run r1 s2))) (\<lambda>r2.
             andThen (commit_anchored env now ds r2 s2) (\<lambda>r3. done_with (r3, s2))))))"

subsection \<open>The step\<close>

text \<open>How an evaluated step ends.\<close>

definition finish_local ::
  "engine_env \<Rightarrow> local_options \<Rightarrow> local_answers \<Rightarrow> step \<Rightarrow> string option \<Rightarrow> run \<Rightarrow> step_run \<Rightarrow> evaluation \<Rightarrow>
   (run \<times> step_run) doing" where
  "finish_local env op a st waited_on r s e =
     (let now = la_now a; ceil = lo_ceiling op
      in case e of
           Ev_At_Limit l \<Rightarrow> at_limit env ceil now l r s
         | Ev_Parked t q \<Rightarrow> park_step env now t q r s
         | Ev_Stopped adapter q \<Rightarrow> at_stopped_adapter env now adapter q False r s
         | Ev_Rule_Failed reason \<Rightarrow> engine_do (end_failed env now ceil ''failed'' (\<lambda>x. x\<lparr>sr_reason := Some reason\<rparr>) r s)
         | Ev_Checks_Failed reason q \<Rightarrow>
             engine_do (end_failed env now ceil CHECK_FAILED (\<lambda>x. x\<lparr>sr_reason := Some reason, sr_consumption := q\<rparr>) r s)
         | Ev_To_Approve q \<Rightarrow>
             engine_do (andThen (close_block env now (ended_details ceil s None) r s) (\<lambda>(r1, s1).
               anchor_step env now (la_due a) (la_drafts a) (la_not_raised a) r1 (s1\<lparr>sr_consumption := q\<rparr>)))
         | Ev_Failed f \<Rightarrow>
             note_do (\<lambda>ss. if sf_moves f then ss\<lparr>ss_moving := True\<rparr> else ss) (engine_do (end_refused env now ceil f r s))
         | Ev_Waited q adapter \<Rightarrow> engine_do (end_succeeded env op a st waited_on None None q r s)
         | Ev_Value v t q adapter \<Rightarrow>
             engine_do (end_succeeded env op a st waited_on adapter (Some (dumps_spaced v, t)) q r s))"

definition with_adapter :: "string option \<Rightarrow> step_run \<Rightarrow> step_run" where
  "with_adapter adapter s = (case adapter of None \<Rightarrow> s | Some x \<Rightarrow> s\<lparr>sr_adapter := Some x\<rparr>)"

text \<open>An admitted step, from its start to its end.\<close>

definition act_local ::
  "engine_env \<Rightarrow> local_options \<Rightarrow> local_answers \<Rightarrow> step \<Rightarrow> string option \<Rightarrow> bool \<Rightarrow> run \<Rightarrow> step_run \<Rightarrow> (run \<times> step_run) doing" where
  "act_local env op a st waited_on resumed r s =
     bind_do (engine_do
       (andThen (of_run (step_to s S_RUNNING (\<lambda>x. x\<lparr>sr_started_at := Some (la_now a)\<rparr>))) (\<lambda>s1.
        andThen (case la_work a of
                   LW_Clock seconds \<Rightarrow> open_block_step env (la_now a) (block_from WAIT_EXTERNAL WAITING_ON_CLOCK (la_now a)) r s1
                 | LW_State adapter e \<Rightarrow> open_block_step env (la_now a) (block_from WAIT_EXTERNAL WAITING_ON_STATE (la_now a)) r s1
                 | _ \<Rightarrow> done_with (r, s1)) (\<lambda>(r1, s2).
        andThen (commit_run env (la_now a) (with_step_run r1 s2) (commit_of (Some (step_entry ''step.started'' s2 None))))
          (\<lambda>r2. done_with (r2, s2))))))
       (\<lambda>(r2, s2). bind_do (evaluate_local env op a st resumed r2 s2)
          (\<lambda>(e, adapter). finish_local env op a st waited_on r2 (with_adapter adapter s2) e))"

definition next_attempt :: "step_run \<Rightarrow> int" where
  "next_attempt s = (if sr_state s = S_FAILED \<and> sr_retryable s \<noteq> Some True then sr_attempt s + 1 else sr_attempt s)"

definition start_local ::
  "engine_env \<Rightarrow> local_options \<Rightarrow> local_answers \<Rightarrow> step \<Rightarrow> step_demand \<Rightarrow> step_run \<Rightarrow> run \<Rightarrow> step_run \<Rightarrow> (run \<times> step_run) doing" where
  "start_local env op a st d s0 r s =
     (case (la_unverified a, dm_adapter d) of
        (Some why, Some adapter) \<Rightarrow> refuse_unverified env (la_now a) adapter why r s
      | _ \<Rightarrow>
          (case la_repeated a of
             Some p \<Rightarrow> stop_repeating env (la_now a) p r s
           | None \<Rightarrow>
               bind_do (engine_do (admit_step env (lo_admission op) (la_now a) r st s d
                   (\<lambda>x. x\<lparr>sr_retryable := None, sr_attempt := next_attempt s0\<rparr>)))
                 (\<lambda>(r1, s1, admitted).
                    if \<not> admitted then returns (r1, s1)
                    else act_local env op a st (sr_adapter s0) (sr_state s0 \<in> {S_STOPPED, S_RUNNING}) r1 s1)))"

definition local_step ::
  "engine_env \<Rightarrow> local_options \<Rightarrow> local_answers \<Rightarrow> run \<Rightarrow> step \<Rightarrow> step_run \<Rightarrow> (run \<times> step_run) doing" where
  "local_step env op a r st s =
     (case la_demand a of
        Demand_Stopped adapter \<Rightarrow>
          bind_do (engine_do (lack_ends env (la_now a) r s))
            (\<lambda>(r1, s1). at_stopped_adapter env (la_now a) adapter None False r1 s1)
      | Demand_Rule_Failed reason \<Rightarrow> engine_do (failed_before env (la_now a) reason None None None r s)
      | Demand_Failed f \<Rightarrow>
          engine_do (failed_before env (la_now a) (sf_reason f) (sf_adapter f) (sf_retryable f) (sf_lack f) r s)
      | Demanded d \<Rightarrow>
          bind_do (engine_do (lack_ends env (la_now a) r s)) (\<lambda>(r1, s1). start_local env op a st d s r1 s1))"

text \<open>\<open>_settle\<close>: a step that ends without its act, with a result that says why.\<close>

definition settle_step ::
  "engine_env \<Rightarrow> moment \<Rightarrow> (string \<times> json) list \<Rightarrow> string \<Rightarrow> string \<Rightarrow> provenance_input list \<Rightarrow> run \<Rightarrow> step_run \<Rightarrow>
   (run \<times> step_run) doing" where
  "settle_step env now result said out read r s =
     note_do (\<lambda>ss. ss\<lparr>ss_settled := sr_step_id s # ss_settled ss\<rparr>)
       (engine_do (\<lambda>st.
          case put_object (ev_codec env) (dumps_spaced (JObj result)) st of
            (d, st1) \<Rightarrow>
              andThen (of_run (step_to s S_SUCCEEDED (\<lambda>x. x\<lparr>sr_artifacts := [result_artifact d],
                 sr_checkpoint := Some (checkpoint_of now r s [result_artifact d] (Some d)), sr_reason := Some said,
                 sr_started_at := Some (case sr_started_at s of None \<Rightarrow> now | Some t \<Rightarrow> t), sr_finished_at := Some now\<rparr>))) (\<lambda>s'.
              andThen (commit_run env now (with_step_run r s')
                 ((commit_of (Some (step_entry FINISHED s' (Some out))))\<lparr>ca_trace := Some (no_trace\<lparr>tr_inputs := read\<rparr>)\<rparr>))
                (\<lambda>r'. done_with (r', s'))) st1))"

end
