(* ===== verification/Run_Engine.thy ===== *)
theory Run_Engine
  imports Run_Local
begin

text \<open>
  One pass over a run (\<open>execute_run.py\<close>): \<open>_launch\<close> and \<open>_recover\<close>, the loop \<open>_steps\<close> with what it
  does after each step, \<open>_heal\<close>, \<open>_escalating\<close>, \<open>_taken_over\<close> and \<open>_end\<close>. How a step is
  executed is an argument, a function of how many were executed before it in the pass: the loop relies
  on the contract \<open>Run_Pass\<close> states, which the local step keeps. The loop is a partial function: not
  returning is \<open>None\<close>. The breach of an anchor, which is reported and changes nothing of the run, and
  spans are left out; the clock is read once.
\<close>

subsection \<open>Names the ledger carries\<close>

fun step_state_value :: "step_state \<Rightarrow> string" where
  "step_state_value S_PLANNED = ''planned''"
| "step_state_value S_REJECTED = ''rejected''"
| "step_state_value S_ADMITTED = ''admitted''"
| "step_state_value S_RUNNING = ''running''"
| "step_state_value S_SUCCEEDED = ''succeeded''"
| "step_state_value S_FAILED = ''failed''"
| "step_state_value S_STOPPED = ''stopped''"
| "step_state_value S_WAITING_HUMAN = ''waiting_human''"

fun run_state_value :: "run_state \<Rightarrow> string" where
  "run_state_value R_PLANNED = ''planned''"
| "run_state_value R_ADMITTED = ''admitted''"
| "run_state_value R_RUNNING = ''running''"
| "run_state_value R_WAITING_HUMAN = ''waiting_human''"
| "run_state_value R_HALTED = ''halted''"
| "run_state_value R_ESCALATED = ''escalated''"
| "run_state_value R_FINISHED = ''finished''"

fun cause_value :: "cause \<Rightarrow> string" where
  "cause_value LIMIT = ''limit''"
| "cause_value NO_ESTIMATE = ''no_estimate''"
| "cause_value STOP = ''stop''"
| "cause_value FAILURE = ''failure''"
| "cause_value CEILING = ''ceiling''"
| "cause_value CAPACITY = ''capacity''"
| "cause_value PARKED = ''parked''"
| "cause_value PERSON = ''person''"
| "cause_value MATURITY = ''maturity''"
| "cause_value ADMINISTRATION = ''administration''"
| "cause_value REPEATED = ''repeated''"
| "cause_value DECLINED = ''declined''"

fun ended_value :: "run_ended \<Rightarrow> string" where
  "ended_value ENDED_OK = ''ok''"
| "ended_value ENDED_EMPTY = ''empty''"
| "ended_value ENDED_ERROR = ''error''"

definition RUN_DOT :: string where "RUN_DOT = ''run.''"
definition TAKEOVER_REFUSED :: string where "TAKEOVER_REFUSED = ''step.takeover_refused''"
definition TAKEN_OVER :: string where "TAKEN_OVER = ''step.taken_over''"
definition TAKEN_OVER_CAUSE :: string where "TAKEN_OVER_CAUSE = ''taken_over''"
definition HOLDER :: string where "HOLDER = ''takeover:''"
definition HEALED :: string where "HEALED = ''step.healed''"
definition RETRY :: string where "RETRY = ''retry''"
definition CONTINUATIONS :: nat where "CONTINUATIONS = 3"
definition DASH :: string where "DASH = '' '' @ map char_of [226::nat, 128, 148] @ '' ''"
definition STOP_AT_BOUNDARY :: string where "STOP_AT_BOUNDARY = ''stop requested at the boundary''"

text \<open>What the loop is configured with and asks of collaborators: the level a step runs at, whether its call
  may be repeated, the reading of a stored document, the document of a step that is taken over, how long
  a take-over is leased, whether this is the job's last attempt, and how an exception reads.\<close>

record pass_options =
  po_env :: engine_env
  po_admission :: admission_options
  po_now :: moment
  po_level :: "run \<Rightarrow> step \<Rightarrow> level"
  po_repeatable :: "run \<Rightarrow> step \<Rightarrow> bool"
  po_loads :: "string \<Rightarrow> json option"
  po_state :: "run \<Rightarrow> step_run \<Rightarrow> string \<Rightarrow> moment \<Rightarrow> json"
  po_lease :: rat
  po_stop_after :: "nat option"
  po_last_attempt :: bool
  po_words :: "engine_error \<Rightarrow> string"

type_synonym executor = "nat \<Rightarrow> run \<Rightarrow> step \<Rightarrow> step_run \<Rightarrow> (run \<times> step_run) doing"

subsection \<open>The end of a pass\<close>

text \<open>\<open>_takeover_refused\<close>.\<close>

definition takeover_outcome :: "takeover_asked \<Rightarrow> step_run option \<Rightarrow> string" where
  "takeover_outcome asked s =
     (case s of
        Some x \<Rightarrow> if sr_step_id x = ta_step_id asked then step_state_value (sr_state x) else ''not_running''
      | None \<Rightarrow> ''not_running'')"

definition withdraw :: "string \<Rightarrow> unit action" where
  "withdraw holder st =
     (case (en_claim st, en_queue st) of
        (Some c, Some q) \<Rightarrow> (Inr (), st\<lparr>en_queue := Some (withdraw_takeover q (cl_job_id c) holder)\<rparr>)
      | _ \<Rightarrow> (Inr (), st))"

definition takeover_refused ::
  "pass_options \<Rightarrow> run \<Rightarrow> takeover_asked \<Rightarrow> step_run option \<Rightarrow> unit doing" where
  "takeover_refused po r asked s =
     note_do (\<lambda>ss. ss\<lparr>ss_taking_over := None, ss_answered := ta_holder asked # ss_answered ss\<rparr>)
       (engine_do (transaction
          (next_do (fence_run r) (next_do (withdraw (ta_holder asked))
            (andThen (record_entry (po_env po) (po_now po) r
                ((entry_of_kind TAKEOVER_REFUSED)\<lparr>ea_step := List.find (\<lambda>x. sr_step_id x = ta_step_id asked) (run_step_runs r),
                   ea_outcome := Some (takeover_outcome asked s), ea_bare := True\<rparr>))
              (\<lambda>_. done_with ()))))))"

text \<open>\<open>_found_nothing\<close>: the result a step that marks its run empty settled with.\<close>

definition settled_skipped :: "pass_options \<Rightarrow> engine \<Rightarrow> step_run \<Rightarrow> bool" where
  "settled_skipped po st s =
     (case Option.bind (Option.bind (result_digest_of s) (en_objects st)) (po_loads po) of
        Some (JObj kvs) \<Rightarrow> map_of kvs ''skipped'' = Some (JBool True)
      | _ \<Rightarrow> False)"

definition found_nothing :: "pass_options \<Rightarrow> run \<Rightarrow> engine \<Rightarrow> bool" where
  "found_nothing po r st =
     list_ex (\<lambda>s. done_run s \<and> sr_step_id s \<in> empty_markers (run_work r) \<and> settled_skipped po st s) (run_step_runs r)"

definition ended_as :: "pass_options \<Rightarrow> run_state \<Rightarrow> run \<Rightarrow> engine \<Rightarrow> run_ended option" where
  "ended_as po state r st =
     (case state of
        R_ESCALATED \<Rightarrow> Some ENDED_ERROR
      | R_FINISHED \<Rightarrow> Some (if found_nothing po r st then ENDED_EMPTY else ENDED_OK)
      | _ \<Rightarrow> None)"

definition end_entry :: "run_state \<Rightarrow> cause option \<Rightarrow> entry_args" where
  "end_entry state c = (entry_of_kind (RUN_DOT @ run_state_value state))
     \<lparr>ea_outcome := Some (if state = R_FINISHED then ''succeeded''
        else case c of None \<Rightarrow> ''None'' | Some x \<Rightarrow> cause_value x)\<rparr>"

text \<open>\<open>_end\<close>.\<close>

definition end_run ::
  "pass_options \<Rightarrow> run_state \<Rightarrow> cause option \<Rightarrow> string option \<Rightarrow> run \<Rightarrow> run doing" where
  "end_run po state c reason r =
     note_do (\<lambda>ss. ss\<lparr>ss_stop_requested := False\<rparr>)
       (bind_do (\<lambda>ss. (case ss_taking_over ss of None \<Rightarrow> returns () | Some asked \<Rightarrow> takeover_refused po r asked None) ss)
         (\<lambda>_. engine_do (\<lambda>st. andThen (of_run (run_to r state c reason)) (\<lambda>r'.
            commit_run (po_env po) (po_now po) r' ((commit_of (Some (end_entry state c)))
              \<lparr>ca_ended := map_option ended_value (ended_as po state r st)\<rparr>)) st)))"

subsection \<open>Healing\<close>

text \<open>How often the step was healed in the run: its entries in the run's ledger.\<close>

definition healed_times :: "engine \<Rightarrow> run \<Rightarrow> string \<Rightarrow> nat" where
  "healed_times st r sid =
     length (filter (\<lambda>e. f_kind e = HEALED \<and> r_step_id (f_refs e) = Some sid)
       (Ledger_Store.of_run (ls_store (en_ledger st)) (run_id r)))"

definition healing_verdict :: "pass_options \<Rightarrow> session \<Rightarrow> run \<Rightarrow> step \<Rightarrow> step_run \<Rightarrow> healing" where
  "healing_verdict po ss r st s =
     (if po_level po r st < UNATTENDED \<or> run_rehearsal r then \<lparr>hl_heals = False, hl_why_not = None\<rparr>
      else healing_of (po_level po r st) (run_rehearsal r) (sr_retryable s) (sr_block s \<noteq> None) (po_repeatable po r st)
        (ss_stop_requested ss) (healed_times (ss_engine ss) r (s_id st)))"

fun why_not_text :: "why_not_healed \<Rightarrow> string" where
  "why_not_text Stop_Requested = ''a stop was requested, and a heal does not pass it''"
| "why_not_text Not_Known = ''the failure is not of a kind Taktus knows to heal: no adapter classified ''
     @ ''it as one the same call may be repeated after''"
| "why_not_text Lacks_Adapter = ''the step lacks an adapter, and asking again does not configure one''"
| "why_not_text Not_Repeatable = ''the operation cannot recognise a repeat (idempotency: none), and Taktus ''
     @ ''never repeats it on its own''"
| "why_not_text (Frame_Exceeded n) = ''healed '' @ show_nat n
     @ '' time(s) within the frame, and it failed again: the frame is exceeded''"

definition heal_document :: "step_run \<Rightarrow> json" where
  "heal_document s = JObj [(''failure'', (case sr_reason s of None \<Rightarrow> JNull | Some t \<Rightarrow> JStr t)),
     (''action'', JStr RETRY), (''attempt'', JInt (sr_attempt s))]"

definition heal_step :: "pass_options \<Rightarrow> run \<Rightarrow> step_run \<Rightarrow> run action" where
  "heal_step po r s st =
     (case put_object (ev_codec (po_env po)) (dumps_spaced (heal_document s)) st of
        (d, st1) \<Rightarrow> commit_run (po_env po) (po_now po) r
          (commit_of (Some ((step_entry HEALED s (Some RETRY))\<lparr>ea_digest := Some d\<rparr>))) st1)"

subsection \<open>One step, and what an exception leaves\<close>

definition clear_flags :: "session \<Rightarrow> session" where
  "clear_flags ss = ss\<lparr>ss_at_capacity := False, ss_parked := False, ss_limit_halts := False, ss_moving := False,
     ss_immature := False, ss_administering := False, ss_repeating := False\<rparr>"

text \<open>\<open>_raised\<close>: the step as the store holds it now, failed with what it raised.\<close>

definition raised_step :: "pass_options \<Rightarrow> run \<Rightarrow> string \<Rightarrow> engine_error \<Rightarrow> (run \<times> step_run) doing" where
  "raised_step po r sid e ss =
     (case en_runs (ss_engine ss) (run_id r) of
        None \<Rightarrow> (Inl e, ss)
      | Some stored \<Rightarrow>
          (case step_run_of stored sid of
             Inl x \<Rightarrow> (Inl (Run_Refused x), ss)
           | Inr s \<Rightarrow>
               if done_run s then (Inl e, ss)
               else engine_do (move_step (po_env po) (po_now po) S_FAILED
                      (\<lambda>x. x\<lparr>sr_reason := Some (''step '' @ sid @ '' raised '' @ po_words po e
                           @ '', at the last attempt its job is given''), sr_finished_at := Some (po_now po)\<rparr>)
                      FINISHED ''failed'' stored s) (clear_flags ss)))"

definition step_or_failed :: "pass_options \<Rightarrow> executor \<Rightarrow> nat \<Rightarrow> run \<Rightarrow> step \<Rightarrow> step_run \<Rightarrow> (run \<times> step_run) doing" where
  "step_or_failed po ex k r st s ss =
     (case ex k r st s ss of
        (Inr x, ss') \<Rightarrow> (Inr x, ss')
      | (Inl (Claim_Lost i c), ss') \<Rightarrow> (Inl (Claim_Lost i c), ss')
      | (Inl e, ss') \<Rightarrow> if po_last_attempt po then raised_step po r (s_id st) e ss' else (Inl e, ss'))"

subsection \<open>The steps on escalation\<close>

definition aside_steps :: "run \<Rightarrow> step list" where
  "aside_steps r = filter (\<lambda>st. s_id st \<in> on_escalation r) (run_steps r)"

fun escalate_from :: "pass_options \<Rightarrow> executor \<Rightarrow> nat \<Rightarrow> step list \<Rightarrow> run \<Rightarrow> run doing" where
  "escalate_from po ex k [] r = returns r"
| "escalate_from po ex k (st # sts) r =
     (case step_run_of r (s_id st) of
        Inl e \<Rightarrow> (\<lambda>ss. (Inl (Run_Refused e), ss))
      | Inr s \<Rightarrow>
          if done_run s \<or> sr_state s = S_WAITING_HUMAN \<or> \<not> set (dependencies st) \<subseteq> done_steps r
          then escalate_from po ex k sts r
          else bind_do (step_or_failed po ex k r st s) (\<lambda>(r', s'). escalate_from po ex (Suc k) sts r'))"

definition escalating :: "pass_options \<Rightarrow> executor \<Rightarrow> nat \<Rightarrow> run \<Rightarrow> run doing" where
  "escalating po ex k r =
     bind_do (escalate_from po ex k (aside_steps r) r)
       (\<lambda>r'. note_do (\<lambda>ss. ss\<lparr>ss_at_capacity := False, ss_limit_halts := False, ss_immature := False,
          ss_administering := False, ss_repeating := False\<rparr>) (returns r'))"

subsection \<open>Taken over\<close>

text \<open>\<open>_taken_over\<close>: the step's state becomes an artifact, the step and the run wait for the person, and
  the claim passes to the take-over, in one commit.\<close>

definition passing :: "pass_options \<Rightarrow> run \<Rightarrow> claim \<Rightarrow> string \<Rightarrow> queue \<Rightarrow> engine_error + queue" where
  "passing po r c holder q =
     (case pass_claim q c holder (half_even (po_lease po * 1000000)) (po_now po) of
        (True, q') \<Rightarrow> Inr q' | (False, q') \<Rightarrow> Inl (Claim_Lost (run_id r) c))"

definition takeover_id :: "takeover_asked \<Rightarrow> string" where
  "takeover_id asked = (if take (length HOLDER) (ta_holder asked) = HOLDER
     then drop (length HOLDER) (ta_holder asked) else ta_holder asked)"

definition take_over_step ::
  "pass_options \<Rightarrow> claim \<Rightarrow> takeover_asked \<Rightarrow> run \<Rightarrow> step_run \<Rightarrow> run action" where
  "take_over_step po c asked r0 s0 =
     (let env = po_env po; now = po_now po; until = after_seconds now (po_lease po); t = takeover_id asked
      in andThen (case sr_block s0 of None \<Rightarrow> done_with (r0, s0) | Some b \<Rightarrow> close_block env now [] r0 s0) (\<lambda>(r, s) st.
         case put_object (ev_codec env) (dumps_spaced (po_state po r s t until)) st of
           (d, st1) \<Rightarrow>
             andThen (of_run (step_to s S_WAITING_HUMAN (\<lambda>x. x\<lparr>
                sr_artifacts := sr_artifacts x @ [\<lparr>af_id = t @ ''.state'', af_kind = TAKEOVER_STATE, af_digest = d\<rparr>],
                sr_block := Some ((block_from WAIT_HUMAN TAKEN_OVER_CAUSE now)
                  \<lparr>ob_takeover := Some \<lparr>to_id = t, to_job_id = cl_job_id c, to_attempt = cl_attempt c + 1,
                     to_until = until, to_state = t @ ''.state''\<rparr>\<rparr>),
                sr_reason := Some (''taken over by a person until '' @ ev_iso env until @ '', under '' @ t)\<rparr>))) (\<lambda>s'.
             andThen (of_run (run_to (with_step_run r s') R_WAITING_HUMAN (Some PERSON)
                (Some (''waiting for a person: '' @ sr_step_id s @ DASH @ ''taken over'')))) (\<lambda>r'.
               commit_run env now r' ((commit_of (Some ((step_entry TAKEN_OVER s' (Some TAKEN_OVER_CAUSE))\<lparr>ea_digest := Some d\<rparr>)))
                 \<lparr>ca_after := [(entry_of_kind ''run.waiting_human'')\<lparr>ea_outcome := Some (cause_value PERSON)\<rparr>],
                  ca_inside := Some (passing po r c (ta_holder asked))\<rparr>))) st1))"

definition taken_over :: "pass_options \<Rightarrow> takeover_asked \<Rightarrow> run \<Rightarrow> step_run \<Rightarrow> run doing" where
  "taken_over po asked r s ss =
     (case (en_claim (ss_engine ss), en_queue (ss_engine ss)) of
        (Some c, Some q) \<Rightarrow>
          bind_do (engine_do (take_over_step po c asked r s))
            (\<lambda>r'. note_do (\<lambda>ss. ss\<lparr>ss_taking_over := None, ss_answered := ta_holder asked # ss_answered ss,
               ss_stop_requested := False\<rparr>) (returns r')) ss
      | _ \<Rightarrow>
          bind_do (takeover_refused po r asked (Some s))
            (\<lambda>_. end_run po R_HALTED (Some STOP) (Some ''stopped for a take-over'') r) ss)"

subsection \<open>After a step\<close>

text \<open>What a step leads to: the pass ends, or it goes on with so many steps completed in it.\<close>

datatype next_move = Ended run | Goes_On run nat

definition ends :: "run doing \<Rightarrow> next_move doing" where
  "ends d = bind_do d (\<lambda>r. returns (Ended r))"

definition rejected_cause :: "session \<Rightarrow> step_run \<Rightarrow> cause" where
  "rejected_cause ss s =
     (if ss_declining ss then DECLINED
      else if ss_administering ss then ADMINISTRATION
      else if ss_repeating ss then REPEATED
      else if ss_immature ss then MATURITY
      else if sr_estimate s = None then NO_ESTIMATE else LIMIT)"

definition after_rejected :: "pass_options \<Rightarrow> run \<Rightarrow> step_run \<Rightarrow> next_move doing" where
  "after_rejected po r s ss =
     ends (end_run po R_HALTED (Some (rejected_cause ss s)) (sr_reason s) r)
       (ss\<lparr>ss_immature := False, ss_administering := False, ss_repeating := False, ss_declining := False\<rparr>)"

definition failed_reason :: "step_run \<Rightarrow> why_not_healed option \<Rightarrow> string option" where
  "failed_reason s why =
     (case why of
        None \<Rightarrow> sr_reason s
      | Some w \<Rightarrow> Some ((case sr_reason s of None \<Rightarrow> ''None'' | Some t \<Rightarrow> t) @ ''; not healed: '' @ why_not_text w))"

definition after_failed ::
  "pass_options \<Rightarrow> executor \<Rightarrow> nat \<Rightarrow> nat \<Rightarrow> run \<Rightarrow> step \<Rightarrow> step_run \<Rightarrow> bool \<Rightarrow> next_move doing" where
  "after_failed po ex k n r st s capacity ss =
     (let verdict = (if capacity then \<lparr>hl_heals = False, hl_why_not = None\<rparr> else healing_verdict po ss r st s)
      in if hl_heals verdict
         then bind_do (engine_do (heal_step po r s)) (\<lambda>r'. returns (Goes_On r' n)) ss
         else bind_do (escalating po ex (Suc k) r)
                (\<lambda>r'. ends (end_run po R_ESCALATED (Some (if capacity then CAPACITY else FAILURE))
                   (failed_reason s (hl_why_not verdict)) r')) ss)"

text \<open>\<open>_in_a_new_unit\<close>: whether a stopped step continues, and how often it did after that.\<close>

definition in_a_new_unit :: "session \<Rightarrow> step_run \<Rightarrow> bool" where
  "in_a_new_unit ss s \<longleftrightarrow> sr_checkpoint s \<noteq> None \<and> ss_continued ss (sr_step_id s) < CONTINUATIONS"

definition stopped_cause :: "session \<Rightarrow> bool \<Rightarrow> bool \<Rightarrow> cause" where
  "stopped_cause ss capacity parked =
     (if capacity then CAPACITY
      else if parked then PARKED
      else if ss_repeating ss then REPEATED
      else if ss_limit_halts ss then LIMIT
      else STOP)"

definition after_stopped :: "pass_options \<Rightarrow> nat \<Rightarrow> run \<Rightarrow> step_run \<Rightarrow> bool \<Rightarrow> bool \<Rightarrow> next_move doing" where
  "after_stopped po n r s capacity parked ss =
     (if \<not> capacity \<and> \<not> parked \<and> \<not> ss_repeating ss \<and> \<not> ss_limit_halts ss \<and> \<not> ss_stop_requested ss \<and> in_a_new_unit ss s
      then (Inr (Goes_On r n), ss\<lparr>ss_continued := (ss_continued ss)(sr_step_id s := ss_continued ss (sr_step_id s) + 1)\<rparr>)
      else ends (end_run po R_HALTED (Some (stopped_cause ss capacity parked)) (sr_reason s) r)
             (ss\<lparr>ss_limit_halts := False, ss_repeating := False\<rparr>))"

text \<open>The boundary after a step that completed.\<close>

definition at_boundary :: "pass_options \<Rightarrow> nat \<Rightarrow> run \<Rightarrow> next_move doing" where
  "at_boundary po n r ss =
     (if ss_stop_requested ss \<or> (case po_stop_after po of None \<Rightarrow> False | Some m \<Rightarrow> n + 1 \<ge> m)
      then ends (end_run po R_HALTED (Some STOP) (Some STOP_AT_BOUNDARY) r) ss
      else (Inr (Goes_On r (n + 1)), ss))"

definition after_outcome ::
  "pass_options \<Rightarrow> executor \<Rightarrow> nat \<Rightarrow> nat \<Rightarrow> run \<Rightarrow> step \<Rightarrow> step_run \<Rightarrow> next_move doing" where
  "after_outcome po ex k n r st s ss =
     (if sr_state s = S_WAITING_HUMAN then
        (if ss_stop_requested ss then ends (end_run po R_HALTED (Some STOP) (Some STOP_AT_BOUNDARY) r) ss
         else (Inr (Goes_On r n), ss))
      else if sr_state s = S_REJECTED then after_rejected po r s ss
      else if ss_moving ss then (Inr (Goes_On r n), ss\<lparr>ss_moving := False\<rparr>)
      else
        let capacity = ss_at_capacity ss; ss1 = ss\<lparr>ss_at_capacity := False\<rparr>
        in if sr_state s = S_FAILED then after_failed po ex k n r st s capacity ss1
           else
             let parked = ss_parked ss1; ss2 = ss1\<lparr>ss_parked := False\<rparr>
             in if sr_state s = S_STOPPED then after_stopped po n r s capacity parked ss2
                else at_boundary po n r ss2)"

definition stopped_for_takeover :: "takeover_asked \<Rightarrow> session \<Rightarrow> step_run \<Rightarrow> bool" where
  "stopped_for_takeover asked ss s \<longleftrightarrow> ta_step_id asked = sr_step_id s \<and> sr_state s = S_STOPPED
     \<and> \<not> ss_at_capacity ss \<and> \<not> ss_parked ss \<and> \<not> ss_limit_halts ss"

definition after_step ::
  "pass_options \<Rightarrow> executor \<Rightarrow> nat \<Rightarrow> nat \<Rightarrow> run \<Rightarrow> step \<Rightarrow> step_run \<Rightarrow> next_move doing" where
  "after_step po ex k n r st s ss =
     (case ss_taking_over ss of
        None \<Rightarrow> after_outcome po ex k n r st s ss
      | Some asked \<Rightarrow>
          if stopped_for_takeover asked ss s then ends (taken_over po asked r s) ss
          else bind_do (takeover_refused po r asked (Some s)) (\<lambda>_. after_outcome po ex k n r st s) ss)"

subsection \<open>When no step can run\<close>

definition waiting_text :: "step_run \<Rightarrow> string" where
  "waiting_text s = sr_step_id s @ DASH @ (case sr_reason s of None \<Rightarrow> ''None'' | Some t \<Rightarrow> t)"

fun settle_aside :: "pass_options \<Rightarrow> step list \<Rightarrow> run \<Rightarrow> run doing" where
  "settle_aside po [] r = returns r"
| "settle_aside po (st # sts) r =
     (case step_run_of r (s_id st) of
        Inl e \<Rightarrow> (\<lambda>ss. (Inl (Run_Refused e), ss))
      | Inr s \<Rightarrow>
          if sr_state s \<in> {S_PLANNED, S_REJECTED}
          then bind_do (settle_step (po_env po) (po_now po)
                 [(''skipped'', JBool True), (''because'', JStr ''the run did not escalate'')]
                 ''the run did not escalate'' ''skipped'' [] r s) (\<lambda>(r', s'). settle_aside po sts r')
          else settle_aside po sts r)"

definition no_step_left :: "pass_options \<Rightarrow> run \<Rightarrow> run doing" where
  "no_step_left po r =
     (if waiting_steps r \<noteq> []
      then end_run po R_WAITING_HUMAN (Some PERSON)
             (Some (''waiting for a person: '' @ join ''; '' (map waiting_text (waiting_steps r)))) r
      else bind_do (settle_aside po (aside_steps r) r) (end_run po R_FINISHED None None))"

subsection \<open>The loop\<close>

text \<open>One round: the first step that can run, executed, and what follows.\<close>

definition one_round :: "pass_options \<Rightarrow> executor \<Rightarrow> nat \<Rightarrow> nat \<Rightarrow> run \<Rightarrow> next_move doing" where
  "one_round po ex k n r =
     (case runnable r of
        Inl e \<Rightarrow> (\<lambda>ss. (Inl (Run_Refused e), ss))
      | Inr None \<Rightarrow> ends (no_step_left po r)
      | Inr (Some s) \<Rightarrow>
          (case step_of r (sr_step_id s) of
             Inl e \<Rightarrow> (\<lambda>ss. (Inl (Run_Refused e), ss))
           | Inr st \<Rightarrow> bind_do (step_or_failed po ex k r st s) (\<lambda>(r', s'). after_step po ex k n r' st s')))"

partial_function (option) steps_loop ::
  "pass_options \<Rightarrow> executor \<Rightarrow> nat \<Rightarrow> nat \<Rightarrow> run \<Rightarrow> session \<Rightarrow> ((engine_error + run) \<times> session) option" where
  "steps_loop po ex k n r ss =
     (case one_round po ex k n r ss of
        (Inl e, ss') \<Rightarrow> Some (Inl e, ss')
      | (Inr (Ended r'), ss') \<Rightarrow> Some (Inr r', ss')
      | (Inr (Goes_On r' n'), ss') \<Rightarrow> steps_loop po ex (Suc k) n' r' ss')"

subsection \<open>A pass\<close>

text \<open>\<open>_steps\<close> from its start, for an instance without caps, quotas and holds of a unit: the platform
  first, then the loop.\<close>

definition steps :: "pass_options \<Rightarrow> executor \<Rightarrow> run \<Rightarrow> session \<Rightarrow> ((engine_error + run) \<times> session) option" where
  "steps po ex r ss =
     (case platform_refuses ((po_admission po)\<lparr>op_unit_memory := None\<rparr>) of
        None \<Rightarrow> steps_loop po ex 0 0 r ss
      | Some short \<Rightarrow> Some
          (bind_do (case runnable r of
              Inl e \<Rightarrow> (\<lambda>ss. (Inl (Run_Refused e), ss))
            | Inr None \<Rightarrow> returns r
            | Inr (Some s) \<Rightarrow> engine_do (andThen
                (open_block_step (po_env po) (po_now po) (block_from LIMIT_COMPUTE REJECTED_BY_CAPACITY (po_now po)) r s)
                (\<lambda>(r', s'). done_with (with_step_run r' s'))))
            (end_run po R_HALTED (Some LIMIT) (Some (op_words (po_admission po) (Over_Platform short)))) ss))"

text \<open>\<open>_execute\<close>: what was remembered of the run is forgotten when the pass ends, however it ends.\<close>

definition forget_pass :: "session \<Rightarrow> session" where
  "forget_pass ss = ss\<lparr>ss_taking_over := None, ss_limit_halts := False, ss_at_capacity := False, ss_moving := False,
     ss_immature := False, ss_administering := False, ss_repeating := False\<rparr>"

definition execute :: "pass_options \<Rightarrow> executor \<Rightarrow> run \<Rightarrow> session \<Rightarrow> ((engine_error + run) \<times> session) option" where
  "execute po ex r ss = map_option (map_prod (\<lambda>x. x) forget_pass) (steps po ex r ss)"

definition launch :: "pass_options \<Rightarrow> run \<Rightarrow> run action" where
  "launch po r =
     andThen (of_run (run_to r R_ADMITTED None None)) (\<lambda>r1.
     andThen (commit_run (po_env po) (po_now po) r1 (commit_of None)) (\<lambda>r2.
     andThen (of_run (run_to r2 R_RUNNING None None)) (\<lambda>r3.
       commit_run (po_env po) (po_now po) r3 (commit_of (Some (entry_of_kind ''run.started''))))))"

definition INTERRUPTED :: string where "INTERRUPTED = ''the instance stopped while this step was in flight''"

definition interrupted_reason :: "step_run \<Rightarrow> string" where
  "interrupted_reason s =
     INTERRUPTED @ (if sr_assignment_open s
       then ''; its assignment '' @ (case sr_assignment_id s of None \<Rightarrow> ''None'' | Some a \<Rightarrow> a)
         @ '' is asked about before another is handed over'' else [])"

definition recover :: "pass_options \<Rightarrow> string option \<Rightarrow> run \<Rightarrow> run action" where
  "recover po actor r =
     andThen (case in_flight_step r of
                None \<Rightarrow> done_with (None, r)
              | Some s \<Rightarrow> andThen (of_run (step_to s S_STOPPED (\<lambda>x. x\<lparr>sr_reason := Some (interrupted_reason s),
                    sr_finished_at := Some (po_now po)\<rparr>))) (\<lambda>s'. done_with (Some s', with_step_run r s'))) (\<lambda>(s, r1).
     andThen (if run_st r1 = R_PLANNED then of_run (run_to r1 R_ADMITTED None None) else done_with r1) (\<lambda>r2.
     andThen (if run_st r2 = R_ADMITTED then of_run (run_to r2 R_RUNNING None None) else done_with r2) (\<lambda>r3.
       commit_run (po_env po) (po_now po) r3
         (commit_of (Some ((entry_of_kind ''run.recovered'')\<lparr>ea_step := s, ea_actor := actor\<rparr>))))))"

text \<open>\<open>_resume\<close> from the run's state on.\<close>

datatype resume_error = Cannot_Resume run_state | Resume_Refused engine_error

definition take_up :: "pass_options \<Rightarrow> string option \<Rightarrow> run \<Rightarrow> session \<Rightarrow> (resume_error + run) \<times> session" where
  "take_up po actor r ss =
     (let lift = (\<lambda>(x, ss'). (case x of Inl e \<Rightarrow> Inl (Resume_Refused e) | Inr v \<Rightarrow> Inr v, ss'))
      in if run_st r \<in> RESUMABLE then
           lift (engine_do (andThen (of_run (run_to r R_RUNNING None None)) (\<lambda>r1.
             commit_run (po_env po) (po_now po) r1
               (commit_of (Some ((entry_of_kind ''run.resumed'')\<lparr>ea_actor := actor\<rparr>))))) ss)
         else if run_st r = R_PLANNED \<and> in_flight_step r = None then lift (engine_do (launch po r) ss)
         else if run_st r \<in> INTERRUPTIBLE then lift (engine_do (recover po actor r) ss)
         else (Inl (Cannot_Resume (run_st r)), ss))"

end
