(* ===== verification/Run_Frame.thy ===== *)
theory Run_Frame
  imports Run_Local Run_Admit_Rules
begin

text \<open>
  What executing a step leaves alone: a small calculus of postconditions for actions and doings, in
  which an error keeps an invariant and a value meets its postcondition, and the frame of a step. The
  frame says that only the step itself changes, and the blocks of others; that the ledger only grows
  and stays sound; and that the store holds the run as the last commit left it.
\<close>

subsection \<open>Postconditions\<close>

named_theorems calm_rules "rules for the postcondition of an action"
named_theorems calm_ops "postconditions of the engine's operations"

definition calm :: "(engine \<Rightarrow> bool) \<Rightarrow> 'a action \<Rightarrow> engine \<Rightarrow> ('a \<Rightarrow> engine \<Rightarrow> bool) \<Rightarrow> bool" where
  "calm I a st Q \<longleftrightarrow> (case a st of (Inl e, st') \<Rightarrow> I st' | (Inr x, st') \<Rightarrow> Q x st')"

lemma calmI: "(\<And>e st'. a st = (Inl e, st') \<Longrightarrow> I st') \<Longrightarrow> (\<And>x st'. a st = (Inr x, st') \<Longrightarrow> Q x st') \<Longrightarrow> calm I a st Q"
  by (auto simp: calm_def split: prod.split sum.split)

lemma calm_Inr: "calm I a st Q \<Longrightarrow> a st = (Inr x, st') \<Longrightarrow> Q x st'"
  by (simp add: calm_def)

lemma calm_Inl: "calm I a st Q \<Longrightarrow> a st = (Inl e, st') \<Longrightarrow> I st'"
  by (simp add: calm_def)

lemma calm_mono: "calm I a st Q \<Longrightarrow> (\<And>x st'. Q x st' \<Longrightarrow> Q' x st') \<Longrightarrow> calm I a st Q'"
  by (auto simp: calm_def split: prod.splits sum.splits)

lemma calm_andThen [calm_rules]: "calm I a st (\<lambda>x st'. calm I (f x) st' Q) \<Longrightarrow> calm I (andThen a f) st Q"
  by (auto simp: calm_def andThen_def split: prod.splits sum.splits)

lemma calm_next [calm_rules]: "calm I a st (\<lambda>x st'. calm I b st' Q) \<Longrightarrow> calm I (next_do a b) st Q"
  by (simp add: next_do_def calm_andThen)

lemma calm_done [calm_rules]: "Q x st \<Longrightarrow> calm I (done_with x) st Q"
  by (simp add: calm_def done_with_def)

lemma calm_of_run: "I st \<Longrightarrow> (\<And>y. x = Inr y \<Longrightarrow> Q y st) \<Longrightarrow> calm I (of_run x) st Q"
  by (auto simp: calm_def of_run_def split: sum.split)

lemma calm_if [calm_rules]: "(b \<Longrightarrow> calm I a st Q) \<Longrightarrow> (\<not> b \<Longrightarrow> calm I a' st Q) \<Longrightarrow> calm I (if b then a else a') st Q"
  by simp

subsection \<open>The frame of a step\<close>

text \<open>Every step run but the one named is as it was, apart from its block.\<close>

definition kept_beside :: "string \<Rightarrow> step_run \<Rightarrow> step_run \<Rightarrow> bool" where
  "kept_beside sid a b \<longleftrightarrow> sr_step_id b = sr_step_id a \<and> (sr_step_id a \<noteq> sid \<longrightarrow> b\<lparr>sr_block := sr_block a\<rparr> = a)"

definition only_step :: "string \<Rightarrow> run \<Rightarrow> run \<Rightarrow> bool" where
  "only_step sid r r' \<longleftrightarrow>
     r'\<lparr>run_step_runs := run_step_runs r, run_updated_at := run_updated_at r\<rparr> = r
     \<and> list_all2 (kept_beside sid) (run_step_runs r) (run_step_runs r')"

definition grew :: "codec \<Rightarrow> engine \<Rightarrow> engine \<Rightarrow> bool" where
  "grew cd st st' \<longleftrightarrow> engine_ok cd st' \<and> (\<exists>new. ls_entries (en_ledger st') = ls_entries (en_ledger st) @ new)"

definition safe :: "engine_env \<Rightarrow> string \<Rightarrow> run \<Rightarrow> engine \<Rightarrow> engine \<Rightarrow> bool" where
  "safe env sid r0 st0 st \<longleftrightarrow> grew (ev_codec env) st0 st
     \<and> (\<exists>r. en_runs st (run_id r0) = Some r \<and> only_step sid r0 r)"

definition at_step :: "engine_env \<Rightarrow> string \<Rightarrow> run \<Rightarrow> engine \<Rightarrow> run \<Rightarrow> step_run \<Rightarrow> engine \<Rightarrow> bool" where
  "at_step env sid r0 st0 r s st \<longleftrightarrow> safe env sid r0 st0 st \<and> only_step sid r0 r \<and> sr_step_id s = sid"

text \<open>The step run is in the run, and the run in the store.\<close>

definition carries :: "run \<Rightarrow> step_run \<Rightarrow> bool" where
  "carries r s \<longleftrightarrow> (\<forall>x \<in> set (run_step_runs r). sr_step_id x = sr_step_id s \<longrightarrow> x = s)"

definition stored :: "run \<Rightarrow> run \<Rightarrow> step_run \<Rightarrow> engine \<Rightarrow> bool" where
  "stored r0 r s st \<longleftrightarrow> carries r s \<and> en_runs st (run_id r0) = Some r"

lemma kept_beside_refl [simp]: "kept_beside sid a a"
  by (simp add: kept_beside_def)

lemma kept_beside_trans: "kept_beside sid a b \<Longrightarrow> kept_beside sid b c \<Longrightarrow> kept_beside sid a c"
  by (cases a; cases b; cases c) (auto simp: kept_beside_def)

lemma only_step_refl [simp]: "only_step sid r r"
  by (simp add: only_step_def list.rel_refl)

lemma list_all2_beside_trans:
  "list_all2 (kept_beside sid) xs ys \<Longrightarrow> list_all2 (kept_beside sid) ys zs \<Longrightarrow> list_all2 (kept_beside sid) xs zs"
  by (rule list_all2_trans [of "kept_beside sid" "kept_beside sid"]) (rule kept_beside_trans)

lemma only_step_trans: "only_step sid a b \<Longrightarrow> only_step sid b c \<Longrightarrow> only_step sid a c"
proof -
  assume ab: "only_step sid a b" and bc: "only_step sid b c"
  have "c\<lparr>run_step_runs := run_step_runs b, run_updated_at := run_updated_at b\<rparr>
      \<lparr>run_step_runs := run_step_runs a, run_updated_at := run_updated_at a\<rparr> = a"
    using ab bc by (simp only: only_step_def)
  then have "c\<lparr>run_step_runs := run_step_runs a, run_updated_at := run_updated_at a\<rparr> = a" by simp
  with ab bc show ?thesis using list_all2_beside_trans by (auto simp: only_step_def)
qed

lemma only_step_with: "sr_step_id s = sid \<Longrightarrow> only_step sid r (with_step_run r s)"
  by (auto simp: only_step_def with_step_run_def kept_beside_def list_all2_conv_all_nth)

lemma only_step_updated: "only_step sid a (b\<lparr>run_updated_at := t\<rparr>) = only_step sid a b"
  by (simp add: only_step_def)

lemma only_step_same:
  assumes "only_step sid r r'"
  shows "run_id r' = run_id r" "run_steps r' = run_steps r" "run_work r' = run_work r" "run_st r' = run_st r"
    "map sr_step_id (run_step_runs r') = map sr_step_id (run_step_runs r)" "run_rehearsal r' = run_rehearsal r"
proof -
  have eq: "r'\<lparr>run_step_runs := run_step_runs r, run_updated_at := run_updated_at r\<rparr> = r"
    using assms by (simp add: only_step_def)
  show "run_id r' = run_id r" "run_steps r' = run_steps r" "run_work r' = run_work r" "run_st r' = run_st r"
    "run_rehearsal r' = run_rehearsal r"
    by (subst eq [symmetric], simp)+
  have "list_all2 (kept_beside sid) (run_step_runs r) (run_step_runs r')" using assms by (simp add: only_step_def)
  then show "map sr_step_id (run_step_runs r') = map sr_step_id (run_step_runs r)"
    by (auto simp: list_all2_conv_all_nth kept_beside_def intro!: nth_equalityI)
qed

lemma carries_with [simp]: "carries (with_step_run r s) s"
  by (auto simp: carries_def with_step_run_def)

lemma carries_updated [simp]: "carries (r\<lparr>run_updated_at := t\<rparr>) s = carries r s"
  by (simp add: carries_def)

lemma grew_refl: "engine_ok cd st \<Longrightarrow> grew cd st st"
  by (simp add: grew_def)

lemma grew_trans: "grew cd a b \<Longrightarrow> grew cd b c \<Longrightarrow> grew cd a c"
  by (auto simp: grew_def)

lemma grew_ok: "grew cd a b \<Longrightarrow> engine_ok cd b"
  by (simp add: grew_def)

lemma safe_ok: "safe env sid r0 st0 st \<Longrightarrow> engine_ok (ev_codec env) st"
  by (simp add: safe_def grew_def)

lemma at_step_safe: "at_step env sid r0 st0 r s st \<Longrightarrow> safe env sid r0 st0 st"
  by (simp add: at_step_def)

lemma at_step_ok: "at_step env sid r0 st0 r s st \<Longrightarrow> engine_ok (ev_codec env) st"
  by (rule safe_ok [OF at_step_safe])

lemma at_step_change: "at_step env sid r0 st0 r s st \<Longrightarrow> sr_step_id s' = sr_step_id s \<Longrightarrow> at_step env sid r0 st0 r s' st"
  by (simp add: at_step_def)

lemma at_step_start:
  "engine_ok (ev_codec env) st \<Longrightarrow> en_runs st (run_id r) = Some r \<Longrightarrow> sr_step_id s = sid \<Longrightarrow> at_step env sid r st r s st"
  by (simp add: at_step_def safe_def grew_refl)

subsection \<open>Commits\<close>

lemma engine_ok_drop: "engine_ok cd st \<Longrightarrow> engine_ok cd (drop_all st st')"
  by (cases "en_queue st'") (auto simp: engine_ok_def drop_all_def close_queue_def end_transaction_def split: option.split)

lemma commit_error_ok:
  assumes "commit_run env now r ca st = (Inl e, st')" "engine_ok cd st"
  shows "engine_ok cd st'"
proof -
  obtain x st1 where "commit_body env now (r\<lparr>run_updated_at := now\<rparr>) ca st = (x, st1)" by (rule prod.exhaust)
  with assms(1) have "st' = drop_all st st1"
    by (auto simp: commit_run_def transaction_def next_do_def andThen_def done_with_def Let_def split: sum.splits)
  with engine_ok_drop [OF assms(2)] show ?thesis by simp
qed

lemma commit_error_safe:
  assumes "commit_run env now r ca st = (Inl e, st')" "safe env sid r0 st0 st"
  shows "safe env sid r0 st0 st'"
proof -
  have "engine_ok (ev_codec env) st'" by (rule commit_error_ok [OF assms(1) safe_ok [OF assms(2)]])
  with commit_run_Inl [OF assms(1)] assms(2) show ?thesis by (simp add: safe_def grew_def)
qed

text \<open>A run whose step is in it is committed: of what the call names, only that it anchors nothing matters.\<close>

lemma calm_commit_run:
  assumes at: "safe env sid r0 st0 st" "only_step sid r0 r" "sr_step_id s = sid" and "carries r s" "not_anchors ca"
    and Q: "\<And>r' st'. at_step env sid r0 st0 r' s st' \<Longrightarrow> stored r0 r' s st' \<Longrightarrow> Q r' st'"
  shows "calm (safe env sid r0 st0) (commit_run env now r ca) st Q"
proof (rule calmI)
  fix e st' assume "commit_run env now r ca st = (Inl e, st')"
  then show "safe env sid r0 st0 st'" using commit_error_safe at(1) by blast
next
  fix r' st' assume run: "commit_run env now r ca st = (Inr r', st')"
  note facts = commit_run_Inr [OF run safe_ok [OF at(1)] assms(5)]
  have same: "run_id r = run_id r0" using only_step_same [OF at(2)] by simp
  have only: "only_step sid r0 r'" using at(2) by (simp add: facts(1) only_step_updated)
  have "grew (ev_codec env) st st'" using facts(5) facts(6) by (auto simp: grew_def)
  then have "grew (ev_codec env) st0 st'" using at(1) grew_trans by (auto simp: safe_def)
  moreover have "en_runs st' (run_id r0) = Some r'" by (simp add: facts(2) same)
  ultimately have "at_step env sid r0 st0 r' s st'" "stored r0 r' s st'"
    using only at(3) assms(4) by (auto simp: at_step_def safe_def stored_def facts(1))
  then show "Q r' st'" by (rule Q)
qed

lemma calm_commit [calm_ops]:
  assumes "at_step env sid r0 st0 r s st" "not_anchors ca"
    and "\<And>r' st'. at_step env sid r0 st0 r' s st' \<Longrightarrow> stored r0 r' s st' \<Longrightarrow> Q r' st'"
  shows "calm (safe env sid r0 st0) (commit_run env now (with_step_run r s) ca) st Q"
proof (rule calm_commit_run [OF _ _ _ _ assms(2,3)])
  show "safe env sid r0 st0 st" by (rule at_step_safe [OF assms(1)])
  show "only_step sid r0 (with_step_run r s)"
    using assms(1) only_step_trans only_step_with by (auto simp: at_step_def)
  show "sr_step_id s = sid" using assms(1) by (simp add: at_step_def)
qed simp_all

lemma calm_commit_again:
  assumes "at_step env sid r0 st0 r s st" "stored r0 r s st" "not_anchors ca"
    and "\<And>r' st'. at_step env sid r0 st0 r' s st' \<Longrightarrow> stored r0 r' s st' \<Longrightarrow> Q r' st'"
  shows "calm (safe env sid r0 st0) (commit_run env now r ca) st Q"
  by (rule calm_commit_run [OF at_step_safe [OF assms(1)] _ _ _ assms(3,4)])
    (use assms(1,2) in \<open>simp_all add: at_step_def stored_def\<close>)

lemma calm_of_run_at:
  assumes "at_step env sid r0 st0 r s st" "\<And>y. x = Inr y \<Longrightarrow> Q y st"
  shows "calm (safe env sid r0 st0) (of_run x) st Q"
  by (rule calm_of_run) (use at_step_safe [OF assms(1)] assms(2) in auto)

lemma safe_object:
  "put_object cd b st = (d, st1) \<Longrightarrow> safe env sid r0 st0 st \<Longrightarrow> safe env sid r0 st0 st1"
  by (auto simp: put_object_def Let_def safe_def grew_def engine_ok_def)

lemma at_step_object:
  "put_object cd b st = (d, st1) \<Longrightarrow> at_step env sid r0 st0 r s st \<Longrightarrow> at_step env sid r0 st0 r s st1"
  using safe_object by (simp add: at_step_def)

lemma calm_object:
  assumes "at_step env sid r0 st0 r s st"
    and "\<And>d st1. at_step env sid r0 st0 r s st1 \<Longrightarrow> calm I (f d) st1 Q"
  shows "calm I (\<lambda>st. case put_object cd b st of (d, st1) \<Rightarrow> f d st1) st Q"
proof (cases "put_object cd b st")
  case (Pair d st1)
  then show ?thesis using assms(2) [OF at_step_object [OF Pair assms(1)]] by (simp add: calm_def)
qed

lemma calm_at: "calm I a st1 Q \<Longrightarrow> a st1 = b st \<Longrightarrow> calm I b st Q"
  by (simp add: calm_def)

lemma calm_pair [calm_rules]: "calm I (f a b) st Q \<Longrightarrow> calm I (case (a, b) of (x, y) \<Rightarrow> f x y) st Q"
  by simp

subsection \<open>The engine's operations in the frame\<close>

lemma same_step_refl [simp]: "same_step s s"
  by (simp add: same_step_def)

lemma same_step_trans: "same_step a b \<Longrightarrow> same_step b c \<Longrightarrow> same_step a c"
  by (simp add: same_step_def)

lemma not_anchors_one: "not_anchors (commit_of (Some a)) \<longleftrightarrow> ea_kind a \<noteq> ANCHORED"
  by (simp add: not_anchors_def commit_of_def)

lemma not_anchors_entry [simp]: "k \<noteq> ANCHORED \<Longrightarrow> not_anchors (commit_of (Some (step_entry k s out)))"
  "k \<noteq> ANCHORED \<Longrightarrow> not_anchors (commit_of (Some ((step_entry k s out)\<lparr>ea_digest := d\<rparr>)))"
  "k \<noteq> ANCHORED \<Longrightarrow> not_anchors (commit_of (Some ((step_entry k s out)\<lparr>ea_decision := d\<rparr>)))"
  by (simp_all add: not_anchors_one)

lemma kinds_of_steps [simp]: "''step.waiting'' \<noteq> ANCHORED" "''step.started'' \<noteq> ANCHORED" "''step.failed'' \<noteq> ANCHORED"
  "''step.anchored'' \<noteq> ANCHORED" "SAMPLED \<noteq> ANCHORED" "FRAME_REFUSED \<noteq> ANCHORED" "MESSAGE_HELD \<noteq> ANCHORED"
  "REPETITION_STOPPED \<noteq> ANCHORED" "MODEL_CALLED \<noteq> ANCHORED"
  by (simp_all add: ANCHORED_def SAMPLED_def FRAME_REFUSED_def MESSAGE_HELD_def REPETITION_STOPPED_def MODEL_CALLED_def)

lemma calm_close_block [calm_ops]:
  assumes "at_step env sid r0 st0 r s st"
    and "\<And>r' s' st'. at_step env sid r0 st0 r' s' st' \<Longrightarrow> same_step s s' \<Longrightarrow> Q (r', s') st'"
  shows "calm (safe env sid r0 st0) (close_block env now extra r s) st Q"
proof (cases "block_in s")
  case None
  with assms show ?thesis by (simp add: close_block_def calm_done)
next
  case (Some b)
  obtain d st1 where put: "put_object (ev_codec env)
      (dumps_spaced (JObj (blocked_record (ev_iso env) (ev_float env) b (run_id r) (sr_step_id s) (run_process_version r) now extra)))
      st = (d, st1)" by (rule prod.exhaust)
  have same: "same_step s (unblocked s)" by (simp add: same_step_def unblocked_def)
  have "at_step env sid r0 st0 r (unblocked s) st1"
    by (rule at_step_change [OF at_step_object [OF put assms(1)]]) (simp add: unblocked_def)
  then have "calm (safe env sid r0 st0) (andThen
       (commit_run env now (with_step_run r (unblocked s))
          (commit_of (Some ((step_entry WAITED (unblocked s) (Some (ob_cause b)))\<lparr>ea_digest := Some d\<rparr>))))
       (\<lambda>r'. done_with (r', unblocked s))) st1 Q"
    by (intro calm_rules calm_commit) (simp_all add: same assms(2))
  then show ?thesis by (rule calm_at) (simp add: close_block_def Some put Let_def del: dumps_spaced.simps)
qed

lemma calm_open_block [calm_ops]:
  assumes "at_step env sid r0 st0 r s st"
    and "\<And>r' s' st'. at_step env sid r0 st0 r' s' st' \<Longrightarrow> same_step s s' \<Longrightarrow> Q (r', s') st'"
  shows "calm (safe env sid r0 st0) (open_block_step env now b r s) st Q"
proof -
  have put: "at_step env sid r0 st0 r' (s'\<lparr>sr_block := Some b\<rparr>) st' \<and> same_step s (s'\<lparr>sr_block := Some b\<rparr>)"
    if "at_step env sid r0 st0 r' s' st'" "same_step s s'" for r' s' st'
    using that by (simp add: at_step_def same_step_def)
  show ?thesis
    unfolding open_block_step_def
    by (auto split: option.split intro!: calm_rules calm_close_block assms put [THEN conjunct1] put [THEN conjunct2])
qed

lemma calm_lacking [calm_ops]:
  assumes "at_step env sid r0 st0 r s st"
    and "\<And>r' s' st'. at_step env sid r0 st0 r' s' st' \<Longrightarrow> same_step s s' \<Longrightarrow> Q (r', s') st'"
  shows "calm (safe env sid r0 st0) (lacking_step env now lack r s) st Q"
  unfolding lacking_step_def by (auto split: option.split intro!: calm_rules calm_open_block assms)

lemma calm_lack_ends [calm_ops]:
  assumes "at_step env sid r0 st0 r s st"
    and "\<And>r' s' st'. at_step env sid r0 st0 r' s' st' \<Longrightarrow> same_step s s' \<Longrightarrow> Q (r', s') st'"
  shows "calm (safe env sid r0 st0) (lack_ends env now r s) st Q"
  unfolding lack_ends_def by (auto split: option.split intro!: calm_rules calm_close_block assms)

text \<open>A change of a step run keeps its identifier.\<close>

definition keeps_id :: "(step_run \<Rightarrow> step_run) \<Rightarrow> step_state \<Rightarrow> bool" where
  "keeps_id f st \<longleftrightarrow> (\<forall>x. sr_step_id (f x) = sr_step_id x \<and> sr_state (f x) = sr_state x)"

lemma step_to_keeps: "step_to s state f = Inr s' \<Longrightarrow> keeps_id f state \<Longrightarrow> sr_step_id s' = sr_step_id s \<and> sr_state s' = state"
  by (auto simp: step_to_def keeps_id_def split: if_splits)

lemma at_step_to:
  "at_step env sid r0 st0 r s st \<Longrightarrow> step_to s state f = Inr s' \<Longrightarrow> keeps_id f state \<Longrightarrow>
     at_step env sid r0 st0 r s' st \<and> sr_state s' = state"
  using step_to_keeps at_step_change by blast

lemma calm_move_step [calm_ops]:
  assumes "at_step env sid r0 st0 r s st" "keeps_id f state" "kind \<noteq> ANCHORED"
    and "\<And>r' s' st'. at_step env sid r0 st0 r' s' st' \<Longrightarrow> stored r0 r' s' st' \<Longrightarrow> sr_state s' = state \<Longrightarrow> Q (r', s') st'"
  shows "calm (safe env sid r0 st0) (move_step env now state f kind out r s) st Q"
  unfolding move_step_def commit_step_def
  by (rule calm_andThen, rule calm_of_run_at [OF assms(1)], drule at_step_to [OF assms(1) _ assms(2)], elim conjE)
    (auto intro!: calm_rules calm_commit simp: assms(3) intro: assms(4))

lemma calm_reject_step [calm_ops]:
  assumes "at_step env sid r0 st0 r s st" "keeps_id f S_REJECTED"
    and "\<And>r' s' st'. at_step env sid r0 st0 r' s' st' \<Longrightarrow> stored r0 r' s' st' \<Longrightarrow> sr_state s' = S_REJECTED \<Longrightarrow> Q (r', s', False) st'"
  shows "calm (safe env sid r0 st0) (reject_step env now f out r s) st Q"
  unfolding reject_step_def
  by (rule calm_andThen, rule calm_of_run_at [OF assms(1)], drule at_step_to [OF assms(1) _ assms(2)], elim conjE)
    (auto intro!: calm_rules calm_commit intro: assms(3))

lemma calm_take_step [calm_ops]:
  assumes "at_step env sid r0 st0 r s st" "keeps_id f S_ADMITTED"
    and "\<And>r' s' st'. at_step env sid r0 st0 r' s' st' \<Longrightarrow> stored r0 r' s' st' \<Longrightarrow> sr_state s' = S_ADMITTED \<Longrightarrow> Q (r', s', True) st'"
  shows "calm (safe env sid r0 st0) (take_step env now f retried q rv r s) st Q"
proof -
  have na: "not_anchors ((commit_of (Some (step_entry ''step.admitted'' x None)))
      \<lparr>ca_before := (if retried then [step_entry RETRIED x (Some ''after_failure'')] else [])\<rparr>)" for x
    by (simp add: not_anchors_def commit_of_def)
  show ?thesis
    unfolding take_step_def
  proof (rule calm_andThen, rule calm_of_run_at [OF assms(1)])
    fix y assume "step_to s S_ADMITTED f = Inr y"
    from at_step_to [OF assms(1) this assms(2)] have y: "at_step env sid r0 st0 r y st" "sr_state y = S_ADMITTED" by simp_all
    show "calm (safe env sid r0 st0)
         (andThen (commit_run env now (with_step_run r y)
                ((commit_of (Some (step_entry ''step.admitted'' y None)))
                   \<lparr>ca_before := (if retried then [step_entry RETRIED y (Some ''after_failure'')] else [])\<rparr>)) (\<lambda>r'.
          andThen (if rv_reservation rv \<noteq> q
              then commit_run env now r' (commit_of (Some (step_entry ''step.reserved'' y
                     (Some (if rv_capped rv then ''capped'' else ''calibrated'')))))
              else done_with r') (\<lambda>r''. done_with (r'', y, True)))) st Q"
      by (rule calm_andThen, rule calm_commit [OF y(1) na])
        (auto intro!: calm_rules calm_commit_again simp: y(2) intro: assms(3))
  qed
qed

end
