(* ===== verification/Run_Local_Rules.thy ===== *)
theory Run_Local_Rules
  imports Run_Frame
begin

text \<open>
  What executing a local step promises: it ends in a state the loop over the run knows, with its step
  run in the run and the run in the store, and nothing else of the run changed; and it goes back to its
  boundary to move along its purpose's chain only when a model of the chain was used up.
\<close>

subsection \<open>Doings\<close>

definition assures :: "(session \<Rightarrow> bool) \<Rightarrow> 'a doing \<Rightarrow> session \<Rightarrow> ('a \<Rightarrow> session \<Rightarrow> bool) \<Rightarrow> bool" where
  "assures J d ss Q \<longleftrightarrow> (case d ss of (Inl e, ss') \<Rightarrow> J ss' | (Inr x, ss') \<Rightarrow> Q x ss')"

named_theorems assures_rules "rules for the postcondition of a doing"

lemma assures_Inr: "assures J d ss Q \<Longrightarrow> d ss = (Inr x, ss') \<Longrightarrow> Q x ss'"
  by (simp add: assures_def)

lemma assures_Inl: "assures J d ss Q \<Longrightarrow> d ss = (Inl e, ss') \<Longrightarrow> J ss'"
  by (simp add: assures_def)

lemma assures_returns [assures_rules]: "Q x ss \<Longrightarrow> assures J (returns x) ss Q"
  by (simp add: assures_def returns_def)

lemma assures_bind [assures_rules]: "assures J d ss (\<lambda>x ss'. assures J (f x) ss' Q) \<Longrightarrow> assures J (bind_do d f) ss Q"
  by (auto simp: assures_def bind_do_def split: prod.splits sum.splits)

lemma assures_note [assures_rules]: "assures J d (f ss) Q \<Longrightarrow> assures J (note_do f d) ss Q"
  by (simp add: assures_def note_do_def)

lemma assures_if [assures_rules]: "(b \<Longrightarrow> assures J d ss Q) \<Longrightarrow> (\<not> b \<Longrightarrow> assures J d' ss Q) \<Longrightarrow> assures J (if b then d else d') ss Q"
  by simp

lemma assures_pair [assures_rules]: "assures J (f a b) ss Q \<Longrightarrow> assures J (case (a, b) of (x, y) \<Rightarrow> f x y) ss Q"
  by simp

lemma assures_at: "assures J d ss Q \<Longrightarrow> d ss = d' ss' \<Longrightarrow> assures J d' ss' Q"
  by (simp add: assures_def)

lemma assures_mono: "assures J d ss Q \<Longrightarrow> (\<And>x ss'. Q x ss' \<Longrightarrow> Q' x ss') \<Longrightarrow> assures J d ss Q'"
  by (auto simp: assures_def split: prod.splits sum.splits)

subsection \<open>The session\<close>

text \<open>What executing a step keeps of the session: how often steps continued, what was asked for, and that no
  model comes back before the horizon.\<close>

definition kept :: "string list \<Rightarrow> moment \<Rightarrow> session \<Rightarrow> session \<Rightarrow> bool" where
  "kept adapters horizon ss ss' \<longleftrightarrow> ss_continued ss' = ss_continued ss \<and> ss_taking_over ss' = ss_taking_over ss
     \<and> still_open adapters (ss_cooling ss') horizon \<subseteq> still_open adapters (ss_cooling ss) horizon"

definition used_up :: "string list \<Rightarrow> moment \<Rightarrow> session \<Rightarrow> session \<Rightarrow> bool" where
  "used_up adapters horizon ss ss' \<longleftrightarrow>
     still_open adapters (ss_cooling ss') horizon \<subset> still_open adapters (ss_cooling ss) horizon"

definition secure ::
  "engine_env \<Rightarrow> string list \<Rightarrow> moment \<Rightarrow> string \<Rightarrow> run \<Rightarrow> session \<Rightarrow> session \<Rightarrow> bool" where
  "secure env adapters horizon sid r0 ss0 ss \<longleftrightarrow>
     safe env sid r0 (ss_engine ss0) (ss_engine ss) \<and> kept adapters horizon ss0 ss"

definition step_rests :: "step_state \<Rightarrow> bool" where
  "step_rests x \<longleftrightarrow> x \<in> {S_REJECTED, S_FAILED, S_STOPPED, S_SUCCEEDED, S_WAITING_HUMAN}"

text \<open>Where executing a step ends.\<close>

definition rests ::
  "engine_env \<Rightarrow> string list \<Rightarrow> moment \<Rightarrow> string \<Rightarrow> run \<Rightarrow> session \<Rightarrow> run \<times> step_run \<Rightarrow> session \<Rightarrow> bool" where
  "rests env adapters horizon sid r0 ss0 x ss \<longleftrightarrow>
     at_step env sid r0 (ss_engine ss0) (fst x) (snd x) (ss_engine ss) \<and> stored r0 (fst x) (snd x) (ss_engine ss)
     \<and> step_rests (sr_state (snd x)) \<and> kept adapters horizon ss0 ss
     \<and> (ss_moving ss \<longrightarrow> ss_moving ss0 \<or> used_up adapters horizon ss0 ss \<and> sr_state (snd x) \<in> {S_STOPPED, S_FAILED})"

lemma kept_refl [simp]: "kept adapters horizon ss ss"
  by (simp add: kept_def)

lemma kept_engine [simp]: "kept adapters horizon ss0 (ss\<lparr>ss_engine := st\<rparr>) = kept adapters horizon ss0 ss"
  by (simp add: kept_def)

lemma kept_flags [simp]:
  "kept adapters horizon ss0 (ss\<lparr>ss_stop_requested := b\<rparr>) = kept adapters horizon ss0 ss"
  "kept adapters horizon ss0 (ss\<lparr>ss_at_capacity := b\<rparr>) = kept adapters horizon ss0 ss"
  "kept adapters horizon ss0 (ss\<lparr>ss_parked := b\<rparr>) = kept adapters horizon ss0 ss"
  "kept adapters horizon ss0 (ss\<lparr>ss_moving := b\<rparr>) = kept adapters horizon ss0 ss"
  "kept adapters horizon ss0 (ss\<lparr>ss_immature := b\<rparr>) = kept adapters horizon ss0 ss"
  "kept adapters horizon ss0 (ss\<lparr>ss_administering := b\<rparr>) = kept adapters horizon ss0 ss"
  "kept adapters horizon ss0 (ss\<lparr>ss_repeating := b\<rparr>) = kept adapters horizon ss0 ss"
  "kept adapters horizon ss0 (ss\<lparr>ss_stopped := x\<rparr>) = kept adapters horizon ss0 ss"
  "kept adapters horizon ss0 (ss\<lparr>ss_settled := y\<rparr>) = kept adapters horizon ss0 ss"
  by (simp_all add: kept_def)

lemma used_up_flags [simp]:
  "used_up adapters horizon ss0 (ss\<lparr>ss_at_capacity := b\<rparr>) = used_up adapters horizon ss0 ss"
  "used_up adapters horizon ss0 (ss\<lparr>ss_moving := b\<rparr>) = used_up adapters horizon ss0 ss"
  "used_up adapters horizon ss0 (ss\<lparr>ss_engine := st\<rparr>) = used_up adapters horizon ss0 ss"
  by (simp_all add: used_up_def)

lemma rests_stopped [simp]:
  "rests env adapters horizon sid r0 ss0 x (ss\<lparr>ss_stopped := y\<rparr>) = rests env adapters horizon sid r0 ss0 x ss"
  by (simp add: rests_def kept_def used_up_def)

text \<open>An action of the engine inside a doing.\<close>

lemma assures_engine:
  assumes "kept adapters horizon ss0 ss"
    and "calm (safe env sid r0 (ss_engine ss0)) a (ss_engine ss) (\<lambda>x st. Q x (ss\<lparr>ss_engine := st\<rparr>))"
  shows "assures (secure env adapters horizon sid r0 ss0) (engine_do a) ss Q"
  using assms by (auto simp: assures_def engine_do_def calm_def secure_def split: prod.splits sum.splits)

text \<open>Where a step ends that moves nowhere.\<close>

lemma restsI:
  assumes "at_step env sid r0 (ss_engine ss0) r s st" "stored r0 r s st" "step_rests (sr_state s)"
    "kept adapters horizon ss0 ss" "ss_moving ss \<Longrightarrow> ss_moving ss0"
  shows "rests env adapters horizon sid r0 ss0 (r, s) (ss\<lparr>ss_engine := st\<rparr>)"
  using assms by (simp add: rests_def)

lemma restsI_moving:
  assumes "at_step env sid r0 (ss_engine ss0) r s st" "stored r0 r s st" "sr_state s \<in> {S_STOPPED, S_FAILED}"
    "kept adapters horizon ss0 ss" "used_up adapters horizon ss0 ss"
  shows "rests env adapters horizon sid r0 ss0 (r, s) (ss\<lparr>ss_engine := st\<rparr>)"
  using assms by (auto simp: rests_def step_rests_def used_up_def)

lemma step_rests_states [simp]: "step_rests S_REJECTED" "step_rests S_FAILED" "step_rests S_STOPPED" "step_rests S_SUCCEEDED"
  "step_rests S_WAITING_HUMAN"
  by (simp_all add: step_rests_def)

subsection \<open>Ends of a step\<close>

text \<open>A step moved to a resting state, with flags noted that are not the move's.\<close>

lemma rests_move:
  assumes "at_step env sid r0 (ss_engine ss0) r s (ss_engine ss)" "kept adapters horizon ss0 ss"
    and "ss_moving ss \<Longrightarrow> ss_moving ss0" "keeps_id f state" "kind \<noteq> ANCHORED" "step_rests state"
  shows "assures (secure env adapters horizon sid r0 ss0) (engine_do (move_step env now state f kind out r s)) ss
     (rests env adapters horizon sid r0 ss0)"
  by (rule assures_engine [OF assms(2)], rule calm_move_step [OF assms(1,4,5)])
    (rule restsI, use assms(2,3,6) in simp_all)

lemma keeps_id_simple [simp]:
  "keeps_id (\<lambda>x. x\<lparr>sr_adapter := a, sr_reason := b\<rparr>) st"
  "keeps_id (\<lambda>x. x\<lparr>sr_reason := b\<rparr>) st"
  "keeps_id (\<lambda>x. x\<lparr>sr_adapter := a, sr_consumption := q, sr_reason := b, sr_finished_at := t\<rparr>) st"
  "keeps_id (\<lambda>x. x\<lparr>sr_reason := b, sr_finished_at := t\<rparr>) st"
  "keeps_id (\<lambda>x. x\<lparr>sr_reason := b, sr_retryable := y, sr_finished_at := t\<rparr>) st"
  "keeps_id (\<lambda>x. x\<lparr>sr_consumption := q, sr_reason := b, sr_finished_at := t\<rparr>) st"
  "keeps_id (\<lambda>x. x\<lparr>sr_adapter := a, sr_reason := b, sr_retryable := y, sr_finished_at := t\<rparr>) st"
  "keeps_id (\<lambda>x. x\<lparr>sr_adapter := a, sr_consumption := q, sr_reason := b, sr_retryable := y, sr_finished_at := t\<rparr>) st"
  by (simp_all add: keeps_id_def)

lemma rests_at_stopped_adapter:
  assumes "at_step env sid r0 (ss_engine ss0) r s (ss_engine ss)" "kept adapters horizon ss0 ss" "ss_moving ss \<Longrightarrow> ss_moving ss0"
  shows "assures (secure env adapters horizon sid r0 ss0) (at_stopped_adapter env now adapter used handed r s) ss
     (rests env adapters horizon sid r0 ss0)"
proof -
  let ?s = "case sr_block s of Some b \<Rightarrow> if sr_state s = S_RUNNING then s\<lparr>sr_block := Some (b\<lparr>ob_next_check_at := Some now\<rparr>)\<rparr> else s
      | None \<Rightarrow> s"
  have "at_step env sid r0 (ss_engine ss0) r ?s (ss_engine ss)"
    by (rule at_step_change [OF assms(1)]) (simp split: option.split)
  then show ?thesis
    unfolding at_stopped_adapter_def Let_def
    by (intro assures_note rests_move) (use assms(2,3) in \<open>simp_all\<close>)
qed

lemma rests_refuse_unverified:
  assumes "at_step env sid r0 (ss_engine ss0) r s (ss_engine ss)" "kept adapters horizon ss0 ss" "ss_moving ss \<Longrightarrow> ss_moving ss0"
  shows "assures (secure env adapters horizon sid r0 ss0) (refuse_unverified env now adapter reason r s) ss
     (rests env adapters horizon sid r0 ss0)"
  unfolding refuse_unverified_def
  by (intro assures_note rests_move) (use assms in \<open>simp_all\<close>)

lemma rests_refuse_administering:
  assumes "at_step env sid r0 (ss_engine ss0) r s (ss_engine ss)" "kept adapters horizon ss0 ss" "ss_moving ss \<Longrightarrow> ss_moving ss0"
  shows "assures (secure env adapters horizon sid r0 ss0) (refuse_administering env now reason r s) ss
     (rests env adapters horizon sid r0 ss0)"
  unfolding refuse_administering_def
  by (intro assures_note rests_move) (use assms in \<open>simp_all\<close>)

lemma rests_stop_repeating:
  assumes "at_step env sid r0 (ss_engine ss0) r s (ss_engine ss)" "kept adapters horizon ss0 ss" "ss_moving ss \<Longrightarrow> ss_moving ss0"
  shows "assures (secure env adapters horizon sid r0 ss0) (stop_repeating env now p r s) ss (rests env adapters horizon sid r0 ss0)"
proof -
  have na: "not_anchors ((commit_of (Some (step_entry ''step.rejected'' x (Some REPETITION_REJECTED))))
      \<lparr>ca_after := [(step_entry REPETITION_STOPPED x (Some t))\<lparr>ea_digest := Some d\<rparr>]\<rparr>)" for x t d
    by (simp add: not_anchors_def commit_of_def)
  have at: "at_step env sid r0 (ss_engine ss0) r s (ss_engine (ss\<lparr>ss_repeating := True\<rparr>))" using assms(1) by simp
  show ?thesis
    unfolding stop_repeating_def
  proof (rule assures_note, rule assures_bind, rule assures_engine, simp add: assms(2), rule calm_object [OF at],
      rule calm_andThen, rule calm_of_run_at, assumption)
    fix d st1 y
    assume at1: "at_step env sid r0 (ss_engine ss0) r s st1"
      and to: "step_to s S_REJECTED (\<lambda>x. x\<lparr>sr_reason := Some (stop_reason p (sr_step_id s))\<rparr>) = Inr y"
    from at_step_to [OF at1 to keeps_id_simple(2)] show "calm (safe env sid r0 (ss_engine ss0))
       (andThen (commit_run env now (with_step_run r y)
          ((commit_of (Some (step_entry ''step.rejected'' y (Some REPETITION_REJECTED))))
             \<lparr>ca_after := [step_entry REPETITION_STOPPED y (Some (rule_text (rp_rule p)))\<lparr>ea_digest := Some d\<rparr>]\<rparr>))
          (\<lambda>r'. done_with (r', y))) st1
       (\<lambda>x st. assures (secure env adapters horizon sid r0 ss0)
          (note_do (\<lambda>ss. ss\<lparr>ss_stopped := ss_stopped ss @ [p]\<rparr>) (returns x)) (ss\<lparr>ss_repeating := True, ss_engine := st\<rparr>)
          (rests env adapters horizon sid r0 ss0))"
      by (intro calm_rules calm_commit [OF _ na] assures_rules) (auto intro!: restsI simp: assms)
  qed
qed

text \<open>A failed, a limited and a parked step.\<close>

lemma rests_park_step:
  assumes "at_step env sid r0 (ss_engine ss0) r s (ss_engine ss)" "kept adapters horizon ss0 ss" "ss_moving ss \<Longrightarrow> ss_moving ss0"
  shows "assures (secure env adapters horizon sid r0 ss0) (park_step env now t q r s) ss (rests env adapters horizon sid r0 ss0)"
proof -
  have "at_step env sid r0 (ss_engine ss0) r (s\<lparr>sr_block := map_option (\<lambda>b. b\<lparr>ob_next_check_at := Some t\<rparr>) (sr_block s)\<rparr>)
      (ss_engine ss)" by (rule at_step_change [OF assms(1)]) simp
  then show ?thesis unfolding park_step_def Let_def by (intro assures_note rests_move) (use assms(2,3) in simp_all)
qed

lemma calm_end_failed [calm_ops]:
  assumes "at_step env sid r0 st0 r s st" "keeps_id (\<lambda>x. f (x\<lparr>sr_finished_at := Some now\<rparr>)) S_FAILED"
    and "\<And>r' s' st'. at_step env sid r0 st0 r' s' st' \<Longrightarrow> stored r0 r' s' st' \<Longrightarrow> sr_state s' = S_FAILED \<Longrightarrow> Q (r', s') st'"
  shows "calm (safe env sid r0 st0) (end_failed env now cap out f r s) st Q"
  unfolding end_failed_def
  by (intro calm_rules calm_close_block [OF assms(1)] calm_move_step [OF _ assms(2)] assms(3)) simp_all

lemma calm_failed_before [calm_ops]:
  assumes "at_step env sid r0 st0 r s st"
    and "\<And>r' s' st'. at_step env sid r0 st0 r' s' st' \<Longrightarrow> stored r0 r' s' st' \<Longrightarrow> sr_state s' = S_FAILED \<Longrightarrow> Q (r', s') st'"
  shows "calm (safe env sid r0 st0) (failed_before env now reason adapter retryable lack r s) st Q"
  unfolding failed_before_def
proof (intro calm_rules calm_lacking [OF assms(1)], rule calm_of_run_at, assumption)
  fix r1 s1 st1 s2
  assume at: "at_step env sid r0 st0 r1 s1 st1"
    and to: "step_to s1 S_FAILED (\<lambda>x. x\<lparr>sr_adapter := adapter, sr_reason := Some reason, sr_retryable := retryable,
      sr_finished_at := Some now\<rparr>) = Inr s2"
  from at_step_to [OF at to keeps_id_simple(7)]
  show "calm (safe env sid r0 st0) (andThen (commit_run env now (with_step_run r1 s2) (commit_of (Some (step_entry FINISHED s2 (Some ''failed'')))))
     (\<lambda>r''. done_with (r'', s2))) st1 Q"
    by (intro calm_rules calm_commit) (auto intro: assms(2))
qed

lemma calm_end_refused [calm_ops]:
  assumes "at_step env sid r0 st0 r s st"
    and "\<And>r' s' st'. at_step env sid r0 st0 r' s' st' \<Longrightarrow> stored r0 r' s' st' \<Longrightarrow> sr_state s' = S_FAILED \<Longrightarrow> Q (r', s') st'"
  shows "calm (safe env sid r0 st0) (end_refused env now cap f r s) st Q"
  unfolding end_refused_def
proof (intro calm_rules calm_close_block [OF assms(1)] calm_lacking, assumption, rule calm_of_run_at, assumption)
  fix r1 s1 st1 s2
  assume at: "at_step env sid r0 st0 r1 s1 st1"
    and to: "step_to s1 S_FAILED (\<lambda>x. x\<lparr>sr_adapter := sf_adapter f, sr_consumption := sf_consumption f, sr_reason := Some (sf_reason f),
      sr_retryable := sf_retryable f, sr_finished_at := Some now\<rparr>) = Inr s2"
  have na: "not_anchors ((commit_of (Some (step_entry FINISHED s2 (Some ''failed''))))
      \<lparr>ca_interface := sf_interface f, ca_after := failure_after f s2\<rparr>)"
    by (simp add: not_anchors_def commit_of_def failure_after_def split: option.split)
  from at_step_to [OF at to keeps_id_simple(8)]
  show "calm (safe env sid r0 st0) (andThen (commit_run env now (with_step_run r1 s2)
       ((commit_of (Some (step_entry FINISHED s2 (Some ''failed''))))\<lparr>ca_interface := sf_interface f, ca_after := failure_after f s2\<rparr>))
     (\<lambda>r4. done_with (r4, s2))) st1 Q"
    by (intro calm_rules calm_commit [OF _ na]) (auto intro: assms(2))
qed

lemma rests_at_limit:
  assumes at: "at_step env sid r0 (ss_engine ss0) r s (ss_engine ss)" and kept: "kept adapters horizon ss0 ss"
    and still: "ss_moving ss \<Longrightarrow> ss_moving ss0" and up: "lm_moves l \<Longrightarrow> used_up adapters horizon ss0 ss"
  shows "assures (secure env adapters horizon sid r0 ss0) (at_limit env cap now l r s) ss (rests env adapters horizon sid r0 ss0)"
proof -
  let ?ss = "if lm_moves l then ss\<lparr>ss_moving := True\<rparr> else ss\<lparr>ss_at_capacity := True\<rparr>"
  have eng: "ss_engine ?ss = ss_engine ss" by simp
  have end_at: "rests env adapters horizon sid r0 ss0 (r', s') (ss\<lparr>ss_at_capacity := True, ss_engine := st\<rparr>)"
    if "at_step env sid r0 (ss_engine ss0) r' s' st" "stored r0 r' s' st" "sr_state s' \<in> {S_STOPPED, S_FAILED}" for r' s' st
    using that kept still by (intro restsI) (auto simp: step_rests_def)
  have end_moving: "rests env adapters horizon sid r0 ss0 (r', s') (ss\<lparr>ss_moving := True, ss_engine := st\<rparr>)"
    if "at_step env sid r0 (ss_engine ss0) r' s' st" "stored r0 r' s' st" "sr_state s' \<in> {S_STOPPED, S_FAILED}" "lm_moves l"
    for r' s' st
    using that kept up by (intro restsI_moving) auto
  have change: "at_step env sid r0 (ss_engine ss0) r' (s'\<lparr>sr_block := x, sr_adapter := y, sr_waiting_since := z, sr_waits := w\<rparr>) st"
    if "at_step env sid r0 (ss_engine ss0) r' s' st" for r' s' st x y z w
    by (rule at_step_change [OF that]) simp
  show ?thesis
    unfolding at_limit_def Let_def
    by (intro assures_note assures_engine [where ss = ?ss] calm_rules calm_open_block calm_close_block calm_move_step)
      (auto intro!: change end_at end_moving simp: eng at kept)
qed

subsection \<open>Booking and evaluating\<close>

lemma calm_record_fenced [calm_ops]:
  assumes "at_step env sid r0 st0 r s st" "ea_kind a \<noteq> ANCHORED" "\<And>st'. at_step env sid r0 st0 r s st' \<Longrightarrow> Q () st'"
  shows "calm (safe env sid r0 st0) (record_fenced env now r' a) st Q"
proof -
  obtain x st1 where f: "fence_run r' st = (x, st1)" by (rule prod.exhaust)
  have one: "en_ledger st1 = en_ledger st" "en_runs st1 = en_runs st" "en_recorded st1 = en_recorded st"
    using f by (auto simp: fence_run_def split: option.splits prod.splits bool.splits)
  note ok = at_step_ok [OF assms(1)]
  have dropped: "safe env sid r0 st0 (drop_all st st2)" for st2
    using at_step_safe [OF assms(1)] engine_ok_drop [OF ok] by (auto simp: safe_def grew_def drop_all_def)
  show ?thesis
  proof (cases x)
    case (Inl e)
    then have "record_fenced env now r' a st = (Inl e, drop_all st st1)"
      by (simp add: record_fenced_def transaction_def next_do_def andThen_def f)
    with dropped show ?thesis by (simp add: calm_def)
  next
    case (Inr u)
    have "service_ok (ev_codec env) (en_ledger st1)" using ok by (simp add: one(1) engine_ok_def)
    from record_entry_writes [OF this assms(2), of now r'] obtain e st2 where
      two: "record_entry env now r' a st1 = (Inr e, st2)" "same_rest st1 st2"
        "ledger_grew (ev_codec env) st1 st2 [entry_fact env r' a]" by blast
    have run: "record_fenced env now r' a st = (Inr (), keep_all st st2)"
      by (simp add: record_fenced_def transaction_def next_do_def andThen_def done_with_def f Inr two(1))
    have "engine_ok (ev_codec env) (keep_all st st2)"
      using commit_ok [OF ledger_grew_ok [OF two(3)]]
      by (auto simp: engine_ok_def keep_all_def commit_def close_queue_def end_transaction_def split: option.split)
    moreover have "\<exists>new. ls_entries (en_ledger (keep_all st st2)) = ls_entries (en_ledger st) @ new"
      using two(3) by (auto simp: keep_all_def ledger_grew_def one(1))
    moreover have "en_runs (keep_all st st2) = en_runs st" using two(2) by (simp add: keep_all_def same_rest_def one(2))
    ultimately have "safe env sid r0 st0 (keep_all st st2)"
      using at_step_safe [OF assms(1)] by (auto simp: safe_def grew_def)
    then have "at_step env sid r0 st0 r s (keep_all st st2)" using assms(1) by (simp add: at_step_def)
    with assms(3) run show ?thesis by (simp add: calm_def)
  qed
qed

lemma calm_book_calls [calm_ops]:
  assumes "at_step env sid r0 st0 r s st" "\<forall>(kind, d) \<in> set cs. kind \<noteq> ANCHORED"
    "\<And>st'. at_step env sid r0 st0 r s st' \<Longrightarrow> Q () st'"
  shows "calm (safe env sid r0 st0) (book_calls env now r' s' cs) st Q"
  using assms(1,2)
proof (induction cs arbitrary: st)
  case (Cons c cs)
  obtain kind d where c: "c = (kind, d)" by (rule prod.exhaust)
  show ?case
    unfolding c book_calls.simps
    by (rule calm_next, rule calm_record_fenced [OF Cons.prems(1)])
      (use Cons.prems(2) in \<open>auto simp: c intro!: Cons.IH\<close>)
qed (simp add: calm_done assms(3))

lemma calm_book_answer [calm_ops]:
  assumes "at_step env sid r0 st0 r s st" "\<And>st'. at_step env sid r0 st0 r s st' \<Longrightarrow> Q () st'"
  shows "calm (safe env sid r0 st0) (book_answer env now r' s') st Q"
  unfolding book_answer_def by (rule calm_record_fenced [OF assms(1)]) (use assms(2) in auto)

text \<open>What the answers of a step's collaborators may be: an approval asks for something, nothing but a question to a model moves a step
  along a chain, the models asked are of those configured, every answer comes before the horizon, and a
  model that refuses one cools down past it.\<close>

definition cools_past :: "moment \<Rightarrow> moment \<Rightarrow> model_world \<Rightarrow> bool" where
  "cools_past horizon now w \<longleftrightarrow> after_seconds now (mw_cool_down w) > horizon
     \<and> (\<forall>a reason d. mw_answer w a = At_Provider_Limit reason (Some d) \<longrightarrow> after_seconds now d > horizon)"

definition fair_work :: "string list \<Rightarrow> moment \<Rightarrow> local_answers \<Rightarrow> bool" where
  "fair_work adapters horizon a \<longleftrightarrow>
     (case la_work a of
        LW_Clock x \<Rightarrow> True
      | LW_State ad e \<Rightarrow> (case e of Wait_Failed f \<Rightarrow> \<not> sf_moves f | _ \<Rightarrow> True)
      | LW_Value e \<Rightarrow> \<not> ev_moves e
      | LW_Ask w chain n work read \<Rightarrow> set (map rm_adapter chain) \<subseteq> set adapters \<and> la_now a \<le> horizon
          \<and> cools_past horizon (la_later a) w)"

definition fair_answers :: "string list \<Rightarrow> moment \<Rightarrow> local_answers \<Rightarrow> bool" where
  "fair_answers adapters horizon a \<longleftrightarrow> fair_work adapters horizon a
     \<and> (la_not_raised a = None \<longrightarrow> la_drafts a \<noteq> [])
     \<and> (\<forall>v t q ad. \<not> ev_moves (la_checked a v t q ad)) \<and> (\<forall>(kind, d) \<in> set (la_booked a). kind \<noteq> ANCHORED)"

lemma llm_step_uses_up:
  assumes "llm_step w chain n work read now now' cooling = (e, cooling', answered)"
    and "set (map rm_adapter chain) \<subseteq> set adapters" "now \<le> horizon" "cools_past horizon now' w"
  shows "still_open adapters cooling' horizon \<subseteq> still_open adapters cooling horizon
    \<and> (ev_moves e \<longrightarrow> still_open adapters cooling' horizon \<subset> still_open adapters cooling horizon)"
  using assms(1)
proof (cases rule: llm_step_cases)
  case (cooled m delay goes)
  have "after_seconds now' (case delay of None \<Rightarrow> mw_cool_down w | Some d \<Rightarrow> d) > horizon"
    using assms(4) cooled(5) by (auto simp: cools_past_def split: option.split)
  from still_open_cool [OF this, of adapters chain n "rm_adapter m" now' cooling] cooled(2)
  have eq: "still_open adapters cooling' horizon = still_open adapters cooling horizon - {rm_adapter m}" by simp
  have "rm_adapter m \<in> still_open adapters cooling horizon"
    using serving_still_open [OF cooled(1) assms(3)] assms(2) by (auto simp: still_open_def)
  then show ?thesis unfolding eq by auto
qed auto

lemma checked_value_moves:
  assumes "fair_answers adapters horizon a" "ev_moves (fst (checked_value a st e))" shows "ev_moves e"
  using assms by (auto simp: checked_value_def fair_answers_def ev_moves_def split: evaluation.splits if_splits)

lemma wait_moves: "ev_moves (evaluation_of_wait ad e) \<longleftrightarrow> (\<exists>f. e = Wait_Failed f \<and> sf_moves f)"
  by (auto simp: evaluation_of_wait_def ev_moves_def split: wait_end.splits)

text \<open>What evaluating a step leaves: the step where it is, the session kept, and a model used up where the
  step is to move.\<close>

definition evaluated ::
  "engine_env \<Rightarrow> string list \<Rightarrow> moment \<Rightarrow> string \<Rightarrow> run \<Rightarrow> session \<Rightarrow> session \<Rightarrow> run \<Rightarrow> step_run \<Rightarrow> evaluation \<times> string option \<Rightarrow>
   session \<Rightarrow> bool" where
  "evaluated env adapters horizon sid r0 ss0 ss r s x ss' \<longleftrightarrow>
     at_step env sid r0 (ss_engine ss0) r s (ss_engine ss') \<and> kept adapters horizon ss0 ss'
     \<and> ss_moving ss' = ss_moving ss \<and> (ev_moves (fst x) \<longrightarrow> used_up adapters horizon ss0 ss')"

lemma evaluate_assures:
  assumes at: "at_step env sid r0 (ss_engine ss0) r s (ss_engine ss)" and kept: "kept adapters horizon ss0 ss"
    and fair: "fair_answers adapters horizon a"
  shows "assures (secure env adapters horizon sid r0 ss0) (evaluate_local env op a st resumed r s) ss
     (evaluated env adapters horizon sid r0 ss0 ss r s)"
proof -
  have booked: "\<forall>(kind, d) \<in> set (if la_counts_calls a then la_booked a else []). kind \<noteq> ANCHORED"
    using fair by (simp add: fair_answers_def)
  have quiet: "evaluated env adapters horizon sid r0 ss0 ss r s (checked_value a st e) (ss\<lparr>ss_engine := st'\<rparr>)"
    if "at_step env sid r0 (ss_engine ss0) r s st'" "\<not> ev_moves e" for e st'
    using that kept checked_value_moves [OF fair] by (auto simp: evaluated_def)
  have calls: "assures (secure env adapters horizon sid r0 ss0)
      (bind_do (engine_do (book_calls env (la_now a) r s (if la_counts_calls a then la_booked a else [])))
        (\<lambda>_. returns (checked_value a st e))) ss (evaluated env adapters horizon sid r0 ss0 ss r s)" if "\<not> ev_moves e" for e
    by (intro assures_bind assures_engine [OF kept] calm_book_calls [OF at booked] assures_returns quiet that)
  show ?thesis
  proof (cases "la_work a")
    case (LW_Clock seconds)
    have "\<not> ev_moves (evaluation_of_wait None (wait_for (lo_park op) (la_now a) s seconds resumed))"
      by (simp add: wait_moves wait_for_def Let_def split: option.split)
    then have "assures (secure env adapters horizon sid r0 ss0)
        (returns (evaluation_of_wait None (wait_for (lo_park op) (la_now a) s seconds resumed), None)) ss
        (evaluated env adapters horizon sid r0 ss0 ss r s)"
      by (intro assures_returns) (simp add: evaluated_def at kept)
    then show ?thesis by (rule assures_at) (simp add: evaluate_local_def LW_Clock)
  next
    case (LW_State ad e)
    with fair have "\<not> ev_moves (evaluation_of_wait (Some ad) e)"
      by (auto simp: fair_answers_def fair_work_def wait_moves)
    from calls [OF this] show ?thesis by (rule assures_at) (simp add: evaluate_local_def LW_State)
  next
    case (LW_Value e)
    with fair have "\<not> ev_moves e" by (simp add: fair_answers_def fair_work_def)
    from calls [OF this] show ?thesis by (rule assures_at) (simp add: evaluate_local_def LW_Value)
  next
    case (LW_Ask w chain n work read)
    obtain e cooling answered where l: "llm_step w chain n work read (la_now a) (la_later a) (ss_cooling ss) = (e, cooling, answered)"
      by (rule prod_cases3)
    have "set (map rm_adapter chain) \<subseteq> set adapters" "la_now a \<le> horizon" "cools_past horizon (la_later a) w"
      using fair LW_Ask by (simp_all add: fair_answers_def fair_work_def)
    note less = llm_step_uses_up [OF l this]
    let ?ss = "ss\<lparr>ss_cooling := cooling\<rparr>"
    have kept': "kept adapters horizon ss0 ?ss" using kept less by (auto simp: kept_def)
    have up: "used_up adapters horizon ss0 ?ss" if "ev_moves e" using kept less that by (auto simp: kept_def used_up_def)
    have at': "at_step env sid r0 (ss_engine ss0) r s (ss_engine ?ss)" using at by simp
    have post: "evaluated env adapters horizon sid r0 ss0 ss r s (checked_value a st e) (?ss\<lparr>ss_engine := st'\<rparr>)"
      if "at_step env sid r0 (ss_engine ss0) r s st'" for st'
      using that kept' up checked_value_moves [OF fair, of st e] by (auto simp: evaluated_def kept_def used_up_def)
    have "assures (secure env adapters horizon sid r0 ss0)
        (bind_do (engine_do (if answered \<and> la_counts_calls a then book_answer env (la_now a) r s else done_with ()))
          (\<lambda>_. returns (checked_value a st e))) ?ss (evaluated env adapters horizon sid r0 ss0 ss r s)"
      by (intro assures_bind assures_engine [OF kept'] calm_if calm_book_answer [OF at'] calm_done assures_returns post at')
    then show ?thesis by (rule assures_at) (simp add: evaluate_local_def LW_Ask l)
  qed
qed

subsection \<open>A step that ends well, or waits for a person\<close>

lemma not_anchors_trace [simp]: "not_anchors (ca\<lparr>ca_trace := t\<rparr>) = not_anchors ca"
  by (simp add: not_anchors_def)

lemma calm_commit_samples [calm_ops]:
  assumes "at_step env sid r0 st0 r s st" "stored r0 r s st"
    and "\<And>r' st'. at_step env sid r0 st0 r' s st' \<Longrightarrow> stored r0 r' s st' \<Longrightarrow> Q r' st'"
  shows "calm (safe env sid r0 st0) (commit_samples env now ps r s) st Q"
  using assms(1,2)
proof (induction ps arbitrary: r st)
  case (Cons p ps)
  obtain place request where p: "p = (place, request)" by (rule prod.exhaust)
  show ?case
    unfolding p commit_samples.simps
    by (rule calm_andThen, rule calm_commit_again [OF Cons.prems]) (simp, rule Cons.IH)
qed (simp add: calm_done assms(3))

lemma calm_commit_anchored [calm_ops]:
  assumes "at_step env sid r0 st0 r s st" "stored r0 r s st \<or> carries r s"
    and "ds = [] \<Longrightarrow> stored r0 r s st"
    and "\<And>r' st'. at_step env sid r0 st0 r' s st' \<Longrightarrow> stored r0 r' s st' \<Longrightarrow> Q r' st'"
  shows "calm (safe env sid r0 st0) (commit_anchored env now ds r s) st Q"
  using assms(1-3)
proof (induction ds arbitrary: r st)
  case (Cons d ds)
  have "carries r s" using Cons.prems(2) by (auto simp: stored_def)
  show ?case
    unfolding commit_anchored.simps
  proof (rule calm_andThen, rule calm_commit_run [OF at_step_safe [OF Cons.prems(1)] _ _ \<open>carries r s\<close>])
    show "only_step sid r0 r" "sr_step_id s = sid" using Cons.prems(1) by (simp_all add: at_step_def)
  next
    fix r' st' assume "at_step env sid r0 st0 r' s st'" "stored r0 r' s st'"
    then show "calm (safe env sid r0 st0) (commit_anchored env now ds r' s) st' Q" by (intro Cons.IH) simp_all
  qed simp_all
qed (simp add: calm_done assms(4))

lemma keeps_id_done [simp]:
  "keeps_id (\<lambda>x. x\<lparr>sr_artifacts := a, sr_checkpoint := b, sr_consumption := q, sr_finished_at := t\<rparr>) st"
  "keeps_id (\<lambda>x. x\<lparr>sr_artifacts := a, sr_checkpoint := b, sr_reason := w, sr_started_at := u, sr_finished_at := t\<rparr>) st"
  "keeps_id (\<lambda>x. x\<lparr>sr_anchoring := c, sr_reason := w\<rparr>) st"
  "keeps_id (\<lambda>x. x\<lparr>sr_started_at := u\<rparr>) st"
  by (simp_all add: keeps_id_def)

lemma calm_end_succeeded [calm_ops]:
  assumes at: "at_step env sid r0 st0 r s st"
    and Q: "\<And>r' s' st'. at_step env sid r0 st0 r' s' st' \<Longrightarrow> stored r0 r' s' st' \<Longrightarrow> sr_state s' = S_SUCCEEDED \<Longrightarrow> Q (r', s') st'"
  shows "calm (safe env sid r0 st0) (end_succeeded env op a q waited_on answered_by result used r s) st Q"
proof -
  define rest where "rest d t = andThen (close_block env (la_now a) (ended_details (lo_ceiling op) (s\<lparr>sr_adapter := waited_on\<rparr>) answered_by) r s) (\<lambda>(r1, s1).
         andThen (of_run (step_to s1 S_SUCCEEDED (\<lambda>x. x\<lparr>sr_artifacts := (case d of None \<Rightarrow> [] | Some x \<Rightarrow> [result_artifact x]),
            sr_checkpoint := Some (checkpoint_of (la_now a) r s (case d of None \<Rightarrow> [] | Some x \<Rightarrow> [result_artifact x]) d),
            sr_consumption := used, sr_finished_at := Some (la_now a)\<rparr>))) (\<lambda>s2.
         andThen (commit_run env (la_now a) (with_step_run r1 s2)
            ((commit_of (Some (step_entry FINISHED s2 (Some (if tr_rehearsed t then REHEARSED else ''succeeded'')))))
               \<lparr>ca_trace := Some t\<rparr>)) (\<lambda>r2.
         andThen (commit_samples env (la_now a) (if has_checks q \<and> \<not> run_rehearsal r2 then la_sampled a else []) r2 s2)
           (\<lambda>r3. done_with (r3, s2)))))" for d t
  have rest: "calm (safe env sid r0 st0) (rest d t) st1 Q" if at1: "at_step env sid r0 st0 r s st1" for d t st1
    unfolding rest_def
  proof (intro calm_andThen calm_close_block [OF at1] calm_pair, rule calm_of_run_at, assumption)
    fix r1 s1 st2 s2
    assume at2: "at_step env sid r0 st0 r1 s1 st2"
      and to: "step_to s1 S_SUCCEEDED (\<lambda>x. x\<lparr>sr_artifacts := (case d of None \<Rightarrow> [] | Some x \<Rightarrow> [result_artifact x]),
            sr_checkpoint := Some (checkpoint_of (la_now a) r s (case d of None \<Rightarrow> [] | Some x \<Rightarrow> [result_artifact x]) d),
            sr_consumption := used, sr_finished_at := Some (la_now a)\<rparr>) = Inr s2"
    from at_step_to [OF at2 to keeps_id_done(1)] have at3: "at_step env sid r0 st0 r1 s2 st2" "sr_state s2 = S_SUCCEEDED" by simp_all
    show "calm (safe env sid r0 st0)
        (andThen (commit_run env (la_now a) (with_step_run r1 s2)
            ((commit_of (Some (step_entry FINISHED s2 (Some (if tr_rehearsed t then REHEARSED else ''succeeded'')))))
               \<lparr>ca_trace := Some t\<rparr>)) (\<lambda>r2.
         andThen (commit_samples env (la_now a) (if has_checks q \<and> \<not> run_rehearsal r2 then la_sampled a else []) r2 s2)
           (\<lambda>r3. done_with (r3, s2)))) st2 Q"
      by (intro calm_andThen calm_commit [OF at3(1)] calm_commit_samples calm_done Q at3(2)) simp_all
  qed
  show ?thesis
  proof (cases result)
    case None
    have "calm (safe env sid r0 st0) (rest None no_trace) st Q" by (rule rest [OF at])
    then show ?thesis by (rule calm_at) (simp add: end_succeeded_def None rest_def Let_def)
  next
    case (Some x)
    obtain content t where x: "x = (content, t)" by (rule prod.exhaust)
    obtain d st1 where put: "put_object (ev_codec env) content st = (d, st1)" by (rule prod.exhaust)
    have "calm (safe env sid r0 st0) (rest (Some d) t) st1 Q" by (rule rest [OF at_step_object [OF put at]])
    then show ?thesis by (rule calm_at) (simp add: end_succeeded_def Some x put rest_def Let_def)
  qed
qed

lemma step_run_of_found: "step_run_of r sid = Inr s \<Longrightarrow> s \<in> set (run_step_runs r) \<and> sr_step_id s = sid"
  by (auto simp: step_run_of_def split: option.splits dest: find_SomeD)

lemma only_step_block:
  assumes "distinct (map sr_step_id (run_step_runs r))" "s \<in> set (run_step_runs r)"
  shows "only_step sid r (with_step_run r (s\<lparr>sr_block := b\<rparr>))"
proof -
  have same: "x = s" if "x \<in> set (run_step_runs r)" "sr_step_id x = sr_step_id s" for x
    using assms that by (auto simp: distinct_map dest: inj_onD)
  have "kept_beside sid x (if sr_step_id x = sr_step_id s then s\<lparr>sr_block := b\<rparr> else x)" if "x \<in> set (run_step_runs r)" for x
    using same [OF that] by (auto simp: kept_beside_def)
  then have "list_all2 (kept_beside sid) (run_step_runs r)
      (map (\<lambda>x. if sr_step_id x = sr_step_id s then s\<lparr>sr_block := b\<rparr> else x) (run_step_runs r))"
    by (auto simp: list_all2_conv_all_nth)
  then show ?thesis by (simp add: only_step_def with_step_run_def)
qed

lemma hold_from_keeps:
  assumes "hold_from now w behind sts r = Inr r'" "distinct (map sr_step_id (run_step_runs r))"
    "carries r s" "sr_state s \<noteq> S_PLANNED"
  shows "only_step sid r r' \<and> carries r' s"
  using assms
proof (induction sts arbitrary: behind r)
  case (Cons st sts)
  show ?case
  proof (cases "set (dependencies st) \<inter> behind = {}")
    case True
    with Cons show ?thesis by simp
  next
    case False
    with Cons.prems(1) obtain x where x: "step_run_of r (s_id st) = Inr x" by (auto split: sum.splits)
    let ?r = "if sr_state x = S_PLANNED \<and> sr_block x = None
      then with_step_run r (x\<lparr>sr_block := Some ((block_from WAIT_DEPENDENCY HELD_BACK now)\<lparr>ob_on := Some w\<rparr>)\<rparr>) else r"
    have step: "hold_from now w (insert (s_id st) behind) sts ?r = Inr r'" using Cons.prems(1) False x by simp
    have one: "only_step sid r ?r" using only_step_block [OF Cons.prems(2)] step_run_of_found [OF x] by simp
    then have d: "distinct (map sr_step_id (run_step_runs ?r))" using only_step_same(5) Cons.prems(2) by simp
    have "carries ?r s"
      using Cons.prems(3,4) step_run_of_found [OF x] by (auto simp: carries_def with_step_run_def)
    from Cons.IH [OF step d this Cons.prems(4)] only_step_trans [OF one] show ?thesis by blast
  qed
qed simp

lemma calm_anchor_step [calm_ops]:
  assumes at: "at_step env sid r0 st0 r s st" and d: "distinct (map sr_step_id (run_step_runs r0))"
    and some: "no = None \<Longrightarrow> ds \<noteq> []"
    and Q: "\<And>r' s' st'. at_step env sid r0 st0 r' s' st' \<Longrightarrow> stored r0 r' s' st' \<Longrightarrow> step_rests (sr_state s') \<Longrightarrow> Q (r', s') st'"
  shows "calm (safe env sid r0 st0) (anchor_step env now until ds no r s) st Q"
proof (cases no)
  case (Some error)
  then show ?thesis
    unfolding anchor_step_def by (simp, intro calm_move_step [OF at] Q) simp_all
next
  case None
  show ?thesis
    unfolding anchor_step_def None option.case Let_def
  proof (intro calm_andThen calm_open_block [OF at] calm_pair, rule calm_of_run_at, assumption, intro calm_andThen,
      rule calm_of_run_at, assumption)
    fix r1 s1 st1 s2 r2
    assume at1: "at_step env sid r0 st0 r1 s1 st1"
      and to: "step_to s1 S_WAITING_HUMAN (\<lambda>x. x\<lparr>sr_anchoring := Some \<lparr>an_requests = map dr_id ds, an_round = anchor_round s,
          an_verdict = None, an_decided_by = None\<rparr>,
        sr_reason := Some (''anchored ('' @ approval_named ds @ ''): waits for the decision request(s) ''
                  @ join '', '' (map dr_id ds) @ '', addressed to ''
                  @ join '', '' (map (\<lambda>x. ''the role '' @ x) (sort (remdups (map dr_decider ds)))) @ '', due '' @ until)\<rparr>) = Inr s2"
      and held: "hold_back now (sr_step_id s) (with_step_run r1 s2) = Inr r2"
    from at_step_to [OF at1 to keeps_id_done(3)] have s2: "at_step env sid r0 st0 r1 s2 st1" "sr_state s2 = S_WAITING_HUMAN"
      by simp_all
    have o1: "only_step sid r0 (with_step_run r1 s2)"
      using s2(1) only_step_trans only_step_with by (auto simp: at_step_def)
    have "distinct (map sr_step_id (run_step_runs (with_step_run r1 s2)))" using only_step_same(5) [OF o1] d by simp
    from hold_from_keeps [OF held [unfolded hold_back_def] this, of s2 sid] s2(2)
    have o2: "only_step sid (with_step_run r1 s2) r2" "carries r2 s2" by simp_all
    have at2: "at_step env sid r0 st0 r2 s2 st1" using s2(1) only_step_trans [OF o1 o2(1)] by (simp add: at_step_def)
    show "calm (safe env sid r0 st0) (andThen (commit_anchored env now ds r2 s2) (\<lambda>r3. done_with (r3, s2))) st1 Q"
      by (intro calm_andThen calm_commit_anchored [OF at2] calm_done Q) (use some None s2(2) o2(2) in simp_all)
  qed
qed

subsection \<open>Admission in the frame\<close>

lemma keeps_id_carry:
  "keeps_id changes st \<Longrightarrow> keeps_id (\<lambda>x. changes (x\<lparr>sr_adapter := a, sr_estimate := e, sr_reservation := v, sr_reason := w\<rparr>)) st"
  by (simp add: keeps_id_def)

lemma calm_admit_step [calm_ops]:
  assumes at: "at_step env sid r0 st0 r s st" and keeps: "\<And>x. keeps_id changes x"
    and refused: "\<And>r' s' st'. at_step env sid r0 st0 r' s' st' \<Longrightarrow> stored r0 r' s' st' \<Longrightarrow> sr_state s' = S_REJECTED \<Longrightarrow> Q (r', s', False) st'"
    and taken: "\<And>r' s' st'. at_step env sid r0 st0 r' s' st' \<Longrightarrow> stored r0 r' s' st' \<Longrightarrow> sr_state s' = S_ADMITTED \<Longrightarrow> Q (r', s', True) st'"
  shows "calm (safe env sid r0 st0) (admit_step env op now r q s demand changes) st Q"
proof (cases "known_demand op r demand")
  case None
  from admit_step_unknown [OF None, of env now q s changes] obtain w where
    eq: "admit_step env op now r q s demand changes = reject_step env now (carried changes (adapter_for demand s) None None (Some w)) ''no_estimate'' r s"
    by blast
  show ?thesis
    unfolding eq carried_def [abs_def] by (rule calm_reject_step [OF at keeps_id_carry [OF keeps]]) (rule refused)
next
  case (Some d)
  let ?rv = "reserved_for op r q s demand d"
  define carry where "carry = (\<lambda>reason x. changes (x\<lparr>sr_adapter := adapter_for demand s, sr_estimate := Some d,
      sr_reservation := Some (rv_reservation ?rv), sr_reason := reason\<rparr>))"
  have carry: "keeps_id (carry reason) x" for reason x
    unfolding carry_def by (rule keeps_id_carry [OF keeps])
  have eq: "carried changes (adapter_for demand s) (Some d) (Some (rv_reservation ?rv)) = carry"
    by (simp add: carry_def carried_def [abs_def])
  have turned: "calm (safe env sid r0 st0) (andThen (open_block_step env now b r s)
      (\<lambda>(r', s'). reject_step env now (carry reason) out r' s')) st Q" for b reason out
    by (intro calm_andThen calm_open_block [OF at] calm_pair calm_reject_step [OF _ carry] refused)
  have closed: "calm (safe env sid r0 st0) (andThen (case sr_block s of
          Some b \<Rightarrow> if ob_cause b \<in> set CLOSED_BY_ADMISSION then close_block env now [] r s else done_with (r, s)
        | None \<Rightarrow> done_with (r, s)) (\<lambda>(r', s'). take_step env now (carry None) (sr_state s = S_FAILED) d ?rv r' s')) st Q"
  proof (rule calm_andThen)
    have go: "calm (safe env sid r0 st0) (take_step env now (carry None) (sr_state s = S_FAILED) d ?rv r' s') st' Q"
      if "at_step env sid r0 st0 r' s' st'" for r' s' st'
      by (rule calm_take_step [OF that carry]) (rule taken)
    show "calm (safe env sid r0 st0) (case sr_block s of
          Some b \<Rightarrow> if ob_cause b \<in> set CLOSED_BY_ADMISSION then close_block env now [] r s else done_with (r, s)
        | None \<Rightarrow> done_with (r, s)) st (\<lambda>x st'. calm (safe env sid r0 st0)
          (case x of (r', s') \<Rightarrow> take_step env now (carry None) (sr_state s = S_FAILED) d ?rv r' s') st' Q)"
      by (cases "sr_block s") (auto intro!: calm_rules calm_close_block [OF at] go simp: at)
  qed
  show ?thesis
    unfolding admit_step_known [OF Some] Let_def eq
    by (cases "held_by_platform op q ?rv"; cases "ad_fits (rv_verdict ?rv)")
      (simp_all only: option.case not_True_eq_False not_False_eq_True if_True if_False turned closed)
qed

subsection \<open>The step\<close>

lemma kept_notes [simp]:
  "ss_engine (ss\<lparr>ss_moving := b\<rparr>) = ss_engine ss"
  by simp

lemma rests_engine:
  assumes "kept adapters horizon ss0 ss" "ss_moving ss \<Longrightarrow> ss_moving ss0"
    and "\<And>Q. (\<And>r' s' st'. at_step env sid r0 (ss_engine ss0) r' s' st' \<Longrightarrow> stored r0 r' s' st' \<Longrightarrow> step_rests (sr_state s') \<Longrightarrow>
       Q (r', s') st') \<Longrightarrow> calm (safe env sid r0 (ss_engine ss0)) a (ss_engine ss) Q"
  shows "assures (secure env adapters horizon sid r0 ss0) (engine_do a) ss (rests env adapters horizon sid r0 ss0)"
  by (rule assures_engine [OF assms(1)], rule assms(3)) (auto intro!: restsI simp: assms(1,2))

lemma rests_finish:
  assumes at: "at_step env sid r0 (ss_engine ss0) r s (ss_engine ss)" and kept: "kept adapters horizon ss0 ss"
    and still: "ss_moving ss \<Longrightarrow> ss_moving ss0" and up: "ev_moves e \<Longrightarrow> used_up adapters horizon ss0 ss"
    and fair: "fair_answers adapters horizon a" and d: "distinct (map sr_step_id (run_step_runs r0))"
  shows "assures (secure env adapters horizon sid r0 ss0) (finish_local env op a q waited_on r s e) ss
     (rests env adapters horizon sid r0 ss0)"
proof (cases e)
  case (Ev_Value v t u ad)
  then show ?thesis by (auto simp: finish_local_def intro!: rests_engine [OF kept still] calm_end_succeeded [OF at])
next
  case (Ev_Waited u ad)
  then show ?thesis by (auto simp: finish_local_def intro!: rests_engine [OF kept still] calm_end_succeeded [OF at])
next
  case (Ev_At_Limit l)
  then show ?thesis using rests_at_limit [OF at kept still] up by (simp add: finish_local_def Let_def ev_moves_def)
next
  case (Ev_Parked t u)
  then show ?thesis using rests_park_step [OF at kept still] by (simp add: finish_local_def Let_def)
next
  case (Ev_Stopped ad u)
  then show ?thesis using rests_at_stopped_adapter [OF at kept still] by (simp add: finish_local_def Let_def)
next
  case (Ev_Rule_Failed reason)
  then show ?thesis
    by (auto simp: finish_local_def keeps_id_def intro!: rests_engine [OF kept still] calm_end_failed [OF at])
next
  case (Ev_Checks_Failed reason u)
  then show ?thesis
    by (auto simp: finish_local_def keeps_id_def intro!: rests_engine [OF kept still] calm_end_failed [OF at])
next
  case (Ev_To_Approve u)
  have some: "la_not_raised a = None \<Longrightarrow> la_drafts a \<noteq> []" using fair by (simp add: fair_answers_def)
  have change: "at_step env sid r0 (ss_engine ss0) r' (s'\<lparr>sr_consumption := u\<rparr>) st'"
    if "at_step env sid r0 (ss_engine ss0) r' s' st'" for r' s' st' by (rule at_step_change [OF that]) simp
  show ?thesis
    unfolding finish_local_def Let_def Ev_To_Approve evaluation.case
    by (rule rests_engine [OF kept still], assumption, intro calm_andThen calm_close_block [OF at] calm_pair calm_anchor_step [OF change d some])
      auto
next
  case (Ev_Failed f)
  show ?thesis
  proof (cases "sf_moves f")
    case True
    then have up: "used_up adapters horizon ss0 ss" using up Ev_Failed by (simp add: ev_moves_def)
    have at': "at_step env sid r0 (ss_engine ss0) r s (ss_engine (ss\<lparr>ss_moving := True\<rparr>))" using at by simp
    show ?thesis
      unfolding finish_local_def Let_def Ev_Failed evaluation.case
      by (rule assures_note, simp add: True, rule assures_engine [where ss = "ss\<lparr>ss_moving := True\<rparr>"], simp add: kept,
          rule calm_end_refused [OF at']) (auto intro!: restsI_moving simp: kept up)
  next
    case False
    then show ?thesis
      by (auto simp: finish_local_def Ev_Failed note_do_def [abs_def] intro!: rests_engine [OF kept still] calm_end_refused [OF at])
  qed
qed

lemma rests_act:
  assumes at: "at_step env sid r0 (ss_engine ss0) r s (ss_engine ss)" and kept: "kept adapters horizon ss0 ss"
    and still: "ss_moving ss \<Longrightarrow> ss_moving ss0"
    and fair: "fair_answers adapters horizon a" and d: "distinct (map sr_step_id (run_step_runs r0))"
  shows "assures (secure env adapters horizon sid r0 ss0) (act_local env op a q waited_on resumed r s) ss
     (rests env adapters horizon sid r0 ss0)"
proof -
  have rest: "assures (secure env adapters horizon sid r0 ss0) (case x of (e, adapter) \<Rightarrow>
        finish_local env op a q waited_on r2 (with_adapter adapter s2) e) ss2 (rests env adapters horizon sid r0 ss0)"
    if "evaluated env adapters horizon sid r0 ss0 (ss\<lparr>ss_engine := st\<rparr>) r2 s2 x ss2" for x r2 s2 ss2 st
  proof (cases x)
    case (Pair e adapter)
    have e: "at_step env sid r0 (ss_engine ss0) r2 s2 (ss_engine ss2)" "kept adapters horizon ss0 ss2"
      "ss_moving ss2 \<Longrightarrow> ss_moving ss0" "ev_moves e \<Longrightarrow> used_up adapters horizon ss0 ss2"
      using that still Pair by (auto simp: evaluated_def)
    have "at_step env sid r0 (ss_engine ss0) r2 (with_adapter adapter s2) (ss_engine ss2)"
      by (rule at_step_change [OF e(1)]) (simp add: with_adapter_def split: option.split)
    from rests_finish [OF this e(2-4) fair d] show ?thesis by (simp add: Pair)
  qed
  have start: "assures (secure env adapters horizon sid r0 ss0)
      (bind_do (evaluate_local env op a q resumed r2 s2) (\<lambda>(e, adapter). finish_local env op a q waited_on r2 (with_adapter adapter s2) e))
      (ss\<lparr>ss_engine := st\<rparr>) (rests env adapters horizon sid r0 ss0)"
    if "at_step env sid r0 (ss_engine ss0) r2 s2 st" for r2 s2 st
  proof (rule assures_bind, rule assures_mono [OF evaluate_assures [OF _ _ fair]])
    show "at_step env sid r0 (ss_engine ss0) r2 s2 (ss_engine (ss\<lparr>ss_engine := st\<rparr>))" using that by simp
    show "kept adapters horizon ss0 (ss\<lparr>ss_engine := st\<rparr>)" using kept by simp
  qed (rule rest)
  have commit: "calm (safe env sid r0 (ss_engine ss0))
      (andThen (commit_run env (la_now a) (with_step_run r1 s2) (commit_of (Some (step_entry ''step.started'' s2 None))))
          (\<lambda>r2. done_with (r2, s2))) st
      (\<lambda>x st. assures (secure env adapters horizon sid r0 ss0) (case x of (r2, s2) \<Rightarrow> bind_do (evaluate_local env op a q resumed r2 s2)
          (\<lambda>(e, adapter). finish_local env op a q waited_on r2 (with_adapter adapter s2) e)) (ss\<lparr>ss_engine := st\<rparr>)
        (rests env adapters horizon sid r0 ss0))"
    if "at_step env sid r0 (ss_engine ss0) r1 s2 st" for r1 s2 st
    by (rule calm_andThen, rule calm_commit [OF that]) (auto intro!: calm_done start)
  have open_it: "calm (safe env sid r0 (ss_engine ss0)) (andThen (case la_work a of
        LW_Clock seconds \<Rightarrow> open_block_step env (la_now a) (block_from WAIT_EXTERNAL WAITING_ON_CLOCK (la_now a)) r s1
      | LW_State adapter e \<Rightarrow> open_block_step env (la_now a) (block_from WAIT_EXTERNAL WAITING_ON_STATE (la_now a)) r s1
      | _ \<Rightarrow> done_with (r, s1)) (\<lambda>(r1, s2).
        andThen (commit_run env (la_now a) (with_step_run r1 s2) (commit_of (Some (step_entry ''step.started'' s2 None))))
          (\<lambda>r2. done_with (r2, s2)))) (ss_engine ss)
      (\<lambda>x st. assures (secure env adapters horizon sid r0 ss0) (case x of (r2, s2) \<Rightarrow> bind_do (evaluate_local env op a q resumed r2 s2)
          (\<lambda>(e, adapter). finish_local env op a q waited_on r2 (with_adapter adapter s2) e)) (ss\<lparr>ss_engine := st\<rparr>)
        (rests env adapters horizon sid r0 ss0))"
    if "at_step env sid r0 (ss_engine ss0) r s1 (ss_engine ss)" for s1
    by (rule calm_andThen, cases "la_work a") (auto intro!: calm_open_block [OF that] calm_done commit that)
  show ?thesis
    unfolding act_local_def
  proof (rule assures_bind, rule assures_engine [OF kept], rule calm_andThen, rule calm_of_run_at [OF at])
    fix s1 assume to: "step_to s S_RUNNING (\<lambda>x. x\<lparr>sr_started_at := Some (la_now a)\<rparr>) = Inr s1"
    from at_step_to [OF at to keeps_id_done(4)] show "calm (safe env sid r0 (ss_engine ss0)) (andThen (case la_work a of
        LW_Clock seconds \<Rightarrow> open_block_step env (la_now a) (block_from WAIT_EXTERNAL WAITING_ON_CLOCK (la_now a)) r s1
      | LW_State adapter e \<Rightarrow> open_block_step env (la_now a) (block_from WAIT_EXTERNAL WAITING_ON_STATE (la_now a)) r s1
      | _ \<Rightarrow> done_with (r, s1)) (\<lambda>(r1, s2).
        andThen (commit_run env (la_now a) (with_step_run r1 s2) (commit_of (Some (step_entry ''step.started'' s2 None))))
          (\<lambda>r2. done_with (r2, s2)))) (ss_engine ss)
      (\<lambda>x st. assures (secure env adapters horizon sid r0 ss0) (case x of (r2, s2) \<Rightarrow> bind_do (evaluate_local env op a q resumed r2 s2)
          (\<lambda>(e, adapter). finish_local env op a q waited_on r2 (with_adapter adapter s2) e)) (ss\<lparr>ss_engine := st\<rparr>)
        (rests env adapters horizon sid r0 ss0))" by (intro open_it) simp
  qed
qed

lemma rests_start:
  assumes at: "at_step env sid r0 (ss_engine ss0) r s (ss_engine ss)" and kept: "kept adapters horizon ss0 ss"
    and still: "ss_moving ss \<Longrightarrow> ss_moving ss0"
    and fair: "fair_answers adapters horizon a" and d: "distinct (map sr_step_id (run_step_runs r0))"
  shows "assures (secure env adapters horizon sid r0 ss0) (start_local env op a q demand s0 r s) ss
     (rests env adapters horizon sid r0 ss0)"
proof -
  have at_ss: "at_step env sid r0 (ss_engine ss0) r' s' (ss_engine (ss\<lparr>ss_engine := st\<rparr>))"
    if "at_step env sid r0 (ss_engine ss0) r' s' st" for r' s' st using that by simp
  have keeps: "keeps_id (\<lambda>x. x\<lparr>sr_retryable := None, sr_attempt := next_attempt s0\<rparr>) x" for x
    by (simp add: keeps_id_def)
  have admit: "assures (secure env adapters horizon sid r0 ss0)
      (bind_do (engine_do (admit_step env (lo_admission op) (la_now a) r q s demand
          (\<lambda>x. x\<lparr>sr_retryable := None, sr_attempt := next_attempt s0\<rparr>)))
        (\<lambda>(r1, s1, admitted). if \<not> admitted then returns (r1, s1)
           else act_local env op a q (sr_adapter s0) (sr_state s0 \<in> {S_STOPPED, S_RUNNING}) r1 s1)) ss
      (rests env adapters horizon sid r0 ss0)"
  proof (rule assures_bind, rule assures_engine [OF kept], rule calm_admit_step [OF at keeps])
    fix r' s' st' assume "at_step env sid r0 (ss_engine ss0) r' s' st'" "stored r0 r' s' st'" "sr_state s' = S_REJECTED"
    then show "assures (secure env adapters horizon sid r0 ss0) (case (r', s', False) of (r1, s1, admitted) \<Rightarrow>
        if \<not> admitted then returns (r1, s1)
        else act_local env op a q (sr_adapter s0) (sr_state s0 \<in> {S_STOPPED, S_RUNNING}) r1 s1) (ss\<lparr>ss_engine := st'\<rparr>)
      (rests env adapters horizon sid r0 ss0)"
      by (auto intro!: assures_returns restsI simp: kept still)
  next
    fix r' s' st' assume "at_step env sid r0 (ss_engine ss0) r' s' st'"
    then show "assures (secure env adapters horizon sid r0 ss0) (case (r', s', True) of (r1, s1, admitted) \<Rightarrow>
        if \<not> admitted then returns (r1, s1)
        else act_local env op a q (sr_adapter s0) (sr_state s0 \<in> {S_STOPPED, S_RUNNING}) r1 s1) (ss\<lparr>ss_engine := st'\<rparr>)
      (rests env adapters horizon sid r0 ss0)"
      by (auto intro!: rests_act [OF at_ss _ _ fair d] simp: kept still)
  qed
  show ?thesis
    unfolding start_local_def
    by (cases "la_unverified a"; cases "dm_adapter demand"; cases "la_repeated a")
      (simp_all only: option.case prod.case admit rests_stop_repeating [OF at kept still] rests_refuse_unverified [OF at kept still])
qed

text \<open>What executing a local step leaves, for a run whose steps have names of their own and are stored.\<close>

theorem local_step_rests:
  assumes "engine_ok (ev_codec env) (ss_engine ss)" "en_runs (ss_engine ss) (run_id r) = Some r"
    and "distinct (map sr_step_id (run_step_runs r))" "fair_answers adapters horizon a"
  shows "assures (secure env adapters horizon (sr_step_id s) r ss) (local_step env op a r q s) ss
     (rests env adapters horizon (sr_step_id s) r ss)"
proof -
  have at: "at_step env (sr_step_id s) r (ss_engine ss) r s (ss_engine ss)" by (rule at_step_start [OF assms(1,2) refl])
  have at_ss: "at_step env (sr_step_id s) r (ss_engine ss) r' s' (ss_engine (ss\<lparr>ss_engine := st\<rparr>))"
    if "at_step env (sr_step_id s) r (ss_engine ss) r' s' st" for r' s' st using that by simp
  have failed: "assures (secure env adapters horizon (sr_step_id s) r ss)
      (engine_do (failed_before env now reason ad re lack r s)) ss (rests env adapters horizon (sr_step_id s) r ss)" for now reason ad re lack
    by (rule rests_engine [OF kept_refl], assumption, rule calm_failed_before [OF at]) auto
  have then_rests: "assures (secure env adapters horizon (sr_step_id s) r ss)
      (bind_do (engine_do (lack_ends env now r s)) (\<lambda>(r1, s1). f r1 s1)) ss (rests env adapters horizon (sr_step_id s) r ss)"
    if "\<And>r' s' st. at_step env (sr_step_id s) r (ss_engine ss) r' s' st \<Longrightarrow>
      assures (secure env adapters horizon (sr_step_id s) r ss) (f r' s') (ss\<lparr>ss_engine := st\<rparr>) (rests env adapters horizon (sr_step_id s) r ss)"
    for f now
    by (rule assures_bind, rule assures_engine [OF kept_refl], rule calm_lack_ends [OF at]) (simp add: that)
  show ?thesis
  proof (cases "la_demand a")
    case (Demanded d)
    have "assures (secure env adapters horizon (sr_step_id s) r ss)
        (bind_do (engine_do (lack_ends env (la_now a) r s)) (\<lambda>(r1, s1). start_local env op a q d s r1 s1)) ss
        (rests env adapters horizon (sr_step_id s) r ss)"
      by (rule then_rests, rule rests_start [OF at_ss _ _ assms(4,3)]) simp_all
    then show ?thesis by (simp add: local_step_def Demanded)
  next
    case (Demand_Stopped ad)
    have "assures (secure env adapters horizon (sr_step_id s) r ss)
        (bind_do (engine_do (lack_ends env (la_now a) r s)) (\<lambda>(r1, s1). at_stopped_adapter env (la_now a) ad None False r1 s1)) ss
        (rests env adapters horizon (sr_step_id s) r ss)"
      by (rule then_rests, rule rests_at_stopped_adapter [OF at_ss]) simp_all
    then show ?thesis by (simp add: local_step_def Demand_Stopped)
  qed (simp_all add: local_step_def failed)
qed

end
