(* ===== verification/Run_Pass.thy ===== *)
theory Run_Pass
  imports Run_Engine Run_Local_Rules
begin

text \<open>
  A pass over a run ends. What the loop needs of whatever executes a step is the locale \<open>executor\<close>:
  the step rests, only it changed, and it goes back to its boundary to move along a chain only when a
  model was used up. Under it every round that goes on takes one from a number: the steps still to run,
  the heals, the continuations and the models left. The local step is interpreted as an executor.
\<close>

subsection \<open>What is left to do\<close>

text \<open>The steps the loop may still hand out.\<close>

definition active :: "run \<Rightarrow> step_run \<Rightarrow> bool" where
  "active r s \<longleftrightarrow> \<not> done_run s \<and> sr_state s \<noteq> S_WAITING_HUMAN \<and> sr_step_id s \<notin> on_escalation r"

definition steps_left :: "run \<Rightarrow> nat" where
  "steps_left r = length (filter (active r) (run_step_runs r))"

definition heals_left :: "run \<Rightarrow> engine \<Rightarrow> nat" where
  "heals_left r st = (\<Sum>sid \<in> set (map sr_step_id (run_step_runs r)). HEALS - healed_times st r sid)"

definition continues_left :: "run \<Rightarrow> session \<Rightarrow> nat" where
  "continues_left r ss = (\<Sum>sid \<in> set (map sr_step_id (run_step_runs r)). CONTINUATIONS - ss_continued ss sid)"

definition models_left :: "string list \<Rightarrow> moment \<Rightarrow> session \<Rightarrow> nat" where
  "models_left adapters horizon ss = card (still_open adapters (ss_cooling ss) horizon)"

definition left_to_do :: "string list \<Rightarrow> moment \<Rightarrow> run \<Rightarrow> session \<Rightarrow> nat" where
  "left_to_do adapters horizon r ss =
     steps_left r + heals_left r (ss_engine ss) + continues_left r ss + models_left adapters horizon ss"

text \<open>The run between two rounds.\<close>

definition between_rounds :: "engine_env \<Rightarrow> run \<Rightarrow> session \<Rightarrow> bool" where
  "between_rounds env r ss \<longleftrightarrow> engine_ok (ev_codec env) (ss_engine ss) \<and> en_runs (ss_engine ss) (run_id r) = Some r
     \<and> distinct (map sr_step_id (run_step_runs r)) \<and> \<not> ss_moving ss"

lemma between_roundsD:
  assumes "between_rounds env r ss"
  shows "engine_ok (ev_codec env) (ss_engine ss)" "en_runs (ss_engine ss) (run_id r) = Some r"
    "distinct (map sr_step_id (run_step_runs r))" "\<not> ss_moving ss"
  using assms by (simp_all add: between_rounds_def)

subsection \<open>What a step takes of it\<close>

text \<open>What a run keeps from its start: its plan and the names of its step runs.\<close>

definition same_plan :: "run \<Rightarrow> run \<Rightarrow> bool" where
  "same_plan r r' \<longleftrightarrow> run_id r' = run_id r \<and> run_steps r' = run_steps r \<and> run_work r' = run_work r
     \<and> map sr_step_id (run_step_runs r') = map sr_step_id (run_step_runs r)"

lemma same_plan_refl [simp]: "same_plan r r"
  by (simp add: same_plan_def)

lemma same_plan_trans: "same_plan a b \<Longrightarrow> same_plan b c \<Longrightarrow> same_plan a c"
  by (simp add: same_plan_def)

lemma only_step_plan: "only_step sid r r' \<Longrightarrow> same_plan r r'"
  using only_step_same [of sid r r'] by (simp add: same_plan_def)

lemma done_run_block [simp]: "done_run (s\<lparr>sr_block := b\<rparr>) = done_run s"
  by (simp add: done_run_def)

lemma beside_active:
  assumes "kept_beside sid a b" "sr_step_id a \<noteq> sid" "on_escalation r' = on_escalation r"
  shows "active r' b = active r a"
proof -
  have eq: "b\<lparr>sr_block := sr_block a\<rparr> = a" and same: "sr_step_id b = sr_step_id a"
    using assms(1,2) by (simp_all add: kept_beside_def)
  from arg_cong [OF eq, of sr_state] have "sr_state b = sr_state a" by simp
  with same assms(3) show ?thesis by (simp add: active_def done_run_def)
qed

lemma only_step_aside: "only_step sid r r' \<Longrightarrow> on_escalation r' = on_escalation r"
  using only_step_same(3) by (simp add: on_escalation_def)

text \<open>Besides one step the steps left are as many; that step counts before and may count after.\<close>

lemma beside_length:
  assumes "list_all2 (kept_beside sid) xs ys" "on_escalation r' = on_escalation r" "distinct (map sr_step_id xs)"
    and "a \<in> set xs" "sr_step_id a = sid" "active r a"
  shows "length (filter (active r') ys) \<le> length (filter (active r) xs)
    \<and> ((\<forall>y \<in> set ys. sr_step_id y = sid \<longrightarrow> \<not> active r' y) \<longrightarrow> length (filter (active r') ys) < length (filter (active r) xs))"
  using assms(1,3,4)
proof (induction rule: list_all2_induct)
  case (Cons x xs y ys)
  have id: "sr_step_id y = sr_step_id x" using Cons.hyps(1) by (simp add: kept_beside_def)
  show ?case
  proof (cases "sr_step_id x = sid")
    case False
    then have "a \<in> set xs" "active r' y = active r x"
      using Cons.prems(2) assms(5) beside_active [OF Cons.hyps(1) _ assms(2)] by auto
    with Cons.IH Cons.prems(1) show ?thesis by auto
  next
    case True
    then have not_later: "sid \<notin> sr_step_id ` set xs" using Cons.prems(1) by auto
    then have x: "active r x" using Cons.prems(2) assms(5,6) by (auto simp: image_iff)
    have "list_all2 (\<lambda>p q. active r p = active r' q) xs ys"
    proof (rule list.rel_mono_strong [OF Cons.hyps(2)])
      fix p q assume "p \<in> set xs" "kept_beside sid p q"
      with beside_active [OF this(2) _ assms(2)] not_later show "active r p = active r' q" by auto
    qed
    then have "length (filter (active r') ys) = length (filter (active r) xs)"
      by (induction rule: list_all2_induct) auto
    then show ?thesis using x True id by auto
  qed
qed simp

lemma carried_inactive: "carries r s \<Longrightarrow> \<not> active r s \<Longrightarrow> y \<in> set (run_step_runs r) \<Longrightarrow> sr_step_id y = sr_step_id s \<Longrightarrow> \<not> active r y"
  by (auto simp: carries_def)

lemma steps_left_step:
  assumes "only_step (sr_step_id a) r r'" "distinct (map sr_step_id (run_step_runs r))" "a \<in> set (run_step_runs r)" "active r a"
    and "carries r' s" "sr_step_id s = sr_step_id a"
  shows "steps_left r' \<le> steps_left r" "\<not> active r' s \<Longrightarrow> steps_left r' < steps_left r"
proof -
  have "list_all2 (kept_beside (sr_step_id a)) (run_step_runs r) (run_step_runs r')" using assms(1) by (simp add: only_step_def)
  note left = beside_length [OF this only_step_aside [OF assms(1)] assms(2,3) refl assms(4)]
  from left show "steps_left r' \<le> steps_left r" by (simp add: steps_left_def)
  assume "\<not> active r' s"
  then have "\<forall>y \<in> set (run_step_runs r'). sr_step_id y = sr_step_id a \<longrightarrow> \<not> active r' y"
    using carried_inactive [OF assms(5)] assms(6) by simp
  with left show "steps_left r' < steps_left r" by (simp add: steps_left_def)
qed

lemma healed_times_grows:
  "ls_entries (en_ledger st') = ls_entries (en_ledger st) @ new \<Longrightarrow> run_id r' = run_id r \<Longrightarrow>
     healed_times st' r' sid = healed_times st r sid
       + length (filter (\<lambda>e. r_run_id (f_refs e) = Some (run_id r) \<and> f_kind e = HEALED \<and> r_step_id (f_refs e) = Some sid) new)"
  by (simp add: healed_times_def Ledger_Store.of_run_def ls_entries_def conj_commute conj_left_commute)

lemma sum_less_at:
  assumes "finite A" "\<And>x. x \<in> A \<Longrightarrow> f x \<le> (g x :: nat)" "a \<in> A" "f a < g a"
  shows "sum f A < sum g A"
  by (rule sum_strict_mono_ex1) (use assms in auto)

lemma heals_left_grows:
  assumes "grew cd st st'" "run_id r' = run_id r" "map sr_step_id (run_step_runs r') = map sr_step_id (run_step_runs r)"
  shows "heals_left r' st' \<le> heals_left r st"
proof -
  obtain new where "ls_entries (en_ledger st') = ls_entries (en_ledger st) @ new" using assms(1) by (auto simp: grew_def)
  note more = healed_times_grows [OF this assms(2)]
  show ?thesis unfolding heals_left_def assms(3) more by (rule sum_mono) simp
qed


subsection \<open>Actions between the steps\<close>

text \<open>A heal is an entry of its step.\<close>

lemma heal_step_counts:
  assumes run: "heal_step po r s st = (Inr r', st')" and ok: "engine_ok (ev_codec (po_env po)) st"
  shows "r' = r\<lparr>run_updated_at := po_now po\<rparr>" "en_runs st' (run_id r) = Some r'" "grew (ev_codec (po_env po)) st st'"
    "healed_times st' r (sr_step_id s) > healed_times st r (sr_step_id s)"
proof -
  obtain d st1 where put: "put_object (ev_codec (po_env po)) (dumps_spaced (heal_document s)) st = (d, st1)" by (rule prod.exhaust)
  let ?a = "(step_entry HEALED s (Some RETRY))\<lparr>ea_digest := Some d\<rparr>"
  have same: "en_ledger st1 = en_ledger st" "engine_ok (ev_codec (po_env po)) st1"
    using put ok by (auto simp: put_object_def Let_def engine_ok_def)
  have commit: "commit_run (po_env po) (po_now po) r (commit_of (Some ?a)) st1 = (Inr r', st')"
    using run by (simp add: heal_step_def put del: dumps_spaced.simps)
  have na: "not_anchors (commit_of (Some ?a))" by (simp add: not_anchors_entry HEALED_def ANCHORED_def)
  note facts = commit_run_Inr [OF commit same(2) na]
  show "r' = r\<lparr>run_updated_at := po_now po\<rparr>" "en_runs st' (run_id r) = Some r'" by (simp_all add: facts(1,2))
  from facts(6) obtain new where new: "ls_entries (en_ledger st') = ls_entries (en_ledger st) @ new"
    "map fact.truncate new = map (entry_fact (po_env po) r') (commit_entries (po_env po) (po_now po) r' (commit_of (Some ?a)))"
    using same(1) by auto
  then show "grew (ev_codec (po_env po)) st st'" using facts(5) by (auto simp: grew_def)
  from new(2) obtain e es where e: "new = e # es" "fact.truncate e = entry_fact (po_env po) r' (own_entry ?a)"
    by (auto simp: commit_entries_def commit_of_def)
  have "f_kind e = f_kind (fact.truncate e)" "f_refs e = f_refs (fact.truncate e)" by (simp_all add: fact.truncate_def)
  then have "f_kind e = HEALED" "r_run_id (f_refs e) = Some (run_id r)" "r_step_id (f_refs e) = Some (sr_step_id s)"
    unfolding e(2) by (simp_all add: own_entry_def entry_fact_def entry_refs_def step_entry_def entry_of_kind_def facts(1))
  then show "healed_times st' r (sr_step_id s) > healed_times st r (sr_step_id s)"
    using healed_times_grows [OF new(1) refl] by (simp add: e(1))
qed

text \<open>Refusing a take-over writes its entry and nothing of the run.\<close>

definition beside_run :: "engine_env \<Rightarrow> session \<Rightarrow> session \<Rightarrow> bool" where
  "beside_run env ss ss' \<longleftrightarrow> grew (ev_codec env) (ss_engine ss) (ss_engine ss') \<and> en_runs (ss_engine ss') = en_runs (ss_engine ss)
     \<and> ss_continued ss' = ss_continued ss \<and> ss_cooling ss' = ss_cooling ss \<and> ss_moving ss' = ss_moving ss"

lemma takeover_refused_beside:
  assumes run: "takeover_refused po r asked s ss = (Inr u, ss')" and ok: "engine_ok (ev_codec (po_env po)) (ss_engine ss)"
  shows "beside_run (po_env po) ss ss'" "ss_taking_over ss' = None"
proof -
  let ?env = "po_env po" and ?st = "ss_engine ss"
  define a where "a = (entry_of_kind TAKEOVER_REFUSED)\<lparr>ea_step := List.find (\<lambda>x. sr_step_id x = ta_step_id asked) (run_step_runs r),
                   ea_outcome := Some (takeover_outcome asked s), ea_bare := True\<rparr>"
  obtain x1 st1 where f: "fence_run r ?st = (x1, st1)" by (rule prod.exhaust)
  obtain x2 st2 where w: "withdraw (ta_holder asked) st1 = (x2, st2)" by (rule prod.exhaust)
  have x2: "x2 = Inr ()" using w by (auto simp: withdraw_def split: option.splits)
  have same: "en_ledger st2 = en_ledger ?st" "en_runs st2 = en_runs ?st" "en_recorded st2 = en_recorded ?st"
    using f w by (auto simp: fence_run_def withdraw_def split: option.splits prod.splits bool.splits)
  have "service_ok (ev_codec ?env) (en_ledger st2)" using ok by (simp add: same(1) engine_ok_def)
  from record_entry_writes [OF this, of a "po_now po" r] obtain e st3 where
    three: "record_entry ?env (po_now po) r a st2 = (Inr e, st3)" "same_rest st2 st3"
      "ledger_grew (ev_codec ?env) st2 st3 [entry_fact ?env r a]"
    by (auto simp: a_def entry_of_kind_def TAKEOVER_REFUSED_def ANCHORED_def)
  have x1: "x1 = Inr ()"
    using run f by (cases x1) (auto simp: takeover_refused_def note_do_def engine_do_def transaction_def next_do_def andThen_def)
  have ss': "ss' = ss\<lparr>ss_taking_over := None, ss_answered := ta_holder asked # ss_answered ss, ss_engine := keep_all ?st st3\<rparr>"
    using run f w x1 x2 three(1)
    by (simp add: takeover_refused_def note_do_def engine_do_def transaction_def next_do_def andThen_def done_with_def a_def)
  have "engine_ok (ev_codec ?env) (keep_all ?st st3)"
    using commit_ok [OF ledger_grew_ok [OF three(3)]]
    by (auto simp: engine_ok_def keep_all_def commit_def close_queue_def end_transaction_def split: option.split)
  moreover have "\<exists>new. ls_entries (en_ledger (keep_all ?st st3)) = ls_entries (en_ledger ?st) @ new"
    using three(3) by (auto simp: keep_all_def ledger_grew_def same(1))
  moreover have "en_runs (keep_all ?st st3) = en_runs ?st" using three(2) by (simp add: keep_all_def same_rest_def same(2))
  ultimately show "beside_run ?env ss ss'" "ss_taking_over ss' = None" by (simp_all add: ss' beside_run_def grew_def)
qed


subsection \<open>After a step\<close>

text \<open>How a step that rests leaves the run, against the run before it.\<close>

definition after_rest :: "engine_env \<Rightarrow> string list \<Rightarrow> moment \<Rightarrow> run \<Rightarrow> session \<Rightarrow> run \<Rightarrow> step_run \<Rightarrow> session \<Rightarrow> bool" where
  "after_rest env adapters horizon r ss r' s' ss' \<longleftrightarrow>
     engine_ok (ev_codec env) (ss_engine ss') \<and> en_runs (ss_engine ss') (run_id r') = Some r'
     \<and> distinct (map sr_step_id (run_step_runs r')) \<and> sr_step_id s' \<in> set (map sr_step_id (run_step_runs r'))
     \<and> step_rests (sr_state s') \<and> same_plan r r'
     \<and> steps_left r' \<le> steps_left r \<and> (\<not> active r' s' \<longrightarrow> steps_left r' < steps_left r)
     \<and> heals_left r' (ss_engine ss') \<le> heals_left r (ss_engine ss) \<and> continues_left r' ss' \<le> continues_left r ss
     \<and> models_left adapters horizon ss' \<le> models_left adapters horizon ss
     \<and> (ss_moving ss' \<longrightarrow> models_left adapters horizon ss' < models_left adapters horizon ss \<and> sr_state s' \<in> {S_STOPPED, S_FAILED})"

lemma rests_after:
  assumes r: "between_rounds env r ss" and rests: "rests env adapters horizon (sr_step_id s) r ss (r', s') ss'"
    and s: "s \<in> set (run_step_runs r)" "active r s"
  shows "after_rest env adapters horizon r ss r' s' ss'" "sr_step_id s' = sr_step_id s"
proof -
  have at: "at_step env (sr_step_id s) r (ss_engine ss) r' s' (ss_engine ss')" and st: "stored r r' s' (ss_engine ss')"
    and kept: "kept adapters horizon ss ss'"
    using rests by (simp_all add: rests_def)
  have safe: "safe env (sr_step_id s) r (ss_engine ss) (ss_engine ss')" and only: "only_step (sr_step_id s) r r'"
    and id: "sr_step_id s' = sr_step_id s" using at by (simp_all add: at_step_def)
  note same = only_step_same [OF only]
  have grew: "grew (ev_codec env) (ss_engine ss) (ss_engine ss')" using safe by (simp add: safe_def)
  have models: "models_left adapters horizon ss' \<le> models_left adapters horizon ss"
    using kept by (auto simp: models_left_def kept_def intro: card_mono)
  have moves: "ss_moving ss' \<longrightarrow> models_left adapters horizon ss' < models_left adapters horizon ss \<and> sr_state s' \<in> {S_STOPPED, S_FAILED}"
    using rests between_roundsD(4) [OF r] by (auto simp: rests_def models_left_def used_up_def intro: psubset_card_mono)
  note steps = steps_left_step [OF only between_roundsD(3) [OF r] s(1,2) _ id]
  have carries: "carries r' s'" using st by (simp add: stored_def)
  have "continues_left r' ss' \<le> continues_left r ss"
    using kept by (simp add: continues_left_def same(5) kept_def del: set_map)
  moreover have "sr_step_id s' \<in> set (map sr_step_id (run_step_runs r'))" unfolding same(5) id using s(1) by simp
  moreover have "step_rests (sr_state s')" using rests by (simp add: rests_def)
  ultimately show "after_rest env adapters horizon r ss r' s' ss'"
    using safe_ok [OF safe] st same(1,5) between_roundsD(3) [OF r] heals_left_grows [OF grew same(1,5)] models moves
      steps(1) [OF carries] steps(2) [OF carries] only_step_plan [OF only]
    unfolding after_rest_def stored_def by simp
  show "sr_step_id s' = sr_step_id s" by (rule id)
qed

lemma after_restD:
  assumes "after_rest env adapters horizon r ss r' s' ss'"
  shows "engine_ok (ev_codec env) (ss_engine ss')" "en_runs (ss_engine ss') (run_id r') = Some r'"
    "distinct (map sr_step_id (run_step_runs r'))" "sr_step_id s' \<in> set (map sr_step_id (run_step_runs r'))"
    "step_rests (sr_state s')" "steps_left r' \<le> steps_left r" "\<not> active r' s' \<Longrightarrow> steps_left r' < steps_left r"
    "heals_left r' (ss_engine ss') \<le> heals_left r (ss_engine ss)" "continues_left r' ss' \<le> continues_left r ss"
    "models_left adapters horizon ss' \<le> models_left adapters horizon ss"
    "ss_moving ss' \<Longrightarrow> models_left adapters horizon ss' < models_left adapters horizon ss"
    "ss_moving ss' \<Longrightarrow> sr_state s' \<in> {S_STOPPED, S_FAILED}"
    "same_plan r r'"
  using assms by (simp_all add: after_rest_def)

lemma after_rest_beside:
  assumes "after_rest env adapters horizon r ss r' s' ss1" "beside_run env ss1 ss2"
  shows "after_rest env adapters horizon r ss r' s' ss2"
proof -
  have grew: "grew (ev_codec env) (ss_engine ss1) (ss_engine ss2)" using assms(2) by (simp add: beside_run_def)
  from heals_left_grows [OF grew refl refl] have "heals_left r' (ss_engine ss2) \<le> heals_left r (ss_engine ss)"
    by (rule le_trans) (rule after_restD(8) [OF assms(1)])
  with assms grew_ok [OF grew] show ?thesis
    by (simp add: after_rest_def beside_run_def continues_left_def models_left_def)
qed

definition goes_down :: "engine_env \<Rightarrow> string list \<Rightarrow> moment \<Rightarrow> run \<Rightarrow> session \<Rightarrow> next_move \<Rightarrow> session \<Rightarrow> bool" where
  "goes_down env adapters horizon r ss m ss' \<longleftrightarrow>
     (\<forall>r' n. m = Goes_On r' n \<longrightarrow> between_rounds env r' ss' \<and> same_plan r r'
       \<and> left_to_do adapters horizon r' ss' < left_to_do adapters horizon r ss)"

lemma ends_down [simp]: "ends d ss1 = (Inr m, ss') \<Longrightarrow> goes_down env adapters horizon r ss m ss'"
  by (auto simp: ends_def bind_do_def returns_def goes_down_def split: prod.splits sum.splits)

text \<open>A round that goes on with the run as its step left it.\<close>

lemma goes_downI:
  assumes after: "after_rest env adapters horizon r ss r' s' ss1"
    and same: "ss_engine ss2 = ss_engine ss1" "ss_cooling ss2 = ss_cooling ss1" "\<not> ss_moving ss2"
    and cont: "continues_left r' ss2 \<le> continues_left r' ss1"
    and less: "\<not> active r' s' \<or> ss_moving ss1 \<or> continues_left r' ss2 < continues_left r' ss1"
  shows "goes_down env adapters horizon r ss (Goes_On r' n) ss2"
proof -
  have "between_rounds env r' ss2" using after_restD(1-3) [OF after] same by (simp add: between_rounds_def)
  moreover have "models_left adapters horizon ss2 = models_left adapters horizon ss1" by (simp add: models_left_def same(2))
  ultimately show ?thesis
    using after_restD(6-11,13) [OF after] cont less by (auto simp: goes_down_def left_to_do_def same(1))
qed

lemma inactive_done [simp]: "sr_state s = S_SUCCEEDED \<Longrightarrow> \<not> active r s"
  by (simp add: active_def done_run_def DONE_def)

lemma inactive_waits [simp]: "sr_state s = S_WAITING_HUMAN \<Longrightarrow> \<not> active r s"
  by (simp add: active_def)

lemma continues_flags [simp]:
  "continues_left r (ss\<lparr>ss_moving := b\<rparr>) = continues_left r ss"
  "continues_left r (ss\<lparr>ss_at_capacity := b\<rparr>) = continues_left r ss"
  "continues_left r (ss\<lparr>ss_parked := b\<rparr>) = continues_left r ss"
  by (simp_all add: continues_left_def)

lemma continues_once:
  assumes "sid \<in> set (map sr_step_id (run_step_runs r))" "ss_continued ss sid < CONTINUATIONS"
  shows "continues_left r (ss\<lparr>ss_continued := (ss_continued ss)(sid := ss_continued ss sid + 1)\<rparr>) < continues_left r ss"
  unfolding continues_left_def by (rule sum_less_at [where a = sid]) (use assms in auto)

lemma after_stopped_down:
  assumes "after_stopped po n r' s' c p ss1 = (Inr m, ss2)" "after_rest env adapters horizon r ss r' s' ss1" "\<not> ss_moving ss1"
  shows "goes_down env adapters horizon r ss m ss2"
proof (cases "\<not> c \<and> \<not> p \<and> \<not> ss_repeating ss1 \<and> \<not> ss_limit_halts ss1 \<and> \<not> ss_stop_requested ss1 \<and> in_a_new_unit ss1 s'")
  case True
  let ?ss = "ss1\<lparr>ss_continued := (ss_continued ss1)(sr_step_id s' := ss_continued ss1 (sr_step_id s') + 1)\<rparr>"
  have less: "continues_left r' ?ss < continues_left r' ss1"
    by (rule continues_once [OF after_restD(4) [OF assms(2)]]) (use True in \<open>simp add: in_a_new_unit_def\<close>)
  have "m = Goes_On r' n" "ss2 = ?ss" using assms(1) True by (simp_all add: after_stopped_def)
  then show ?thesis using goes_downI [OF assms(2), of ?ss] less assms(3) by simp
next
  case False
  with assms(1) show ?thesis by (simp add: after_stopped_def del: not_not)
qed

lemma after_failed_down:
  assumes run: "after_failed po ex k n r' st s' c ss1 = (Inr m, ss2)" and after: "after_rest (po_env po) adapters horizon r ss r' s' ss1"
    and still: "\<not> ss_moving ss1" and id: "s_id st = sr_step_id s'"
  shows "goes_down (po_env po) adapters horizon r ss m ss2"
proof (cases "hl_heals (if c then \<lparr>hl_heals = False, hl_why_not = None\<rparr> else healing_verdict po ss1 r' st s')")
  case True
  then have heals: "hl_heals (healing_verdict po ss1 r' st s')" by (simp split: if_splits)
  have few: "healed_times (ss_engine ss1) r' (sr_step_id s') < HEALS"
    using heals by (auto simp: healing_verdict_def healing_of_def id split: if_splits)
  obtain x st2 where h: "heal_step po r' s' (ss_engine ss1) = (x, st2)" by (rule prod.exhaust)
  with run True obtain r2 where x: "x = Inr r2" "m = Goes_On r2 n" "ss2 = ss1\<lparr>ss_engine := st2\<rparr>"
    by (cases x) (auto simp: after_failed_def Let_def bind_do_def engine_do_def returns_def)
  note facts = heal_step_counts [OF h [unfolded x(1)] after_restD(1) [OF after]]
  have r2: "run_id r2 = run_id r'" "run_step_runs r2 = run_step_runs r'" "active r2 = active r'"
    by (auto simp: facts(1) active_def on_escalation_def)
  obtain new where new: "ls_entries (en_ledger st2) = ls_entries (en_ledger (ss_engine ss1)) @ new"
    using facts(3) by (auto simp: grew_def)
  note times = healed_times_grows [OF new r2(1)]
  have more: "healed_times st2 r2 (sr_step_id s') > healed_times (ss_engine ss1) r' (sr_step_id s')"
    using facts(4) r2(1) by (simp add: healed_times_def)
  have "heals_left r2 st2 < heals_left r' (ss_engine ss1)"
    unfolding heals_left_def r2(2)
  proof (rule sum_less_at [where a = "sr_step_id s'"])
    show "HEALS - healed_times st2 r2 x \<le> HEALS - healed_times (ss_engine ss1) r' x" for x unfolding times by simp
    show "HEALS - healed_times st2 r2 (sr_step_id s') < HEALS - healed_times (ss_engine ss1) r' (sr_step_id s')"
      by (rule diff_less_mono2 [OF more few])
  qed (use after_restD(4) [OF after] in simp_all)
  moreover have "between_rounds (po_env po) r2 ss2"
    using facts(2) grew_ok [OF facts(3)] after_restD(3) [OF after] still by (simp add: between_rounds_def x(3) r2)
  moreover have "same_plan r r2"
    by (rule same_plan_trans [OF after_restD(13) [OF after]]) (simp add: same_plan_def facts(1))
  ultimately show ?thesis
    using after_restD(6,8-10) [OF after]
    by (simp add: goes_down_def x(2) left_to_do_def x(3) steps_left_def r2 continues_left_def models_left_def)
next
  case False
  with run show ?thesis
    by (auto simp: after_failed_def Let_def bind_do_def split: prod.splits sum.splits if_splits)
qed

lemma after_rest_flags:
  "after_rest env adapters horizon r ss r' s' (ss1\<lparr>ss_at_capacity := b\<rparr>) = after_rest env adapters horizon r ss r' s' ss1"
  "after_rest env adapters horizon r ss r' s' (ss1\<lparr>ss_parked := b\<rparr>) = after_rest env adapters horizon r ss r' s' ss1"
  by (simp_all add: after_rest_def models_left_def)

lemma after_outcome_down:
  assumes run: "after_outcome po ex k n r' st s' ss1 = (Inr m, ss2)" and after: "after_rest (po_env po) adapters horizon r ss r' s' ss1"
    and id: "s_id st = sr_step_id s'"
  shows "goes_down (po_env po) adapters horizon r ss m ss2"
proof (cases "ss_moving ss1")
  case True
  from after_restD(12) [OF after True] have "sr_state s' \<noteq> S_WAITING_HUMAN" "sr_state s' \<noteq> S_REJECTED" by auto
  with run True have "m = Goes_On r' n" "ss2 = ss1\<lparr>ss_moving := False\<rparr>" by (simp_all add: after_outcome_def)
  then show ?thesis using goes_downI [OF after, of "ss1\<lparr>ss_moving := False\<rparr>"] True by simp
next
  case still: False
  consider "sr_state s' = S_REJECTED" | "sr_state s' = S_FAILED" | "sr_state s' = S_STOPPED" | "sr_state s' = S_SUCCEEDED"
    | "sr_state s' = S_WAITING_HUMAN"
    using after_restD(5) [OF after] by (auto simp: step_rests_def)
  then show ?thesis
  proof cases
    case 1
    with run show ?thesis by (simp add: after_outcome_def after_rejected_def)
  next
    case 2
    with run still have "after_failed po ex k n r' st s' (ss_at_capacity ss1) (ss1\<lparr>ss_at_capacity := False\<rparr>) = (Inr m, ss2)"
      by (simp add: after_outcome_def Let_def)
    from after_failed_down [OF this _ _ id] after still show ?thesis by (simp add: after_rest_flags)
  next
    case 3
    with run still have "after_stopped po n r' s' (ss_at_capacity ss1) (ss_parked ss1)
        (ss1\<lparr>ss_at_capacity := False, ss_parked := False\<rparr>) = (Inr m, ss2)"
      by (simp add: after_outcome_def Let_def)
    from after_stopped_down [OF this] after still show ?thesis by (simp add: after_rest_flags)
  next
    case 4
    note down = goes_downI [OF after, of "ss1\<lparr>ss_at_capacity := False, ss_parked := False\<rparr>" "n + 1"]
    from 4 run still have "at_boundary po n r' (ss1\<lparr>ss_at_capacity := False, ss_parked := False\<rparr>) = (Inr m, ss2)"
      by (simp add: after_outcome_def Let_def)
    with down still 4 show ?thesis by (auto simp: at_boundary_def split: if_splits)
  next
    case 5
    with run goes_downI [OF after, of ss1 n] still show ?thesis by (auto simp: after_outcome_def split: if_splits)
  qed
qed

lemma after_step_down:
  assumes run: "after_step po ex k n r' st s' ss1 = (Inr m, ss2)" and after: "after_rest (po_env po) adapters horizon r ss r' s' ss1"
    and id: "s_id st = sr_step_id s'"
  shows "goes_down (po_env po) adapters horizon r ss m ss2"
proof (cases "ss_taking_over ss1")
  case None
  with run after_outcome_down [OF _ after id] show ?thesis by (simp add: after_step_def)
next
  case (Some asked)
  show ?thesis
  proof (cases "stopped_for_takeover asked ss1 s'")
    case True
    with run Some show ?thesis by (simp add: after_step_def)
  next
    case False
    obtain x ss3 where t: "takeover_refused po r' asked (Some s') ss1 = (x, ss3)" by (rule prod.exhaust)
    with run Some False obtain u where u: "x = Inr u" "after_outcome po ex k n r' st s' ss3 = (Inr m, ss2)"
      by (cases x) (auto simp: after_step_def bind_do_def)
    from takeover_refused_beside(1) [OF t [unfolded u(1)] after_restD(1) [OF after]]
    show ?thesis by (rule after_outcome_down [OF u(2) after_rest_beside [OF after] id])
  qed
qed


subsection \<open>Where a pass ends\<close>

text \<open>After a step a pass ends in one of these; it finishes only where no step is left.\<close>

definition PASS_STOPS :: "run_state set" where
  "PASS_STOPS = {R_HALTED, R_ESCALATED, R_WAITING_HUMAN}"

lemma commit_run_same: "commit_run env now r ca st = (Inr r', st') \<Longrightarrow> r' = r\<lparr>run_updated_at := now\<rparr>"
  by (auto simp: commit_run_def Let_def next_do_def andThen_def done_with_def split: prod.splits sum.splits)

lemma commit_run_state: "commit_run env now r ca st = (Inr r', st') \<Longrightarrow> run_st r' = run_st r"
  using commit_run_same [of env now r ca st r' st'] by simp

lemma end_run_state:
  assumes "end_run po state c reason r ss = (Inr r', ss')" shows "run_st r' = state"
proof -
  obtain st r1 ca st' where "run_to r state c reason = Inr r1" "commit_run (po_env po) (po_now po) r1 ca st = (Inr r', st')"
    using assms
    by (auto simp: end_run_def note_do_def bind_do_def engine_do_def andThen_def of_run_def split: prod.splits sum.splits)
  then show ?thesis using commit_run_state by (auto simp: run_to_def split: if_splits)
qed

lemma taken_over_state:
  assumes "taken_over po asked r s ss = (Inr r', ss')" shows "run_st r' \<in> PASS_STOPS"
proof (cases "en_claim (ss_engine ss)")
  case None
  then obtain ss1 where "end_run po R_HALTED (Some STOP) (Some ''stopped for a take-over'') r ss1 = (Inr r', ss')"
    using assms by (auto simp: taken_over_def bind_do_def split: prod.splits sum.splits)
  then show ?thesis using end_run_state by (auto simp: PASS_STOPS_def)
next
  case claim: (Some c)
  show ?thesis
  proof (cases "en_queue (ss_engine ss)")
    case None
    then obtain ss1 where "end_run po R_HALTED (Some STOP) (Some ''stopped for a take-over'') r ss1 = (Inr r', ss')"
      using assms claim by (auto simp: taken_over_def bind_do_def split: prod.splits sum.splits)
    then show ?thesis using end_run_state by (auto simp: PASS_STOPS_def)
  next
    case (Some q)
    then obtain st1 where "take_over_step po c asked r s (ss_engine ss) = (Inr r', st1)"
      using assms claim
      by (auto simp: taken_over_def bind_do_def engine_do_def note_do_def returns_def split: prod.splits sum.splits)
    then obtain r1 reason r2 ca st2 st3 where
      "run_to r1 R_WAITING_HUMAN (Some PERSON) reason = Inr r2" "commit_run (po_env po) (po_now po) r2 ca st2 = (Inr r', st3)"
      by (auto simp: take_over_step_def Let_def andThen_def of_run_def simp del: dumps_spaced.simps
          split: prod.splits sum.splits option.splits)
    then show ?thesis using commit_run_state by (auto simp: run_to_def PASS_STOPS_def split: if_splits)
  qed
qed

definition ends_resting :: "next_move \<Rightarrow> bool" where
  "ends_resting m \<longleftrightarrow> (\<forall>r'. m = Ended r' \<longrightarrow> run_st r' \<in> PASS_STOPS)"

lemma ends_end_run [simp]: "state \<in> PASS_STOPS \<Longrightarrow> ends (end_run po state c reason r) ss = (Inr m, ss') \<Longrightarrow> ends_resting m"
  using end_run_state by (auto simp: ends_def bind_do_def returns_def ends_resting_def split: prod.splits sum.splits)

lemma ends_taken_over: "ends (taken_over po asked r s) ss = (Inr m, ss') \<Longrightarrow> ends_resting m"
  using taken_over_state by (auto simp: ends_def bind_do_def returns_def ends_resting_def split: prod.splits sum.splits)

lemma pass_stop_states [simp]: "R_HALTED \<in> PASS_STOPS" "R_ESCALATED \<in> PASS_STOPS" "R_WAITING_HUMAN \<in> PASS_STOPS"
  by (simp_all add: PASS_STOPS_def)

lemma goes_on_rests [simp]: "ends_resting (Goes_On r n)"
  by (simp add: ends_resting_def)

lemma after_failed_resting:
  assumes "after_failed po ex k n r st s c ss = (Inr m, ss')" shows "ends_resting m"
proof (cases "hl_heals (if c then \<lparr>hl_heals = False, hl_why_not = None\<rparr> else healing_verdict po ss r st s)")
  case True
  with assms show ?thesis by (auto simp: after_failed_def Let_def bind_do_def returns_def split: prod.splits sum.splits if_splits)
next
  case False
  define why where "why = hl_why_not (if c then \<lparr>hl_heals = False, hl_why_not = None\<rparr> else healing_verdict po ss r st s)"
  from False assms obtain r1 ss1 where
    "ends (end_run po R_ESCALATED (Some (if c then CAPACITY else FAILURE)) (failed_reason s why) r1) ss1 = (Inr m, ss')"
    unfolding after_failed_def Let_def why_def [symmetric]
    by (simp add: bind_do_def [of "escalating po ex (Suc k) r"] split: prod.splits sum.splits if_splits)
  then show ?thesis by (rule ends_end_run [OF pass_stop_states(2)])
qed

lemma after_outcome_resting:
  assumes "after_outcome po ex k n r st s ss = (Inr m, ss')" shows "ends_resting m"
  using assms
  by (auto simp: after_outcome_def after_rejected_def after_stopped_def at_boundary_def Let_def split: if_splits
      intro: after_failed_resting ends_end_run [OF pass_stop_states(1)])

lemma after_step_resting:
  assumes "after_step po ex k n r st s ss = (Inr m, ss')" shows "ends_resting m"
  using assms
  by (auto simp: after_step_def bind_do_def split: option.splits if_splits prod.splits sum.splits
      intro: after_outcome_resting ends_taken_over)

lemma no_step_left_state: "no_step_left po r ss = (Inr r', ss') \<Longrightarrow> run_st r' \<in> {R_WAITING_HUMAN, R_FINISHED}"
  using end_run_state by (auto simp: no_step_left_def bind_do_def split: if_splits prod.splits sum.splits)

text \<open>Where a round ends the pass: the run stops, or no step is left.\<close>

lemma one_round_ended:
  assumes "one_round po ex k n r ss = (Inr (Ended r'), ss')"
  shows "run_st r' \<in> PASS_STOPS \<or> runnable r = Inr None \<and> no_step_left po r ss = (Inr r', ss')"
proof (cases "runnable r")
  case (Inr chosen)
  show ?thesis
  proof (cases chosen)
    case None
    with assms Inr show ?thesis
      by (auto simp: one_round_def ends_def bind_do_def returns_def split: prod.splits sum.splits)
  next
    case (Some s)
    with assms Inr obtain st r1 s1 ss1 where "after_step po ex k n r1 st s1 ss1 = (Inr (Ended r'), ss')"
      by (auto simp: one_round_def bind_do_def split: prod.splits sum.splits)
    from after_step_resting [OF this] show ?thesis by (simp add: ends_resting_def)
  qed
qed (use assms in \<open>simp add: one_round_def\<close>)

lemma one_round_state:
  assumes "one_round po ex k n r ss = (Inr (Ended r'), ss')" shows "run_st r' \<in> insert R_FINISHED PASS_STOPS"
  using one_round_ended [OF assms] no_step_left_state [of po r ss r' ss'] by (auto simp: PASS_STOPS_def)

subsection \<open>The loop over an executor\<close>

text \<open>What executes a step: it leaves the step at rest, and the rest of the run as it was; when it fails with
  an error, the store still holds the run, changed in that step only.\<close>

locale step_executor =
  fixes ex :: executor
    and env :: engine_env
    and adapters :: "string list"
    and horizon :: moment
    and fair :: "nat \<Rightarrow> run \<Rightarrow> step \<Rightarrow> step_run \<Rightarrow> bool"
  assumes executes: "fair k r st s \<Longrightarrow> engine_ok (ev_codec env) (ss_engine ss) \<Longrightarrow> en_runs (ss_engine ss) (run_id r) = Some r \<Longrightarrow>
    distinct (map sr_step_id (run_step_runs r)) \<Longrightarrow>
    assures (secure env adapters horizon (sr_step_id s) r ss) (ex k r st s) ss (rests env adapters horizon (sr_step_id s) r ss)"
begin

text \<open>The last attempt of a job turns an error into a failed step, which rests as well.\<close>

lemma raised_rests:
  assumes "secure env adapters horizon (s_id st) r ss ss1" "po_env po = env"
    and "raised_step po r (s_id st) e ss1 = (Inr x, ss')"
  shows "rests env adapters horizon (s_id st) r ss x ss'"
proof -
  have safe: "safe env (s_id st) r (ss_engine ss) (ss_engine ss1)" and kept: "kept adapters horizon ss ss1"
    using assms(1) by (simp_all add: secure_def)
  from safe obtain stored where stored: "en_runs (ss_engine ss1) (run_id r) = Some stored" "only_step (s_id st) r stored"
    by (auto simp: safe_def)
  from assms(3) stored(1) obtain s where s: "step_run_of stored (s_id st) = Inr s"
    and run: "engine_do (move_step env (po_now po) S_FAILED
                      (\<lambda>x. x\<lparr>sr_reason := Some (''step '' @ s_id st @ '' raised '' @ po_words po e
                           @ '', at the last attempt its job is given''), sr_finished_at := Some (po_now po)\<rparr>)
                      FINISHED ''failed'' stored s) (clear_flags ss1) = (Inr x, ss')"
    by (auto simp: raised_step_def assms(2) split: sum.splits if_splits)
  from s have id: "sr_step_id s = s_id st" by (auto simp: step_run_of_def find_Some_iff split: option.splits)
  have at: "at_step env (s_id st) r (ss_engine ss) stored s (ss_engine (clear_flags ss1))"
    using safe stored(2) id by (simp add: at_step_def clear_flags_def)
  have "kept adapters horizon ss (clear_flags ss1)" "\<not> ss_moving (clear_flags ss1)"
    using kept by (simp_all add: kept_def clear_flags_def)
  then have "assures (secure env adapters horizon (s_id st) r ss) (engine_do (move_step env (po_now po) S_FAILED
                      (\<lambda>x. x\<lparr>sr_reason := Some (''step '' @ s_id st @ '' raised '' @ po_words po e
                           @ '', at the last attempt its job is given''), sr_finished_at := Some (po_now po)\<rparr>)
                      FINISHED ''failed'' stored s)) (clear_flags ss1) (rests env adapters horizon (s_id st) r ss)"
    by (intro rests_move [OF at]) (simp_all add: FINISHED_def ANCHORED_def)
  from assures_Inr [OF this run] show ?thesis .
qed

lemma step_or_failed_rests:
  assumes "between_rounds env r ss" "fair k r st s" "s_id st = sr_step_id s" "po_env po = env"
    and "step_or_failed po ex k r st s ss = (Inr x, ss')"
  shows "rests env adapters horizon (sr_step_id s) r ss x ss'"
proof -
  note execute = executes [OF assms(2) between_roundsD(1-3) [OF assms(1)]]
  obtain y ss1 where y: "ex k r st s ss = (y, ss1)" by (rule prod.exhaust)
  show ?thesis
  proof (cases y)
    case (Inr z)
    with assms(5) y have "ex k r st s ss = (Inr x, ss')" by (simp add: step_or_failed_def)
    with assures_Inr [OF execute] show ?thesis .
  next
    case (Inl e)
    from assures_Inl [OF execute y [unfolded Inl]]
    have secure: "secure env adapters horizon (s_id st) r ss ss1" by (simp add: assms(3))
    from assms(5) y Inl have "raised_step po r (s_id st) e ss1 = (Inr x, ss')"
      by (auto simp: step_or_failed_def split: engine_error.splits if_splits)
    from raised_rests [OF secure assms(4) this] show ?thesis by (simp add: assms(3))
  qed
qed

text \<open>A round that goes on leaves less to do.\<close>

lemma round_goes_down:
  assumes r: "between_rounds env r ss" and fair: "\<And>st s. fair k r st s" and po: "po_env po = env"
    and run: "one_round po ex k n r ss = (Inr m, ss')"
  shows "goes_down env adapters horizon r ss m ss'"
proof (cases "runnable r")
  case (Inl e)
  with run show ?thesis by (simp add: one_round_def)
next
  case (Inr chosen)
  show ?thesis
  proof (cases chosen)
    case None
    with run Inr show ?thesis by (simp add: one_round_def)
  next
    case (Some s)
    with Inr have s: "s \<in> set (run_step_runs r)" "active r s"
      using runnable_from_Some [of r "run_step_runs r" s] by (auto simp: runnable_def active_def aside_def)
    from run Inr Some obtain st where st: "step_of r (sr_step_id s) = Inr st" by (auto simp: one_round_def split: sum.splits)
    then have id: "s_id st = sr_step_id s" by (auto simp: step_of_def find_Some_iff split: option.splits)
    obtain x ss1 where x: "step_or_failed po ex k r st s ss = (x, ss1)" by (rule prod.exhaust)
    with run Inr Some st obtain r1 s1 where
      one: "x = Inr (r1, s1)" "after_step po ex k n r1 st s1 ss1 = (Inr m, ss')"
      by (cases x) (auto simp: one_round_def bind_do_def split: prod.splits)
    note rests = step_or_failed_rests [OF r fair id po x [unfolded one(1)]]
    note after = rests_after [OF r rests s]
    show ?thesis using after_step_down [OF one(2)] after id po by simp
  qed
qed

theorem loop_ends:
  assumes "between_rounds env r ss" "\<And>k r st s. fair k r st s" "po_env po = env"
  shows "\<exists>x ss'. steps_loop po ex k n r ss = Some (x, ss') \<and> (\<forall>r'. x = Inr r' \<longrightarrow> run_st r' \<in> insert R_FINISHED PASS_STOPS)"
  using assms(1)
proof (induction "left_to_do adapters horizon r ss" arbitrary: k n r ss rule: less_induct)
  case less
  obtain x ss1 where x: "one_round po ex k n r ss = (x, ss1)" by (rule prod.exhaust)
  show ?case
  proof (cases x)
    case (Inl e)
    then show ?thesis by (subst steps_loop.simps) (simp add: x)
  next
    case (Inr m)
    note one = x [unfolded Inr]
    show ?thesis
    proof (cases m)
      case (Ended r1)
      then show ?thesis using one_round_state [OF one [unfolded Ended]]
        by (subst steps_loop.simps) (simp add: x Inr)
    next
      case (Goes_On r1 n1)
      from round_goes_down [OF less.prems assms(2,3) one]
      have "between_rounds env r1 ss1" "left_to_do adapters horizon r1 ss1 < left_to_do adapters horizon r ss"
        by (simp_all add: goes_down_def Goes_On)
      from less.hyps [OF this(2,1), of "Suc k" n1] show ?thesis
        by (subst steps_loop.simps) (simp add: x Inr Goes_On)
    qed
  qed
qed

theorem pass_ends:
  assumes "between_rounds env r ss" "\<And>k r st s. fair k r st s" "po_env po = env"
  shows "\<exists>x ss'. execute po ex r ss = Some (x, ss') \<and> (\<forall>r'. x = Inr r' \<longrightarrow> run_st r' \<in> insert R_FINISHED PASS_STOPS)"
proof (cases "platform_refuses ((po_admission po)\<lparr>op_unit_memory := None\<rparr>)")
  case None
  with loop_ends [OF assms, of 0 0] show ?thesis by (auto simp: execute_def steps_def)
next
  case (Some short)
  define first where "first = (case runnable r of
      Inl e \<Rightarrow> (\<lambda>ss. (Inl (Run_Refused e), ss))
    | Inr None \<Rightarrow> returns r
    | Inr (Some s) \<Rightarrow> engine_do (andThen
        (open_block_step (po_env po) (po_now po) (block_from LIMIT_COMPUTE REJECTED_BY_CAPACITY (po_now po)) r s)
        (\<lambda>(r', s'). done_with (with_step_run r' s'))))"
  obtain x ss' where x: "bind_do first (end_run po R_HALTED (Some LIMIT) (Some (op_words (po_admission po) (Over_Platform short)))) ss
      = (x, ss')" by (rule prod.exhaust)
  then have "run_st r' = R_HALTED" if "x = Inr r'" for r'
    using that end_run_state by (auto simp: bind_do_def split: prod.splits sum.splits)
  with x show ?thesis
    unfolding execute_def steps_def first_def by (auto simp: Some)
qed

end

subsection \<open>The local step is an executor\<close>

definition local_executor ::
  "engine_env \<Rightarrow> local_options \<Rightarrow> (nat \<Rightarrow> run \<Rightarrow> step \<Rightarrow> step_run \<Rightarrow> local_answers) \<Rightarrow> executor" where
  "local_executor env op world k r st s = local_step env op (world k r st s) r st s"

interpretation locally: step_executor "local_executor env op world" env adapters horizon
    "\<lambda>k r st s. fair_answers adapters horizon (world k r st s)"
  for env op world adapters horizon
  by unfold_locales (unfold local_executor_def, rule local_step_rests)



subsection \<open>A concrete pass\<close>

definition fresh_session :: "engine \<Rightarrow> session" where
  "fresh_session st = \<lparr>ss_engine = st, ss_stop_requested = False, ss_at_capacity = False, ss_parked = False, ss_limit_halts = False,
     ss_moving = False, ss_immature = False, ss_administering = False, ss_repeating = False, ss_declining = False,
     ss_continued = (\<lambda>_. 0), ss_taking_over = None, ss_answered = [], ss_settled = [], ss_stopped = [], ss_cooling = Map.empty\<rparr>"

definition stored_engine :: "run \<Rightarrow> engine" where
  "stored_engine r = (empty_engine None None)\<lparr>en_runs := [run_id r \<mapsto> r]\<rparr>"

definition sample_pass :: pass_options where
  "sample_pass = \<lparr>po_env = sample_env, po_admission = plain_options, po_now = 7, po_level = (\<lambda>_ _. 1), po_repeatable = (\<lambda>_ _. True),
     po_loads = (\<lambda>_. None), po_state = (\<lambda>_ _ _ _. JNull), po_lease = 60, po_stop_after = None, po_last_attempt = False,
     po_words = (\<lambda>_. ''error'')\<rparr>"

text \<open>Every model of the chain answers at its limit and asks to be left alone for a hundred seconds.\<close>

definition limited_world :: model_world where
  "limited_world = answering_world\<lparr>mw_answer := (\<lambda>a. At_Provider_Limit ''full'' (Some 100))\<rparr>"

definition limited_answers :: local_answers where
  "limited_answers = \<lparr>la_now = 0, la_later = 1, la_work = LW_Ask limited_world sample_chain sample_needs asking_work [],
     la_demand = Demanded (needing 30), la_unverified = None, la_repeated = None, la_counts_calls = True, la_booked = [],
     la_checked = (\<lambda>v t q a. Ev_Value v t q a), la_drafts = [], la_not_raised = Some ''no governance'', la_due = ''later'', la_sampled = []\<rparr>"

lemma limited_answers_fair: "fair_answers (map rm_adapter sample_chain) 50 limited_answers"
  by (simp add: fair_answers_def fair_work_def limited_answers_def cools_past_def limited_world_def answering_world_def
      ev_moves_def after_seconds_def half_even_def)

lemma stored_engine_ok: "engine_ok sample_codec (stored_engine r)"
  using empty_engine_ok [of None None] by (simp add: engine_ok_def stored_engine_def empty_engine_def)

lemma sample_between: "distinct (map sr_step_id (run_step_runs r)) \<Longrightarrow> between_rounds sample_env r (fresh_session (stored_engine r))"
  by (simp add: between_rounds_def sample_env_def stored_engine_ok fresh_session_def) (simp add: stored_engine_def)


end
