(* ===== verification/Run_Finish.thy ===== *)
theory Run_Finish
  imports Run_Pass
begin

text \<open>
  A finished run is complete. Before anything runs the engine refuses a step of the sequence that
  depends on a step that runs on escalation (\<open>execute_run.py\<close>, \<open>_check_executable\<close>, its ancestors and its
  last check; the parsing of the work and the frames it checks besides are left out). For a run it
  accepted, a pass that finishes leaves every step of the sequence succeeded, and of the steps on
  escalation none that did not end.
\<close>

subsection \<open>The check before anything runs\<close>

text \<open>The ancestors of one step, its dependencies in their order; a dependency without ancestors of its own
  is a \<open>KeyError\<close>.\<close>

definition so_far :: "(string \<rightharpoonup> string list) \<Rightarrow> string \<Rightarrow> string list" where
  "so_far anc sid = (case anc sid of None \<Rightarrow> [] | Some xs \<Rightarrow> xs)"

fun gather :: "(string \<rightharpoonup> string list) \<Rightarrow> string \<Rightarrow> string list \<Rightarrow> run_error + (string \<rightharpoonup> string list)" where
  "gather anc sid [] = Inr anc"
| "gather anc sid (d # ds) =
     (case anc d of
        None \<Rightarrow> Inl (No_Such_Step d)
      | Some upper \<Rightarrow> gather (anc(sid \<mapsto> so_far anc sid @ d # upper)) sid ds)"

fun ancestors_from :: "(string \<rightharpoonup> string list) \<Rightarrow> step list \<Rightarrow> run_error + (string \<rightharpoonup> string list)" where
  "ancestors_from anc [] = Inr anc"
| "ancestors_from anc (st # sts) =
     (case gather (anc(s_id st \<mapsto> [])) (s_id st) (dependencies st) of
        Inl e \<Rightarrow> Inl e
      | Inr anc' \<Rightarrow> ancestors_from anc' sts)"

text \<open>The first step of the sequence that depends on a step on escalation.\<close>

definition check_sequence :: "run \<Rightarrow> run_error + string option" where
  "check_sequence r =
     (case ancestors_from Map.empty (run_steps r) of
        Inl e \<Rightarrow> Inl e
      | Inr anc \<Rightarrow> Inr (map_option s_id
          (List.find (\<lambda>st. s_id st \<notin> on_escalation r \<and> (\<exists>a \<in> set (so_far anc (s_id st)). a \<in> on_escalation r)) (run_steps r))))"

lemma gather_holds:
  assumes "gather anc sid ds = Inr anc'"
  shows "set (so_far anc sid) \<union> set ds \<subseteq> set (so_far anc' sid) \<and> (\<forall>x. x \<noteq> sid \<longrightarrow> anc' x = anc x)"
  using assms
proof (induction anc sid ds rule: gather.induct)
  case (2 anc sid d ds)
  then obtain upper where "anc d = Some upper" "gather (anc(sid \<mapsto> so_far anc sid @ d # upper)) sid ds = Inr anc'"
    by (auto split: option.splits)
  with "2.IH" [OF this] show ?case by (auto simp: so_far_def)
qed simp

lemma ancestors_kept:
  "ancestors_from anc sts = Inr anc' \<Longrightarrow> sid \<notin> s_id ` set sts \<Longrightarrow> anc' sid = anc sid"
proof (induction anc sts rule: ancestors_from.induct)
  case (2 anc st sts)
  then obtain anc1 where one: "gather (anc(s_id st \<mapsto> [])) (s_id st) (dependencies st) = Inr anc1"
    "ancestors_from anc1 sts = Inr anc'" by (auto split: sum.splits)
  with "2.IH" [OF one] "2.prems"(2) gather_holds [OF one(1)] show ?case by auto
qed simp

lemma ancestors_hold:
  "ancestors_from anc sts = Inr anc' \<Longrightarrow> distinct (map s_id sts) \<Longrightarrow> st \<in> set sts \<Longrightarrow>
     set (dependencies st) \<subseteq> set (so_far anc' (s_id st))"
proof (induction anc sts rule: ancestors_from.induct)
  case (2 anc x sts)
  then obtain anc1 where one: "gather (anc(s_id x \<mapsto> [])) (s_id x) (dependencies x) = Inr anc1"
    "ancestors_from anc1 sts = Inr anc'" by (auto split: sum.splits)
  show ?case
  proof (cases "st = x")
    case True
    have "anc' (s_id x) = anc1 (s_id x)" by (rule ancestors_kept [OF one(2)]) (use "2.prems"(2) in auto)
    with True gather_holds [OF one(1)] show ?thesis by (auto simp: so_far_def)
  next
    case False
    with "2.IH" [OF one] "2.prems" show ?thesis by auto
  qed
qed simp

lemma sequence_apart:
  assumes "check_sequence r = Inr None" "distinct (map s_id (run_steps r))" "st \<in> set (run_steps r)"
    and "s_id st \<notin> on_escalation r" "d \<in> set (dependencies st)"
  shows "d \<notin> on_escalation r"
proof -
  obtain anc where anc: "ancestors_from Map.empty (run_steps r) = Inr anc"
    and none: "List.find (\<lambda>st. s_id st \<notin> on_escalation r \<and> (\<exists>a \<in> set (so_far anc (s_id st)). a \<in> on_escalation r)) (run_steps r) = None"
    using assms(1) by (auto simp: check_sequence_def split: sum.splits)
  have "d \<in> set (so_far anc (s_id st))" using ancestors_hold [OF anc assms(2,3)] assms(5) by auto
  with none assms(3,4) show ?thesis by (auto simp: find_None_iff)
qed

text \<open>Where the check passed and nobody is waited for, nothing stalls a step of the sequence.\<close>

lemma not_stalled:
  assumes "stalled_by r sid w" "check_sequence r = Inr None" "distinct (map s_id (run_steps r))" "waiting_steps r = []"
  shows "sid \<in> on_escalation r"
  using assms(1)
proof induction
  case (direct sid st d w)
  have st: "st \<in> set (run_steps r)" "s_id st = sid"
    using step_of_cases [of r sid] direct(1) by fastforce+
  have "sr_state w \<noteq> S_WAITING_HUMAN" using assms(4) direct(3) by (auto simp: waiting_steps_def filter_empty_conv)
  with direct(4,6) have "d \<in> on_escalation r" by (simp add: aside_def)
  with sequence_apart [OF assms(2,3) st(1) _ direct(2)] st(2) show ?case by auto
next
  case (through sid st d w)
  have st: "st \<in> set (run_steps r)" "s_id st = sid"
    using step_of_cases [of r sid] through(1) by fastforce+
  with sequence_apart [OF assms(2,3) st(1) _ through(2)] through.IH show ?case by auto
qed

lemma sequence_done:
  assumes "order_error {} (run_steps r) = None" "map sr_step_id (run_step_runs r) = map s_id (run_steps r)"
    and "distinct (map s_id (run_steps r))" "check_sequence r = Inr None" "runnable r = Inr None" "waiting_steps r = []"
    and "s \<in> set (run_step_runs r)" "sr_step_id s \<notin> on_escalation r"
  shows "sr_state s = S_SUCCEEDED"
proof (rule ccontr)
  assume "sr_state s \<noteq> S_SUCCEEDED"
  then have open_step: "\<not> done_run s" by (simp add: done_run_def DONE_def)
  have "sr_state s \<noteq> S_WAITING_HUMAN" using assms(6,7) by (auto simp: waiting_steps_def filter_empty_conv)
  then have "\<not> aside r s" using assms(8) by (simp add: aside_def)
  with assms(7) open_step obtain w where "stalled_by r (sr_step_id s) w"
    using stalled_step [OF assms(1,2,5)] by (metis in_set_conv_nth)
  from not_stalled [OF this assms(4,3,6)] assms(8) show False by simp
qed

subsection \<open>Skipping the steps on escalation\<close>

lemma settle_step_Inr:
  assumes "settle_step env now result said out read r s ss = (Inr (r', s'), ss')"
  shows "r' = (with_step_run r s')\<lparr>run_updated_at := now\<rparr>" "sr_step_id s' = sr_step_id s" "sr_state s' = S_SUCCEEDED"
proof -
  obtain d st1 f ca st2 where to: "step_to s S_SUCCEEDED f = Inr s'" "f = (\<lambda>x. x\<lparr>sr_artifacts := [result_artifact d],
       sr_checkpoint := Some (checkpoint_of now r s [result_artifact d] (Some d)), sr_reason := Some said,
       sr_started_at := Some (case sr_started_at s of None \<Rightarrow> now | Some t \<Rightarrow> t), sr_finished_at := Some now\<rparr>)"
    and commit: "commit_run env now (with_step_run r s') ca st1 = (Inr r', st2)"
    using assms
    by (auto simp: settle_step_def note_do_def engine_do_def andThen_def of_run_def done_with_def simp del: dumps_spaced.simps
        split: prod.splits sum.splits)
  show "r' = (with_step_run r s')\<lparr>run_updated_at := now\<rparr>" by (rule commit_run_same [OF commit])
  show "sr_step_id s' = sr_step_id s" "sr_state s' = S_SUCCEEDED"
    using to by (auto simp: step_to_def split: if_splits)
qed

text \<open>What skipping changes: the steps it names end, and no other step is touched.\<close>

definition skipped_to :: "string set \<Rightarrow> run \<Rightarrow> run \<Rightarrow> bool" where
  "skipped_to sids r r' \<longleftrightarrow> same_plan r r'
     \<and> (\<forall>y \<in> set (run_step_runs r'). (\<exists>x \<in> set (run_step_runs r). sr_step_id x = sr_step_id y \<and> (y = x \<or> sr_state y = S_SUCCEEDED))
          \<and> (sr_step_id y \<in> sids \<longrightarrow> sr_state y \<notin> {S_PLANNED, S_REJECTED}))"

lemma with_step_plan: "same_plan r ((with_step_run r s)\<lparr>run_updated_at := t\<rparr>)"
  by (auto simp: same_plan_def with_step_run_def)

lemma settle_aside_skips:
  "settle_aside po sts r ss = (Inr r', ss') \<Longrightarrow> distinct (map sr_step_id (run_step_runs r)) \<Longrightarrow> skipped_to (s_id ` set sts) r r'"
proof (induction sts arbitrary: r ss)
  case Nil
  then show ?case by (auto simp: returns_def skipped_to_def)
next
  case (Cons st sts)
  from Cons.prems(1) obtain s where s: "step_run_of r (s_id st) = Inr s" by (auto split: sum.splits)
  have found: "s \<in> set (run_step_runs r)" "sr_step_id s = s_id st" using step_run_of_found [OF s] by simp_all
  show ?case
  proof (cases "sr_state s \<in> {S_PLANNED, S_REJECTED}")
    case False
    with Cons.prems(1) s have "settle_aside po sts r ss = (Inr r', ss')" by auto
    from Cons.IH [OF this Cons.prems(2)] have skip: "skipped_to (s_id ` set sts) r r'" .
    have "sr_state y \<notin> {S_PLANNED, S_REJECTED}" if "y \<in> set (run_step_runs r')" "sr_step_id y = s_id st" for y
    proof -
      obtain x where x: "x \<in> set (run_step_runs r)" "sr_step_id x = sr_step_id y" "y = x \<or> sr_state y = S_SUCCEEDED"
        using skip \<open>y \<in> set (run_step_runs r')\<close> by (auto simp: skipped_to_def)
      have "x = s" using Cons.prems(2) found x that(2) by (metis distinct_map inj_onD)
      with x(3) False show ?thesis by auto
    qed
    with skip show ?thesis by (auto simp: skipped_to_def)
  next
    case True
    with Cons.prems(1) s obtain r1 s1 ss1 where
      settle: "settle_step (po_env po) (po_now po) [(''skipped'', JBool True), (''because'', JStr ''the run did not escalate'')]
                 ''the run did not escalate'' ''skipped'' [] r s ss = (Inr (r1, s1), ss1)"
      and rest: "settle_aside po sts r1 ss1 = (Inr r', ss')"
      by (auto simp: bind_do_def split: prod.splits sum.splits)
    note r1 = settle_step_Inr [OF settle]
    have plan: "same_plan r r1" unfolding r1(1) by (rule with_step_plan)
    have "distinct (map sr_step_id (run_step_runs r1))" using plan Cons.prems(2) by (simp add: same_plan_def)
    from Cons.IH [OF rest this] have skip: "skipped_to (s_id ` set sts) r1 r'" .
    have in_r1: "\<exists>x0 \<in> set (run_step_runs r). sr_step_id x0 = sr_step_id x \<and> (x = x0 \<or> sr_state x = S_SUCCEEDED)"
      "sr_step_id x = s_id st \<Longrightarrow> sr_state x = S_SUCCEEDED" if "x \<in> set (run_step_runs r1)" for x
      using that found r1(2,3) unfolding r1(1) by (auto simp: with_step_run_def split: if_splits)
    have each: "(\<exists>x0 \<in> set (run_step_runs r). sr_step_id x0 = sr_step_id y \<and> (y = x0 \<or> sr_state y = S_SUCCEEDED))
        \<and> (sr_step_id y \<in> s_id ` set (st # sts) \<longrightarrow> sr_state y \<notin> {S_PLANNED, S_REJECTED})"
      if y: "y \<in> set (run_step_runs r')" for y
    proof -
      obtain x where x: "x \<in> set (run_step_runs r1)" "sr_step_id x = sr_step_id y" "y = x \<or> sr_state y = S_SUCCEEDED"
        and named: "sr_step_id y \<in> s_id ` set sts \<longrightarrow> sr_state y \<notin> {S_PLANNED, S_REJECTED}"
        using skip y by (auto simp: skipped_to_def)
      from in_r1(1) [OF x(1)] x(2,3) have "\<exists>x0 \<in> set (run_step_runs r). sr_step_id x0 = sr_step_id y \<and> (y = x0 \<or> sr_state y = S_SUCCEEDED)"
        by auto
      moreover have "sr_step_id y = s_id st \<Longrightarrow> sr_state y = S_SUCCEEDED" using in_r1(2) [OF x(1)] x(2,3) by auto
      ultimately show ?thesis using named by auto
    qed
    have "same_plan r r'" using same_plan_trans [OF plan] skip by (simp add: skipped_to_def)
    with each show ?thesis by (simp add: skipped_to_def)
  qed
qed

subsection \<open>Where no step is left\<close>

text \<open>Every step of the sequence succeeded, and no step on escalation is still to run.\<close>

definition complete :: "run \<Rightarrow> bool" where
  "complete r \<longleftrightarrow> (\<forall>s \<in> set (run_step_runs r).
     if sr_step_id s \<in> on_escalation r then sr_state s \<notin> {S_PLANNED, S_REJECTED} else sr_state s = S_SUCCEEDED)"

lemma end_run_same:
  assumes "end_run po state c reason r ss = (Inr r', ss')"
  shows "run_step_runs r' = run_step_runs r" "run_work r' = run_work r"
proof -
  obtain st r1 ca st' where "run_to r state c reason = Inr r1" "commit_run (po_env po) (po_now po) r1 ca st = (Inr r', st')"
    using assms
    by (auto simp: end_run_def note_do_def bind_do_def engine_do_def andThen_def of_run_def split: prod.splits sum.splits)
  then have "r' = r1\<lparr>run_updated_at := po_now po\<rparr>" "r1 = r\<lparr>run_st := state, run_cause := c, run_reason := reason\<rparr>"
    using commit_run_same by (auto simp: run_to_def split: if_splits)
  then show "run_step_runs r' = run_step_runs r" "run_work r' = run_work r" by simp_all
qed

lemma no_step_left_complete:
  assumes "no_step_left po r ss = (Inr r', ss')" "run_st r' = R_FINISHED" "runnable r = Inr None" "check_sequence r = Inr None"
    and "order_error {} (run_steps r) = None" "map sr_step_id (run_step_runs r) = map s_id (run_steps r)"
    and "distinct (map s_id (run_steps r))"
  shows "complete r'"
proof -
  have none: "waiting_steps r = []"
    using assms(1,2) end_run_state by (fastforce simp: no_step_left_def split: if_splits)
  with assms(1) obtain r1 ss1 where settle: "settle_aside po (aside_steps r) r ss = (Inr r1, ss1)"
    and end_run: "end_run po R_FINISHED None None r1 ss1 = (Inr r', ss')"
    by (auto simp: no_step_left_def bind_do_def split: prod.splits sum.splits)
  have "distinct (map sr_step_id (run_step_runs r))" unfolding assms(6) by (rule assms(7))
  from settle_aside_skips [OF settle this] have skip: "skipped_to (s_id ` set (aside_steps r)) r r1" .
  have same: "on_escalation r1 = on_escalation r" using skip by (simp add: skipped_to_def same_plan_def on_escalation_def)
  have "complete r1"
    unfolding complete_def same
  proof
    fix y assume y: "y \<in> set (run_step_runs r1)"
    then obtain x where x: "x \<in> set (run_step_runs r)" "sr_step_id x = sr_step_id y" "y = x \<or> sr_state y = S_SUCCEEDED"
      and named: "sr_step_id y \<in> s_id ` set (aside_steps r) \<longrightarrow> sr_state y \<notin> {S_PLANNED, S_REJECTED}"
      using skip by (auto simp: skipped_to_def)
    show "if sr_step_id y \<in> on_escalation r then sr_state y \<notin> {S_PLANNED, S_REJECTED} else sr_state y = S_SUCCEEDED"
    proof (cases "sr_step_id y \<in> on_escalation r")
      case True
      have "sr_step_id x \<in> set (map s_id (run_steps r))" using x(1) unfolding assms(6) [symmetric] by simp
      with True x(2) have "sr_step_id y \<in> s_id ` set (aside_steps r)" by (auto simp: aside_steps_def)
      with True named show ?thesis by simp
    next
      case False
      with sequence_done [OF assms(5-7,4,3) none x(1)] x(2,3) show ?thesis by auto
    qed
  qed
  with end_run_same [OF end_run] show ?thesis by (simp add: complete_def on_escalation_def)
qed


subsection \<open>A pass that finishes\<close>

text \<open>What a run the engine starts on passed: its steps in order, one step run for each, names of their own,
  and no step of the sequence behind one on escalation.\<close>

definition accepted :: "run \<Rightarrow> bool" where
  "accepted r \<longleftrightarrow> check_sequence r = Inr None \<and> order_error {} (run_steps r) = None
     \<and> map sr_step_id (run_step_runs r) = map s_id (run_steps r) \<and> distinct (map s_id (run_steps r))"

lemma accepted_plan:
  assumes "same_plan r r'" "accepted r" shows "accepted r'"
proof -
  have "on_escalation r' = on_escalation r" "run_steps r' = run_steps r" using assms(1) by (simp_all add: same_plan_def on_escalation_def)
  then have "check_sequence r' = check_sequence r" by (simp only: check_sequence_def)
  with assms show ?thesis by (simp add: same_plan_def accepted_def)
qed

lemma bind_do_Inr: "bind_do d f ss = (Inr y, ss') \<Longrightarrow> \<exists>x ss1. d ss = (Inr x, ss1) \<and> f x ss1 = (Inr y, ss')"
  by (auto simp: bind_do_def split: prod.splits sum.splits)

context step_executor
begin

theorem finished_loop:
  assumes "between_rounds env r ss" "\<And>k r st s. fair k r st s" "po_env po = env" "accepted r"
    and "steps_loop po ex k n r ss = Some (Inr r', ss')" "run_st r' = R_FINISHED"
  shows "complete r'"
  using assms(1,4,5)
proof (induction "left_to_do adapters horizon r ss" arbitrary: k n r ss rule: less_induct)
  case less
  obtain x ss1 where x: "one_round po ex k n r ss = (x, ss1)" by (rule prod.exhaust)
  show ?case
  proof (cases x)
    case (Inl e)
    with less.prems(3) x show ?thesis by (subst (asm) steps_loop.simps) simp
  next
    case (Inr m)
    note one = x [unfolded Inr]
    show ?thesis
    proof (cases m)
      case (Ended r1)
      with less.prems(3) x Inr have "r1 = r'" by (subst (asm) steps_loop.simps) simp
      with one_round_ended [OF one [unfolded Ended]] assms(6)
      have "runnable r = Inr None" "no_step_left po r ss = (Inr r', ss1)" by (auto simp: PASS_STOPS_def)
      from no_step_left_complete [OF this(2) assms(6) this(1)] less.prems(2) show ?thesis by (simp add: accepted_def)
    next
      case (Goes_On r1 n1)
      from round_goes_down [OF less.prems(1) assms(2,3) one]
      have down: "between_rounds env r1 ss1" "same_plan r r1" "left_to_do adapters horizon r1 ss1 < left_to_do adapters horizon r ss"
        by (simp_all add: goes_down_def Goes_On)
      from less.prems(3) x Inr Goes_On have "steps_loop po ex (Suc k) n1 r1 ss1 = Some (Inr r', ss')"
        by (subst (asm) steps_loop.simps) simp
      with less.hyps [OF down(3,1) accepted_plan [OF down(2) less.prems(2)]] show ?thesis by simp
    qed
  qed
qed

lemma finished_pass:
  assumes "between_rounds env r ss" "\<And>k r st s. fair k r st s" "po_env po = env" "accepted r"
    and "execute po ex r ss = Some (Inr r', ss')" "run_st r' = R_FINISHED"
  shows "complete r'"
proof (cases "platform_refuses ((po_admission po)\<lparr>op_unit_memory := None\<rparr>)")
  case None
  with assms(5) obtain ss1 where "steps_loop po ex 0 0 r ss = Some (Inr r', ss1)"
    by (auto simp: execute_def steps_def)
  from finished_loop [OF assms(1-4) this assms(6)] show ?thesis .
next
  case (Some short)
  let ?halt = "end_run po R_HALTED (Some LIMIT) (Some (op_words (po_admission po) (Over_Platform short)))"
  from Some assms(5) obtain d ss2 where "bind_do d ?halt ss = (Inr r', ss2)"
    by (auto simp: execute_def steps_def map_prod_def split: prod.splits)
  then obtain ra ss1 where "?halt ra ss1 = (Inr r', ss2)" using bind_do_Inr by fast
  from end_run_state [OF this] assms(6) show ?thesis by simp
qed

end


text \<open>A run whose steps all succeeded, and one of them on escalation that never ran.\<close>

definition ending_run :: run where
  "ending_run = sample_run\<lparr>run_st := R_RUNNING,
     run_step_runs := map (\<lambda>s. s\<lparr>sr_state := S_SUCCEEDED\<rparr>) (run_step_runs sample_run)\<rparr>"

lemma ending_run_sel: "run_id ending_run = ''run-1''" "run_steps ending_run = two_steps" "run_work ending_run = []"
  "run_st ending_run = R_RUNNING"
  "run_step_runs ending_run = map (\<lambda>s. s\<lparr>sr_state := S_SUCCEEDED\<rparr>) (run_step_runs sample_run)"
  by (simp_all add: ending_run_def sample_run_def)

lemma ending_run_accepted:
  "check_sequence ending_run = Inr None" "order_error {} (run_steps ending_run) = None"
  "map sr_step_id (run_step_runs ending_run) = map s_id (run_steps ending_run)" "runnable ending_run = Inr None"
  "waiting_steps ending_run = []" "aside_steps ending_run = []"
  by (simp_all add: check_sequence_def ending_run_sel two_steps_def sample_step_def dependencies_def on_escalation_def
      escalation_steps_def marked_def sample_step_runs new_step_run_def runnable_def done_run_def DONE_def waiting_steps_def
      aside_steps_def so_far_def)

lemma ending_commit:
  "\<exists>st'. commit_run sample_env 7 (ending_run\<lparr>run_st := R_FINISHED, run_cause := None, run_reason := None\<rparr>)
      ((commit_of (Some (end_entry R_FINISHED None)))\<lparr>ca_ended := Some ''ok''\<rparr>) (stored_engine ending_run)
    = (Inr (ending_run\<lparr>run_st := R_FINISHED, run_cause := None, run_reason := None, run_updated_at := 7\<rparr>), st')"
proof -
  let ?r = "ending_run\<lparr>run_st := R_FINISHED, run_cause := None, run_reason := None\<rparr>"
  have "\<exists>st'. commit_run sample_env 7 ?r ((commit_of (Some (end_entry R_FINISHED None)))\<lparr>ca_ended := Some ''ok''\<rparr>) (stored_engine ending_run)
      = (Inr (?r\<lparr>run_updated_at := 7\<rparr>), st')"
    by (rule commit_succeeds)
      (simp_all add: sample_env_def stored_engine_ok, simp_all add: not_anchors_def commit_of_def end_entry_def entry_of_kind_def
        RUN_DOT_def ANCHORED_def trace_recordable_def stored_engine_def empty_engine_def)
  then show ?thesis by simp
qed

lemma ending_pass:
  "\<exists>ss'. execute sample_pass ex ending_run (fresh_session (stored_engine ending_run))
     = Some (Inr (ending_run\<lparr>run_st := R_FINISHED, run_cause := None, run_reason := None, run_updated_at := 7\<rparr>), ss')"
proof -
  let ?ss = "fresh_session (stored_engine ending_run)"
  obtain st' where commit: "commit_run sample_env 7 (ending_run\<lparr>run_st := R_FINISHED, run_cause := None, run_reason := None\<rparr>)
      ((commit_of (Some (end_entry R_FINISHED None)))\<lparr>ca_ended := Some ''ok''\<rparr>) (stored_engine ending_run)
    = (Inr (ending_run\<lparr>run_st := R_FINISHED, run_cause := None, run_reason := None, run_updated_at := 7\<rparr>), st')"
    using ending_commit by blast
  have to: "run_to ending_run R_FINISHED None None = Inr (ending_run\<lparr>run_st := R_FINISHED, run_cause := None, run_reason := None\<rparr>)"
    by (simp add: run_to_def ending_run_sel RUN_TRANSITIONS_def)
  have none_found: "\<not> found_nothing sample_pass ending_run st" for st
    by (simp add: found_nothing_def empty_markers_def marked_def ending_run_sel list_ex_iff)
  have ended: "ended_as sample_pass R_FINISHED ending_run st = Some ENDED_OK" for st
    using none_found [of st] by (simp add: ended_as_def)
  have sel: "po_env sample_pass = sample_env" "po_now sample_pass = 7" "po_admission sample_pass = plain_options"
    by (simp_all add: sample_pass_def)
  have ss: "ss_taking_over ?ss = None" "ss_engine ?ss = stored_engine ending_run" by (simp_all add: fresh_session_def)
  have "end_run sample_pass R_FINISHED None None ending_run ?ss
      = (Inr (ending_run\<lparr>run_st := R_FINISHED, run_cause := None, run_reason := None, run_updated_at := 7\<rparr>),
         ?ss\<lparr>ss_stop_requested := False, ss_engine := st'\<rparr>)"
    by (simp add: end_run_def note_do_def bind_do_def returns_def engine_do_def andThen_def of_run_def ss to sel commit ended)
  then have "no_step_left sample_pass ending_run ?ss
      = (Inr (ending_run\<lparr>run_st := R_FINISHED, run_cause := None, run_reason := None, run_updated_at := 7\<rparr>),
         ?ss\<lparr>ss_stop_requested := False, ss_engine := st'\<rparr>)"
    by (simp add: no_step_left_def ending_run_accepted bind_do_def returns_def)
  then have "one_round sample_pass ex 0 0 ending_run ?ss
      = (Inr (Ended (ending_run\<lparr>run_st := R_FINISHED, run_cause := None, run_reason := None, run_updated_at := 7\<rparr>)),
         ?ss\<lparr>ss_stop_requested := False, ss_engine := st'\<rparr>)"
    by (simp add: one_round_def ending_run_accepted ends_def bind_do_def returns_def)
  then have "steps_loop sample_pass ex 0 0 ending_run ?ss
      = Some (Inr (ending_run\<lparr>run_st := R_FINISHED, run_cause := None, run_reason := None, run_updated_at := 7\<rparr>),
         ?ss\<lparr>ss_stop_requested := False, ss_engine := st'\<rparr>)"
    by (subst steps_loop.simps) simp
  moreover have "platform_refuses (plain_options\<lparr>op_unit_memory := None\<rparr>) = None"
    by (simp add: platform_refuses_def plain_options_def)
  ultimately show ?thesis by (simp add: execute_def steps_def sel)
qed


end
