(* ===== verification/Run_Runner.thy ===== *)
theory Run_Runner
  imports Job_Queue_Safety Run_Gates Run_Pricing
begin

text \<open>
  The runner (\<open>run/application/service/runner.py\<close>): it claims jobs of the tenants it serves up to its
  free places, one per tenant in turn, executes each in a task of its own, and decides the job by how
  the run ended.

  The state is what the runner keeps (\<open>runner\<close>) beside the queues of the tenants (\<open>serving\<close>). The dict of
  executing jobs and the tasks share mutable objects, so the objects of all tasks are a list, an
  object's identity is its position in it, and the dict maps a job to a position. What runs between two
  steps of the claim loop (tasks that end, other runners, \<open>stop\<close>) is the function \<open>between\<close>, given at
  every point where the loop awaits. The engine, which resumes a run while all of that goes on, is a
  collaborator handed to the runner: \<open>resuming\<close>. A lost claim it records in its ledger, which touches
  neither the runner nor a queue. The limits of units are read once for a round. The stops of adapters
  that a renewal reads, and the telling of \<open>on_outcome\<close>, are left out.
\<close>

subsection \<open>The state\<close>

record runner_options =
  ro_claimant :: string
  ro_concurrency :: int
  ro_poll_seconds :: rat
  ro_heartbeat_seconds :: rat
  ro_actor :: string
  ro_max_attempts :: int
  ro_wait_first :: rat
  ro_wait_cap :: rat
  ro_outcomes_kept :: int
  ro_org_units :: "(string \<Rightarrow> string \<rightharpoonup> int) option"

datatype disposition = DP_UNKNOWN | DP_COMPLETED | DP_RELEASED | DP_DEFERRED | DP_LOST | DP_TAKEN_OVER

record outcome =
  oc_tenant :: string
  oc_job :: job
  oc_run :: "run option"
  oc_disposition :: disposition
  oc_error :: "string option"

definition new_outcome :: "string \<Rightarrow> job \<Rightarrow> outcome" where
  "new_outcome t j = \<lparr>oc_tenant = t, oc_job = j, oc_run = None, oc_disposition = DP_UNKNOWN, oc_error = None\<rparr>"

definition outcome_step :: "outcome \<Rightarrow> string option" where
  "outcome_step oc =
     (case oc_run oc of
        None \<Rightarrow> None
      | Some r \<Rightarrow>
          if run_st r = R_FINISHED then None
          else (case List.find (\<lambda>s. sr_state s \<in> {S_FAILED, S_REJECTED}) (run_step_runs r) of
                  Some s \<Rightarrow> Some (sr_step_id s)
                | None \<Rightarrow> map_option sr_step_id (List.find (\<lambda>s. sr_state s \<in> {S_STOPPED}) (run_step_runs r))))"

record executing =
  ex_tenant :: string
  ex_job :: job
  ex_run_id :: string
  ex_lost :: bool
  ex_stop_requested :: bool

record runner =
  rn_objects :: "executing list"
  rn_executing :: "(string \<times> nat) list"
  rn_stopping :: bool
  rn_outcomes :: "outcome list"
  rn_finished :: nat
  rn_woken :: bool
  rn_turn :: nat

definition new_runner :: runner where
  "new_runner = \<lparr>rn_objects = [], rn_executing = [], rn_stopping = False, rn_outcomes = [], rn_finished = 0,
     rn_woken = False, rn_turn = 0\<rparr>"

record serving =
  sv_runner :: runner
  sv_queues :: "string \<Rightarrow> queue"

definition on_queue :: "string \<Rightarrow> (queue \<Rightarrow> queue) \<Rightarrow> serving \<Rightarrow> serving" where
  "on_queue t f sv = sv\<lparr>sv_queues := (sv_queues sv)(t := f (sv_queues sv t))\<rparr>"

definition on_runner :: "(runner \<Rightarrow> runner) \<Rightarrow> serving \<Rightarrow> serving" where
  "on_runner f sv = sv\<lparr>sv_runner := f (sv_runner sv)\<rparr>"

definition busy :: "serving \<Rightarrow> nat" where
  "busy sv = length (rn_executing (sv_runner sv))"

subsection \<open>Claiming\<close>

text \<open>\<open>str(payload.get("run_id", ""))\<close>; the text of a value that is no text is \<open>repr\<close>.\<close>

definition payload_run :: "(json \<Rightarrow> string) \<Rightarrow> job \<Rightarrow> string" where
  "payload_run repr j =
     (case map_of (j_payload j) ''run_id'' of None \<Rightarrow> [] | Some (JStr s) \<Rightarrow> s | Some v \<Rightarrow> repr v)"

definition start_task :: "(json \<Rightarrow> string) \<Rightarrow> string \<Rightarrow> job \<Rightarrow> runner \<Rightarrow> runner" where
  "start_task repr t j rn =
     rn\<lparr>rn_objects := rn_objects rn @ [\<lparr>ex_tenant = t, ex_job = j, ex_run_id = payload_run repr j,
          ex_lost = False, ex_stop_requested = False\<rparr>],
        rn_executing := AList.update (j_id j) (length (rn_objects rn)) (rn_executing rn)\<rparr>"

definition unit_limits :: "runner_options \<Rightarrow> string \<Rightarrow> string \<rightharpoonup> int" where
  "unit_limits ro t = (case ro_org_units ro of None \<Rightarrow> Map.empty | Some f \<Rightarrow> f t)"

text \<open>The surroundings of a round: what goes on at its \<open>k\<close>-th await, and the clock's \<open>k\<close>-th reading.\<close>

record surroundings =
  su_between :: "nat \<Rightarrow> serving \<Rightarrow> serving"
  su_clock :: "nat \<Rightarrow> moment"
  su_repr :: "json \<Rightarrow> string"

definition may_claim :: "runner_options \<Rightarrow> serving \<Rightarrow> bool" where
  "may_claim ro sv \<longleftrightarrow> \<not> (ro_concurrency ro - int (busy sv) \<le> 0 \<or> rn_stopping (sv_runner sv))"

text \<open>One turn of a tenant: the claim, and a task for what it hands out.\<close>

definition claim_turn ::
  "runner_options \<Rightarrow> surroundings \<Rightarrow> string \<Rightarrow> nat \<Rightarrow> serving \<Rightarrow> job list \<times> serving" where
  "claim_turn ro su t k sv =
     (let sv1 = su_between su (2 * k) sv;
          (jobs, q) = claim_jobs (sv_queues sv1 t) (ro_claimant ro) 1 (unit_limits ro t) (su_clock su k);
          sv2 = su_between su (2 * k + 1) (on_queue t (\<lambda>_. q) sv1)
      in (jobs, on_runner (fold (start_task (su_repr su) t) jobs) sv2))"

text \<open>The loop over the tenants that wait. It answers whether the round returns, the tenants with more
  work, the jobs claimed and the turns taken.\<close>

record round_so_far =
  rd_returns :: bool
  rd_still :: "string list"
  rd_claimed :: nat
  rd_turns :: nat
  rd_serving :: serving

fun claim_pass ::
  "runner_options \<Rightarrow> surroundings \<Rightarrow> string list \<Rightarrow> string list \<Rightarrow> nat \<Rightarrow> nat \<Rightarrow> serving \<Rightarrow> round_so_far" where
  "claim_pass ro su [] still c k sv =
     \<lparr>rd_returns = False, rd_still = still, rd_claimed = c, rd_turns = k, rd_serving = sv\<rparr>"
| "claim_pass ro su (t # ts) still c k sv =
     (if \<not> may_claim ro sv
      then \<lparr>rd_returns = True, rd_still = still, rd_claimed = c, rd_turns = k, rd_serving = sv\<rparr>
      else (case claim_turn ro su t k sv of
              (jobs, sv') \<Rightarrow>
                claim_pass ro su ts (if jobs = [] then still else still @ [t]) (c + length jobs) (Suc k) sv'))"

text \<open>\<open>while waiting and not self._stopping\<close>; \<open>None\<close> is a round that never returns.\<close>

partial_function (option) claim_loop ::
  "runner_options \<Rightarrow> surroundings \<Rightarrow> string list \<Rightarrow> nat \<Rightarrow> nat \<Rightarrow> serving \<Rightarrow> (nat \<times> serving) option" where
  "claim_loop ro su waiting c k sv =
     (if waiting = [] \<or> rn_stopping (sv_runner sv) then Some (c, sv)
      else let rd = claim_pass ro su waiting [] c k sv
        in if rd_returns rd then Some (rd_claimed rd, rd_serving rd)
           else claim_loop ro su (rd_still rd) (rd_claimed rd) (rd_turns rd) (rd_serving rd))"

declare claim_loop.simps [code]

text \<open>The order of a round, and \<open>_claim_round\<close>.\<close>

definition round_order :: "nat \<Rightarrow> string list \<Rightarrow> string list" where
  "round_order turn served = (let s = turn mod length served in drop s served @ take s served)"

definition claim_round ::
  "runner_options \<Rightarrow> surroundings \<Rightarrow> string list \<Rightarrow> serving \<Rightarrow> (nat \<times> serving) option" where
  "claim_round ro su served sv =
     (if served = [] then Some (0, sv)
      else claim_loop ro su (round_order (rn_turn (sv_runner sv)) served) 0 0
             (on_runner (\<lambda>rn. rn\<lparr>rn_turn := rn_turn rn mod length served + 1\<rparr>) sv))"

text \<open>One iteration of \<open>run\<close>: the round, and for how long the loop then waits at most.\<close>

definition one_turn ::
  "runner_options \<Rightarrow> surroundings \<Rightarrow> string list \<Rightarrow> serving \<Rightarrow> (rat \<times> serving) option" where
  "one_turn ro su served sv =
     map_option (\<lambda>(c, sv'). (if c = 0 \<and> \<not> rn_woken (sv_runner sv') then ro_poll_seconds ro else 0, sv'))
       (claim_round ro su served (on_runner (\<lambda>rn. rn\<lparr>rn_woken := False\<rparr>) sv))"

text \<open>\<open>stop\<close>: no new claim, and every executing run that was not asked before is asked to stop.\<close>

definition ask_stop :: "nat \<Rightarrow> string list \<times> runner \<Rightarrow> string list \<times> runner" where
  "ask_stop i = (\<lambda>(asked, rn).
     let e = rn_objects rn ! i in
     if ex_stop_requested e then (asked, rn)
     else (asked @ [ex_run_id e], rn\<lparr>rn_objects := (rn_objects rn)[i := e\<lparr>ex_stop_requested := True\<rparr>]\<rparr>))"

definition stop_runner :: "runner \<Rightarrow> string list \<times> runner" where
  "stop_runner rn =
     fold ask_stop (map snd (rn_executing rn)) ([], rn\<lparr>rn_stopping := True, rn_woken := True\<rparr>)"

subsection \<open>Executing one job\<close>

record resume_run =
  rr_run_id :: string
  rr_actor :: string
  rr_tenant :: string
  rr_on_claim :: bool
  rr_claim :: claim
  rr_last_attempt :: bool
  rr_held_since :: "moment option"

definition resume_command :: "runner_options \<Rightarrow> executing \<Rightarrow> resume_run" where
  "resume_command ro e =
     \<lparr>rr_run_id = ex_run_id e, rr_actor = ro_actor ro, rr_tenant = ex_tenant e, rr_on_claim = True,
      rr_claim = \<lparr>cl_job_id = j_id (ex_job e), cl_claimant = ro_claimant ro, cl_attempt = j_attempts (ex_job e)\<rparr>,
      rr_last_attempt = (j_attempts (ex_job e) - j_deferrals (ex_job e) \<ge> ro_max_attempts ro),
      rr_held_since = j_held_since (ex_job e)\<rparr>"

text \<open>What the engine answers: the run, the claim lost with its text, or what it raised: the name of its
  class, its text and its notes.\<close>

datatype resumed = Resumed run | Lost_Claim string | Raised string string "string list"

record resuming =
  rz_resume :: "resume_run \<Rightarrow> serving \<Rightarrow> resumed \<times> serving"
  rz_passed :: "string \<Rightarrow> serving \<Rightarrow> bool"
  rz_note_lost :: "string \<Rightarrow> string \<Rightarrow> string option"

definition release_job :: "runner_options \<Rightarrow> executing \<Rightarrow> serving \<Rightarrow> serving" where
  "release_job ro e = on_queue (ex_tenant e) (\<lambda>q. release q (j_id (ex_job e)) (ro_claimant ro))"

definition complete_job :: "runner_options \<Rightarrow> executing \<Rightarrow> serving \<Rightarrow> serving" where
  "complete_job ro e = on_queue (ex_tenant e) (\<lambda>q. Job_Queue.complete q (j_id (ex_job e)) (ro_claimant ro))"

definition put_off :: "runner_options \<Rightarrow> executing \<Rightarrow> rat \<Rightarrow> moment \<Rightarrow> serving \<Rightarrow> serving" where
  "put_off ro e seconds now = on_queue (ex_tenant e)
     (\<lambda>q. defer_job q (j_id (ex_job e)) (ro_claimant ro) (half_even (seconds * 1000000)) now)"

text \<open>\<open>_defer\<close>: the seconds until the job is tried again.\<close>

definition defer_seconds :: "runner_options \<Rightarrow> run \<Rightarrow> rat" where
  "defer_seconds ro r =
     (let waiting = next_step_run r;
          waits = (case waiting of None \<Rightarrow> 1 | Some s \<Rightarrow> sr_waits s);
          named = Option.bind (Option.bind waiting sr_block) ob_retry_after
      in case named of
           None \<Rightarrow> wait_delay (nat waits) (ro_wait_first ro) (ro_wait_cap ro)
         | Some x \<Rightarrow> max x (ro_wait_first ro))"

text \<open>\<open>_park\<close>: the seconds until the wait's next check.\<close>

definition next_checks :: "run \<Rightarrow> moment list" where
  "next_checks r = List.map_filter (\<lambda>s. Option.bind (sr_block s) ob_next_check_at) (run_step_runs r)"

definition park_seconds :: "runner_options \<Rightarrow> run \<Rightarrow> moment \<Rightarrow> rat" where
  "park_seconds ro r now =
     (if next_checks r = [] then ro_wait_first ro
      else max 0 (of_int (Min (set (next_checks r)) - now) / 1000000))"

definition set_lost :: "nat \<Rightarrow> runner \<Rightarrow> runner" where
  "set_lost i rn = rn\<lparr>rn_objects := (rn_objects rn)[i := (rn_objects rn ! i)\<lparr>ex_lost := True\<rparr>]\<rparr>"

text \<open>\<open>_note_lost\<close>: the record goes to the ledger; one that fails is said in the outcome.\<close>

definition note_lost :: "resuming \<Rightarrow> executing \<Rightarrow> outcome \<Rightarrow> outcome" where
  "note_lost rz e oc =
     (case rz_note_lost rz (ex_tenant e) (ex_run_id e) of
        None \<Rightarrow> oc
      | Some class_name \<Rightarrow>
          oc\<lparr>oc_error := Some ((if oc_error oc \<in> {None, Some []} then ''claim lost'' else the (oc_error oc))
              @ ''; not recorded: '' @ class_name)\<rparr>)"

definition raised_text :: "string \<Rightarrow> string \<Rightarrow> string list \<Rightarrow> string" where
  "raised_text class_name message notes = class_name @ '': '' @ message @ concat (map (\<lambda>n. ''; '' @ n) notes)"

text \<open>What the run's end decides; the object is read again, as a heartbeat or a stop may have changed it.\<close>

definition settle_run ::
  "runner_options \<Rightarrow> resuming \<Rightarrow> moment \<Rightarrow> nat \<Rightarrow> run \<Rightarrow> outcome \<Rightarrow> serving \<Rightarrow> outcome \<times> serving" where
  "settle_run ro rz now i r oc0 sv =
     (let e = rn_objects (sv_runner sv) ! i; oc = oc0\<lparr>oc_run := Some r\<rparr>
      in if rz_passed rz (ex_run_id e) sv then (oc\<lparr>oc_disposition := DP_TAKEN_OVER\<rparr>, sv)
         else if ex_lost e then (note_lost rz e (oc\<lparr>oc_disposition := DP_LOST\<rparr>), sv)
         else if run_st r = R_HALTED \<and> run_cause r = Some CAPACITY
           then (oc\<lparr>oc_disposition := DP_DEFERRED\<rparr>, put_off ro e (defer_seconds ro r) now sv)
         else if run_st r = R_HALTED \<and> run_cause r = Some PARKED
           then (oc\<lparr>oc_disposition := DP_DEFERRED\<rparr>, put_off ro e (park_seconds ro r now) now sv)
         else if run_st r = R_HALTED \<and> run_cause r = Some STOP \<and> ex_stop_requested e
           then (oc\<lparr>oc_disposition := DP_RELEASED\<rparr>, release_job ro e sv)
         else (oc\<lparr>oc_disposition := DP_COMPLETED\<rparr>, complete_job ro e sv))"

definition work_off ::
  "runner_options \<Rightarrow> resuming \<Rightarrow> (string \<Rightarrow> string) \<Rightarrow> moment \<Rightarrow> nat \<Rightarrow> serving \<Rightarrow> outcome \<times> serving" where
  "work_off ro rz quote now i sv =
     (let e = rn_objects (sv_runner sv) ! i; oc = new_outcome (ex_tenant e) (ex_job e)
      in if j_kind (ex_job e) \<noteq> RUN_EXECUTE \<or> ex_run_id e = []
         then (oc\<lparr>oc_error := Some (''job '' @ quote (j_id (ex_job e)) @ '' is not a run to execute''),
                  oc_disposition := DP_COMPLETED\<rparr>, complete_job ro e sv)
         else (case rz_resume rz (resume_command ro e) sv of
                 (Lost_Claim text, sv') \<Rightarrow>
                   (note_lost rz e (oc\<lparr>oc_error := Some text, oc_disposition := DP_LOST\<rparr>), on_runner (set_lost i) sv')
               | (Raised class_name message notes, sv') \<Rightarrow>
                   (oc\<lparr>oc_error := Some (raised_text class_name message notes), oc_disposition := DP_RELEASED\<rparr>,
                    release_job ro e sv')
               | (Resumed r, sv') \<Rightarrow> settle_run ro rz now i r oc sv'))"

text \<open>The \<open>finally\<close> of \<open>_execute\<close>: the entry goes unless a later claim of the job is in its place.\<close>

definition keep_latest :: "int \<Rightarrow> 'a list \<Rightarrow> 'a list" where
  "keep_latest n xs = drop (length xs - nat n) xs"

definition free_place :: "runner_options \<Rightarrow> nat \<Rightarrow> outcome \<Rightarrow> runner \<Rightarrow> runner" where
  "free_place ro i oc rn =
     rn\<lparr>rn_executing := (if map_of (rn_executing rn) (j_id (oc_job oc)) = Some i
            then AList.delete (j_id (oc_job oc)) (rn_executing rn) else rn_executing rn),
        rn_outcomes := keep_latest (ro_outcomes_kept ro) (rn_outcomes rn @ [oc]),
        rn_finished := rn_finished rn + 1, rn_woken := True\<rparr>"

definition execute_job ::
  "runner_options \<Rightarrow> resuming \<Rightarrow> (string \<Rightarrow> string) \<Rightarrow> moment \<Rightarrow> nat \<Rightarrow> serving \<Rightarrow> outcome \<times> serving" where
  "execute_job ro rz quote now i sv =
     (case work_off ro rz quote now i sv of (oc, sv') \<Rightarrow> (oc, on_runner (free_place ro i oc) sv'))"

subsection \<open>The heartbeat\<close>

text \<open>One beat: a renewal the store did not answer, one that hands the engine what was asked on the job,
  a claim that passed to a take-over, or a claim that is gone. \<open>reached n\<close> tells whether the store answers
  the beat's \<open>n\<close>-th transaction.\<close>

datatype beat = Missed | Renewed "takeover_asked option" "asked_message list" | Passed_On | Gave_Up string

definition heartbeat ::
  "runner_options \<Rightarrow> resuming \<Rightarrow> (nat \<Rightarrow> bool) \<Rightarrow> moment \<Rightarrow> nat \<Rightarrow> serving \<Rightarrow> beat \<times> serving" where
  "heartbeat ro rz reached now i sv =
     (let e = rn_objects (sv_runner sv) ! i; jid = j_id (ex_job e)
      in if \<not> reached 0 then (Missed, sv)
         else (case extend_claim (sv_queues sv (ex_tenant e)) jid (ro_claimant ro) now of
                 (True, q) \<Rightarrow>
                   (Renewed (if reached 1 then takeover_of q jid else None)
                      (if reached 2 then filter (\<lambda>m. \<not> m_handed m) (messages_asked q jid) else []),
                    on_queue (ex_tenant e) (\<lambda>_. q) sv)
               | (False, q) \<Rightarrow>
                   if rz_passed rz (ex_run_id e) sv then (Passed_On, sv)
                   else (Gave_Up (ex_run_id e), on_runner (\<lambda>rn. rn\<lparr>rn_objects :=
                     (rn_objects rn)[i := e\<lparr>ex_lost := True, ex_stop_requested := True\<rparr>]\<rparr>) sv)))"

end
