(* ===== verification/Run_Runner_Rules.thy ===== *)
theory Run_Runner_Rules
  imports Run_Runner Run_Progress
begin

text \<open>
  What the runner promises. A claim round ends, because every claim uses up one of the attempts the
  served tenants' jobs have left; it never takes more than the free places; and it leaves a place free
  only when no served tenant has a job to hand out. How a run ends decides its job's row.
\<close>

subsection \<open>Attempts left\<close>

definition attempts_left :: "queue \<Rightarrow> nat" where
  "attempts_left q = (\<Sum>(j, r) \<leftarrow> q_jobs q. nat (q_max_attempts q - spent_attempts r))"

lemma sum_over_keys:
  assumes "distinct (map fst al)"
  shows "(\<Sum>(j, r) \<leftarrow> al. f r) = (\<Sum>j \<leftarrow> map fst al. f (the (map_of al j)))"
proof -
  have "map snd al = map (\<lambda>k. the (map_of al k)) (map fst al)" by (rule values_row [OF assms])
  then have "map (\<lambda>r. f r) (map snd al) = map f (map (\<lambda>k. the (map_of al k)) (map fst al))" by (rule arg_cong)
  moreover have "map (\<lambda>(j, r). f r) al = map (\<lambda>r. f r) (map snd al)" by (simp add: case_prod_unfold)
  ultimately show ?thesis by (simp only: map_map comp_def)
qed

lemma attempts_left_rows:
  assumes "wf_queue q"
  shows "attempts_left q = (\<Sum>j \<leftarrow> map fst (q_jobs q). nat (q_max_attempts q - spent_attempts (the (row q j))))"
  unfolding attempts_left_def row_def by (rule sum_over_keys) (use assms in \<open>simp add: wf_queue_def\<close>)

lemma keys_mark: "wf_queue q \<Longrightarrow> map fst (q_jobs (mark_row limits held now r q)) = map fst (q_jobs q)"
  by (auto simp: mark_row_def keys_set_row simp del: set_row_sel(5) split: option.split)

lemma keys_fold_mark: "wf_queue q \<Longrightarrow> map fst (q_jobs (fold (mark_row limits held now) rs q)) = map fst (q_jobs q)"
  by (induction rs arbitrary: q) (simp_all add: keys_mark wf_mark)

lemma keys_fold_take:
  "\<forall>r \<in> set rs. row q (q_id r) \<noteq> None \<Longrightarrow> map fst (q_jobs (fold (take_row claimant now) rs q)) = map fst (q_jobs q)"
proof (induction rs arbitrary: q)
  case (Cons r rs)
  have "\<forall>s \<in> set rs. row (take_row claimant now r q) (q_id s) \<noteq> None"
    using Cons.prems by (simp add: take_row_def)
  from Cons.IH [OF this] Cons.prems show ?case
    by (simp add: take_row_def keys_set_row del: set_row_sel(5))
qed simp

lemma claim_keys:
  assumes "wf_queue q"
  shows "map fst (q_jobs (snd (claim_jobs q claimant batch limits now))) = map fst (q_jobs q)"
proof -
  have there: "\<forall>r \<in> set (chosen q now batch limits). row q (q_id r) \<noteq> None"
    using chosen_mem(1) [OF assms] by simp
  from keys_fold_mark [OF wf_take [OF assms this]] keys_fold_take [OF there] show ?thesis
    by (simp add: claim_jobs_def Let_def)
qed

lemma claim_row_spent:
  assumes "wf_queue q" "j \<in> fst ` set (q_jobs q)"
  shows "nat (q_max_attempts q - spent_attempts (the (row (snd (claim_jobs q claimant batch limits now)) j)))
         + (if j \<in> q_id ` set (chosen q now batch limits) then 1 else 0)
         \<le> nat (q_max_attempts q - spent_attempts (the (row q j)))"
proof (cases "List.find (\<lambda>r. q_id r = j) (chosen q now batch limits)")
  case None
  then have "j \<notin> q_id ` set (chosen q now batch limits)" by (auto simp: find_None_iff)
  moreover obtain r where r: "row q j = Some r" using assms(2) by (auto simp: row_def dest: weak_map_of_SomeI)
  moreover obtain r' where "row (snd (claim_jobs q claimant batch limits now)) j = Some r'" "same_but_mark r r'"
    using claim_jobs_row [OF assms(1), of j claimant batch limits now] None r by (auto simp: option_rel_Some1)
  ultimately show ?thesis using same_but_markD(1,3) [of r r'] by (simp add: spent_attempts_def)
next
  case (Some r)
  have "due q r now" using chosen_mem(2) [OF assms(1)] find_SomeD [OF Some] by blast
  then have below: "spent_attempts r < q_max_attempts q" by (simp add: due_def spent_attempts_def)
  from claim_jobs_row [OF assms(1), of j claimant batch limits now] Some
  obtain r' where rows: "row q j = Some r" "row (snd (claim_jobs q claimant batch limits now)) j = Some r'"
    and same: "same_but_mark (claimed_row r claimant now) r'" by auto
  from same_but_markD(1,3) [OF same] have "spent_attempts r' = spent_attempts r + 1"
    by (simp add: spent_attempts_def claimed_row_def)
  with rows below show ?thesis by auto
qed

lemma sum_list_decreases:
  fixes f g :: "'a \<Rightarrow> nat"
  assumes "distinct xs" "A \<subseteq> set xs" "\<forall>x \<in> set xs. f x + (if x \<in> A then 1 else 0) \<le> g x"
  shows "sum_list (map f xs) + card A \<le> sum_list (map g xs)"
proof -
  have "sum_list (map f xs) + card A = (\<Sum>x \<in> set xs. f x) + (\<Sum>x \<in> set xs. if x \<in> A then 1 else 0)"
    using assms(1,2) by (simp add: sum_list_distinct_conv_sum_set sum.If_cases Int_absorb1)
  also have "\<dots> = (\<Sum>x \<in> set xs. f x + (if x \<in> A then 1 else 0))" by (simp add: sum.distrib)
  also have "\<dots> \<le> (\<Sum>x \<in> set xs. g x)" by (rule sum_mono) (use assms(3) in blast)
  finally show ?thesis using assms(1) by (simp add: sum_list_distinct_conv_sum_set)
qed

text \<open>Every job a claim hands out uses up an attempt.\<close>

lemma claim_uses_attempts:
  assumes "wf_queue q"
  shows "attempts_left (snd (claim_jobs q claimant batch limits now))
         + length (fst (claim_jobs q claimant batch limits now)) \<le> attempts_left q"
proof -
  let ?q = "snd (claim_jobs q claimant batch limits now)"
  let ?ids = "q_id ` set (chosen q now batch limits)"
  have keys: "map fst (q_jobs ?q) = map fst (q_jobs q)" by (rule claim_keys [OF assms])
  have most: "q_max_attempts ?q = q_max_attempts q" by simp
  have count: "length (fst (claim_jobs q claimant batch limits now)) = card ?ids"
    using distinct_card [OF chosen_distinct [OF assms, of now batch limits]] by (simp add: claim_jobs_def Let_def)
  have dist: "distinct (map fst (q_jobs q))" using assms by (simp add: wf_queue_def)
  have sub: "?ids \<subseteq> set (map fst (q_jobs q))"
    using chosen_mem(1) [OF assms] by (force simp: row_def dest: map_of_SomeD)
  show ?thesis
    unfolding count attempts_left_rows [OF assms] attempts_left_rows [OF wf_claim_jobs [OF assms]] keys most
    by (rule sum_list_decreases [OF dist sub]) (use claim_row_spent [OF assms] in auto)
qed

lemma claims_at_most: "length (fst (claim_jobs q claimant batch limits now)) \<le> batch"
  by (simp add: claim_jobs_def Let_def chosen_def)

subsection \<open>A turn and a round\<close>

text \<open>What goes on beside the round adds no work, or takes no place of this runner.\<close>

definition adds_no_work :: "surroundings \<Rightarrow> bool" where
  "adds_no_work su \<longleftrightarrow>
     (\<forall>k sv t. wf_queue (sv_queues sv t) \<longrightarrow> wf_queue (sv_queues (su_between su k sv) t)
        \<and> attempts_left (sv_queues (su_between su k sv) t) \<le> attempts_left (sv_queues sv t))"

definition takes_no_place :: "surroundings \<Rightarrow> bool" where
  "takes_no_place su \<longleftrightarrow> (\<forall>k sv. busy (su_between su k sv) \<le> busy sv)"

definition wf_queues :: "serving \<Rightarrow> bool" where
  "wf_queues sv \<longleftrightarrow> (\<forall>t. wf_queue (sv_queues sv t))"

definition work_left :: "string list \<Rightarrow> serving \<Rightarrow> nat" where
  "work_left served sv = (\<Sum>t \<in> set served. attempts_left (sv_queues sv t))"

lemma on_sel [simp]:
  "sv_queues (on_runner f sv) = sv_queues sv" "sv_runner (on_runner f sv) = f (sv_runner sv)"
  "sv_runner (on_queue t g sv) = sv_runner sv" "sv_queues (on_queue t g sv) = (sv_queues sv)(t := g (sv_queues sv t))"
  by (simp_all add: on_runner_def on_queue_def)

lemma busy_on_queue [simp]: "busy (on_queue t g sv) = busy sv"
  by (simp add: busy_def)

lemma work_left_runner [simp]: "work_left served (on_runner f sv) = work_left served sv"
  "wf_queues (on_runner f sv) = wf_queues sv"
  by (simp_all add: work_left_def wf_queues_def)

lemma work_left_between:
  assumes "adds_no_work su" "wf_queues sv"
  shows "work_left served (su_between su k sv) \<le> work_left served sv" "wf_queues (su_between su k sv)"
  using assms by (auto simp: work_left_def wf_queues_def adds_no_work_def intro: sum_mono)

lemma work_left_queue:
  assumes "t \<in> set served" "attempts_left q + n \<le> attempts_left (sv_queues sv t)"
  shows "work_left served (on_queue t (\<lambda>_. q) sv) + n \<le> work_left served sv"
proof -
  have "(\<Sum>x \<in> set served - {t}. attempts_left (sv_queues (on_queue t (\<lambda>_. q) sv) x))
      = (\<Sum>x \<in> set served - {t}. attempts_left (sv_queues sv x))" by (rule sum.cong) auto
  with assms show ?thesis
    unfolding work_left_def by (simp add: sum.remove [of "set served" t])
qed

lemma claim_turn_uses:
  assumes "adds_no_work su" "wf_queues sv" "t \<in> set served" "claim_turn ro su t k sv = (jobs, sv')"
  shows "work_left served sv' + length jobs \<le> work_left served sv" "wf_queues sv'"
proof -
  let ?sv1 = "su_between su (2 * k) sv"
  let ?c = "claim_jobs (sv_queues ?sv1 t) (ro_claimant ro) 1 (unit_limits ro t) (su_clock su k)"
  let ?sv2 = "on_queue t (\<lambda>_. snd ?c) ?sv1"
  have wf1: "wf_queues ?sv1" by (rule work_left_between(2) [OF assms(1,2)])
  then have wf: "wf_queue (sv_queues ?sv1 t)" by (simp add: wf_queues_def)
  then have wf2: "wf_queues ?sv2" using wf1 by (simp add: wf_queues_def wf_claim_jobs)
  have jobs: "jobs = fst ?c"
    and sv': "sv' = on_runner (fold (start_task (su_repr su) t) jobs) (su_between su (2 * k + 1) ?sv2)"
    using assms(4) by (auto simp: claim_turn_def Let_def case_prod_unfold)
  have "work_left served ?sv2 + length jobs \<le> work_left served ?sv1"
    unfolding jobs by (rule work_left_queue [OF assms(3) claim_uses_attempts [OF wf]])
  moreover have "work_left served ?sv1 \<le> work_left served sv" by (rule work_left_between(1) [OF assms(1,2)])
  moreover have "work_left served (su_between su (2 * k + 1) ?sv2) \<le> work_left served ?sv2"
    by (rule work_left_between(1) [OF assms(1) wf2])
  ultimately show "work_left served sv' + length jobs \<le> work_left served sv" unfolding sv' by simp
  show "wf_queues sv'" unfolding sv' using work_left_between(2) [OF assms(1) wf2] by (simp only: work_left_runner(2))
qed

definition pass_uses :: "string list \<Rightarrow> string list \<Rightarrow> string list \<Rightarrow> nat \<Rightarrow> serving \<Rightarrow> round_so_far \<Rightarrow> bool" where
  "pass_uses served ts still c sv rd \<longleftrightarrow>
     work_left served (rd_serving rd) + rd_claimed rd \<le> work_left served sv + c
   \<and> wf_queues (rd_serving rd)
   \<and> length (rd_still rd) + c \<le> length still + rd_claimed rd
   \<and> set (rd_still rd) \<subseteq> set still \<union> set ts"

lemma claim_pass_uses:
  assumes "adds_no_work su" "wf_queues sv" "set ts \<subseteq> set served"
  shows "pass_uses served ts still c sv (claim_pass ro su ts still c k sv)"
  using assms(2,3)
proof (induction ts arbitrary: still c k sv)
  case Nil
  then show ?case by (simp add: pass_uses_def)
next
  case (Cons t ts)
  show ?case
  proof (cases "may_claim ro sv")
    case False
    with Cons.prems show ?thesis by (auto simp: pass_uses_def)
  next
    case True
    obtain jobs sv' where turn: "claim_turn ro su t k sv = (jobs, sv')" by force
    let ?still = "if jobs = [] then still else still @ [t]"
    have t: "t \<in> set served" using Cons.prems(2) by simp
    note uses = claim_turn_uses [OF assms(1) Cons.prems(1) t turn]
    have "pass_uses served ts ?still (c + length jobs) sv' (claim_pass ro su ts ?still (c + length jobs) (Suc k) sv')"
      by (rule Cons.IH [OF uses(2)]) (use Cons.prems(2) in simp)
    moreover have "length ?still \<le> length still + length jobs" by (cases jobs) auto
    moreover have "set ?still \<subseteq> insert t (set still)" by auto
    ultimately have "pass_uses served (t # ts) still c sv (claim_pass ro su ts ?still (c + length jobs) (Suc k) sv')"
      using uses(1) unfolding pass_uses_def by fastforce
    with True turn show ?thesis by simp
  qed
qed

lemma claim_loop_ends:
  assumes "adds_no_work su"
  shows "wf_queues sv \<Longrightarrow> set waiting \<subseteq> set served \<Longrightarrow>
     \<exists>c' sv'. claim_loop ro su waiting c k sv = Some (c', sv')
       \<and> work_left served sv' + c' \<le> work_left served sv + c \<and> wf_queues sv'"
proof (induction "2 * work_left served sv + (if waiting = [] then 0 else 1)" arbitrary: waiting c k sv rule: less_induct)
  case less
  show ?case
  proof (cases "waiting = [] \<or> rn_stopping (sv_runner sv)")
    case True
    with less.prems show ?thesis by (subst claim_loop.simps) simp
  next
    case False
    let ?rd = "claim_pass ro su waiting [] c k sv"
    have uses: "pass_uses served waiting [] c sv ?rd"
      by (rule claim_pass_uses [OF assms less.prems])
    have step: "claim_loop ro su waiting c k sv =
        (if rd_returns ?rd then Some (rd_claimed ?rd, rd_serving ?rd)
         else claim_loop ro su (rd_still ?rd) (rd_claimed ?rd) (rd_turns ?rd) (rd_serving ?rd))"
      using False by (subst claim_loop.simps) (simp add: Let_def)
    show ?thesis
    proof (cases "rd_returns ?rd")
      case True
      with uses step show ?thesis by (simp add: pass_uses_def)
    next
      case goes_on: False
      have left: "work_left served (rd_serving ?rd) + length (rd_still ?rd) \<le> work_left served sv"
        using uses by (simp add: pass_uses_def)
      then have smaller: "2 * work_left served (rd_serving ?rd) + (if rd_still ?rd = [] then 0 else 1)
          < 2 * work_left served sv + (if waiting = [] then 0 else 1)"
        using False by (cases "rd_still ?rd") auto
      have "wf_queues (rd_serving ?rd)" "set (rd_still ?rd) \<subseteq> set served"
        using uses less.prems(2) by (auto simp: pass_uses_def)
      from less.hyps [OF smaller this, of "rd_claimed ?rd" "rd_turns ?rd"] uses show ?thesis
        unfolding step if_not_P [OF goes_on] pass_uses_def by fastforce
    qed
  qed
qed

lemma set_round_order: "set (round_order turn served) = set served"
  unfolding round_order_def Let_def by (metis append_take_drop_id set_append Un_commute)

subsection \<open>Places\<close>

lemma busy_start: "busy (on_runner (fold (start_task repr t) jobs) sv) \<le> busy sv + length jobs"
proof (induction jobs arbitrary: sv)
  case (Cons j jobs)
  have grow: "length (AList.update k v al) \<le> Suc (length al)" for k :: string and v :: nat and al
    by (induction al) auto
  have "busy (on_runner (start_task repr t j) sv) \<le> Suc (busy sv)"
    by (simp add: busy_def start_task_def grow)
  with Cons [of "on_runner (start_task repr t j) sv"] show ?case by (simp add: on_runner_def)
qed (simp add: busy_def)

lemma claim_turn_busy:
  assumes "takes_no_place su" "claim_turn ro su t k sv = (jobs, sv')"
  shows "busy sv' \<le> busy sv + 1"
proof -
  let ?sv1 = "su_between su (2 * k) sv"
  let ?c = "claim_jobs (sv_queues ?sv1 t) (ro_claimant ro) 1 (unit_limits ro t) (su_clock su k)"
  let ?sv2 = "su_between su (2 * k + 1) (on_queue t (\<lambda>_. snd ?c) ?sv1)"
  have jobs: "jobs = fst ?c" and sv': "sv' = on_runner (fold (start_task (su_repr su) t) jobs) ?sv2"
    using assms(2) by (auto simp: claim_turn_def Let_def case_prod_unfold)
  have "busy ?sv2 \<le> busy ?sv1" "busy ?sv1 \<le> busy sv"
    using assms(1) unfolding takes_no_place_def by (metis busy_on_queue)+
  moreover have "length jobs \<le> 1" unfolding jobs by (rule claims_at_most)
  ultimately show ?thesis
    unfolding sv' using busy_start [of "su_repr su" t jobs ?sv2] by linarith
qed

lemma claim_pass_busy:
  assumes "takes_no_place su"
  shows "int (busy sv) \<le> ro_concurrency ro \<Longrightarrow>
     int (busy (rd_serving (claim_pass ro su ts still c k sv))) \<le> ro_concurrency ro"
proof (induction ts arbitrary: still c k sv)
  case (Cons t ts)
  obtain jobs sv' where turn: "claim_turn ro su t k sv = (jobs, sv')" by force
  have "may_claim ro sv \<Longrightarrow> int (busy sv') \<le> ro_concurrency ro"
    using claim_turn_busy [OF assms turn] by (simp add: may_claim_def)
  with Cons turn show ?case by simp
qed simp

lemma claim_loop_busy:
  assumes "takes_no_place su" "claim_loop ro su waiting c k sv = Some y" "int (busy sv) \<le> ro_concurrency ro"
  shows "int (busy (snd y)) \<le> ro_concurrency ro"
  using assms(2,1,3)
proof (induction rule: claim_loop.raw_induct [rotated, consumes 1])
  case (1 loop ro su waiting c k sv y)
  let ?rd = "claim_pass ro su waiting [] c k sv"
  have "int (busy (rd_serving ?rd)) \<le> ro_concurrency ro" by (rule claim_pass_busy [OF 1(3,4)])
  with 1 show ?case by (auto simp: Let_def split: if_splits)
qed

subsection \<open>What is left to claim\<close>

lemma place_rows_empty:
  "place_rows limits count rs = [] \<longleftrightarrow>
     (\<forall>r \<in> set rs. \<exists>l. unit_limit limits (q_org_unit r) = Some l \<and> count (q_org_unit r) + 1 > l)"
proof (induction rs arbitrary: count)
  case (Cons r rs)
  let ?count = "count(q_org_unit r := count (q_org_unit r) + 1)"
  show ?case
  proof (cases "\<exists>l. unit_limit limits (q_org_unit r) = Some l \<and> count (q_org_unit r) + 1 > l")
    case True
    then obtain l where l: "unit_limit limits (q_org_unit r) = Some l" "count (q_org_unit r) + 1 > l" by blast
    then have same: "(\<exists>m. unit_limit limits (q_org_unit s) = Some m \<and> ?count (q_org_unit s) + 1 > m)
        \<longleftrightarrow> (\<exists>m. unit_limit limits (q_org_unit s) = Some m \<and> count (q_org_unit s) + 1 > m)" for s
      by (cases "q_org_unit s = q_org_unit r") auto
    have rest: "place_rows limits count (r # rs) = place_rows limits ?count rs"
      using l by (simp add: Let_def)
    have "\<exists>m. unit_limit limits (q_org_unit r) = Some m \<and> count (q_org_unit r) + 1 > m" using l by blast
    then show ?thesis unfolding rest Cons [of ?count] same by (simp only: list.set ball_simps simp_thms)
  next
    case False
    then show ?thesis by (auto simp: Let_def not_less split: option.split)
  qed
qed simp

lemma sort_empty: "sort_key f xs = [] \<longleftrightarrow> xs = []"
  by (simp only: length_0_conv [symmetric] length_sort)

lemma hands_out_none: "fst (claim_jobs q claimant 1 limits now) = [] \<longleftrightarrow> chosen q now 1 limits = []"
  by (simp add: claim_jobs_def Let_def sort_empty)

lemma hands_out_nothing:
  "fst (claim_jobs q claimant 1 limits now) = [] \<longleftrightarrow>
     (\<forall>r \<in> set (map snd (q_jobs q)). due q r now \<longrightarrow>
        (\<exists>l. unit_limit limits (q_org_unit r) = Some l \<and> held_by_unit q now (q_org_unit r) + 1 > l))"
proof -
  have "fst (claim_jobs q claimant 1 limits now) = [] \<longleftrightarrow> placed q now limits = []"
    unfolding hands_out_none by (simp add: chosen_def)
  also have "\<dots> \<longleftrightarrow> place_rows limits (held_by_unit q now) (due_rows q now) = []"
    unfolding placed_def by (rule sort_empty)
  finally show ?thesis unfolding place_rows_empty Ball_def sort_filter_mem by blast
qed

lemma claim_fenced [simp]: "q_fenced (snd (claim_jobs q claimant batch limits now)) = q_fenced q"
proof -
  have "q_fenced (fold (take_row claimant now) rs q') = q_fenced q'" for rs q'
    by (induction rs arbitrary: q') (simp_all add: take_row_def)
  moreover have "q_fenced (fold (mark_row limits held now) rs q') = q_fenced q'" for held rs q'
    by (induction rs arbitrary: q') (simp_all add: mark_row_def split: option.split)
  ultimately show ?thesis by (simp add: claim_jobs_def Let_def)
qed

lemma due_but_mark:
  assumes "same_but_mark r r'" "q_fenced q' = q_fenced q" "q_lease q' = q_lease q" "q_max_attempts q' = q_max_attempts q"
  shows "due q' r' now \<longleftrightarrow> due q r now" "live q' r' now \<longleftrightarrow> live q r now"
proof -
  have "q_available_at r' = q_available_at r"
    using arg_cong [OF assms(1) [unfolded same_but_mark_def], of q_available_at] by simp
  then show "due q' r' now \<longleftrightarrow> due q r now" "live q' r' now \<longleftrightarrow> live q r now"
    unfolding due_def live_def same_but_markD [OF assms(1)] assms(2-4) by simp_all
qed

text \<open>A tenant that had nothing to hand out has nothing a moment later at the same reading.\<close>

lemma still_nothing:
  assumes "wf_queue q" "fst (claim_jobs q claimant 1 limits now) = []"
  shows "fst (claim_jobs (snd (claim_jobs q claimant 1 limits now)) claimant 1 limits now) = []"
proof -
  let ?q = "snd (claim_jobs q claimant 1 limits now)"
  have none: "chosen q now 1 limits = []" using assms(2) unfolding hands_out_none .
  have rows: "rel_option same_but_mark (row q j) (row ?q j)" for j
    using claim_jobs_row [OF assms(1), of j claimant 1 limits now] none by simp
  have "held_ids ?q now u = held_ids q now u" for u
  proof -
    have "(\<exists>r. row ?q j = Some r \<and> live ?q r now \<and> q_org_unit r = u)
        \<longleftrightarrow> (\<exists>r. row q j = Some r \<and> live q r now \<and> q_org_unit r = u)" for j
      using rows [of j] due_but_mark(2) [of _ _ ?q q now] same_but_markD(5)
      by (cases "row q j") (auto simp: option_rel_Some1)
    then show ?thesis by (simp add: held_ids_def)
  qed
  then have held: "held_by_unit ?q now u = held_by_unit q now u" for u
    by (simp add: held_card(1) [OF assms(1)] held_card(1) [OF wf_claim_jobs [OF assms(1)]])
  show ?thesis
    unfolding hands_out_nothing
  proof (intro ballI impI)
    fix r' assume r': "r' \<in> set (map snd (q_jobs ?q))" "due ?q r' now"
    have "row ?q (q_id r') = Some r'" by (rule row_mem [OF wf_claim_jobs [OF assms(1)] r'(1)])
    then obtain r where r: "row q (q_id r') = Some r" "same_but_mark r r'"
      using rows [of "q_id r'"] by (auto simp: option_rel_Some2)
    have "r \<in> set (map snd (q_jobs q))" using r(1) by (force simp: row_def dest: map_of_SomeD)
    moreover have "due q r now" using due_but_mark(1) [OF r(2), of ?q q now] r'(2) by simp
    ultimately show "\<exists>l. unit_limit limits (q_org_unit r') = Some l \<and> held_by_unit ?q now (q_org_unit r') + 1 > l"
      using assms(2) same_but_markD(5) [OF r(2)] unfolding hands_out_nothing held by force
  qed
qed

subsection \<open>Alone at one reading of the clock\<close>

definition alone :: "surroundings \<Rightarrow> moment \<Rightarrow> bool" where
  "alone su now \<longleftrightarrow> (\<forall>k sv. su_between su k sv = sv) \<and> (\<forall>k. su_clock su k = now)"

lemma alone_adds_no_work: "alone su now \<Longrightarrow> adds_no_work su"
  by (simp add: alone_def adds_no_work_def)

definition nothing_for :: "runner_options \<Rightarrow> moment \<Rightarrow> serving \<Rightarrow> string \<Rightarrow> bool" where
  "nothing_for ro now sv t \<longleftrightarrow> fst (claim_jobs (sv_queues sv t) (ro_claimant ro) 1 (unit_limits ro t) now) = []"

lemma claim_turn_alone:
  assumes "alone su now" "wf_queues sv" "claim_turn ro su t k sv = (jobs, sv')"
  shows "jobs = [] \<longleftrightarrow> nothing_for ro now sv t"
    "nothing_for ro now sv u \<Longrightarrow> nothing_for ro now sv' u"
    "jobs = [] \<Longrightarrow> nothing_for ro now sv' t" "wf_queues sv'"
proof -
  let ?c = "claim_jobs (sv_queues sv t) (ro_claimant ro) 1 (unit_limits ro t) now"
  have jobs: "jobs = fst ?c" and queues: "sv_queues sv' = (sv_queues sv)(t := snd ?c)"
    using assms(1,3) by (auto simp: claim_turn_def Let_def case_prod_unfold alone_def)
  show fst: "jobs = [] \<longleftrightarrow> nothing_for ro now sv t" by (simp add: jobs nothing_for_def)
  have wf: "wf_queue (sv_queues sv t)" using assms(2) by (simp add: wf_queues_def)
  have same: "nothing_for ro now sv' t" if "nothing_for ro now sv t"
    using still_nothing [OF wf that [unfolded nothing_for_def]] by (simp add: nothing_for_def queues)
  then show "jobs = [] \<Longrightarrow> nothing_for ro now sv' t" using fst by blast
  show "nothing_for ro now sv u \<Longrightarrow> nothing_for ro now sv' u"
    using same by (cases "u = t") (simp_all add: nothing_for_def queues)
  show "wf_queues sv'"
    using assms(2) by (simp add: wf_queues_def queues wf_claim_jobs)
qed

text \<open>After a pass every tenant of \<open>D\<close> has nothing to hand out, or waits for its next turn.\<close>

definition pass_leaves :: "runner_options \<Rightarrow> moment \<Rightarrow> string set \<Rightarrow> round_so_far \<Rightarrow> bool" where
  "pass_leaves ro now D rd \<longleftrightarrow>
     wf_queues (rd_serving rd)
   \<and> (if rd_returns rd then \<not> may_claim ro (rd_serving rd)
      else \<forall>t \<in> D. nothing_for ro now (rd_serving rd) t \<or> t \<in> set (rd_still rd))"

lemma claim_pass_leaves:
  assumes "alone su now"
  shows "wf_queues sv \<Longrightarrow> \<forall>t \<in> D. nothing_for ro now sv t \<or> t \<in> set still \<Longrightarrow>
     pass_leaves ro now (D \<union> set ts) (claim_pass ro su ts still c k sv)"
proof (induction ts arbitrary: D still c k sv)
  case Nil
  then show ?case by (simp add: pass_leaves_def)
next
  case (Cons t ts)
  show ?case
  proof (cases "may_claim ro sv")
    case False
    with Cons.prems show ?thesis by (simp add: pass_leaves_def)
  next
    case True
    obtain jobs sv' where turn: "claim_turn ro su t k sv = (jobs, sv')" by force
    note alone = claim_turn_alone [OF assms Cons.prems(1) turn]
    let ?still = "if jobs = [] then still else still @ [t]"
    have "\<forall>u \<in> insert t D. nothing_for ro now sv' u \<or> u \<in> set ?still"
      using alone(2,3) Cons.prems(2) by auto
    from Cons.IH [OF alone(4) this] True turn show ?thesis by (simp add: Un_commute)
  qed
qed

lemma claim_loop_leaves:
  assumes "claim_loop ro su waiting c k sv = Some y" "alone su now" "wf_queues sv"
    "\<forall>t \<in> D. nothing_for ro now sv t \<or> t \<in> set waiting"
  shows "may_claim ro (snd y) \<longrightarrow> (\<forall>t \<in> D. nothing_for ro now (snd y) t)"
  using assms
proof (induction rule: claim_loop.raw_induct [rotated, consumes 1])
  case (1 loop ro su waiting c k sv y)
  show ?case
  proof (cases "waiting = [] \<or> rn_stopping (sv_runner sv)")
    case True
    with 1 show ?thesis by (auto simp: may_claim_def)
  next
    case False
    let ?rd = "claim_pass ro su waiting [] c k sv"
    have "\<forall>t \<in> D - set waiting. nothing_for ro now sv t \<or> t \<in> set []" using 1(5) by auto
    from claim_pass_leaves [OF 1(3,4) this]
    have left: "pass_leaves ro now (D - set waiting \<union> set waiting) ?rd" .
    show ?thesis
    proof (cases "rd_returns ?rd")
      case True
      with left 1(2) False show ?thesis by (auto simp: Let_def pass_leaves_def)
    next
      case goes_on: False
      then have "loop ro su (rd_still ?rd) (rd_claimed ?rd) (rd_turns ?rd) (rd_serving ?rd) = Some y"
        using 1(2) False by (simp add: Let_def)
      moreover have "\<forall>t \<in> D. nothing_for ro now (rd_serving ?rd) t \<or> t \<in> set (rd_still ?rd)"
        using left goes_on by (auto simp: pass_leaves_def)
      ultimately show ?thesis using 1(1) 1(3) left unfolding pass_leaves_def by blast
    qed
  qed
qed

subsection \<open>The round\<close>

lemma claim_round_returns:
  assumes "adds_no_work su" "wf_queues sv"
  shows "\<exists>c sv'. claim_round ro su served sv = Some (c, sv') \<and> work_left served sv' + c \<le> work_left served sv"
proof (cases "served = []")
  case True
  then show ?thesis by (simp add: claim_round_def)
next
  case False
  let ?sv = "on_runner (\<lambda>rn. rn\<lparr>rn_turn := rn_turn rn mod length served + 1\<rparr>) sv"
  have "wf_queues ?sv" using assms(2) by simp
  from claim_loop_ends [OF assms(1) this, of "round_order (rn_turn (sv_runner sv)) served" served ro 0 0]
  obtain c sv' where "claim_loop ro su (round_order (rn_turn (sv_runner sv)) served) 0 0 ?sv = Some (c, sv')"
    "work_left served sv' + c \<le> work_left served sv" by (auto simp: set_round_order)
  with False show ?thesis by (auto simp: claim_round_def)
qed

text \<open>C11: A claim round ends while nobody adds work meanwhile, and hands out no more jobs than the served
  tenants' jobs have attempts left.\<close>

theorem claim_round_ends:
  assumes "adds_no_work su" "wf_queues sv"
  shows "\<exists>c sv'. claim_round ro su served sv = Some (c, sv') \<and> c \<le> work_left served sv"
  using claim_round_returns [OF assms, of ro served] by fastforce

text \<open>C13: A round never takes more than the places the runner has, whatever ends or is claimed meanwhile.\<close>

theorem round_keeps_places:
  assumes "takes_no_place su" "int (busy sv) \<le> ro_concurrency ro" "claim_round ro su served sv = Some (c, sv')"
  shows "int (busy sv') \<le> ro_concurrency ro"
proof -
  let ?sv = "on_runner (\<lambda>rn. rn\<lparr>rn_turn := rn_turn rn mod length served + 1\<rparr>) sv"
  have "int (busy ?sv) \<le> ro_concurrency ro" using assms(2) by (simp add: busy_def)
  with claim_loop_busy [OF assms(1), of ro "round_order (rn_turn (sv_runner sv)) served" 0 0 ?sv "(c, sv')"] assms(2,3)
  show ?thesis by (auto simp: claim_round_def split: if_splits)
qed


subsection \<open>The end of a run decides its job\<close>

lemma row_on_queue: "row (sv_queues (on_queue t g sv) t) j = row (g (sv_queues sv t)) j"
  by simp

lemma row_complete: "row (Job_Queue.complete q jid claimant) j =
    (if j = jid \<and> map_option q_claimed_by (row q jid) = Some (Some claimant) then None else row q j)"
  by (auto simp: Job_Queue.complete_def row_def delete_conv' split: option.split)

text \<open>What a disposition leaves of the job's row \<open>r\<close>, which its runner held.\<close>

fun row_after :: "runner_options \<Rightarrow> run \<Rightarrow> moment \<Rightarrow> disposition \<Rightarrow> job_row \<Rightarrow> job_row option \<Rightarrow> bool" where
  "row_after ro run now DP_COMPLETED r r' \<longleftrightarrow> r' = None"
| "row_after ro run now DP_RELEASED r r' \<longleftrightarrow>
     (\<exists>x. r' = Some x \<and> q_claimed_by x = None \<and> spent_attempts x = spent_attempts r
        \<and> q_available_at x = q_available_at r)"
| "row_after ro run now DP_DEFERRED r r' \<longleftrightarrow>
     (\<exists>x. r' = Some x \<and> q_claimed_by x = None \<and> spent_attempts x = spent_attempts r - 1
        \<and> q_available_at x = Some (now + half_even ((if run_cause run = Some CAPACITY then defer_seconds ro run
             else park_seconds ro run now) * 1000000)))"
| "row_after ro run now DP_LOST r r' \<longleftrightarrow> r' = Some r"
| "row_after ro run now DP_TAKEN_OVER r r' \<longleftrightarrow> r' = Some r"
| "row_after ro run now DP_UNKNOWN r r' \<longleftrightarrow> False"

definition end_of_run :: "resuming \<Rightarrow> executing \<Rightarrow> run \<Rightarrow> serving \<Rightarrow> disposition" where
  "end_of_run rz e r sv =
     (if rz_passed rz (ex_run_id e) sv then DP_TAKEN_OVER
      else if ex_lost e then DP_LOST
      else if run_st r = R_HALTED \<and> run_cause r \<in> {Some CAPACITY, Some PARKED} then DP_DEFERRED
      else if run_st r = R_HALTED \<and> run_cause r = Some STOP \<and> ex_stop_requested e then DP_RELEASED
      else DP_COMPLETED)"

lemma note_lost_sel [simp]:
  "oc_disposition (note_lost rz e oc) = oc_disposition oc" "oc_job (note_lost rz e oc) = oc_job oc"
  "oc_run (note_lost rz e oc) = oc_run oc" "oc_tenant (note_lost rz e oc) = oc_tenant oc"
  by (simp_all add: note_lost_def split: option.split)

lemma settle_disposition:
  "oc_disposition (fst (settle_run ro rz now i r oc sv)) = end_of_run rz (rn_objects (sv_runner sv) ! i) r sv"
  "oc_job (fst (settle_run ro rz now i r oc sv)) = oc_job oc"
  "oc_run (fst (settle_run ro rz now i r oc sv)) = Some r"
  by (auto simp: settle_run_def end_of_run_def Let_def)

lemma settle_row:
  assumes "rn_objects (sv_runner sv) ! i = e" "row (sv_queues sv (ex_tenant e)) (j_id (ex_job e)) = Some x"
    "q_claimed_by x = Some (ro_claimant ro)"
  shows "row_after ro r now (end_of_run rz e r sv) x
     (row (sv_queues (snd (settle_run ro rz now i r oc sv)) (ex_tenant e)) (j_id (ex_job e)))"
proof -
  consider "rz_passed rz (ex_run_id e) sv" | "\<not> rz_passed rz (ex_run_id e) sv" "ex_lost e"
    | "\<not> rz_passed rz (ex_run_id e) sv" "\<not> ex_lost e" by blast
  then show ?thesis
  proof cases
    case 3
    then show ?thesis
      using assms
      by (auto simp: settle_run_def end_of_run_def Let_def put_off_def release_job_def complete_job_def
          defer_job_def release_def if_claimed_row row_complete spent_attempts_def)
  qed (use assms in \<open>simp_all add: settle_run_def end_of_run_def Let_def\<close>)
qed

text \<open>C10: How a run ended decides its job and nothing else does: a job is never left undecided. A run that
  stopped at capacity or at a wait has its job put off for exactly its delay, and the claim it used is
  given back; a stop of the runner releases it; a claim that was lost or passed on leaves the row alone;
  every other end removes the job. The task's place is free afterwards.\<close>

theorem end_decides_the_job:
  assumes "rn_objects (sv_runner sv) ! i = e" "j_kind (ex_job e) = RUN_EXECUTE" "ex_run_id e \<noteq> []"
    "rz_resume rz (resume_command ro e) sv = (Resumed r, sv1)" "rn_objects (sv_runner sv1) ! i = e1"
    "ex_tenant e1 = ex_tenant e" "ex_job e1 = ex_job e"
    "row (sv_queues sv1 (ex_tenant e)) (j_id (ex_job e)) = Some x" "q_claimed_by x = Some (ro_claimant ro)"
    "map_of (rn_executing (sv_runner sv1)) (j_id (ex_job e)) = Some i"
    "execute_job ro rz quote now i sv = (oc, sv')"
  shows "oc_disposition oc = end_of_run rz e1 r sv1
    \<and> row_after ro r now (oc_disposition oc) x (row (sv_queues sv' (ex_tenant e)) (j_id (ex_job e)))
    \<and> map_of (rn_executing (sv_runner sv')) (j_id (ex_job e)) = None"
proof -
  let ?oc = "new_outcome (ex_tenant e) (ex_job e)"
  have work: "work_off ro rz quote now i sv = settle_run ro rz now i r ?oc sv1"
    using assms(1-4) by (simp add: work_off_def Let_def)
  have oc: "oc = fst (settle_run ro rz now i r ?oc sv1)"
    and sv': "sv' = on_runner (free_place ro i oc) (snd (settle_run ro rz now i r ?oc sv1))"
    using assms(11) by (auto simp: execute_job_def work case_prod_unfold)
  have disposition: "oc_disposition oc = end_of_run rz e1 r sv1"
    unfolding oc settle_disposition assms(5) by (rule refl)
  have "oc_job oc = ex_job e" unfolding oc settle_disposition by (simp add: new_outcome_def)
  moreover have "rn_executing (sv_runner (snd (settle_run ro rz now i r ?oc sv1))) = rn_executing (sv_runner sv1)"
    by (auto simp: settle_run_def Let_def put_off_def release_job_def complete_job_def)
  ultimately have "map_of (rn_executing (sv_runner sv')) (j_id (ex_job e)) = None"
    using assms(10) unfolding sv' by (simp add: free_place_def delete_conv')
  moreover have "row_after ro r now (end_of_run rz e1 r sv1) x
      (row (sv_queues (snd (settle_run ro rz now i r ?oc sv1)) (ex_tenant e)) (j_id (ex_job e)))"
    using settle_row [OF assms(5)] assms(6-9) by simp
  ultimately show ?thesis using disposition by (simp add: sv')
qed

subsection \<open>A renewed lease\<close>

lemma handed_out_due:
  assumes "wf_queue q" "jid \<in> j_id ` set (fst (claim_jobs q claimant batch limits now))"
  shows "\<exists>r. row q jid = Some r \<and> due q r now"
proof -
  obtain j where j: "j \<in> set (fst (claim_jobs q claimant batch limits now))" "jid = j_id j" using assms(2) by blast
  from j(1) obtain r where r: "r \<in> set (chosen q now batch limits)" "j = job_of (claimed_row r claimant now)"
    by (rule claim_jobs_mem)
  with chosen_mem [OF assms(1) r(1)] j(2) show ?thesis by (auto simp: job_of_def claimed_row_def)
qed

text \<open>C14: A heartbeat that renewed its claim keeps the job from every other claim until a lease after it.\<close>

theorem renewed_claim_is_kept:
  assumes "rn_objects (sv_runner sv) ! i = e" "wf_queue (sv_queues sv (ex_tenant e))"
    "row (sv_queues sv (ex_tenant e)) (j_id (ex_job e)) = Some r" "q_held_until r = None"
    "heartbeat ro rz reached now i sv = (Renewed asked messages, sv')"
    "later - now < q_lease (sv_queues sv (ex_tenant e))"
  shows "j_id (ex_job e) \<notin> j_id ` set (fst (claim_jobs (sv_queues sv' (ex_tenant e)) claimant batch limits later))"
proof
  let ?q = "sv_queues sv (ex_tenant e)" and ?jid = "j_id (ex_job e)"
  assume out: "?jid \<in> j_id ` set (fst (claim_jobs (sv_queues sv' (ex_tenant e)) claimant batch limits later))"
  have renewed: "fst (extend_claim ?q ?jid (ro_claimant ro) now)"
    and q': "sv_queues sv' (ex_tenant e) = snd (extend_claim ?q ?jid (ro_claimant ro) now)"
    using assms(1,5) by (auto simp: heartbeat_def Let_def split: if_splits prod.splits bool.splits)
  then have queue: "sv_queues sv' (ex_tenant e) = set_row ?q ?jid (r\<lparr>q_claimed_at := Some now\<rparr>)"
    using assms(3,4) by (auto simp: extend_claim_def split: option.splits if_splits)
  have "wf_queue (sv_queues sv' (ex_tenant e))"
    unfolding queue by (rule wf_update [OF assms(2,3)]) simp
  from handed_out_due [OF this out] assms(4,6) show False by (auto simp: queue due_def)
qed

text \<open>C15: A job a runner gives back because it was told to shut down keeps its claim counted: at its last
  attempt no runner ever claims it again, however long one waits.\<close>

theorem stopped_at_last_attempt_strands:
  assumes "rn_objects (sv_runner sv) ! i = e" "j_kind (ex_job e) = RUN_EXECUTE" "ex_run_id e \<noteq> []"
    "rr_last_attempt (resume_command ro e)"
    "rz_resume rz (resume_command ro e) sv = (Resumed r, sv1)" "\<not> rz_passed rz (ex_run_id e) sv1"
    "rn_objects (sv_runner sv1) ! i = e\<lparr>ex_stop_requested := True\<rparr>" "\<not> ex_lost e"
    "run_st r = R_HALTED" "run_cause r = Some STOP"
    "wf_queue (sv_queues sv1 (ex_tenant e))"
    "row (sv_queues sv1 (ex_tenant e)) (j_id (ex_job e)) = Some x" "q_claimed_by x = Some (ro_claimant ro)"
    "spent_attempts x = j_attempts (ex_job e) - j_deferrals (ex_job e)"
    "q_max_attempts (sv_queues sv1 (ex_tenant e)) = ro_max_attempts ro"
    "execute_job ro rz quote now i sv = (oc, sv')"
  shows "oc_disposition oc = DP_RELEASED \<and>
    j_id (ex_job e) \<notin> j_id ` set (fst (claim_jobs (sv_queues sv' (ex_tenant e)) claimant batch limits later))"
proof -
  let ?q = "sv_queues sv1 (ex_tenant e)" and ?jid = "j_id (ex_job e)"
  have "execute_job ro rz quote now i sv =
      (let oc = (new_outcome (ex_tenant e) (ex_job e))\<lparr>oc_run := Some r, oc_disposition := DP_RELEASED\<rparr>
       in (oc, on_runner (free_place ro i oc) (release_job ro (e\<lparr>ex_stop_requested := True\<rparr>) sv1)))"
    using assms(1-3,5-10) by (simp add: execute_job_def work_off_def settle_run_def Let_def)
  then have oc: "oc_disposition oc = DP_RELEASED" and q': "sv_queues sv' (ex_tenant e) = release ?q ?jid (ro_claimant ro)"
    using assms(16) by (auto simp: Let_def release_job_def)
  have wf: "wf_queue (sv_queues sv' (ex_tenant e))"
    unfolding q' release_def by (rule wf_if_claimed [OF assms(11)]) simp
  have "\<not> due (sv_queues sv' (ex_tenant e)) y later" if "row (sv_queues sv' (ex_tenant e)) ?jid = Some y" for y
  proof -
    have "spent_attempts y = spent_attempts x"
      using that assms(12,13) by (auto simp: q' release_def if_claimed_row spent_attempts_def)
    moreover have "q_max_attempts (sv_queues sv' (ex_tenant e)) = q_max_attempts ?q"
      by (simp add: q' release_def if_claimed_def split: option.split)
    ultimately show ?thesis using assms(4,14,15) by (simp add: due_def resume_command_def spent_attempts_def)
  qed
  with oc handed_out_due [OF wf] show ?thesis by blast
qed

subsection \<open>Witnesses\<close>

text \<open>Two tenants with a job each, and a runner of four places at the moment at which the first claim of
  the jobs has expired.\<close>

definition runner_b :: runner_options where
  "runner_b = \<lparr>ro_claimant = ''runner_b'', ro_concurrency = 4, ro_poll_seconds = 1, ro_heartbeat_seconds = 20,
     ro_actor = ''taktusd'',
     ro_max_attempts = 5, ro_wait_first = 1, ro_wait_cap = 60, ro_outcomes_kept = 10, ro_org_units = None\<rparr>"

definition quiet :: surroundings where
  "quiet = \<lparr>su_between = (\<lambda>_ sv. sv), su_clock = (\<lambda>_. 100), su_repr = (\<lambda>_. [])\<rparr>"

definition queue_of :: "string \<Rightarrow> int \<Rightarrow> queue" where
  "queue_of jid n = sample_queue\<lparr>q_jobs := [(jid, sample_row\<lparr>q_id := jid, q_attempts := n\<rparr>)]\<rparr>"

definition idle_serving :: serving where
  "idle_serving = \<lparr>sv_runner = new_runner,
     sv_queues = (\<lambda>t. if t = ''t1'' then queue_of ''job_1'' 1 else queue_of ''job_2'' 1)\<rparr>"

lemma queue_of_wf: "wf_queue (queue_of jid n)"
  by (simp add: wf_queue_def queue_of_def sample_queue_def sample_row_def new_row_def)

lemma quiet_alone: "alone quiet 100" "takes_no_place quiet"
  by (simp_all add: alone_def takes_no_place_def quiet_def)

lemma idle_wf: "wf_queues idle_serving"
  by (simp add: wf_queues_def idle_serving_def queue_of_wf)

lemma sample_round:
  "map_option (\<lambda>(c, sv). (c, busy sv, rn_stopping (sv_runner sv)))
     (claim_round runner_b quiet [''t1'', ''t2''] idle_serving) = Some (2, 2, False)"
  by code_simp

theorem claim_round_ends_witness:
  "\<exists>c sv'. claim_round runner_b quiet [''t1'', ''t2''] idle_serving = Some (c, sv')
     \<and> c \<le> work_left [''t1'', ''t2''] idle_serving"
  by (rule claim_round_ends [OF alone_adds_no_work [OF quiet_alone(1)] idle_wf])

theorem round_keeps_places_witness:
  "\<exists>c sv'. claim_round runner_b quiet [''t1'', ''t2''] idle_serving = Some (c, sv')
     \<and> int (busy sv') \<le> ro_concurrency runner_b"
proof -
  obtain c sv' where round: "claim_round runner_b quiet [''t1'', ''t2''] idle_serving = Some (c, sv')"
    using sample_round by (auto simp: map_option_case split: option.splits)
  moreover have "int (busy idle_serving) \<le> ro_concurrency runner_b"
    by (simp add: busy_def idle_serving_def new_runner_def runner_b_def)
  ultimately show ?thesis using round_keeps_places [OF quiet_alone(2)] by blast
qed


text \<open>A runner that executes a job at its attempt \<open>n\<close>, and an engine that hands the run back halted, after
  the runner was told to stop.\<close>

definition started :: "int \<Rightarrow> serving" where
  "started n = \<lparr>sv_runner = start_task (\<lambda>_. []) ''t1'' (job_of (sample_row\<lparr>q_attempts := n\<rparr>)) new_runner,
     sv_queues = (\<lambda>_. sample_queue\<lparr>q_jobs := [(''job_1'', sample_row\<lparr>q_attempts := n,
        q_claimed_by := Some ''runner_b'', q_claimed_at := Some 100\<rparr>)]\<rparr>)\<rparr>"

definition halting :: "cause \<Rightarrow> resuming" where
  "halting c = \<lparr>rz_resume = (\<lambda>_ sv. (Resumed (sample_run\<lparr>run_st := R_HALTED, run_cause := Some c\<rparr>),
       on_runner (\<lambda>rn. snd (stop_runner rn)) sv)), rz_passed = (\<lambda>_ _. False), rz_note_lost = (\<lambda>_ _. None)\<rparr>"

lemmas started_simps = started_def halting_def start_task_def new_runner_def stop_runner_def ask_stop_def Let_def
  on_runner_def job_of_def sample_row_def new_row_def payload_run_def runner_b_def

lemma started_facts:
  "ex_job (rn_objects (sv_runner (started n)) ! 0) = job_of (sample_row\<lparr>q_attempts := n\<rparr>)"
  "ex_tenant (rn_objects (sv_runner (started n)) ! 0) = ''t1''"
  "ex_run_id (rn_objects (sv_runner (started n)) ! 0) = ''run_1''"
  "\<not> ex_lost (rn_objects (sv_runner (started n)) ! 0)"
  "sv_queues (started n) t = sample_queue\<lparr>q_jobs := [(''job_1'', sample_row\<lparr>q_attempts := n,
        q_claimed_by := Some ''runner_b'', q_claimed_at := Some 100\<rparr>)]\<rparr>"
  by (simp_all add: started_simps)

lemma stopped_facts:
  "rn_objects (snd (stop_runner (sv_runner (started n)))) ! 0
     = (rn_objects (sv_runner (started n)) ! 0)\<lparr>ex_stop_requested := True\<rparr>"
  "rn_executing (snd (stop_runner (sv_runner (started n)))) = [(''job_1'', 0)]"
  by (simp_all add: started_simps)

theorem end_decides_the_job_witness:
  "oc_disposition (fst (execute_job runner_b (halting CAPACITY) (\<lambda>x. x) 110 0 (started 1))) = DP_DEFERRED
   \<and> map_of (rn_executing (sv_runner (snd (execute_job runner_b (halting CAPACITY) (\<lambda>x. x) 110 0 (started 1))))) ''job_1'' = None"
proof -
  let ?sv = "started 1" and ?rz = "halting CAPACITY"
  let ?e = "rn_objects (sv_runner ?sv) ! 0"
  let ?sv1 = "on_runner (\<lambda>rn. snd (stop_runner rn)) ?sv"
  let ?r = "sample_run\<lparr>run_st := R_HALTED, run_cause := Some CAPACITY\<rparr>"
  let ?x = "sample_row\<lparr>q_attempts := 1, q_claimed_by := Some ''runner_b'', q_claimed_at := Some 100\<rparr>"
  have jid: "j_id (ex_job ?e) = ''job_1''"
    unfolding started_facts by (simp add: job_of_def sample_row_def new_row_def)
  have resumed: "rz_resume ?rz (resume_command runner_b ?e) ?sv = (Resumed ?r, ?sv1)" by (simp add: halting_def)
  have "oc_disposition (fst (execute_job runner_b ?rz (\<lambda>x. x) 110 0 ?sv)) = end_of_run ?rz (?e\<lparr>ex_stop_requested := True\<rparr>) ?r ?sv1
    \<and> row_after runner_b ?r 110 (oc_disposition (fst (execute_job runner_b ?rz (\<lambda>x. x) 110 0 ?sv))) ?x
        (row (sv_queues (snd (execute_job runner_b ?rz (\<lambda>x. x) 110 0 ?sv)) (ex_tenant ?e)) (j_id (ex_job ?e)))
    \<and> map_of (rn_executing (sv_runner (snd (execute_job runner_b ?rz (\<lambda>x. x) 110 0 ?sv)))) (j_id (ex_job ?e)) = None"
  proof (rule end_decides_the_job [OF refl _ _ resumed])
    show "j_kind (ex_job ?e) = RUN_EXECUTE" unfolding started_facts by (simp add: job_of_def sample_row_def new_row_def)
    show "ex_run_id ?e \<noteq> []" unfolding started_facts by simp
    show "rn_objects (sv_runner ?sv1) ! 0 = ?e\<lparr>ex_stop_requested := True\<rparr>" by (simp add: stopped_facts)
    show "row (sv_queues ?sv1 (ex_tenant ?e)) (j_id (ex_job ?e)) = Some ?x"
      unfolding jid by (simp add: started_facts row_def)
    show "map_of (rn_executing (sv_runner ?sv1)) (j_id (ex_job ?e)) = Some 0" unfolding jid by (simp add: stopped_facts)
  qed (simp_all add: runner_b_def)
  moreover have "end_of_run ?rz (?e\<lparr>ex_stop_requested := True\<rparr>) ?r ?sv1 = DP_DEFERRED"
    using started_facts(4) [of 1] by (simp add: end_of_run_def halting_def)
  ultimately show ?thesis unfolding jid by simp
qed

theorem stopped_at_last_attempt_strands_witness:
  "oc_disposition (fst (execute_job runner_b (halting STOP) (\<lambda>x. x) 110 0 (started 5))) = DP_RELEASED
   \<and> ''job_1'' \<notin> j_id ` set (fst (claim_jobs
        (sv_queues (snd (execute_job runner_b (halting STOP) (\<lambda>x. x) 110 0 (started 5))) ''t1'') ''runner_c'' 1 Map.empty 1000000))"
proof -
  let ?sv = "started 5" and ?rz = "halting STOP"
  let ?e = "rn_objects (sv_runner ?sv) ! 0"
  let ?sv1 = "on_runner (\<lambda>rn. snd (stop_runner rn)) ?sv"
  let ?r = "sample_run\<lparr>run_st := R_HALTED, run_cause := Some STOP\<rparr>"
  let ?x = "sample_row\<lparr>q_attempts := 5, q_claimed_by := Some ''runner_b'', q_claimed_at := Some 100\<rparr>"
  have jid: "j_id (ex_job ?e) = ''job_1''" and job: "j_attempts (ex_job ?e) = 5" "j_deferrals (ex_job ?e) = 0"
    "j_kind (ex_job ?e) = RUN_EXECUTE"
    unfolding started_facts by (simp_all add: job_of_def sample_row_def new_row_def)
  have resumed: "rz_resume ?rz (resume_command runner_b ?e) ?sv = (Resumed ?r, ?sv1)" by (simp add: halting_def)
  have queue: "wf_queue (sv_queues ?sv1 t)" for t
    by (simp add: started_facts wf_queue_def sample_queue_def sample_row_def new_row_def)
  have "oc_disposition (fst (execute_job runner_b ?rz (\<lambda>x. x) 110 0 ?sv)) = DP_RELEASED
    \<and> j_id (ex_job ?e) \<notin> j_id ` set (fst (claim_jobs
        (sv_queues (snd (execute_job runner_b ?rz (\<lambda>x. x) 110 0 ?sv)) (ex_tenant ?e)) ''runner_c'' 1 Map.empty 1000000))"
  proof (rule stopped_at_last_attempt_strands [OF refl job(3) _ _ resumed _ _ _ _ _ queue])
    show "ex_run_id ?e \<noteq> []" unfolding started_facts by simp
    show "rr_last_attempt (resume_command runner_b ?e)" by (simp add: resume_command_def job runner_b_def)
    show "\<not> rz_passed ?rz (ex_run_id ?e) ?sv1" by (simp add: halting_def)
    show "rn_objects (sv_runner ?sv1) ! 0 = ?e\<lparr>ex_stop_requested := True\<rparr>" by (simp add: stopped_facts)
    show "\<not> ex_lost ?e" by (rule started_facts)
    show "row (sv_queues ?sv1 (ex_tenant ?e)) (j_id (ex_job ?e)) = Some ?x"
      unfolding jid by (simp add: started_facts row_def)
    show "spent_attempts ?x = j_attempts (ex_job ?e) - j_deferrals (ex_job ?e)"
      by (simp add: job spent_attempts_def sample_row_def new_row_def)
    show "q_max_attempts (sv_queues ?sv1 (ex_tenant ?e)) = ro_max_attempts runner_b"
      by (simp add: started_facts runner_b_def sample_queue_def)
  qed (simp_all add: runner_b_def)
  then show ?thesis unfolding jid started_facts(2) .
qed

theorem renewed_claim_is_kept_witness:
  "''job_1'' \<notin> j_id ` set (fst (claim_jobs
      (sv_queues (snd (heartbeat runner_b (halting STOP) (\<lambda>_. True) 120 0 (started 1))) ''t1'') ''runner_c'' 1 Map.empty 170))"
proof -
  let ?sv = "started 1"
  let ?e = "rn_objects (sv_runner ?sv) ! 0"
  let ?x = "sample_row\<lparr>q_attempts := 1, q_claimed_by := Some ''runner_b'', q_claimed_at := Some 100\<rparr>"
  have jid: "j_id (ex_job ?e) = ''job_1''"
    unfolding started_facts by (simp add: job_of_def sample_row_def new_row_def)
  have row: "row (sv_queues ?sv (ex_tenant ?e)) (j_id (ex_job ?e)) = Some ?x"
    unfolding jid by (simp add: started_facts row_def)
  have wf: "wf_queue (sv_queues ?sv (ex_tenant ?e))"
    by (simp add: started_facts wf_queue_def sample_queue_def sample_row_def new_row_def)
  obtain asked messages where beat: "heartbeat runner_b (halting STOP) (\<lambda>_. True) 120 0 ?sv =
      (Renewed asked messages, snd (heartbeat runner_b (halting STOP) (\<lambda>_. True) 120 0 ?sv))"
    using row by (auto simp: heartbeat_def Let_def extend_claim_def runner_b_def started_facts sample_queue_def
        sample_row_def new_row_def)
  from renewed_claim_is_kept [OF refl wf row _ beat, of 170 "''runner_c''" 1 Map.empty] show ?thesis
    unfolding jid started_facts(2) by (simp add: sample_row_def new_row_def started_facts sample_queue_def)
qed

end
