(* ===== verification/Run_Deadline_Rules.thy ===== *)
theory Run_Deadline_Rules
  imports Run_Deadline
begin

text \<open>
  Counting working time. What a count relies on of a zone and its working hours is the locale
  \<open>working_hours\<close>: the hours of a day are moments of that day, and days follow each other. Inside it, the
  moment a count ends at is the least by which so much working time has passed, and counting back from it
  returns to where the count began. The hours of a working time in UTC have the laws.
\<close>

subsection \<open>The time worked\<close>

text \<open>The time worked between two moments on one day, and on a range of days.\<close>

definition worked_on :: "(int \<Rightarrow> (moment \<times> moment) option) \<Rightarrow> moment \<Rightarrow> moment \<Rightarrow> int \<Rightarrow> span" where
  "worked_on hours s t day = (case hours day of None \<Rightarrow> 0 | Some (b, e) \<Rightarrow> max 0 (min t e - max s b))"

definition worked :: "(int \<Rightarrow> (moment \<times> moment) option) \<Rightarrow> int set \<Rightarrow> moment \<Rightarrow> moment \<Rightarrow> span" where
  "worked hours days s t = (\<Sum>d \<in> days. worked_on hours s t d)"

lemma worked_on_nonneg [simp]: "0 \<le> worked_on hours s t d"
  by (simp add: worked_on_def split: option.split)

lemma worked_on_mono: "t \<le> t' \<Longrightarrow> worked_on hours s t d \<le> worked_on hours s t' d"
  by (auto simp: worked_on_def split: option.split)

locale working_hours =
  fixes hours :: "int \<Rightarrow> (moment \<times> moment) option" and day_of :: "moment \<Rightarrow> int"
  assumes begins_before: "hours d = Some (b, e) \<Longrightarrow> b < e"
    and days_follow: "hours d = Some (b, e) \<Longrightarrow> hours d' = Some (b', e') \<Longrightarrow> d < d' \<Longrightarrow> e \<le> b'"
    and on_its_day: "hours d = Some (b, e) \<Longrightarrow> b \<le> t \<Longrightarrow> t \<le> e \<Longrightarrow> day_of t = d"
    and earlier_day: "hours d = Some (b, e) \<Longrightarrow> d < day_of t \<Longrightarrow> e \<le> t"
    and later_day: "hours d = Some (b, e) \<Longrightarrow> day_of t < d \<Longrightarrow> t \<le> b"
begin

lemma worked_first: "d \<le> k \<Longrightarrow> worked hours {d..k} s t = worked_on hours s t d + worked hours {d + 1..k} s t"
proof -
  assume "d \<le> k"
  then have "{d..k} = insert d {d + 1..k}" by auto
  then show ?thesis by (simp add: worked_def)
qed

lemma worked_last: "d \<le> k \<Longrightarrow> worked hours {d..k} s t = worked hours {d..k - 1} s t + worked_on hours s t k"
proof -
  assume "d \<le> k"
  then have "{d..k} = insert k {d..k - 1}" by auto
  then show ?thesis by (simp add: worked_def)
qed

lemma worked_nonneg: "0 \<le> worked hours days s t"
  by (simp add: worked_def sum_nonneg)

text \<open>Where a count that ends does end: in the hours of the day at which the time worked reaches it.\<close>

lemma add_from_ends:
  assumes "add_from hours s n d left = Some t" "0 < left"
  shows "\<exists>k b e. d \<le> k \<and> k < d + int n \<and> hours k = Some (b, e) \<and> max s b < t \<and> t \<le> e
     \<and> worked hours {d..k} s t = left"
  using assms
proof (induction n arbitrary: d left)
  case (Suc n)
  have later: ?case if rest: "add_from hours s n (d + 1) left' = Some t" "0 < left'"
    and spent: "\<And>k b e. d < k \<Longrightarrow> hours k = Some (b, e) \<Longrightarrow> b < t \<Longrightarrow> worked_on hours s t d = left - left'" for left'
  proof -
    from Suc.IH [OF rest] obtain k b e where k: "d + 1 \<le> k" "k < d + 1 + int n" "hours k = Some (b, e)"
      "max s b < t" "t \<le> e" "worked hours {d + 1..k} s t = left'" by blast
    moreover have "worked hours {d..k} s t = left"
      using worked_first [of d k s t] spent [of k b e] k by simp
    ultimately show ?thesis by (intro exI [of _ k] exI [of _ b] exI [of _ e]) simp
  qed
  show ?case
  proof (cases "hours d")
    case None
    then show ?thesis using Suc.prems by (intro later [of left]) (simp_all add: worked_on_def)
  next
    case (Some be)
    obtain b e where be: "hours d = Some (b, e)" using Some by (cases be) auto
    consider "max s b \<ge> e" | "max s b < e" "left \<le> e - max s b" | "max s b < e" "left > e - max s b" by linarith
    then show ?thesis
    proof cases
      case 1
      then show ?thesis using Suc.prems be by (intro later [of left]) (auto simp: worked_on_def Let_def split: if_splits)
    next
      case 2
      then have "t = max s b + left" using Suc.prems be by (simp add: Let_def)
      with 2 be Suc.prems(2) show ?thesis
        by (intro exI [of _ d] exI [of _ b] exI [of _ e]) (auto simp: worked_def worked_on_def)
    next
      case 3
      have "worked_on hours s t d = left - (left - (e - max s b))" if "d < k" "hours k = Some (b', e')" "b' < t" for k b' e'
        using days_follow [OF be that(2,1)] that(3) be 3(1) by (simp add: worked_on_def)
      with 3 Suc.prems be show ?thesis by (intro later [of "left - (e - max s b)"]) (auto simp: Let_def)
    qed
  qed
qed simp

text \<open>A count that gives up: the days of its horizon hold less working time than it was to count.\<close>

lemma add_from_gives_up:
  assumes "add_from hours s n d left = None" "0 < left"
  shows "worked hours {d..<d + int n} s t < left"
  using assms
proof (induction n arbitrary: d left)
  case 0
  then show ?case by (simp add: worked_def)
next
  case (Suc n)
  have first: "worked hours {d..<d + int (Suc n)} s t = worked_on hours s t d + worked hours {d + 1..<d + 1 + int n} s t"
  proof -
    have "{d..<d + int (Suc n)} = insert d {d + 1..<d + 1 + int n}" by auto
    then show ?thesis by (simp add: worked_def)
  qed
  show ?case
  proof (cases "hours d")
    case None
    with Suc.IH [of "d + 1" left] Suc.prems first show ?thesis by (simp add: worked_on_def)
  next
    case (Some be)
    obtain b e where be: "hours d = Some (b, e)" using Some by (cases be) auto
    have on: "worked_on hours s t d \<le> max 0 (e - max s b)" by (simp add: worked_on_def be)
    show ?thesis
    proof (cases "max s b < e")
      case True
      then have "add_from hours s n (d + 1) (left - (e - max s b)) = None" "0 < left - (e - max s b)"
        using Suc.prems be by (auto simp: Let_def split: if_splits)
      from Suc.IH [OF this] first on True show ?thesis by simp
    next
      case False
      then have "add_from hours s n (d + 1) left = None" using Suc.prems(1) be by (auto simp: Let_def split: if_splits)
      from Suc.IH [OF this Suc.prems(2)] first on False show ?thesis by simp
    qed
  qed
qed

lemma add_is_least:
  assumes "add_from hours s n (day_of s) left = Some t" "0 < left"
  shows "s < t" "worked hours {day_of s..day_of t} s t = left"
    "s \<le> t' \<Longrightarrow> t' < t \<Longrightarrow> worked hours {day_of s..day_of t} s t' < left"
proof -
  from add_from_ends [OF assms] obtain k b e where k: "day_of s \<le> k" "hours k = Some (b, e)" "max s b < t" "t \<le> e"
    "worked hours {day_of s..k} s t = left" by blast
  have day: "day_of t = k" using on_its_day [OF k(2), of t] k(3,4) by simp
  show "s < t" using k(3) by simp
  show "worked hours {day_of s..day_of t} s t = left" using k(5) day by simp
  assume t': "s \<le> t'" "t' < t"
  have "worked hours {day_of s..day_of t} s t' < worked hours {day_of s..day_of t} s t"
    unfolding worked_def
  proof (rule sum_strict_mono_ex1)
    show "\<forall>d \<in> {day_of s..day_of t}. worked_on hours s t' d \<le> worked_on hours s t d"
      using worked_on_mono t'(2) by simp
    have "worked_on hours s t' k < worked_on hours s t k"
      using k(2,3,4) t'(2) by (simp add: worked_on_def)
    then show "\<exists>d \<in> {day_of s..day_of t}. worked_on hours s t' d < worked_on hours s t d"
      using k(1) day by auto
  qed simp
  with k(5) day show "worked hours {day_of s..day_of t} s t' < left" by simp
qed

text \<open>Counting back from the moment a count ended at.\<close>

lemma subtract_from_back:
  assumes "hours D = Some (b0, e0)" "b0 \<le> s" "s < e0" "s < t"
  shows "D \<le> d \<Longrightarrow> d < D + int n \<Longrightarrow> subtract_from hours t n d (worked hours {D..d} s t) = Some s"
proof (induction n arbitrary: d)
  case (Suc n)
  show ?case
  proof (cases "d = D")
    case True
    then show ?thesis using assms by (auto simp: worked_def worked_on_def Let_def min_def max_def)
  next
    case False
    with Suc.prems have d: "D \<le> d - 1" "d - 1 < D + int n" "D < d" by auto
    have last: "worked hours {D..d} s t = worked hours {D..d - 1} s t + worked_on hours s t d"
      by (rule worked_last) (use Suc.prems in simp)
    have "0 < worked_on hours s t D" using assms by (simp add: worked_on_def)
    then have left: "0 < worked hours {D..d - 1} s t"
      using worked_first [OF d(1), of s t] worked_nonneg [of "{D + 1..d - 1}" s t] by simp
    show ?thesis
    proof (cases "hours d")
      case None
      with last Suc.IH [OF d(1,2)] show ?thesis by (simp add: worked_on_def)
    next
      case (Some be)
      obtain b e where be: "hours d = Some (b, e)" using Some by (cases be) auto
      have "s < b" using days_follow [OF assms(1) be d(3)] assms(3) by simp
      then have on: "worked_on hours s t d = max 0 (min t e - b)" by (simp add: worked_on_def be)
      show ?thesis
        using last on left Suc.IH [OF d(1,2)] be by (cases "b < min t e") (auto simp: Let_def)
    qed
  qed
qed simp

lemma subtract_after_add:
  assumes "add_from hours s n (day_of s) left = Some t" "0 < left"
    "hours (day_of s) = Some (b, e)" "b \<le> s" "s < e"
  shows "subtract_from hours t n (day_of t) left = Some s"
proof -
  from add_from_ends [OF assms(1,2)] obtain k b' e' where k: "day_of s \<le> k" "k < day_of s + int n" "hours k = Some (b', e')"
    "max s b' < t" "t \<le> e'" "worked hours {day_of s..k} s t = left" by blast
  have day: "day_of t = k" using on_its_day [OF k(3), of t] k(4,5) by simp
  have "s < t" using k(4) by simp
  from subtract_from_back [OF assms(3-5) this k(1,2)] k(6) day show ?thesis by simp
qed

end

subsection \<open>Hours in UTC\<close>

lemma utc_hours:
  assumes "0 \<le> wt_begins w" "wt_begins w < wt_ends w" "wt_ends w < DAY_SPAN"
  shows "working_hours (hours_of utc w) (tz_day utc)"
proof -
  have hours: "b = d * DAY_SPAN + wt_begins w \<and> e = d * DAY_SPAN + wt_ends w" if "hours_of utc w d = Some (b, e)" for d b e
    using that by (auto simp: hours_of_def utc_def split: if_splits)
  have day: "tz_day utc t = t div DAY_SPAN" for t by (simp add: utc_def)
  have pos: "0 < DAY_SPAN" by (simp add: DAY_SPAN_def)
  have next_day: "(d + 1) * DAY_SPAN \<le> d' * DAY_SPAN" if "d < d'" for d d' using that pos by (intro mult_right_mono) auto
  have within: "t div DAY_SPAN * DAY_SPAN \<le> t" "t < t div DAY_SPAN * DAY_SPAN + DAY_SPAN" for t
    using div_mult_mod_eq [of t DAY_SPAN] pos_mod_bound [OF pos, of t] pos_mod_sign [OF pos, of t] by linarith+
  show ?thesis
  proof (unfold_locales, goal_cases)
    case (1 d b e)
    then show ?case using hours [OF 1] assms(2) by simp
  next
    case (2 d b e d' b' e')
    then show ?case using hours [OF 2(1)] hours [OF 2(2)] next_day [OF 2(3)] assms by (simp add: algebra_simps)
  next
    case (3 d b e t)
    then show ?case using hours [OF 3(1)] assms pos unfolding day
      by (intro int_div_pos_eq [of _ _ _ "t - d * DAY_SPAN"]) auto
  next
    case (4 d b e t)
    then show ?case using hours [OF 4(1)] next_day [of d "t div DAY_SPAN"] within [of t] assms unfolding day
      by (auto simp: algebra_simps)
  next
    case (5 d b e t)
    then show ?case using hours [OF 5(1)] next_day [of "t div DAY_SPAN" d] within [of t] assms unfolding day
      by (auto simp: algebra_simps)
  qed
qed

interpretation shipped: working_hours "hours_of utc (shipped_working_time tenant)" "tz_day utc" for tenant
  by (rule utc_hours) (simp_all add: shipped_working_time_def DAY_SPAN_def)

end
