(* ===== verification/Run_Deadline_Keeper.thy ===== *)
theory Run_Deadline_Keeper
  imports Run_Model Ledger_History Run_Deadline_Rules
begin

text \<open>
  The use cases of a deadline (\<open>run/application/service/deadlines.py\<close>) over the tenant's records, its
  working time and its ledger: what the engine's entries start and meet, taking an action once, listing,
  configuring working time. An error leaves what it wrote to the unit of work it happened in, which
  drops it.
\<close>

record keeper =
  kp_deadlines :: "(string \<times> deadline) list"
  kp_working :: "working_time option"
  kp_ledger :: ledger_service

record keeper_env =
  ke_codec :: codec
  ke_hex :: "string \<Rightarrow> string"
  ke_zones :: "string \<Rightarrow> time_zone option"
  ke_text :: text_reader

datatype keeper_error = No_Working_Time | Entry_Refused store_error | Working_Time_Refused working_finding

text \<open>\<open>_record\<close>, and the entry of an action or of a change of the working time.\<close>

definition plain_fact :: "string \<Rightarrow> ledger_refs \<Rightarrow> string \<Rightarrow> fact" where
  "plain_fact kind refs outcome = \<lparr>f_kind = kind, f_refs = refs, f_method = None, f_model = None, f_adapter = None,
     f_consumption = None, f_outcome = Some outcome, f_duration_seconds = None, f_content_digest = None,
     f_rehearsal = False, f_through = None\<rparr>"

definition deadline_refs :: "string \<Rightarrow> string \<Rightarrow> string \<Rightarrow> string \<Rightarrow> ledger_refs" where
  "deadline_refs tenant version run did = no_refs\<lparr>r_tenant := Some tenant, r_process_version := Some version,
     r_run_id := Some run, r_deadline_id := Some did\<rparr>"

definition keeper_records :: "keeper_env \<Rightarrow> moment \<Rightarrow> fact \<Rightarrow> keeper \<Rightarrow> (keeper_error + unit) \<times> keeper" where
  "keeper_records ke now f kp =
     (case record_fact (ke_codec ke) (kp_ledger kp) f now False of
        (Inl e, l) \<Rightarrow> (Inl (Entry_Refused e), kp\<lparr>kp_ledger := l\<rparr>)
      | (Inr _, l) \<Rightarrow> (Inr (), kp\<lparr>kp_ledger := l\<rparr>))"

definition deadline_entry ::
  "keeper_env \<Rightarrow> moment \<Rightarrow> string \<Rightarrow> run \<Rightarrow> string \<Rightarrow> string \<Rightarrow> keeper \<Rightarrow> (keeper_error + unit) \<times> keeper" where
  "deadline_entry ke now kind r did outcome =
     keeper_records ke now (plain_fact kind (deadline_refs (run_tenant r) (run_process_version r) (run_id r) did) outcome)"

definition put_deadline :: "deadline \<Rightarrow> keeper \<Rightarrow> keeper" where
  "put_deadline d kp = kp\<lparr>kp_deadlines := AList.update (dl_id d) d (kp_deadlines kp)\<rparr>"

definition deadline_at :: "keeper \<Rightarrow> string \<Rightarrow> deadline option" where
  "deadline_at kp did = map_of (kp_deadlines kp) did"

definition time_worked :: "keeper \<Rightarrow> string \<Rightarrow> working_time" where
  "time_worked kp tenant = (case kp_working kp of None \<Rightarrow> shipped_working_time tenant | Some w \<Rightarrow> w)"

subsection \<open>The run engine's side\<close>

definition new_deadline ::
  "run \<Rightarrow> deadline_rule \<Rightarrow> string \<Rightarrow> moment \<Rightarrow> deadline_schedule \<Rightarrow> moment \<Rightarrow> deadline" where
  "new_deadline r rule did started s now =
     \<lparr>dl_id = did, dl_tenant = run_tenant r, dl_run_id = run_id r, dl_process_version = run_process_version r,
      dl_rule = rule, dl_started_at = started, dl_due_at = ds_due_at s, dl_lead_at = ds_lead_at s,
      dl_created_at = now, dl_state = DL_OPEN, dl_lead_taken_at = None, dl_reached_at = None, dl_refused = None,
      dl_started_run = None, dl_met_at = None, dl_met_through = None\<rparr>"

text \<open>\<open>_start\<close>. The zone is read only where the rule counts working time.\<close>

definition start_deadline ::
  "keeper_env \<Rightarrow> moment \<Rightarrow> run \<Rightarrow> deadline_rule \<Rightarrow> string \<Rightarrow> keeper \<Rightarrow> (keeper_error + unit) \<times> keeper" where
  "start_deadline ke now r rule did kp =
     (if deadline_at kp did \<noteq> None then (Inr (), kp)
      else case starting_moment (ke_text ke) rule (run_inputs r) now of
             None \<Rightarrow> deadline_entry ke now DEADLINE_REFUSED r did ''no_date'' kp
           | Some started \<Rightarrow>
               (let w = time_worked kp (run_tenant r)
                in case Option.bind (if dr_working rule then zone_of (ke_zones ke) w else Some utc)
                          (\<lambda>z. schedule_of z w rule started) of
                     None \<Rightarrow> (Inl No_Working_Time, kp)
                   | Some s \<Rightarrow>
                       deadline_entry ke now DEADLINE_STARTED r did (if dr_working rule then ''working'' else ''calendar'')
                         (put_deadline (new_deadline r rule did started s now) kp)))"

text \<open>\<open>_meet\<close>.\<close>

definition meet_deadline ::
  "keeper_env \<Rightarrow> moment \<Rightarrow> run \<Rightarrow> string \<Rightarrow> string \<Rightarrow> keeper \<Rightarrow> (keeper_error + unit) \<times> keeper" where
  "meet_deadline ke now r did through kp =
     (case deadline_at kp did of
        None \<Rightarrow> (Inr (), kp)
      | Some d \<Rightarrow>
          if dl_state d \<noteq> DL_OPEN then (Inr (), kp)
          else deadline_entry ke now DEADLINE_MET r did through (put_deadline (met_deadline d through now) kp))"

definition observe_rule ::
  "keeper_env \<Rightarrow> moment \<Rightarrow> run \<Rightarrow> string \<Rightarrow> string option \<Rightarrow> string option \<Rightarrow> deadline_rule \<Rightarrow> keeper \<Rightarrow>
   (keeper_error + unit) \<times> keeper" where
  "observe_rule ke now r kind sid outcome rule kp =
     (let did = deadline_id (ke_hex ke) (run_id r) (dr_name rule)
      in case (if starts_deadline rule kind sid outcome then start_deadline ke now r rule did kp else (Inr (), kp)) of
           (Inl e, kp1) \<Rightarrow> (Inl e, kp1)
         | (Inr _, kp1) \<Rightarrow>
             (case meets_deadline rule kind sid outcome of
                None \<Rightarrow> (Inr (), kp1)
              | Some through \<Rightarrow> meet_deadline ke now r did through kp1))"

fun observe_rules ::
  "keeper_env \<Rightarrow> moment \<Rightarrow> run \<Rightarrow> string \<Rightarrow> string option \<Rightarrow> string option \<Rightarrow> deadline_rule list \<Rightarrow> keeper \<Rightarrow>
   (keeper_error + unit) \<times> keeper" where
  "observe_rules ke now r kind sid outcome [] kp = (Inr (), kp)"
| "observe_rules ke now r kind sid outcome (rule # rules) kp =
     (case observe_rule ke now r kind sid outcome rule kp of
        (Inl e, kp1) \<Rightarrow> (Inl e, kp1)
      | (Inr _, kp1) \<Rightarrow> observe_rules ke now r kind sid outcome rules kp1)"

definition observe ::
  "keeper_env \<Rightarrow> moment \<Rightarrow> run \<Rightarrow> string \<Rightarrow> string option \<Rightarrow> string option \<Rightarrow> keeper \<Rightarrow>
   (keeper_error + unit) \<times> keeper" where
  "observe ke now r kind sid outcome kp =
     (if run_deadlines r = [] \<or> run_rehearsal r then (Inr (), kp)
      else observe_rules ke now r kind sid outcome (run_deadlines r) kp)"

subsection \<open>The scheduler's side\<close>

definition due_of_tenant :: "moment \<Rightarrow> keeper \<Rightarrow> due_action list" where
  "due_of_tenant now kp =
     sort_key (\<lambda>u. (du_at u, dl_id (du_deadline u), if du_moment u = AT_LEAD then ''lead'' else ''limit''))
       (concat (map (\<lambda>(i, d). due_actions d now) (kp_deadlines kp)))"

record taken_result =
  tk_deadline :: deadline
  tk_kind :: string
  tk_outcome :: string

definition take_outcome :: "due_action \<Rightarrow> string option \<Rightarrow> string" where
  "take_outcome u refused = (if refused \<noteq> None then ''refused'' else action_kind_value (da_kind (du_action u)))"

definition still_due :: "due_action \<Rightarrow> moment \<Rightarrow> deadline \<Rightarrow> bool" where
  "still_due u now d \<longleftrightarrow> list_ex (\<lambda>v. du_moment v = du_moment u) (due_actions d now)"

definition noted :: "due_action \<Rightarrow> moment \<Rightarrow> string option \<Rightarrow> string option \<Rightarrow> deadline \<Rightarrow> deadline" where
  "noted u now started refused d =
     (let t = taken_action d (du_moment u) now
      in if started \<noteq> None \<or> refused \<noteq> None then t\<lparr>dl_started_run := started, dl_refused := refused\<rparr> else t)"

text \<open>\<open>take\<close>: one transaction. An action taken already rolls its entry back.\<close>

definition take_action ::
  "keeper_env \<Rightarrow> moment \<Rightarrow> string \<Rightarrow> due_action \<Rightarrow> string option \<Rightarrow> string option \<Rightarrow> keeper \<Rightarrow>
   (keeper_error + taken_result option) \<times> keeper" where
  "take_action ke now tenant u started refused kp =
     (let d0 = du_deadline u; outcome = take_outcome u refused
      in case keeper_records ke now (plain_fact (du_kind u)
               (deadline_refs tenant (dl_process_version d0) (dl_run_id d0) (dl_id d0)) outcome) kp of
           (Inl e, _) \<Rightarrow> (Inl e, kp)
         | (Inr _, kp1) \<Rightarrow>
             (case deadline_at kp1 (dl_id d0) of
                None \<Rightarrow> (Inr None, kp)
              | Some d \<Rightarrow>
                  if \<not> still_due u now d then (Inr None, kp)
                  else (let d' = noted u now started refused d; kp2 = put_deadline d' kp1
                        in (Inr (Some \<lparr>tk_deadline = d', tk_kind = du_kind u, tk_outcome = outcome\<rparr>),
                            kp2\<lparr>kp_ledger := commit (kp_ledger kp2)\<rparr>))))"

subsection \<open>The reader's side\<close>

definition open_deadlines :: "string option \<Rightarrow> keeper \<Rightarrow> deadline list" where
  "open_deadlines role kp =
     sort_key (\<lambda>d. (dl_due_at d, dl_id d))
       (filter (\<lambda>d. dl_state d = DL_OPEN \<and> (case role of None \<Rightarrow> True | Some r \<Rightarrow> r \<in> set (deadline_roles d)))
         (map snd (kp_deadlines kp)))"

definition deadline_listing :: "(moment \<Rightarrow> string) \<Rightarrow> moment \<Rightarrow> string option \<Rightarrow> keeper \<Rightarrow> (string \<times> json) list list" where
  "deadline_listing ts now role kp = map (\<lambda>d. deadline_document ts d now) (open_deadlines role kp)"

record configure_working_time =
  cw_tenant :: string
  cw_zone :: "string option"
  cw_days :: "int list option"
  cw_begins :: "span option"
  cw_ends :: "span option"
  cw_holidays :: "int list option"

definition or_keep :: "'a option \<Rightarrow> 'a \<Rightarrow> 'a" where
  "or_keep v old = (case v of None \<Rightarrow> old | Some x \<Rightarrow> x)"

definition configured_time :: "configure_working_time \<Rightarrow> moment \<Rightarrow> working_time \<Rightarrow> working_time" where
  "configured_time c now w = w\<lparr>wt_zone := or_keep (cw_zone c) (wt_zone w), wt_days := or_keep (cw_days c) (wt_days w),
     wt_begins := or_keep (cw_begins c) (wt_begins w), wt_ends := or_keep (cw_ends c) (wt_ends w),
     wt_holidays := or_keep (cw_holidays c) (wt_holidays w), wt_configured_at := Some now\<rparr>"

definition configure_time ::
  "keeper_env \<Rightarrow> moment \<Rightarrow> configure_working_time \<Rightarrow> string \<Rightarrow> keeper \<Rightarrow> (keeper_error + working_time) \<times> keeper" where
  "configure_time ke now c actor kp =
     (let w = configured_time c now (time_worked kp (cw_tenant c))
      in case working_findings (ke_zones ke) w of
           Some f \<Rightarrow> (Inl (Working_Time_Refused f), kp)
         | None \<Rightarrow>
             (case keeper_records ke now (plain_fact ''working_time.configured''
                 (no_refs\<lparr>r_tenant := Some (cw_tenant c), r_actor := Some actor\<rparr>) ''configured'')
                 (kp\<lparr>kp_working := Some w\<rparr>) of
                (Inl e, _) \<Rightarrow> (Inl e, kp)
              | (Inr _, kp1) \<Rightarrow> (Inr w, kp1\<lparr>kp_ledger := commit (kp_ledger kp1)\<rparr>)))"

end
