(* ===== verification/Run_Deadline_History.thy ===== *)
theory Run_Deadline_History
  imports Run_Deadline_Keeper Run_Progress
begin

text \<open>
  What deadlines promise: the moment a deadline falls due in working time is exact, its lead is counted
  back from it, and over any history of a tenant's deadlines each is started, met and acted on at most once,
  with an entry of the ledger for each of it.
\<close>

subsection \<open>The moments of a deadline\<close>

text \<open>C19: A limit in working time ends at the least moment by which so much working time has passed since
  its start; it is refused only when the ten years of the horizon hold less than the limit.\<close>

theorem working_limit_is_exact:
  assumes "working_hours (hours_of z w) (tz_day z)" "0 < len"
  shows "case add_working z w s len of
      Some t \<Rightarrow> s < t \<and> worked (hours_of z w) {tz_day z s..tz_day z t} s t = len
        \<and> (\<forall>t'. s \<le> t' \<and> t' < t \<longrightarrow> worked (hours_of z w) {tz_day z s..tz_day z t} s t' < len)
    | None \<Rightarrow> (\<forall>t. worked (hours_of z w) {tz_day z s..<tz_day z s + int HORIZON_DAYS} s t < len)"
proof (cases "add_working z w s len")
  case None
  then have "add_from (hours_of z w) s HORIZON_DAYS (tz_day z s) len = None"
    using assms(2) by (simp add: add_working_def)
  with None working_hours.add_from_gives_up [OF assms(1) _ assms(2)] show ?thesis by auto
next
  case (Some t)
  then have add: "add_from (hours_of z w) s HORIZON_DAYS (tz_day z s) len = Some t"
    using assms(2) by (simp add: add_working_def)
  from working_hours.add_is_least [OF assms(1) add assms(2)] Some show ?thesis by auto
qed


subsection \<open>Entries of a deadline\<close>

definition of_deadline :: "string \<Rightarrow> string \<Rightarrow> ledger_entry \<Rightarrow> bool" where
  "of_deadline kind did x \<longleftrightarrow> f_kind x = kind \<and> r_deadline_id (f_refs x) = Some did"

definition entries_for :: "keeper \<Rightarrow> string \<Rightarrow> string \<Rightarrow> nat" where
  "entries_for kp kind did = length (filter (of_deadline kind did) (ls_entries (kp_ledger kp)))"

definition rising_ledger :: "keeper \<Rightarrow> bool" where
  "rising_ledger kp \<longleftrightarrow> rising (ls_entries (kp_ledger kp))"

definition nat_of :: "bool \<Rightarrow> nat" where "nat_of b = (if b then 1 else 0)"

text \<open>An entry written adds to its own kind and deadline and to no other.\<close>

lemma records_one:
  assumes "rising_ledger kp" "keeper_records ke now f kp = (res, kp')"
  shows "res = Inr ()" "kp_deadlines kp' = kp_deadlines kp" "kp_working kp' = kp_working kp" "rising_ledger kp'"
    "entries_for kp' kind did = entries_for kp kind did + nat_of (f_kind f = kind \<and> r_deadline_id (f_refs f) = Some did)"
proof -
  let ?e = "link (ke_codec ke) (last_of (chain_entries (chain_for f False) (ls_entries (kp_ledger kp)))) f now
                 (Some (head_seq (ls_entries (kp_ledger kp)) + 1)) False"
  have rise: "rising (ls_entries (kp_ledger kp))" using assms(1) by (simp add: rising_ledger_def)
  have rec: "record_fact (ke_codec ke) (kp_ledger kp) f now False = (Inr ?e, (kp_ledger kp)\<lparr>ls_store :=
      ls_store (kp_ledger kp)\<lparr>appended := appended (ls_store (kp_ledger kp)) @ [?e]\<rparr>\<rparr>)"
    by (rule record_fact_entries [OF rise])
  from assms(2) show res: "res = Inr ()" "kp_deadlines kp' = kp_deadlines kp" "kp_working kp' = kp_working kp"
    unfolding keeper_records_def rec by auto
  have ledger: "kp_ledger kp' = (kp_ledger kp)\<lparr>ls_store :=
      ls_store (kp_ledger kp)\<lparr>appended := appended (ls_store (kp_ledger kp)) @ [?e]\<rparr>\<rparr>"
    using assms(2) unfolding keeper_records_def rec by auto
  show "rising_ledger kp'" unfolding rising_ledger_def ledger ls_entries_append using rise by simp
  show "entries_for kp' kind did = entries_for kp kind did + nat_of (f_kind f = kind \<and> r_deadline_id (f_refs f) = Some did)"
    unfolding entries_for_def ledger ls_entries_append by (simp add: of_deadline_def nat_of_def)
qed

lemma ls_entries_commit [simp]: "ls_entries (commit l) = ls_entries l"
  by (simp add: commit_def ls_entries_def entries_def)

lemma entries_commit [simp]:
  "entries_for (kp\<lparr>kp_ledger := commit l\<rparr>) kind did = entries_for (kp\<lparr>kp_ledger := l\<rparr>) kind did"
  "rising_ledger (kp\<lparr>kp_ledger := commit l\<rparr>) = rising_ledger (kp\<lparr>kp_ledger := l\<rparr>)"
  "deadline_at (kp\<lparr>kp_ledger := l\<rparr>) did = deadline_at kp did"
  by (simp_all add: entries_for_def rising_ledger_def deadline_at_def)

lemma put_sel [simp]:
  "entries_for (put_deadline d kp) kind did = entries_for kp kind did"
  "rising_ledger (put_deadline d kp) = rising_ledger kp"
  "deadline_at (put_deadline d kp) did = (if did = dl_id d then Some d else deadline_at kp did)"
  "kp_ledger (put_deadline d kp) = kp_ledger kp"
  by (simp_all add: entries_for_def rising_ledger_def deadline_at_def put_deadline_def update_conv')

subsection \<open>A deadline and its entries\<close>

definition deadline_kinds :: "string list" where
  "deadline_kinds = [DEADLINE_STARTED, DEADLINE_REFUSED, DEADLINE_LEAD, DEADLINE_REACHED, DEADLINE_MET]"

lemma kinds_differ [simp]:
  "DEADLINE_STARTED \<noteq> DEADLINE_REFUSED" "DEADLINE_STARTED \<noteq> DEADLINE_LEAD" "DEADLINE_STARTED \<noteq> DEADLINE_REACHED"
  "DEADLINE_STARTED \<noteq> DEADLINE_MET" "DEADLINE_REFUSED \<noteq> DEADLINE_STARTED" "DEADLINE_REFUSED \<noteq> DEADLINE_LEAD"
  "DEADLINE_REFUSED \<noteq> DEADLINE_REACHED" "DEADLINE_REFUSED \<noteq> DEADLINE_MET" "DEADLINE_LEAD \<noteq> DEADLINE_STARTED" "DEADLINE_LEAD \<noteq> DEADLINE_REFUSED"
  "DEADLINE_LEAD \<noteq> DEADLINE_REACHED" "DEADLINE_LEAD \<noteq> DEADLINE_MET" "DEADLINE_REACHED \<noteq> DEADLINE_STARTED"
  "DEADLINE_REACHED \<noteq> DEADLINE_REFUSED" "DEADLINE_REACHED \<noteq> DEADLINE_LEAD" "DEADLINE_REACHED \<noteq> DEADLINE_MET"
  "DEADLINE_MET \<noteq> DEADLINE_STARTED" "DEADLINE_MET \<noteq> DEADLINE_REFUSED" "DEADLINE_MET \<noteq> DEADLINE_LEAD" "DEADLINE_MET \<noteq> DEADLINE_REACHED"
 
  by (simp_all add: DEADLINE_STARTED_def DEADLINE_REFUSED_def DEADLINE_LEAD_def DEADLINE_REACHED_def DEADLINE_MET_def)

text \<open>What a record says of itself is what its entries say of it, and an action is taken when it is due.\<close>

definition accounted :: "(string \<Rightarrow> nat) \<Rightarrow> deadline \<Rightarrow> bool" where
  "accounted n d \<longleftrightarrow>
     n DEADLINE_STARTED = 1 \<and> n DEADLINE_LEAD = nat_of (dl_lead_taken_at d \<noteq> None)
   \<and> n DEADLINE_REACHED = nat_of (dl_reached_at d \<noteq> None) \<and> n DEADLINE_MET = nat_of (dl_state d = DL_MET)
   \<and> (\<forall>t. dl_reached_at d = Some t \<longrightarrow> dl_due_at d \<le> t)
   \<and> (\<forall>t. dl_lead_taken_at d = Some t \<longrightarrow> (\<exists>l. dl_lead_at d = Some l \<and> l \<le> t))"

definition unheard :: "(string \<Rightarrow> nat) \<Rightarrow> bool" where
  "unheard n \<longleftrightarrow> n DEADLINE_STARTED = 0 \<and> n DEADLINE_LEAD = 0 \<and> n DEADLINE_REACHED = 0 \<and> n DEADLINE_MET = 0"

definition keeps_accounts :: "keeper \<Rightarrow> bool" where
  "keeps_accounts kp \<longleftrightarrow> rising_ledger kp
   \<and> (\<forall>did. case deadline_at kp did of
        None \<Rightarrow> unheard (\<lambda>kind. entries_for kp kind did)
      | Some d \<Rightarrow> dl_id d = did \<and> accounted (\<lambda>kind. entries_for kp kind did) d)"

lemma accounts_at:
  assumes "keeps_accounts kp"
  shows "deadline_at kp did = None \<Longrightarrow> unheard (\<lambda>kind. entries_for kp kind did)"
    and "deadline_at kp did = Some d \<Longrightarrow> dl_id d = did \<and> accounted (\<lambda>kind. entries_for kp kind did) d"
    and "rising_ledger kp"
  using assms unfolding keeps_accounts_def by (auto dest!: spec [of _ did])

text \<open>One entry written, and perhaps the record of its deadline with it.\<close>

lemma keeps_with_entry:
  assumes "keeps_accounts kp" "rising_ledger kp'"
    and count: "\<And>k x. entries_for kp' k x = entries_for kp k x + nat_of (kind = k \<and> did = Some x)"
    and kept: "\<And>x. did \<noteq> Some x \<Longrightarrow> deadline_at kp' x = deadline_at kp x"
    and changed: "\<And>x. did = Some x \<Longrightarrow> (case deadline_at kp' x of
        None \<Rightarrow> unheard (\<lambda>k. entries_for kp k x + nat_of (kind = k))
      | Some d \<Rightarrow> dl_id d = x \<and> accounted (\<lambda>k. entries_for kp k x + nat_of (kind = k)) d)"
  shows "keeps_accounts kp'"
  unfolding keeps_accounts_def
proof (intro conjI allI)
  show "rising_ledger kp'" by (rule assms(2))
  fix x
  show "case deadline_at kp' x of
        None \<Rightarrow> unheard (\<lambda>kind. entries_for kp' kind x)
      | Some d \<Rightarrow> dl_id d = x \<and> accounted (\<lambda>kind. entries_for kp' kind x) d"
  proof (cases "did = Some x")
    case True
    then have eq: "(\<lambda>k. entries_for kp' k x) = (\<lambda>k. entries_for kp k x + nat_of (kind = k))"
      by (simp add: count)
    show ?thesis using changed [OF True] unfolding eq .
  next
    case False
    then have eq: "(\<lambda>k. entries_for kp' k x) = (\<lambda>k. entries_for kp k x)" by (simp add: count nat_of_def)
    show ?thesis using assms(1) unfolding eq kept [OF False] keeps_accounts_def by blast
  qed
qed

lemma entry_sel [simp]:
  "f_kind (plain_fact kind refs outcome) = kind" "f_refs (plain_fact kind refs outcome) = refs"
  "r_deadline_id (deadline_refs t v r did) = Some did"
  by (simp_all add: plain_fact_def deadline_refs_def)

lemma deadline_entry_one:
  assumes "rising_ledger kp" "deadline_entry ke now kind r did outcome kp = (res, kp')"
  shows "res = Inr ()" "deadline_at kp' x = deadline_at kp x" "rising_ledger kp'"
    "entries_for kp' k x = entries_for kp k x + nat_of (kind = k \<and> Some did = Some x)"
  using records_one [OF assms(1) assms(2) [unfolded deadline_entry_def]] by (simp_all add: deadline_at_def)

lemma keeps_start:
  assumes "keeps_accounts kp" "start_deadline ke now r rule did kp = (Inr (), kp')"
  shows "keeps_accounts kp'"
proof (cases "deadline_at kp did")
  case (Some d)
  with assms show ?thesis by (simp add: start_deadline_def)
next
  case None
  note quiet = accounts_at(1) [OF assms(1) None]
  show ?thesis
  proof (cases "starting_moment (ke_text ke) rule (run_inputs r) now")
    case no_date: None
    then have entry: "deadline_entry ke now DEADLINE_REFUSED r did ''no_date'' kp = (Inr (), kp')"
      using assms(2) None by (simp add: start_deadline_def)
    note one = deadline_entry_one [OF accounts_at(3) [OF assms(1)] entry]
    show ?thesis
      by (rule keeps_with_entry [OF assms(1) one(3) one(4)])
        (use one(2) quiet None in \<open>auto simp: unheard_def nat_of_def\<close>)
  next
    case (Some started)
    then obtain s where s: "deadline_entry ke now DEADLINE_STARTED r did (if dr_working rule then ''working'' else ''calendar'')
        (put_deadline (new_deadline r rule did started s now) kp) = (Inr (), kp')"
      using assms(2) None by (auto simp: start_deadline_def Let_def split: option.splits)
    have "rising_ledger (put_deadline (new_deadline r rule did started s now) kp)"
      using accounts_at(3) [OF assms(1)] by simp
    note one = deadline_entry_one [OF this s]
    show ?thesis
      by (rule keeps_with_entry [OF assms(1) one(3) one(4) [simplified put_sel]])
        (use one(2) quiet in \<open>auto simp: new_deadline_def accounted_def unheard_def nat_of_def\<close>)
  qed
qed

lemma keeps_meet:
  assumes "keeps_accounts kp" "meet_deadline ke now r did through kp = (Inr (), kp')"
  shows "keeps_accounts kp'"
proof (cases "\<exists>d. deadline_at kp did = Some d \<and> dl_state d = DL_OPEN")
  case False
  with assms show ?thesis by (auto simp: meet_deadline_def split: option.splits if_splits)
next
  case True
  then obtain d where d: "deadline_at kp did = Some d" "dl_state d = DL_OPEN" by blast
  note was = accounts_at(2) [OF assms(1) d(1)]
  have entry: "deadline_entry ke now DEADLINE_MET r did through (put_deadline (met_deadline d through now) kp) = (Inr (), kp')"
    using assms(2) d by (simp add: meet_deadline_def)
  have "rising_ledger (put_deadline (met_deadline d through now) kp)" using accounts_at(3) [OF assms(1)] by simp
  note one = deadline_entry_one [OF this entry]
  show ?thesis
    by (rule keeps_with_entry [OF assms(1) one(3) one(4) [simplified put_sel]])
      (use one(2) was d(2) in \<open>auto simp: met_deadline_def accounted_def nat_of_def\<close>)
qed

lemma keeps_observe_rule:
  assumes "keeps_accounts kp" "observe_rule ke now r kind sid outcome rule kp = (Inr (), kp')"
  shows "keeps_accounts kp'"
proof -
  obtain res kp1 where start: "(if starts_deadline rule kind sid outcome
      then start_deadline ke now r rule (deadline_id (ke_hex ke) (run_id r) (dr_name rule)) kp else (Inr (), kp)) = (res, kp1)"
    by force
  with assms(2) have "res = Inr ()" by (auto simp: observe_rule_def Let_def split: sum.splits)
  with start assms(1) have "keeps_accounts kp1" by (auto split: if_splits intro: keeps_start)
  with assms(2) start \<open>res = Inr ()\<close> show ?thesis
    by (auto simp: observe_rule_def Let_def split: option.splits intro: keeps_meet)
qed

lemma keeps_observe_rules:
  "keeps_accounts kp \<Longrightarrow> observe_rules ke now r kind sid outcome rules kp = (Inr (), kp') \<Longrightarrow> keeps_accounts kp'"
  by (induction rules arbitrary: kp) (auto split: prod.splits sum.splits dest: keeps_observe_rule)

lemma keeps_same:
  assumes "keeps_accounts kp" "entries_for kp' = entries_for kp" "rising_ledger kp' = rising_ledger kp"
    "deadline_at kp' = deadline_at kp"
  shows "keeps_accounts kp'"
  using assms(1) unfolding keeps_accounts_def assms(2-4) .

lemma keeps_commit: "keeps_accounts kp \<Longrightarrow> keeps_accounts (kp\<lparr>kp_ledger := commit (kp_ledger kp)\<rparr>)"
  by (erule keeps_same) (auto simp: entries_for_def rising_ledger_def deadline_at_def intro!: ext)

lemma due_now:
  assumes "still_due u now d"
  shows "dl_state d = DL_OPEN" "dl_reached_at d = None"
    "du_moment u = AT_LEAD \<Longrightarrow> dl_lead_taken_at d = None \<and> (\<exists>l. dl_lead_at d = Some l \<and> l \<le> now)"
    "du_moment u = AT_LIMIT \<Longrightarrow> dl_due_at d \<le> now"
  using assms by (auto simp: still_due_def due_actions_def list_ex_iff split: if_splits option.splits)

lemma noted_sel:
  "dl_id (noted u now started refused d) = dl_id d" "dl_state (noted u now started refused d) = dl_state d"
  "dl_due_at (noted u now started refused d) = dl_due_at d" "dl_lead_at (noted u now started refused d) = dl_lead_at d"
  "dl_lead_taken_at (noted u now started refused d) = (if du_moment u = AT_LEAD then Some now else dl_lead_taken_at d)"
  "dl_reached_at (noted u now started refused d) = (if du_moment u = AT_LEAD then dl_reached_at d else Some now)"
  by (simp_all add: noted_def Let_def taken_action_def)

lemma accounted_taken:
  assumes "accounted n d" "still_due u now d"
  shows "accounted (\<lambda>k. n k + nat_of (du_kind u = k)) (noted u now started refused d)"
proof (cases "du_moment u")
  case AT_LEAD
  with assms(1) due_now [OF assms(2)] show ?thesis
    by (auto simp: accounted_def noted_sel du_kind_def nat_of_def)
next
  case AT_LIMIT
  with assms(1) due_now [OF assms(2)] show ?thesis
    by (auto simp: accounted_def noted_sel du_kind_def nat_of_def)
qed

lemma keeps_take:
  assumes "keeps_accounts kp"
  shows "keeps_accounts (snd (take_action ke now tenant u started refused kp))"
proof -
  let ?f = "plain_fact (du_kind u) (deadline_refs tenant (dl_process_version (du_deadline u)) (dl_run_id (du_deadline u))
    (dl_id (du_deadline u))) (take_outcome u refused)"
  obtain res kp1 where rec: "keeper_records ke now ?f kp = (res, kp1)" by force
  note one = records_one [OF accounts_at(3) [OF assms] rec]
  show ?thesis
  proof (cases "\<exists>d. deadline_at kp1 (dl_id (du_deadline u)) = Some d \<and> still_due u now d")
    case False
    then have "snd (take_action ke now tenant u started refused kp) = kp"
      using rec one(1) by (auto simp: take_action_def Let_def split: option.split)
    with assms show ?thesis by simp
  next
    case True
    then obtain d where d: "deadline_at kp1 (dl_id (du_deadline u)) = Some d" "still_due u now d" by blast
    then have at: "deadline_at kp (dl_id (du_deadline u)) = Some d" by (simp add: deadline_at_def one(2))
    note was = accounts_at(2) [OF assms at]
    let ?kp2 = "put_deadline (noted u now started refused d) kp1"
    have same: "deadline_at kp1 x = deadline_at kp x" for x by (simp add: deadline_at_def one(2))
    have "keeps_accounts ?kp2"
    proof (rule keeps_with_entry [OF assms, of _ "du_kind u" "Some (dl_id (du_deadline u))"])
      show "rising_ledger ?kp2" using one(4) by simp
      show "entries_for ?kp2 k x = entries_for kp k x + nat_of (du_kind u = k \<and> Some (dl_id (du_deadline u)) = Some x)" for k x
        using one(5) [of k x] by simp
      show "deadline_at ?kp2 x = deadline_at kp x" if "Some (dl_id (du_deadline u)) \<noteq> Some x" for x
        using that was by (simp add: same noted_sel)
      show "case deadline_at ?kp2 x of
          None \<Rightarrow> unheard (\<lambda>k. entries_for kp k x + nat_of (du_kind u = k))
        | Some d \<Rightarrow> dl_id d = x \<and> accounted (\<lambda>k. entries_for kp k x + nat_of (du_kind u = k)) d"
        if "Some (dl_id (du_deadline u)) = Some x" for x
        using that was accounted_taken [OF _ d(2), of "\<lambda>k. entries_for kp k x"] by (simp add: noted_sel)
    qed
    moreover have "snd (take_action ke now tenant u started refused kp) = ?kp2\<lparr>kp_ledger := commit (kp_ledger ?kp2)\<rparr>"
      using rec one(1) d by (simp add: take_action_def Let_def)
    ultimately show ?thesis by (simp add: keeps_commit del: put_sel(4))
  qed
qed

text \<open>An entry of another component.\<close>

lemma keeps_other:
  assumes "keeps_accounts kp" "f_kind f \<notin> set deadline_kinds" "keeper_records ke now f kp = (res, kp')"
  shows "keeps_accounts kp'"
proof -
  note one = records_one [OF accounts_at(3) [OF assms(1)] assms(3)]
  have none: "f_kind f \<noteq> DEADLINE_STARTED" "f_kind f \<noteq> DEADLINE_LEAD" "f_kind f \<noteq> DEADLINE_REACHED" "f_kind f \<noteq> DEADLINE_MET"
    using assms(2) by (auto simp: deadline_kinds_def)
  have same: "deadline_at kp' x = deadline_at kp x" for x by (simp add: deadline_at_def one(2))
  show ?thesis
  proof (rule keeps_with_entry [OF assms(1) one(4), of "f_kind f" "r_deadline_id (f_refs f)"])
    show "case deadline_at kp' x of
        None \<Rightarrow> unheard (\<lambda>k. entries_for kp k x + nat_of (f_kind f = k))
      | Some d \<Rightarrow> dl_id d = x \<and> accounted (\<lambda>k. entries_for kp k x + nat_of (f_kind f = k)) d" for x
      using accounts_at(1,2) [OF assms(1), of x] none
      by (cases "deadline_at kp x") (simp_all add: same unheard_def accounted_def nat_of_def)
  qed (simp_all add: one(5) same)
qed

lemma keeps_working: "keeps_accounts kp \<Longrightarrow> keeps_accounts (kp\<lparr>kp_working := w\<rparr>)"
  by (erule keeps_same) (auto simp: entries_for_def rising_ledger_def deadline_at_def intro!: ext)

lemma keeps_configure:
  assumes "keeps_accounts kp"
  shows "keeps_accounts (snd (configure_time ke now c actor kp))"
proof -
  let ?w = "configured_time c now (time_worked kp (cw_tenant c))"
  let ?f = "plain_fact ''working_time.configured'' (no_refs\<lparr>r_tenant := Some (cw_tenant c), r_actor := Some actor\<rparr>) ''configured''"
  obtain res kp1 where rec: "keeper_records ke now ?f (kp\<lparr>kp_working := Some ?w\<rparr>) = (res, kp1)" by force
  have "f_kind ?f \<notin> set deadline_kinds"
    by (simp add: deadline_kinds_def DEADLINE_STARTED_def DEADLINE_REFUSED_def DEADLINE_LEAD_def DEADLINE_REACHED_def
        DEADLINE_MET_def)
  from keeps_other [OF _ this rec] assms have "keeps_accounts kp1" by (simp add: keeps_working)
  with rec assms keeps_commit [of kp1] show ?thesis
    by (auto simp: configure_time_def Let_def split: option.split sum.split)
qed

subsection \<open>Any history\<close>

text \<open>Transactions of the engine with what the keeper observes in them, of the scheduler, of whoever
  configures the working time, and of anyone else, in any order; one that fails leaves nothing.\<close>

inductive deadline_history :: "keeper_env \<Rightarrow> keeper \<Rightarrow> bool" for ke where
  Begin: "ls_entries (kp_ledger kp) = [] \<Longrightarrow> kp_deadlines kp = [] \<Longrightarrow> deadline_history ke kp"
| Observed: "deadline_history ke kp \<Longrightarrow> observe ke now r kind sid outcome kp = (Inr (), kp') \<Longrightarrow>
    deadline_history ke (kp'\<lparr>kp_ledger := commit (kp_ledger kp')\<rparr>)"
| Acted: "deadline_history ke kp \<Longrightarrow> deadline_history ke (snd (take_action ke now tenant u started refused kp))"
| Configured: "deadline_history ke kp \<Longrightarrow> deadline_history ke (snd (configure_time ke now c actor kp))"
| Elsewhere: "deadline_history ke kp \<Longrightarrow> f_kind f \<notin> set deadline_kinds \<Longrightarrow> keeper_records ke now f kp = (Inr (), kp') \<Longrightarrow>
    deadline_history ke (kp'\<lparr>kp_ledger := commit (kp_ledger kp')\<rparr>)"

lemma history_keeps: "deadline_history ke kp \<Longrightarrow> keeps_accounts kp"
proof (induction rule: deadline_history.induct)
  case (Begin kp)
  then show ?case by (simp add: keeps_accounts_def rising_ledger_def deadline_at_def unheard_def entries_for_def)
next
  case (Observed kp now r kind sid outcome kp')
  then show ?case
    by (intro keeps_commit) (auto simp: observe_def split: if_splits intro: keeps_observe_rules)
qed (auto intro: keeps_commit keeps_take keeps_configure keeps_other)

text \<open>C18: Over any history a deadline is started once, met at most once, and each of its two actions is taken
  at most once and not before its moment: the ledger has exactly one entry for each of it that the record
  notes, and no entry of a deadline without a record.\<close>

theorem deadline_acts_once:
  assumes "deadline_history ke kp"
  shows "case deadline_at kp did of
      None \<Rightarrow> \<forall>kind \<in> {DEADLINE_STARTED, DEADLINE_LEAD, DEADLINE_REACHED, DEADLINE_MET}. entries_for kp kind did = 0
    | Some d \<Rightarrow> entries_for kp DEADLINE_STARTED did = 1
        \<and> entries_for kp DEADLINE_LEAD did = (if dl_lead_taken_at d = None then 0 else 1)
        \<and> entries_for kp DEADLINE_REACHED did = (if dl_reached_at d = None then 0 else 1)
        \<and> entries_for kp DEADLINE_MET did = (if dl_state d = DL_MET then 1 else 0)
        \<and> (\<forall>t. dl_reached_at d = Some t \<longrightarrow> dl_due_at d \<le> t)
        \<and> (\<forall>t. dl_lead_taken_at d = Some t \<longrightarrow> (\<exists>l. dl_lead_at d = Some l \<and> l \<le> t))"
proof (cases "deadline_at kp did")
  case None
  with accounts_at(1) [OF history_keeps [OF assms] None] show ?thesis by (simp add: unheard_def)
next
  case (Some d)
  with accounts_at(2) [OF history_keeps [OF assms] Some] show ?thesis by (simp add: accounted_def nat_of_def)
qed

subsection \<open>Witnesses\<close>

definition sample_hour :: span where "sample_hour = 3600 * 1000000"

theorem working_limit_is_exact_witness:
  "case add_working utc (shipped_working_time ''acme'') (16 * sample_hour) (2 * sample_hour) of
      Some t \<Rightarrow> worked (hours_of utc (shipped_working_time ''acme'')) {0..tz_day utc t} (16 * sample_hour) t = 2 * sample_hour
    | None \<Rightarrow> False"
proof -
  have "add_working utc (shipped_working_time ''acme'') (16 * sample_hour) (2 * sample_hour) = Some (34 * sample_hour)"
    unfolding sample_hour_def by code_simp
  moreover have "tz_day utc (16 * sample_hour) = 0" unfolding sample_hour_def by code_simp
  moreover have "0 < 2 * sample_hour" by (simp add: sample_hour_def)
  ultimately show ?thesis
    using working_limit_is_exact [OF shipped.working_hours_axioms, of "2 * sample_hour" "''acme''" "16 * sample_hour"] by simp
qed


text \<open>A run with one deadline, created and then acted on at its limit.\<close>

definition sample_keeper_env :: keeper_env where
  "sample_keeper_env = \<lparr>ke_codec = \<lparr>sha256 = (\<lambda>_. []), ts_text = (\<lambda>_. [])\<rparr>, ke_hex = (\<lambda>_. []), ke_zones = (\<lambda>_. None),
     ke_text = \<lparr>tr_strip = (\<lambda>x. x), tr_iso = (\<lambda>_. None)\<rparr>\<rparr>"

definition remind_support :: deadline_action where
  "remind_support = \<lparr>da_kind = DA_REMIND, da_role = Some ''support'', da_process = None, da_inputs = []\<rparr>"

definition answer_rule :: deadline_rule where
  "answer_rule = \<lparr>dr_name = ''answer'', dr_start = AT_RUN, dr_after = None, dr_date_input = None, dr_limit = 5,
     dr_lead = None, dr_working = False, dr_until = ''check'', dr_at_lead = None, dr_at_limit = remind_support\<rparr>"

definition timed_run :: run where
  "timed_run = sample_run\<lparr>run_deadlines := [answer_rule]\<rparr>"

definition empty_keeper :: keeper where
  "empty_keeper = \<lparr>kp_deadlines = [], kp_working = None, kp_ledger = \<lparr>ls_store = \<lparr>committed = [], appended = [],
     spoilt = False\<rparr>, ls_projected = None\<rparr>\<rparr>"

definition answer_deadline :: deadline where
  "answer_deadline = new_deadline timed_run answer_rule ''dl_'' 0 \<lparr>ds_due_at = 5, ds_lead_at = None\<rparr> 0"

theorem deadline_acts_once_witness:
  "\<exists>kp d. deadline_history sample_keeper_env kp \<and> deadline_at kp ''dl_'' = Some d \<and> dl_reached_at d = Some 10
     \<and> entries_for kp DEADLINE_REACHED ''dl_'' = 1"
proof -
  let ?ke = sample_keeper_env
  let ?u = "\<lparr>du_deadline = answer_deadline, du_moment = AT_LIMIT\<rparr>"
  have begin_: "deadline_history ?ke empty_keeper"
    by (rule Begin) (simp_all add: empty_keeper_def ls_entries_def entries_def)
  obtain res kp1 where entry: "deadline_entry ?ke 0 DEADLINE_STARTED timed_run ''dl_'' ''calendar''
      (put_deadline answer_deadline empty_keeper) = (res, kp1)" by force
  have "rising_ledger (put_deadline answer_deadline empty_keeper)"
    by (simp add: rising_ledger_def put_deadline_def empty_keeper_def ls_entries_def entries_def)
  note one = deadline_entry_one [OF this entry]
  have "deadline_at empty_keeper ''dl_'' = None" by (simp add: deadline_at_def empty_keeper_def)
  then have "observe ?ke 0 timed_run RUN_CREATED None None empty_keeper = (Inr (), kp1)"
    using entry one(1)
    by (simp add: observe_def observe_rule_def Let_def timed_run_def answer_rule_def starts_deadline_def
        start_deadline_def starting_moment_def schedule_of_def meets_deadline_def deadline_answer_def deadline_id_def
        sample_keeper_env_def sample_run_def answer_deadline_def RUN_CREATED_def RUN_FINISHED_def STEP_FINISHED_def)
  from Observed [OF begin_ this]
  have created: "deadline_history ?ke (kp1\<lparr>kp_ledger := commit (kp_ledger kp1)\<rparr>)" .
  let ?kp = "kp1\<lparr>kp_ledger := commit (kp_ledger kp1)\<rparr>"
  have at: "deadline_at ?kp ''dl_'' = Some answer_deadline"
    by (simp add: one(2)) (simp add: answer_deadline_def new_deadline_def)
  have id_: "dl_id answer_deadline = ''dl_''" by (simp add: answer_deadline_def new_deadline_def)
  have due: "still_due ?u 10 answer_deadline"
    by (simp add: still_due_def due_actions_def answer_deadline_def new_deadline_def)
  obtain res2 kp2 where rec: "keeper_records ?ke 10 (plain_fact (du_kind ?u) (deadline_refs ''acme''
      (dl_process_version answer_deadline) (dl_run_id answer_deadline) (dl_id answer_deadline)) (take_outcome ?u None)) ?kp = (res2, kp2)"
    by force
  have "rising_ledger ?kp" using accounts_at(3) [OF history_keeps [OF created]] .
  note two = records_one [OF this rec]
  have "deadline_at kp2 ''dl_'' = Some answer_deadline" using at two(2) by (simp add: deadline_at_def)
  then have acted: "deadline_at (snd (take_action ?ke 10 ''acme'' ?u None None ?kp)) ''dl_'' = Some (noted ?u 10 None None answer_deadline)"
    using rec two(1) due by (simp add: take_action_def Let_def id_ noted_sel)
  have hist: "deadline_history ?ke (snd (take_action ?ke 10 ''acme'' ?u None None ?kp))"
    by (rule Acted [OF created])
  have reached: "dl_reached_at (noted ?u 10 None None answer_deadline) = Some 10" by (simp add: noted_sel)
  from deadline_acts_once [OF hist, of "''dl_''"] acted reached
  have "entries_for (snd (take_action ?ke 10 ''acme'' ?u None None ?kp)) DEADLINE_REACHED ''dl_'' = 1" by simp
  with hist acted reached show ?thesis by blast
qed

end
