(* ===== verification/Spec2Isabelle.thy ===== *)
theory Spec2Isabelle
  imports Ledger_History Ledger_Projection Run_Reference Run_Open_Work Job_Queue_Safety
    Run_Admission Run_Calibration Run_Provenance_Chain Run_Gates_Rules Run_Money Run_Commit_Rules Run_Blocked
    Run_Admit_Rules Run_Finish Run_Runner_Rules Run_Deadline_History
begin

text \<open>
  A verification development for Taktus, a control plane that turns a command into a plan, a plan
  into a process version, and a process version into runs whose steps are done by rules, models,
  connectors, workers or persons. Every effect of a run is written to an append-only ledger, held
  to a budget, and leaves a provenance record. The development models the parts that make those
  three promises, in the order in which they rest on each other.

  The parts and how they interact.

  \<^item> The ledger (\<open>shared/v1/ledger_entry.py\<close>, \<open>components/ledger\<close>, \<open>adapters/driven/memory\<close>):
    entries in hash chains, one per run and one of the tenant, anchored by Merkle roots. Theories
    Json_Canonical (the bytes hashed), Ledger_Entry (the data), Ledger_Chain (hashing, linking, the
    walk that verifies), Ledger_Merkle (anchors), Ledger_Store and Ledger_Service (the memory
    store in a unit of work and \<open>ChainedLedger\<close> over it), Ledger_Audit (\<open>verify\<close>, in batches from
    its checkpoint), Ledger_Projection (values folded from the ledger and stored). Lemmas:
    Ledger_Verification says what an intact walk means; Ledger_History that any sequence of
    operations leaves a ledger that verifies.
  \<^item> The job queue (\<open>ports/queue.py\<close>, \<open>adapters/driven/memory/queue.py\<close>): Job_Queue has every
    operation of the memory queue over its rows and the journal of a transaction;
    Job_Queue_Safety the exclusion of claims, the limits of units and the bound on attempts, over
    any interleaving of operations (\<open>queue_step\<close>).
  \<^item> The shared values (\<open>shared/v1\<close>): Shared_Method, Shared_Step (steps, autonomy, consumption with
    their validators).
  \<^item> The run (\<open>components/run/domain\<close>): Run_Model (states, transitions, step runs, what counts
    against the budget), Run_Reference (references between steps), Run_Open_Work (runs in flight
    and the cap on open work), Run_Budget (what remains, admission, calibration, ceilings),
    Run_Pricing (money at a price table, promises, and the engine's \<open>_spent\<close>, \<open>_unpriced\<close> and
    \<open>_llm_demand\<close>), Run_Blocked (the record of a block, sums of blocked time), Run_Provenance (the
    record of a step and the walk that verifies a chain of them), Run_Gates (routing, repetition,
    waiting, the platform, healing). Lemmas: Run_Progress, Run_Admission, Run_Calibration,
    Run_Money, Run_Provenance_Chain, Run_Gates_Rules.
  \<^item> The engine (\<open>components/run/application/service/execute_run.py\<close>): Run_Commit has the state the
    engine writes to (ledger, queue, runs, provenance, objects) as the record \<open>engine\<close>, actions over
    it that fail with a value, and \<open>_commit\<close> with its fence, its entries and its transaction;
    Run_Admit the blocks of a step and \<open>_admit\<close>. Run_Commit_Rules composes them with the queue and the
    ledger: a commit is all or nothing and a runner whose job was claimed again writes nothing.
    Run_Admit_Rules composes admission with money, budget, platform and ledger.
  \<^item> A step and a pass: Run_Moves has the cool-down of a model and the move along a chain, Run_Waiting
    a wait on the clock and on an outside state with its polling loop, Run_Asking one question to a
    model, Run_Local a local step (\<open>_local_step\<close>) from its demand to each of its ends over the session
    of a run (\<open>session\<close>: the engine's stores with what it remembers of the run), Run_Engine the loop
    over the steps (\<open>_steps\<close>) with healing, escalation, take-over, the end of a pass, launch and recovery.
    Run_Frame is a calculus of postconditions with the frame of a step, Run_Local_Rules what executing
    a local step leaves, Run_Pass that a pass ends, Run_Finish that a run that finishes is complete.

  \<^item> The runner (\<open>components/run/application/service/runner.py\<close>): Run_Runner has the claim round over the
    served tenants, the tasks as objects the dict of executing jobs shares with them, what the end of a
    run does to its job, the heartbeat and the shutdown, over one queue per tenant and with whatever runs
    between two awaits as a parameter. Run_Runner_Rules has that a round ends, keeps to its places and
    leaves no work while a place is free, and what becomes of a job.

  \<^item> Deadlines (\<open>run/domain/model/deadline.py\<close>, \<open>run/domain/service/deadlines.py\<close>,
    \<open>run/application/service/deadlines.py\<close>): Run_Deadline has rules, records and the count of working time,
    Run_Deadline_Keeper the use cases over records and ledger. Run_Deadline_Rules proves the count exact for any
    working hours with the laws of a calendar, Run_Deadline_History that each action is taken once.

  Correspondence. A class is a record with the source's fields under a short prefix, an enumeration
  a datatype, a dict whose order shows an association list and otherwise a map, a raise the left
  of a sum, None the None of an option. The operations keep the names of the source where HOL
  leaves them free. Texts are byte lists; a moment is an integer of microseconds; a float that
  carries money or time is a rational, so that rounding the code asks for is modelled and the
  error of binary floats is not.

  Interfaces are locales interpreted on the model: \<open>append_only\<close> (a store of entries, interpreted on
  the ledger's memory store), \<open>projection_laws\<close> (a projection, interpreted on the runs in flight) and
  \<open>step_executor\<close> (what the loop over a run relies on of whatever executes a step, interpreted on the
  local step).

  Parameters. The hash and its text (\<open>codec\<close>), identifiers, ISO texts and float texts are arguments:
  their laws appear as hypotheses where a theorem needs them (no collision among the texts hashed,
  a text that reads back), each with a witness on a concrete function. The clock is an argument: one
  reading for one call.

  Termination and fuel. No definition uses fuel: loops are recursions over lists, and the loops of
  the verification in batches and of the Merkle levels are functions with a measure. Three loops of the
  code may run forever and are partial functions with \<open>None\<close> for not returning: the polling of a wait
  (\<open>wait_loop\<close>), which is proved to end within its timeout, the rounds of a runner over its tenants
  (\<open>claim_loop\<close>), which end as every claim uses up an attempt, and the loop over a run (\<open>steps_loop\<close>),
  which is proved to end while every model that answers at its limit cools down: each round that goes
  on takes one from the steps left, the heals left, the continuations left or the models left.

  Not modelled. The texts of reasons are values that carry what the text names, apart from those of
  local steps and of passes, which are texts. Logging, spans and metrics are left out. The adapters for
  a database, for object storage and for containers, the driving adapters, wiring, settings,
  reporting, migrations and the workers translate to services whose code is not in this repository, or
  to surfaces; they are not modelled. Of the engine the steps of workers, persons and connectors,
  confirmations, the caps and quotas of a unit and decisions applied at a resume are not modelled, nor
  are processes, governance, decisions, the catalog and identity.
\<close>

end
